(* ===== verification/Prelude.thy ===== *)
theory Prelude
  imports Main "HOL-Library.Word"
begin

text \<open>
  Shared vocabulary of the development: the outcomes of C code that does not return
  normally, the sequencing of such code, bytes, and the few facts on lists and words the
  component theories have in common.
\<close>

section \<open>Outcomes of C code\<close>

text \<open>
  Every step of the modelled code either returns or meets one of the ways a C program of
  this repository dies or leaves the language: a failed \<open>assert\<close> (neither build mode
  defines \<open>NDEBUG\<close>), a call of \<open>abort\<close>, an access outside an array, a
  dereference of a null pointer, a call through a null function pointer, and an access to
  a block that was freed.  They are values, so that a handler that reaches one of
  them stops there.
\<close>

datatype fault =
    Assert_Failed
  | Aborted
  | Out_Of_Bounds
  | Null_Deref
  | Null_Call
  | Use_After_Free

type_synonym 'a res = "fault + 'a"

definition bind_res :: "'a res \<Rightarrow> ('a \<Rightarrow> 'b res) \<Rightarrow> 'b res" where
  "bind_res m f = (case m of Inl e \<Rightarrow> Inl e | Inr x \<Rightarrow> f x)"

named_theorems res_simps \<open>sequencing of steps that may fault\<close>

lemma bind_res_Inr [simp, res_simps]: "bind_res (Inr x) f = f x"
  by (simp add: bind_res_def)

lemma bind_res_Inl [simp, res_simps]: "bind_res (Inl e) f = Inl e"
  by (simp add: bind_res_def)

lemma bind_res_assoc [res_simps]:
  "bind_res (bind_res m f) g = bind_res m (\<lambda>x. bind_res (f x) g)"
  by (cases m) simp_all

lemma bind_res_eq_Inr:
  "bind_res m f = Inr y \<longleftrightarrow> (\<exists>x. m = Inr x \<and> f x = Inr y)"
  by (cases m) simp_all

lemma bind_res_eq_Inl:
  "bind_res m f = Inl e \<longleftrightarrow> m = Inl e \<or> (\<exists>x. m = Inr x \<and> f x = Inl e)"
  by (cases m) simp_all

lemma bind_res_cong [fundef_cong]:
  "m = m' \<Longrightarrow> (\<And>x. m' = Inr x \<Longrightarrow> f x = g x) \<Longrightarrow> bind_res m f = bind_res m' g"
  by (cases m') simp_all

text \<open>A condition the code checks with \<open>assert\<close> or the hardware checks for it.\<close>

definition guard :: "fault \<Rightarrow> bool \<Rightarrow> 'a res \<Rightarrow> 'a res" where
  "guard e c m = (if c then m else Inl e)"

lemma guard_True [simp, res_simps]: "c \<Longrightarrow> guard e c m = m"
  by (simp add: guard_def)

lemma guard_False [simp, res_simps]: "\<not> c \<Longrightarrow> guard e c m = Inl e"
  by (simp add: guard_def)

lemma guard_eq_Inr: "guard e c m = Inr y \<longleftrightarrow> c \<and> m = Inr y"
  by (simp add: guard_def)

section \<open>Bytes and memory blocks\<close>

type_synonym byte = "8 word"

text \<open>
  A block of memory is the list of its bytes.  Reading and writing check the bounds of the
  block; \<open>mem_write\<close> is \<open>memcpy\<close> into the block at an offset.
\<close>

definition mem_get :: "'a list \<Rightarrow> nat \<Rightarrow> 'a res" where
  "mem_get m i = guard Out_Of_Bounds (i < length m) (Inr (m ! i))"

definition mem_put :: "'a list \<Rightarrow> nat \<Rightarrow> 'a \<Rightarrow> 'a list res" where
  "mem_put m i x = guard Out_Of_Bounds (i < length m) (Inr (m[i := x]))"

definition mem_write :: "'a list \<Rightarrow> nat \<Rightarrow> 'a list \<Rightarrow> 'a list res" where
  "mem_write m i xs =
     guard Out_Of_Bounds (i + length xs \<le> length m)
       (Inr (take i m @ xs @ drop (i + length xs) m))"

lemma mem_get_ok [simp]: "i < length m \<Longrightarrow> mem_get m i = Inr (m ! i)"
  by (simp add: mem_get_def)

lemma mem_get_in: "mem_get xs i = Inr x \<Longrightarrow> x \<in> set xs"
  by (auto simp: mem_get_def guard_def split: if_splits)

lemma mem_put_ok [simp]: "i < length m \<Longrightarrow> mem_put m i x = Inr (m[i := x])"
  by (simp add: mem_put_def)

lemma mem_write_ok [simp]:
  "i + length xs \<le> length m \<Longrightarrow>
     mem_write m i xs = Inr (take i m @ xs @ drop (i + length xs) m)"
  by (simp add: mem_write_def)

lemma length_mem_write: "mem_write m i xs = Inr m' \<Longrightarrow> length m' = length m"
  by (auto simp: mem_write_def guard_def split: if_splits)

text \<open>The arrays for names and passwords, zero included.\<close>

definition MAX_USERNAME_LEN :: nat where "MAX_USERNAME_LEN = 256"
definition MAX_PASSWORD_LEN :: nat where "MAX_PASSWORD_LEN = 256"

section \<open>Facts on bytes\<close>

lemma unat_byte_less: "unat (b :: byte) < 256"
  using unsigned_less [of b] by simp

lemma unat_byte_le: "unat (b :: byte) \<le> 255"
  using unat_byte_less [of b] by simp

lemma byte_neq_255: "(b :: byte) \<noteq> 255 \<longleftrightarrow> unat b < 255"
proof -
  have "b = 255 \<longleftrightarrow> unat b = unat (255 :: byte)"
    by (simp only: word_unat_eq_iff)
  then have "b = 255 \<longleftrightarrow> unat b = 255" by simp
  then show ?thesis using unat_byte_le [of b] by linarith
qed

lemma unat_of_nat_byte: "n < 256 \<Longrightarrow> unat (of_nat n :: byte) = n"
  by (simp add: unat_of_nat)

lemma unat_inc_byte: "unat (b :: byte) < 255 \<Longrightarrow> unat (b + 1) = Suc (unat b)"
  by (simp add: unat_word_ariths)

lemma uint_eq_byte: "0 \<le> k \<Longrightarrow> k < 256 \<Longrightarrow> uint (c :: byte) = k \<longleftrightarrow> c = word_of_int k"
  by (auto simp: uint_word_of_int_eq take_bit_int_eq_self)

lemma uint_eq_numeral_byte:
  "numeral k < (256 :: int) \<Longrightarrow> uint (c :: byte) = numeral k \<longleftrightarrow> c = numeral k"
  by (simp add: uint_eq_byte)

lemma uint_eq_0_byte: "uint (c :: byte) = 0 \<longleftrightarrow> c = 0"
  by (simp add: uint_eq_byte)

lemma uint_eq_1_byte: "uint (c :: byte) = 1 \<longleftrightarrow> c = 1"
  by (simp add: uint_eq_byte)

lemmas uint_byte_eqs = uint_eq_numeral_byte uint_eq_0_byte uint_eq_1_byte

lemma unat_ucast_8_16: "unat (ucast (b :: byte) :: 16 word) = unat b"
  using unat_byte_less [of b] by (simp add: unsigned_ucast_eq take_bit_nat_eq_self)

lemma of_nat_byte_neq:
  "0 < n \<Longrightarrow> n < 255 \<Longrightarrow> (of_nat n :: byte) \<noteq> 0 \<and> (of_nat n :: byte) \<noteq> 255"
  using byte_neq_255 [of "of_nat n"] unat_of_nat_byte [of n]
  by (auto simp: word_unat_eq_iff simp del: of_nat_0)

section \<open>Fields kept in fixed arrays\<close>

text \<open>A field in its array: its bytes at the front, closed by a zero when it is complete.\<close>

definition field_in :: "byte list \<Rightarrow> byte list \<Rightarrow> bool" where
  "field_in arr xs \<longleftrightarrow> length xs < length arr \<and> take (length xs) arr = xs"

definition field_closed :: "byte list \<Rightarrow> byte list \<Rightarrow> bool" where
  "field_closed arr xs \<longleftrightarrow> field_in arr xs \<and> arr ! length xs = 0"

lemma field_in_snoc:
  "field_in arr xs \<Longrightarrow> Suc (length xs) < length arr \<Longrightarrow> field_in (arr[length xs := c]) (xs @ [c])"
  by (auto simp: field_in_def take_Suc_conv_app_nth)

lemma field_closed_put:
  "field_in arr xs \<Longrightarrow> field_closed (arr[length xs := 0]) xs"
  by (auto simp: field_in_def field_closed_def)

end
