(* ===== verification/Buffer.thy ===== *)
theory Buffer
  imports Prelude
begin

text \<open>
  The direct-access I/O buffer of \<open>src/src/shared/buffer.c\<close> and
  \<open>src/src/shared/include/buffer.h\<close>.  A buffer is a memory block with a limit, a read
  and a write position; the C pointers are offsets into the block here.  The theory
  defines every operation of the file, its invariant \<open>R \<le> W \<le> limit\<close>, and shows that a
  buffer is a bounded queue of bytes whatever the position of its two pointers.
\<close>

section \<open>State and operations\<close>

text \<open>
  \<open>buf_data\<close> is the block \<open>b->data\<close> points to, the other three fields are the offsets of
  \<open>limit\<close>, \<open>read\<close> and \<open>write\<close> from \<open>b->data\<close>.
\<close>

record buffer =
  buf_data :: "byte list"
  buf_limit :: nat
  buf_read :: nat
  buf_write :: nat

definition buffer_reset :: "buffer \<Rightarrow> buffer" where
  "buffer_reset b = b\<lparr>buf_read := 0, buf_write := 0\<rparr>"

definition buffer_init :: "nat \<Rightarrow> byte list \<Rightarrow> buffer" where
  "buffer_init n data =
     buffer_reset \<lparr>buf_data = data, buf_limit = n, buf_read = 0, buf_write = 0\<rparr>"

text \<open>Pointer differences are signed (\<open>ptrdiff_t\<close>), so the two tests subtract on \<open>int\<close>.\<close>

definition buffer_can_write :: "buffer \<Rightarrow> bool" where
  "buffer_can_write b \<longleftrightarrow> int (buf_limit b) - int (buf_write b) > 0"

definition buffer_can_read :: "buffer \<Rightarrow> bool" where
  "buffer_can_read b \<longleftrightarrow> int (buf_write b) - int (buf_read b) > 0"

text \<open>The two pointer functions return the position and the number of bytes there.\<close>

definition buffer_write_ptr :: "buffer \<Rightarrow> (nat \<times> nat) res" where
  "buffer_write_ptr b =
     guard Assert_Failed (buf_write b \<le> buf_limit b)
       (Inr (buf_write b, buf_limit b - buf_write b))"

definition buffer_read_ptr :: "buffer \<Rightarrow> (nat \<times> nat) res" where
  "buffer_read_ptr b =
     guard Assert_Failed (buf_read b \<le> buf_write b)
       (Inr (buf_read b, buf_write b - buf_read b))"

definition buffer_write_adv :: "buffer \<Rightarrow> int \<Rightarrow> buffer res" where
  "buffer_write_adv b bytes =
     (if bytes > -1
      then (let b' = b\<lparr>buf_write := buf_write b + nat bytes\<rparr>
            in guard Assert_Failed (buf_write b' \<le> buf_limit b') (Inr b'))
      else Inr b)"

text \<open>
  The third branch is \<open>memmove(b->data, b->read, n)\<close>: the copied range has to lie in the
  block.  With \<open>write < read\<close> the unsigned \<open>n\<close> would be a huge count.
\<close>

definition buffer_compact :: "buffer \<Rightarrow> buffer res" where
  "buffer_compact b =
     (if buf_read b = 0 then Inr b
      else if buf_read b = buf_write b then Inr (b\<lparr>buf_read := 0, buf_write := 0\<rparr>)
      else guard Out_Of_Bounds
             (buf_read b \<le> buf_write b \<and> buf_write b \<le> length (buf_data b))
             (let n = buf_write b - buf_read b
              in Inr (b\<lparr>buf_data := take n (drop (buf_read b) (buf_data b)) @ drop n (buf_data b),
                        buf_read := 0, buf_write := n\<rparr>)))"

definition buffer_read_adv :: "buffer \<Rightarrow> int \<Rightarrow> buffer res" where
  "buffer_read_adv b bytes =
     (if bytes > -1
      then (let b' = b\<lparr>buf_read := buf_read b + nat bytes\<rparr>
            in guard Assert_Failed (buf_read b' \<le> buf_write b')
                 (if buf_read b' = buf_write b' then buffer_compact b' else Inr b'))
      else Inr b)"

definition buffer_read :: "buffer \<Rightarrow> (byte \<times> buffer) res" where
  "buffer_read b =
     (if buffer_can_read b
      then bind_res (mem_get (buf_data b) (buf_read b)) (\<lambda>ret.
           bind_res (buffer_read_adv b 1) (\<lambda>b'. Inr (ret, b')))
      else Inr (0, b))"

definition buffer_write :: "buffer \<Rightarrow> byte \<Rightarrow> buffer res" where
  "buffer_write b c =
     (if buffer_can_write b
      then bind_res (mem_put (buf_data b) (buf_write b) c) (\<lambda>d.
           buffer_write_adv (b\<lparr>buf_data := d\<rparr>) 1)
      else Inr b)"

text \<open>
  \<open>data\<close> is the object whose first \<open>sz\<close> bytes are copied, given by its bytes in memory;
  reading past its end is out of bounds.
\<close>

definition buffer_write_struct :: "buffer \<Rightarrow> byte list \<Rightarrow> nat \<Rightarrow> buffer res" where
  "buffer_write_struct b data sz =
     (if buffer_can_write b \<and> sz \<le> buf_limit b - buf_write b
      then guard Out_Of_Bounds (sz \<le> length data)
             (bind_res (mem_write (buf_data b) (buf_write b) (take sz data)) (\<lambda>d.
              buffer_write_adv (b\<lparr>buf_data := d\<rparr>) (int sz)))
      else Inr b)"

text \<open>
  The callers fill a buffer with \<open>recv\<close> and empty it with \<open>send\<close>: the kernel stores
  \<open>bs\<close> at the write position (it was given the room there), then the caller advances.
\<close>

definition buffer_recv :: "buffer \<Rightarrow> byte list \<Rightarrow> buffer res" where
  "buffer_recv b bs =
     bind_res (mem_write (buf_data b) (buf_write b) bs) (\<lambda>d.
     buffer_write_adv (b\<lparr>buf_data := d\<rparr>) (int (length bs)))"

section \<open>Invariant and abstract view\<close>

definition buffer_inv :: "buffer \<Rightarrow> bool" where
  "buffer_inv b \<longleftrightarrow> buf_read b \<le> buf_write b \<and> buf_write b \<le> buf_limit b \<and>
     buf_limit b \<le> length (buf_data b)"

text \<open>The bytes written and not read yet, and the room that is left.\<close>

definition pending :: "buffer \<Rightarrow> byte list" where
  "pending b = take (buf_write b - buf_read b) (drop (buf_read b) (buf_data b))"

definition room :: "buffer \<Rightarrow> nat" where
  "room b = buf_limit b - buf_write b"

lemmas buffer_op_defs =
  buffer_reset_def buffer_init_def buffer_can_write_def buffer_can_read_def
  buffer_write_ptr_def buffer_read_ptr_def buffer_write_adv_def buffer_read_adv_def
  buffer_read_def buffer_write_def buffer_write_struct_def buffer_recv_def

lemma length_pending: "buffer_inv b \<Longrightarrow> length (pending b) = buf_write b - buf_read b"
  by (auto simp: buffer_inv_def pending_def)

lemma buffer_init_inv: "n \<le> length d \<Longrightarrow> buffer_inv (buffer_init n d)"
  by (simp add: buffer_inv_def buffer_op_defs)

lemma buffer_init_view [simp]: "pending (buffer_init n d) = []" "room (buffer_init n d) = n"
  by (simp_all add: buffer_op_defs pending_def room_def)

lemma buffer_reset_inv: "buffer_inv b \<Longrightarrow> buffer_inv (buffer_reset b)"
  by (simp add: buffer_inv_def buffer_op_defs)

lemma buffer_reset_view [simp]:
  "pending (buffer_reset b) = []" "room (buffer_reset b) = buf_limit b"
  by (simp_all add: buffer_op_defs pending_def room_def)

lemma can_read_pending: "buffer_inv b \<Longrightarrow> buffer_can_read b \<longleftrightarrow> pending b \<noteq> []"
  by (auto simp: buffer_inv_def buffer_op_defs pending_def)

lemma can_write_room: "buffer_can_write b \<longleftrightarrow> 0 < room b"
  by (auto simp: buffer_op_defs room_def)

lemma take_drop_shift:
  "r + n \<le> w \<Longrightarrow> take (w - (r + n)) (drop (r + n) xs) = drop n (take (w - r) (drop r xs))"
  by (simp add: drop_take add.commute)

text \<open>
  What an operation that only moves data and pointers keeps: the invariant, the limit and
  the size of the block.
\<close>

definition same_block :: "buffer \<Rightarrow> buffer \<Rightarrow> bool" where
  "same_block b b' \<longleftrightarrow> buffer_inv b' \<and> buf_limit b' = buf_limit b \<and>
     length (buf_data b') = length (buf_data b)"

lemma same_block_trans: "same_block a b \<Longrightarrow> same_block b c \<Longrightarrow> same_block a c"
  by (simp add: same_block_def)

lemma same_block_inv: "same_block a b \<Longrightarrow> buffer_inv b"
  by (simp add: same_block_def)

text \<open>Compaction moves the pending bytes to the front and changes nothing else.\<close>

lemma buffer_compact_ok:
  assumes "buffer_inv b"
  shows "\<exists>b'. buffer_compact b = Inr b' \<and> same_block b b' \<and> pending b' = pending b \<and>
           buf_read b' = 0"
proof (cases "buf_read b = 0 \<or> buf_read b = buf_write b")
  case True
  with assms show ?thesis
    by (auto simp: buffer_compact_def buffer_inv_def pending_def same_block_def)
next
  case False
  let ?n = "buf_write b - buf_read b"
  let ?p = "take ?n (drop (buf_read b) (buf_data b))"
  let ?b = "b\<lparr>buf_data := ?p @ drop ?n (buf_data b), buf_read := 0, buf_write := ?n\<rparr>"
  from assms have len: "length ?p = ?n"
    using length_pending [OF assms] by (simp add: pending_def)
  from assms False have "buffer_compact b = Inr ?b"
    by (simp add: buffer_compact_def buffer_inv_def Let_def)
  moreover from assms have "length (?p @ drop ?n (buf_data b)) = length (buf_data b)"
    by (subst length_append, subst len) (simp add: buffer_inv_def)
  then have "same_block b ?b"
    using assms by (auto simp: same_block_def buffer_inv_def)
  moreover from len have "pending ?b = pending b" by (simp add: pending_def)
  ultimately show ?thesis by auto
qed

text \<open>
  \<open>buffer_read_adv\<close> with a count the buffer holds drops that many pending bytes; with a
  larger count it fails its assertion.
\<close>

lemma buffer_read_adv_ok:
  assumes inv: "buffer_inv b" and n: "n \<le> length (pending b)"
  shows "\<exists>b'. buffer_read_adv b (int n) = Inr b' \<and> same_block b b' \<and>
           pending b' = drop n (pending b)"
proof -
  let ?b = "b\<lparr>buf_read := buf_read b + n\<rparr>"
  from n have le: "buf_read b + n \<le> buf_write b"
    using inv length_pending [OF inv] by (auto simp: buffer_inv_def)
  with inv have inv': "buffer_inv ?b" by (simp add: buffer_inv_def)
  then have blk: "same_block b ?b" by (simp add: same_block_def)
  have pend: "pending ?b = drop n (pending b)"
    using le by (simp add: pending_def take_drop_shift)
  show ?thesis
  proof (cases "buf_read b + n = buf_write b")
    case True
    then have "buffer_read_adv b (int n) = buffer_compact ?b"
      by (simp add: buffer_read_adv_def)
    with buffer_compact_ok [OF inv'] blk pend show ?thesis
      by (auto intro: same_block_trans)
  next
    case False
    with le have "buffer_read_adv b (int n) = Inr ?b"
      by (simp add: buffer_read_adv_def)
    with blk pend show ?thesis by simp
  qed
qed

lemma buffer_read_adv_overrun:
  "buffer_inv b \<Longrightarrow> length (pending b) < n \<Longrightarrow> buffer_read_adv b (int n) = Inl Assert_Failed"
  by (auto simp: buffer_read_adv_def length_pending buffer_inv_def)

lemma buffer_write_adv_ok:
  assumes "buffer_inv b" "n \<le> room b"
  shows "buffer_write_adv b (int n) = Inr (b\<lparr>buf_write := buf_write b + n\<rparr>)"
    and "same_block b (b\<lparr>buf_write := buf_write b + n\<rparr>)"
  using assms by (auto simp: buffer_write_adv_def room_def same_block_def buffer_inv_def)

text \<open>Bytes stored at the write position, then the advance: they join the queue at its end.\<close>

lemma buffer_recv_ok:
  assumes inv: "buffer_inv b" and n: "length bs \<le> room b"
  shows "\<exists>b'. buffer_recv b bs = Inr b' \<and> same_block b b' \<and>
           pending b' = pending b @ bs \<and> room b' = room b - length bs"
proof -
  let ?w = "buf_write b" and ?r = "buf_read b" and ?k = "length bs"
  let ?d = "take ?w (buf_data b) @ bs @ drop (?w + ?k) (buf_data b)"
  let ?b = "b\<lparr>buf_data := ?d\<rparr>"
  let ?b' = "?b\<lparr>buf_write := ?w + ?k\<rparr>"
  from inv n have fit: "?w + ?k \<le> length (buf_data b)" and ord: "?r \<le> ?w"
    and lim: "?w \<le> buf_limit b"
    by (auto simp: buffer_inv_def room_def)
  then have len: "length ?d = length (buf_data b)" by simp
  with inv have invb: "buffer_inv ?b" by (simp add: buffer_inv_def)
  from n have n': "?k \<le> room ?b" by (simp add: room_def)
  have "buffer_recv b bs = Inr ?b'"
    using fit buffer_write_adv_ok(1) [OF invb n'] by (simp add: buffer_recv_def)
  moreover have "same_block b ?b'"
    using buffer_write_adv_ok(2) [OF invb n'] len by (simp add: same_block_def)
  moreover have "pending ?b' = pending b @ bs"
    using fit ord by (simp add: pending_def drop_take)
  moreover have "room ?b' = room b - ?k" by (simp add: room_def)
  ultimately show ?thesis by blast
qed

lemma buffer_write_is_recv: "buffer_can_write b \<Longrightarrow> buffer_write b c = buffer_recv b [c]"
  by (auto simp: buffer_write_def buffer_recv_def mem_put_def mem_write_def guard_def
      upd_conv_take_nth_drop)

lemma buffer_write_struct_is_recv:
  "0 < room b \<Longrightarrow> sz \<le> room b \<Longrightarrow> sz \<le> length data \<Longrightarrow>
     buffer_write_struct b data sz = buffer_recv b (take sz data)"
  by (simp add: buffer_write_struct_def buffer_recv_def can_write_room, simp add: room_def)

lemma buffer_write_struct_full:
  "room b < sz \<or> room b = 0 \<Longrightarrow> buffer_write_struct b data sz = Inr b"
  by (auto simp: buffer_write_struct_def can_write_room, auto simp: room_def)

lemma buffer_read_Cons:
  assumes inv: "buffer_inv b" and p: "pending b = x # xs"
  shows "\<exists>b'. buffer_read b = Inr (x, b') \<and> same_block b b' \<and> pending b' = xs"
proof -
  from p inv have can: "buffer_can_read b" by (simp add: can_read_pending)
  from p have ne: "0 < buf_write b - buf_read b" "drop (buf_read b) (buf_data b) \<noteq> []"
    using length_pending [OF inv] by (auto simp: pending_def)
  then have "hd (pending b) = buf_data b ! buf_read b"
    by (simp add: pending_def hd_take hd_drop_conv_nth)
  with p ne have get: "mem_get (buf_data b) (buf_read b) = Inr x" by simp
  from p obtain b' where "buffer_read_adv b 1 = Inr b'" "same_block b b'" "pending b' = xs"
    using buffer_read_adv_ok [OF inv, of 1] by auto
  with can get show ?thesis by (simp add: buffer_read_def)
qed

text \<open>Reading the last byte moves both pointers back to the start.\<close>

lemma buffer_read_last:
  "buffer_inv b \<Longrightarrow> pending b = [x] \<Longrightarrow> buffer_read b = Inr (y, b') \<Longrightarrow> buf_write b' = 0"
  using length_pending [of b] can_read_pending [of b]
  by (auto simp: buffer_read_def buffer_read_adv_def buffer_compact_def Let_def bind_res_eq_Inr guard_def
      split: if_splits)

lemma buffer_read_Nil: "buffer_inv b \<Longrightarrow> pending b = [] \<Longrightarrow> buffer_read b = Inr (0, b)"
  by (simp add: buffer_read_def can_read_pending)

section \<open>The buffer as a bounded queue of bytes\<close>

text \<open>
  What the protocol handlers rely on: one byte is taken from the front, a run of bytes is
  appended at the end when there is room for it, a prefix of what is there is dropped.
  \<open>take_bytes\<close> is the handlers' way of consuming a buffer, one \<open>get\<close> per byte.
\<close>

fun take_bytes :: "('q \<Rightarrow> (byte \<times> 'q) res) \<Rightarrow> nat \<Rightarrow> 'q \<Rightarrow> (byte list \<times> 'q) res" where
  "take_bytes get 0 q = Inr ([], q)"
| "take_bytes get (Suc n) q =
     bind_res (get q) (\<lambda>(x, q'). bind_res (take_bytes get n q') (\<lambda>(xs, q''). Inr (x # xs, q'')))"

locale byte_queue =
  fixes ok :: "'q \<Rightarrow> bool"
    and contents :: "'q \<Rightarrow> byte list"
    and space :: "'q \<Rightarrow> nat"
    and get :: "'q \<Rightarrow> (byte \<times> 'q) res"
    and skip :: "'q \<Rightarrow> int \<Rightarrow> 'q res"
    and put :: "'q \<Rightarrow> byte list \<Rightarrow> 'q res"
  assumes get_law: "ok q \<Longrightarrow> contents q = x # xs \<Longrightarrow>
        \<exists>q'. get q = Inr (x, q') \<and> ok q' \<and> contents q' = xs"
    and skip_law: "ok q \<Longrightarrow> n \<le> length (contents q) \<Longrightarrow>
        \<exists>q'. skip q (int n) = Inr q' \<and> ok q' \<and> contents q' = drop n (contents q)"
    and put_law: "ok q \<Longrightarrow> length bs \<le> space q \<Longrightarrow>
        \<exists>q'. put q bs = Inr q' \<and> ok q' \<and> contents q' = contents q @ bs"
begin

lemma take_bytes_prefix:
  "ok q \<Longrightarrow> contents q = xs @ ys \<Longrightarrow>
     \<exists>q'. take_bytes get (length xs) q = Inr (xs, q') \<and> ok q' \<and> contents q' = ys"
proof (induction xs arbitrary: q)
  case Nil
  then show ?case by simp
next
  case (Cons x xs)
  then obtain q' where "get q = Inr (x, q')" "ok q'" "contents q' = xs @ ys"
    using get_law [of q x "xs @ ys"] by auto
  with Cons.IH [of q'] show ?case by auto
qed

lemma fifo:
  assumes "ok q" "length bs \<le> space q"
  shows "\<exists>q' q''. put q bs = Inr q' \<and>
           take_bytes get (length (contents q) + length bs) q' = Inr (contents q @ bs, q'') \<and>
           ok q'' \<and> contents q'' = []"
proof -
  obtain q' where q': "put q bs = Inr q'" "ok q'" "contents q' = (contents q @ bs) @ []"
    using put_law [OF assms] by auto
  with take_bytes_prefix [OF q'(2,3)] show ?thesis by auto
qed

lemma skip_then_take:
  assumes "ok q" "contents q = xs @ ys @ zs"
  shows "\<exists>q' q''. skip q (int (length xs)) = Inr q' \<and>
           take_bytes get (length ys) q' = Inr (ys, q'') \<and> contents q'' = zs"
proof -
  obtain q' where q': "skip q (int (length xs)) = Inr q'" "ok q'" "contents q' = ys @ zs"
    using skip_law [of q "length xs"] assms by auto
  with take_bytes_prefix [OF q'(2,3)] show ?thesis by auto
qed

end

interpretation buf: byte_queue buffer_inv pending room buffer_read buffer_read_adv buffer_recv
proof unfold_locales
  fix q x xs assume "buffer_inv q" "pending q = x # xs"
  then show "\<exists>q'. buffer_read q = Inr (x, q') \<and> buffer_inv q' \<and> pending q' = xs"
    using buffer_read_Cons by (blast intro: same_block_inv)
next
  fix q n assume "buffer_inv q" "n \<le> length (pending q)"
  then show "\<exists>q'. buffer_read_adv q (int n) = Inr q' \<and> buffer_inv q' \<and> pending q' = drop n (pending q)"
    using buffer_read_adv_ok by (blast intro: same_block_inv)
next
  fix q and bs :: "byte list" assume "buffer_inv q" "length bs \<le> room q"
  then show "\<exists>q'. buffer_recv q bs = Inr q' \<and> buffer_inv q' \<and> pending q' = pending q @ bs"
    using buffer_recv_ok by (blast intro: same_block_inv)
qed

section \<open>Properties\<close>

text \<open>
  C33: the buffer is a first-in first-out queue.  Bytes stored by \<open>recv\<close> in the room the
  buffer offers come out of \<open>buffer_read\<close> after the bytes already pending, in order and
  unchanged, whatever the position of the two pointers and however often the buffer
  compacts itself on the way; at the end it is empty.
\<close>

theorem buffer_fifo:
  assumes "buffer_inv b" "length bs \<le> room b"
  shows "\<exists>b' b''. buffer_recv b bs = Inr b' \<and>
     take_bytes buffer_read (length (pending b) + length bs) b' = Inr (pending b @ bs, b'') \<and>
     buffer_inv b'' \<and> pending b'' = []"
  by (rule buf.fifo [OF assms])

theorem buffer_fifo_witness:
  "\<exists>b' b''. buffer_recv \<lparr>buf_data = [7, 8, 9, 0], buf_limit = 4, buf_read = 1, buf_write = 3\<rparr> [5] = Inr b' \<and>
     take_bytes buffer_read 3 b' = Inr ([8, 9, 5], b'') \<and> pending b'' = []"
  using buffer_fifo [of "\<lparr>buf_data = [7, 8, 9, 0], buf_limit = 4, buf_read = 1, buf_write = 3\<rparr>" "[5]"]
  by (simp add: buffer_inv_def room_def pending_def numeral_3_eq_3) blast

text \<open>
  \<open>buffer_read_adv\<close> accepts exactly the counts the buffer holds.  Up to the number of
  pending bytes it drops them (compacting when it empties the buffer) and keeps the
  invariant, the limit and the block; one byte more and its assertion fails; a
  negative count (a failed \<open>send\<close>) changes nothing.
\<close>

theorem buffer_read_adv_exact:
  assumes inv: "buffer_inv b"
  shows "case buffer_read_adv b n of
           Inr b' \<Rightarrow> n \<le> int (length (pending b)) \<and> same_block b b' \<and>
             pending b' = drop (nat n) (pending b)
         | Inl e \<Rightarrow> int (length (pending b)) < n \<and> e = Assert_Failed"
proof (cases "n < 0")
  case True
  then show ?thesis using inv by (simp add: buffer_read_adv_def same_block_def)
next
  case False
  then obtain k where k: "n = int k" by (metis int_nat_eq linorder_not_less)
  show ?thesis
  proof (cases "k \<le> length (pending b)")
    case True
    with buffer_read_adv_ok [OF inv True] k show ?thesis by auto
  next
    case False
    with buffer_read_adv_overrun [OF inv, of k] k show ?thesis by auto
  qed
qed

theorem buffer_read_adv_exact_witness:
  "case buffer_read_adv \<lparr>buf_data = [7, 8, 9, 0], buf_limit = 4, buf_read = 1, buf_write = 3\<rparr> 3 of
     Inr b' \<Rightarrow> False | Inl e \<Rightarrow> e = Assert_Failed"
  using buffer_read_adv_exact [of "\<lparr>buf_data = [7, 8, 9, 0], buf_limit = 4, buf_read = 1, buf_write = 3\<rparr>" 3]
  by (simp add: buffer_inv_def pending_def split: sum.splits)

text \<open>
  \<open>buffer_write_struct\<close> is all or nothing.  A response of \<open>sz\<close> bytes is appended
  whole to what is pending, or, when the room is smaller, not a byte of it is written and
  the buffer is unchanged; the invariant holds either way.
\<close>

theorem buffer_write_struct_all_or_nothing:
  assumes inv: "buffer_inv b" and sz: "sz \<le> length data"
  shows "\<exists>b'. buffer_write_struct b data sz = Inr b' \<and> same_block b b' \<and>
     (if 0 < room b \<and> sz \<le> room b
      then pending b' = pending b @ take sz data \<and> room b' = room b - sz
      else b' = b)"
proof (cases "0 < room b \<and> sz \<le> room b")
  case True
  with sz have "buffer_write_struct b data sz = buffer_recv b (take sz data)"
    by (simp add: buffer_write_struct_is_recv)
  with True sz buffer_recv_ok [OF inv, of "take sz data"] show ?thesis by auto
next
  case False
  then have "buffer_write_struct b data sz = Inr b"
    by (intro buffer_write_struct_full) auto
  with False inv show ?thesis by (auto simp: same_block_def)
qed

theorem buffer_write_struct_all_or_nothing_witness:
  "\<exists>b'. buffer_write_struct (buffer_init 4 [0, 0, 0, 0]) [5, 2, 9] 2 = Inr b' \<and>
     pending b' = [5, 2] \<and> room b' = 2"
  using buffer_write_struct_all_or_nothing [of "buffer_init 4 [0, 0, 0, 0]" 2 "[5, 2, 9]"]
  by (auto simp: buffer_init_inv)

end
