(* ===== verification/Parser_Engine.thy ===== *)
theory Parser_Engine
  imports Prelude
begin

text \<open>
  The table-driven parser motor of \<open>src/src/server/utils/parser.c\<close> and
  \<open>src/src/server/include/parser.h\<close>: a definition lists, for every state, transitions with
  a condition, a target state and actions that fill in an event; feeding a byte takes the
  first transition whose condition holds.  The state type \<open>'s\<close> is the enumeration of
  the parser that uses the motor; its zero is the enumerator with value 0, which is what
  zeroed memory holds.
\<close>

section \<open>Definitions and state\<close>

text \<open>
  \<open>next\<close> is null or points to the parser's second event, so it is a flag here.
\<close>

record 's parser_event =
  ev_type :: 's
  ev_data :: "byte list"
  ev_n :: byte
  ev_next :: bool

text \<open>The predicate of \<open>when\<close> that always holds.\<close>

definition ANY :: int where
  "ANY = 2 ^ 9"

record 's transition =
  tr_when :: int
  tr_dest :: 's
  tr_act1 :: "'s parser_event \<Rightarrow> byte \<Rightarrow> 's parser_event"
  tr_act2 :: "('s parser_event \<Rightarrow> byte \<Rightarrow> 's parser_event) option"

text \<open>
  The two tables are written with designated initialisers (\<open>[STATE] = row\<close>), so they are
  association lists here; a state with no entry lies outside the arrays.
\<close>

record 's parser_definition =
  def_states :: "('s \<times> 's transition list) list"
  def_states_n :: "('s \<times> nat) list"
  def_start :: 's

record 's parser =
  p_classes :: "32 word list"
  p_def :: "'s parser_definition"
  p_state :: 's
  p_e1 :: "'s parser_event"
  p_e2 :: "'s parser_event"

text \<open>What \<open>memset\<close> leaves in an event.\<close>

definition zero_event :: "('s::zero) parser_event" where
  "zero_event = \<lparr>ev_type = 0, ev_data = [0, 0, 0], ev_n = 0, ev_next = False\<rparr>"

text \<open>\<open>alloc\<close> tells whether \<open>malloc\<close> returns a block; the caller gets a null pointer if not.\<close>

definition parser_init ::
    "bool \<Rightarrow> 32 word list \<Rightarrow> ('s::zero) parser_definition \<Rightarrow> 's parser option" where
  "parser_init alloc classes def =
     (if alloc
      then Some \<lparr>p_classes = classes, p_def = def, p_state = def_start def,
                 p_e1 = zero_event, p_e2 = zero_event\<rparr>
      else None)"

definition parser_reset :: "'s parser \<Rightarrow> 's parser" where
  "parser_reset p = p\<lparr>p_state := def_start (p_def p)\<rparr>"

definition parser_set :: "'s parser \<Rightarrow> 's \<Rightarrow> 's parser" where
  "parser_set p s = p\<lparr>p_state := s\<rparr>"

text \<open>
  The condition of one transition: a single byte, anything, or a class of bytes.
  \<open>when\<close> is a signed \<open>int\<close>, so a negative value is compared with the byte and never equal.
\<close>

definition transition_matches :: "32 word \<Rightarrow> byte \<Rightarrow> 's transition \<Rightarrow> bool" where
  "transition_matches type c t =
     (let when = tr_when t
      in if when \<le> 255 then uint c = when
         else if when = ANY then True
         else if when > 255 then and (uint type) when \<noteq> 0
         else False)"

text \<open>The loop over the \<open>n\<close> entries of a row: the first transition that matches, if any.\<close>

fun find_transition ::
    "32 word \<Rightarrow> byte \<Rightarrow> nat \<Rightarrow> 's transition list \<Rightarrow> 's transition option res" where
  "find_transition type c 0 ts = Inr None"
| "find_transition type c (Suc n) [] = Inl Out_Of_Bounds"
| "find_transition type c (Suc n) (t # ts) =
     (if transition_matches type c t then Inr (Some t) else find_transition type c n ts)"

definition lookup_row :: "('s \<times> 'a) list \<Rightarrow> 's \<Rightarrow> 'a res" where
  "lookup_row rows s = (case map_of rows s of None \<Rightarrow> Inl Out_Of_Bounds | Some r \<Rightarrow> Inr r)"

text \<open>
  \<open>parser_feed\<close> looks the byte up in the class table first, whether or not a
  transition asks for its class.  The event returned is \<open>e1\<close>.
\<close>

definition parser_feed :: "'s parser \<Rightarrow> byte \<Rightarrow> ('s parser \<times> 's parser_event) res" where
  "parser_feed p c =
     bind_res (mem_get (p_classes p) (unat c)) (\<lambda>type.
     let e1 = (p_e1 p)\<lparr>ev_next := False\<rparr>; e2 = (p_e2 p)\<lparr>ev_next := False\<rparr> in
     bind_res (lookup_row (def_states (p_def p)) (p_state p)) (\<lambda>state.
     bind_res (lookup_row (def_states_n (p_def p)) (p_state p)) (\<lambda>n.
     bind_res (find_transition type c n state) (\<lambda>found.
     case found of
       None \<Rightarrow> Inr (p\<lparr>p_e1 := e1, p_e2 := e2\<rparr>, e1)
     | Some t \<Rightarrow>
         (let a1 = tr_act1 t e1 c;
              (e1', e2') = (case tr_act2 t of
                              None \<Rightarrow> (a1, e2)
                            | Some act2 \<Rightarrow> (a1\<lparr>ev_next := True\<rparr>, act2 e2 c))
          in Inr (p\<lparr>p_e1 := e1', p_e2 := e2', p_state := tr_dest t\<rparr>, e1'))))))"

text \<open>
  The class table handed to \<open>parser_init\<close> by all three parsers: \<open>classes[0xFF]\<close>, so it
  has 255 entries.
\<close>

definition parser_no_classes :: "32 word list" where
  "parser_no_classes = replicate 255 0"

section \<open>Feeding a run of bytes\<close>

text \<open>
  A protocol parser is fed byte by byte and returns a status for each; \<open>feeds\<close>
  collects the statuses of a run.
\<close>

fun feeds :: "('p \<Rightarrow> byte \<Rightarrow> ('p \<times> 's) res) \<Rightarrow> 'p \<Rightarrow> byte list \<Rightarrow> ('p \<times> 's list) res" where
  "feeds feed p [] = Inr (p, [])"
| "feeds feed p (c # cs) =
     bind_res (feed p c) (\<lambda>(p', s). bind_res (feeds feed p' cs) (\<lambda>(p'', ss). Inr (p'', s # ss)))"

lemma feeds_append:
  "feeds feed p (xs @ ys) =
     bind_res (feeds feed p xs) (\<lambda>(p', ss).
     bind_res (feeds feed p' ys) (\<lambda>(p'', ts). Inr (p'', ss @ ts)))"
proof (induction xs arbitrary: p)
  case Nil
  then show ?case by (cases "feeds feed p ys") auto
next
  case (Cons x xs)
  then show ?case by (auto simp: bind_res_def split: sum.splits)
qed

lemma feeds_snoc:
  "feeds feed p bs = Inr (p', ss @ [s]) \<Longrightarrow>
     \<exists>cs x q. bs = cs @ [x] \<and> feeds feed p cs = Inr (q, ss) \<and> feed q x = Inr (p', s)"
  by (cases bs rule: rev_cases) (auto simp: feeds_append bind_res_eq_Inr)

lemma feeds_length: "feeds feed p xs = Inr (p', ss) \<Longrightarrow> length ss = length xs"
  by (induction xs arbitrary: p ss) (auto simp: bind_res_eq_Inr)

section \<open>Well-formed tables never fault\<close>

text \<open>
  A table is well formed for the motor when every state it can be in has a row and a
  length within that row, the last counted transition accepts any byte, and every target
  is again such a state.
\<close>

definition row_wf :: "'s parser_definition \<Rightarrow> 's \<Rightarrow> bool" where
  "row_wf d s \<longleftrightarrow> (case (map_of (def_states d) s, map_of (def_states_n d) s) of
       (Some ts, Some n) \<Rightarrow> 0 < n \<and> n \<le> length ts \<and> tr_when (ts ! (n - 1)) = ANY \<and>
         list_all (\<lambda>t. map_of (def_states d) (tr_dest t) \<noteq> None) ts
     | _ \<Rightarrow> False)"

definition table_wf :: "'s parser_definition \<Rightarrow> bool" where
  "table_wf d \<longleftrightarrow> map_of (def_states d) (def_start d) \<noteq> None \<and>
     list_all (row_wf d) (map fst (def_states d))"

lemma ANY_matches: "tr_when t = ANY \<Longrightarrow> transition_matches type c t"
  by (simp add: transition_matches_def ANY_def)

lemma find_transition_total:
  "n \<le> length ts \<Longrightarrow> 0 < n \<Longrightarrow> tr_when (ts ! (n - 1)) = ANY \<Longrightarrow>
     \<exists>t \<in> set ts. find_transition type c n ts = Inr (Some t)"
proof (induction type c n ts rule: find_transition.induct)
  case (3 type c n t ts)
  then show ?case by (cases n) (auto simp: ANY_matches)
qed simp_all

lemma row_wf_of_table: "table_wf d \<Longrightarrow> map_of (def_states d) s \<noteq> None \<Longrightarrow> row_wf d s"
  by (force simp: table_wf_def list_all_iff dest: map_of_SomeD)

lemma parser_feed_total:
  assumes wf: "table_wf (p_def p)" and st: "map_of (def_states (p_def p)) (p_state p) \<noteq> None"
    and c: "unat c < length (p_classes p)"
  shows "\<exists>p' e. parser_feed p c = Inr (p', e) \<and> p_def p' = p_def p \<and>
     p_classes p' = p_classes p \<and> map_of (def_states (p_def p)) (p_state p') \<noteq> None"
proof -
  from row_wf_of_table [OF wf st] obtain ts n where
    rows: "map_of (def_states (p_def p)) (p_state p) = Some ts"
      "map_of (def_states_n (p_def p)) (p_state p) = Some n"
    and n: "0 < n" "n \<le> length ts" "tr_when (ts ! (n - 1)) = ANY"
    and dest: "\<forall>t \<in> set ts. map_of (def_states (p_def p)) (tr_dest t) \<noteq> None"
    by (auto simp: row_wf_def list_all_iff split: option.splits)
  obtain t where t: "t \<in> set ts" "find_transition (p_classes p ! unat c) c n ts = Inr (Some t)"
    using find_transition_total [OF n(2,1,3)] by blast
  show ?thesis
    using c rows t dest
    by (cases "tr_act2 t") (auto simp: parser_feed_def lookup_row_def Let_def)
qed

text \<open>A byte beyond the class table is out of bounds in every state.\<close>

lemma parser_feed_oob:
  "length (p_classes p) \<le> unat c \<Longrightarrow> parser_feed p c = Inl Out_Of_Bounds"
  by (simp add: parser_feed_def mem_get_def)

section \<open>The interface of the protocol parsers\<close>

text \<open>
  The three protocol parsers wrap the motor and share a contract: in a good state every
  byte the class table covers is accepted and leaves a good state, and the one byte it
  does not cover, 255, is read out of bounds.
\<close>

locale byte_parser =
  fixes ok :: "'p \<Rightarrow> bool"
    and feed :: "'p \<Rightarrow> byte \<Rightarrow> ('p \<times> 's) res"
  assumes feed_total: "ok p \<Longrightarrow> c \<noteq> 255 \<Longrightarrow> \<exists>p' s. feed p c = Inr (p', s) \<and> ok p'"
    and feed_255: "ok p \<Longrightarrow> feed p 255 = Inl Out_Of_Bounds"
begin

lemma feeds_total: "ok p \<Longrightarrow> 255 \<notin> set cs \<Longrightarrow> \<exists>p' ss. feeds feed p cs = Inr (p', ss) \<and> ok p'"
proof (induction cs arbitrary: p)
  case Nil
  then show ?case by simp
next
  case (Cons c cs)
  then obtain p' s where "feed p c = Inr (p', s)" "ok p'"
    using feed_total [of p c] by auto
  with Cons show ?case by fastforce
qed

lemma feeds_255: "ok p \<Longrightarrow> 255 \<in> set cs \<Longrightarrow> feeds feed p cs = Inl Out_Of_Bounds"
proof (induction cs arbitrary: p)
  case Nil
  then show ?case by simp
next
  case (Cons c cs)
  show ?case
  proof (cases "c = 255")
    case True
    with Cons.prems show ?thesis by (simp add: feed_255)
  next
    case False
    with Cons.prems obtain p' s where "feed p c = Inr (p', s)" "ok p'"
      using feed_total [of p c] by auto
    with Cons False show ?thesis by auto
  qed
qed

lemma feeds_cases:
  "ok p \<Longrightarrow> (if 255 \<in> set cs then feeds feed p cs = Inl Out_Of_Bounds
            else \<exists>p' ss. feeds feed p cs = Inr (p', ss) \<and> length ss = length cs)"
  using feeds_total [of p cs] feeds_255 [of p cs] feeds_length by fastforce

end

text \<open>A motor that runs one given table over the shared class table.\<close>

definition motor_ok :: "'s parser_definition \<Rightarrow> 's parser \<Rightarrow> bool" where
  "motor_ok d p \<longleftrightarrow> p_def p = d \<and> p_classes p = parser_no_classes \<and>
     map_of (def_states d) (p_state p) \<noteq> None \<and> length (ev_data (p_e1 p)) = 3"

lemma motor_ok_init:
  "map_of (def_states d) (def_start d) \<noteq> None \<Longrightarrow>
     parser_init True parser_no_classes d = Some p \<Longrightarrow> motor_ok d p"
  by (auto simp: parser_init_def motor_ok_def zero_event_def)

lemma motor_ok_set:
  "motor_ok d p \<Longrightarrow> map_of (def_states d) s \<noteq> None \<Longrightarrow> motor_ok d (parser_set p s)"
  by (simp add: motor_ok_def parser_set_def)

lemma parser_set_state [simp]: "p_state (parser_set p s) = s"
  by (simp add: parser_set_def)

lemma no_classes_get: "(c :: byte) \<noteq> 255 \<Longrightarrow> mem_get parser_no_classes (unat c) = Inr 0"
  using byte_neq_255 [of c] by (simp add: parser_no_classes_def)

lemma motor_255: "motor_ok d p \<Longrightarrow> parser_feed p 255 = Inl Out_Of_Bounds"
  by (intro parser_feed_oob) (simp add: motor_ok_def parser_no_classes_def)

end
