(* ===== verification/Handshake_Parser.thy ===== *)
theory Handshake_Parser
  imports Parser_Engine
begin

text \<open>
  The parser of the SOCKS5 greeting (version, number of methods, methods) of
  \<open>src/src/server/socks5/parsers/handshake_parser.c\<close>, its invariant, and its agreement
  with the format of the message.
\<close>

section \<open>States, table and operations\<close>

datatype handshake_state =
    HANDSHAKE_VERSION
  | HANDSHAKE_NMETHODS
  | HANDSHAKE_METHODS
  | HANDSHAKE_DONE
  | HANDSHAKE_ERROR

instantiation handshake_state :: zero
begin
definition zero_handshake_state :: handshake_state where
  "zero_handshake_state = HANDSHAKE_VERSION"
instance ..
end

definition SOCKS5_VERSION :: byte where "SOCKS5_VERSION = 0x05"
definition SOCKS5_AUTH_METHOD_NO_AUTH :: byte where "SOCKS5_AUTH_METHOD_NO_AUTH = 0x00"
definition SOCKS5_AUTH_METHOD_GSSAPI :: byte where "SOCKS5_AUTH_METHOD_GSSAPI = 0x01"
definition SOCKS5_AUTH_METHOD_USER_PASS :: byte where "SOCKS5_AUTH_METHOD_USER_PASS = 0x02"
definition SOCKS5_AUTH_METHOD_NO_ACCEPTABLE :: byte where
  "SOCKS5_AUTH_METHOD_NO_ACCEPTABLE = 0xFF"

lemmas socks5_method_defs =
  SOCKS5_VERSION_def SOCKS5_AUTH_METHOD_NO_AUTH_def SOCKS5_AUTH_METHOD_GSSAPI_def
  SOCKS5_AUTH_METHOD_USER_PASS_def SOCKS5_AUTH_METHOD_NO_ACCEPTABLE_def

text \<open>
  The actions \<open>version\<close>, \<open>nmethods\<close>, \<open>methods\<close>, \<open>done\<close> and \<open>error\<close> differ only in
  the type they store.
\<close>

definition handshake_action ::
    "handshake_state \<Rightarrow> handshake_state parser_event \<Rightarrow> byte \<Rightarrow> handshake_state parser_event" where
  "handshake_action s ret c =
     ret\<lparr>ev_type := s, ev_n := 1, ev_data := (ev_data ret)[0 := c]\<rparr>"

definition handshake_transition ::
    "int \<Rightarrow> handshake_state \<Rightarrow> handshake_state \<Rightarrow> handshake_state transition" where
  "handshake_transition when dest act =
     \<lparr>tr_when = when, tr_dest = dest, tr_act1 = handshake_action act, tr_act2 = None\<rparr>"

definition handshake_states :: "(handshake_state \<times> handshake_state transition list) list" where
  "handshake_states =
    [(HANDSHAKE_VERSION,
        [handshake_transition (uint SOCKS5_VERSION) HANDSHAKE_NMETHODS HANDSHAKE_VERSION,
         handshake_transition ANY HANDSHAKE_ERROR HANDSHAKE_ERROR]),
     (HANDSHAKE_NMETHODS, [handshake_transition ANY HANDSHAKE_METHODS HANDSHAKE_NMETHODS]),
     (HANDSHAKE_METHODS, [handshake_transition ANY HANDSHAKE_METHODS HANDSHAKE_METHODS]),
     (HANDSHAKE_ERROR, [handshake_transition ANY HANDSHAKE_ERROR HANDSHAKE_ERROR]),
     (HANDSHAKE_DONE, [handshake_transition ANY HANDSHAKE_DONE HANDSHAKE_DONE])]"

definition handshake_parser_definition :: "handshake_state parser_definition" where
  "handshake_parser_definition =
     \<lparr>def_states = handshake_states,
      def_states_n = map (\<lambda>(s, ts). (s, length ts)) handshake_states,
      def_start = HANDSHAKE_VERSION\<rparr>"

record handshake_parser =
  hp_parser :: "handshake_state parser option"
  nmethods :: byte
  method_count :: byte
  no_auth :: bool
  user_pass_auth :: bool

text \<open>
  \<open>alloc1\<close> and \<open>alloc2\<close> tell whether the two allocations succeed; the result of the
  second is stored unchecked.
\<close>

definition handshake_parser_init :: "bool \<Rightarrow> bool \<Rightarrow> handshake_parser option" where
  "handshake_parser_init alloc1 alloc2 =
     (if alloc1
      then Some \<lparr>hp_parser = parser_init alloc2 parser_no_classes handshake_parser_definition,
                 nmethods = 0, method_count = 0, no_auth = False, user_pass_auth = False\<rparr>
      else None)"

text \<open>Closing releases the memory of the parser, which is not tracked, after a look at it.\<close>

fun handshake_parser_close :: "handshake_parser option \<Rightarrow> unit res" where
  "handshake_parser_close None = Inl Null_Deref"
| "handshake_parser_close (Some p) = Inr ()"

definition is_valid_socks5_auth_method :: "byte \<Rightarrow> bool" where
  "is_valid_socks5_auth_method m \<longleftrightarrow>
     m = SOCKS5_AUTH_METHOD_NO_AUTH \<or> m = SOCKS5_AUTH_METHOD_GSSAPI \<or>
     m = SOCKS5_AUTH_METHOD_USER_PASS"

definition handshake_parser_feed ::
    "handshake_parser \<Rightarrow> byte \<Rightarrow> (handshake_parser \<times> handshake_state) res" where
  "handshake_parser_feed p byte =
     (case hp_parser p of
        None \<Rightarrow> Inl Null_Deref
      | Some motor \<Rightarrow>
          bind_res (parser_feed motor byte) (\<lambda>(motor', e).
          let p = p\<lparr>hp_parser := Some motor'\<rparr>; d = ev_data e ! 0 in
          case ev_type e of
            HANDSHAKE_NMETHODS \<Rightarrow> Inr (p\<lparr>nmethods := d\<rparr>, ev_type e)
          | HANDSHAKE_METHODS \<Rightarrow>
              (let p = p\<lparr>method_count := method_count p + 1\<rparr>
               in if \<not> is_valid_socks5_auth_method d then Inr (p, HANDSHAKE_ERROR)
                  else if nmethods p < method_count p then Inr (p, HANDSHAKE_DONE)
                  else let p = p\<lparr>no_auth := no_auth p \<or> d = SOCKS5_AUTH_METHOD_NO_AUTH,
                                 user_pass_auth := user_pass_auth p \<or> d = SOCKS5_AUTH_METHOD_USER_PASS\<rparr>
                       in if nmethods p = method_count p then Inr (p, HANDSHAKE_DONE)
                          else Inr (p, ev_type e))
          | _ \<Rightarrow> Inr (p, ev_type e)))"

section \<open>One byte\<close>

lemmas handshake_table =
  handshake_parser_definition_def handshake_states_def handshake_transition_def
  transition_matches_def ANY_def SOCKS5_VERSION_def

lemma handshake_table_wf: "table_wf handshake_parser_definition"
  by (simp add: table_wf_def row_wf_def handshake_table)

lemma handshake_state_in_table: "map_of (def_states handshake_parser_definition) s \<noteq> None"
  by (cases s) (simp_all add: handshake_table)

text \<open>The target and the event type of a byte in a state: the table read off.\<close>

fun handshake_next :: "handshake_state \<Rightarrow> byte \<Rightarrow> handshake_state \<times> handshake_state" where
  "handshake_next HANDSHAKE_VERSION c =
     (if c = 5 then (HANDSHAKE_NMETHODS, HANDSHAKE_VERSION) else (HANDSHAKE_ERROR, HANDSHAKE_ERROR))"
| "handshake_next HANDSHAKE_NMETHODS c = (HANDSHAKE_METHODS, HANDSHAKE_NMETHODS)"
| "handshake_next HANDSHAKE_METHODS c = (HANDSHAKE_METHODS, HANDSHAKE_METHODS)"
| "handshake_next s c = (s, s)"

lemma handshake_motor:
  assumes "motor_ok handshake_parser_definition m" "c \<noteq> 255"
  shows "\<exists>m' e. parser_feed m c = Inr (m', e) \<and> motor_ok handshake_parser_definition m' \<and>
     p_state m' = fst (handshake_next (p_state m) c) \<and>
     ev_type e = snd (handshake_next (p_state m) c) \<and> ev_data e ! 0 = c"
  using assms
  by (cases "p_state m")
     (auto simp: parser_feed_def motor_ok_def no_classes_get lookup_row_def Let_def handshake_table
       handshake_action_def uint_byte_eqs)

definition handshake_ok :: "handshake_parser \<Rightarrow> bool" where
  "handshake_ok p \<longleftrightarrow> (\<exists>m. hp_parser p = Some m \<and> motor_ok handshake_parser_definition m)"

lemma handshake_init_ok: "handshake_parser_init True True = Some p \<Longrightarrow> handshake_ok p"
  by (auto simp: handshake_parser_init_def handshake_ok_def parser_init_def motor_ok_def
      zero_event_def handshake_table)

interpretation hs: byte_parser handshake_ok handshake_parser_feed
proof unfold_locales
  fix p c assume ok: "handshake_ok p" and c: "(c :: byte) \<noteq> 255"
  then obtain m where m: "hp_parser p = Some m" "motor_ok handshake_parser_definition m"
    by (auto simp: handshake_ok_def)
  obtain m' e where "parser_feed m c = Inr (m', e)" "motor_ok handshake_parser_definition m'"
    using handshake_motor [OF m(2) c] by blast
  with m show "\<exists>p' s. handshake_parser_feed p c = Inr (p', s) \<and> handshake_ok p'"
    by (cases "ev_type e") (auto simp: handshake_parser_feed_def handshake_ok_def Let_def)
next
  fix p assume "handshake_ok p"
  then show "handshake_parser_feed p 255 = Inl Out_Of_Bounds"
    by (auto simp: handshake_ok_def handshake_parser_feed_def motor_255)
qed

section \<open>The greeting\<close>

text \<open>
  The format of the message, as a reference: the status due after the last byte of what has
  been received so far.
\<close>

definition greeting_status :: "byte list \<Rightarrow> handshake_state" where
  "greeting_status bs =
     (if hd bs \<noteq> 5 then HANDSHAKE_ERROR
      else if length bs = 1 then HANDSHAKE_VERSION
      else if length bs = 2 then HANDSHAKE_NMETHODS
      else if last bs \<notin> {0, 1, 2} then HANDSHAKE_ERROR
      else if unat (bs ! 1) \<le> length bs - 2 then HANDSHAKE_DONE
      else HANDSHAKE_METHODS)"

definition offered :: "byte list \<Rightarrow> byte list" where
  "offered bs = take (unat (bs ! 1)) (drop 2 bs)"

text \<open>What the parser has stored after the bytes \<open>bs\<close>.\<close>

definition handshake_after :: "byte list \<Rightarrow> handshake_parser \<Rightarrow> bool" where
  "handshake_after bs p \<longleftrightarrow>
     (\<exists>m. hp_parser p = Some m \<and> motor_ok handshake_parser_definition m \<and>
        (if bs = [] then p_state m = HANDSHAKE_VERSION
         else if hd bs \<noteq> 5 then p_state m = HANDSHAKE_ERROR
         else if length bs = 1 then p_state m = HANDSHAKE_NMETHODS
         else p_state m = HANDSHAKE_METHODS \<and> nmethods p = bs ! 1) \<and>
        (if 2 \<le> length bs \<and> hd bs = 5
         then unat (method_count p) = length bs - 2 \<and>
           (no_auth p \<longleftrightarrow> 0 \<in> set (offered bs)) \<and> (user_pass_auth p \<longleftrightarrow> 2 \<in> set (offered bs))
         else method_count p = 0 \<and> \<not> no_auth p \<and> \<not> user_pass_auth p))"

lemma handshake_after_init:
  "handshake_parser_init True True = Some p \<Longrightarrow> handshake_after [] p"
  by (auto simp: handshake_parser_init_def handshake_after_def parser_init_def motor_ok_def
      zero_event_def handshake_table)

lemma offered_snoc:
  "2 \<le> length bs \<Longrightarrow>
     offered (bs @ [c]) = (if length bs - 2 < unat (bs ! 1) then offered bs @ [c] else offered bs)"
  by (auto simp: offered_def nth_append)

lemma handshake_step:
  assumes after: "handshake_after bs p" and c: "c \<noteq> 255" and len: "length bs < 257"
  shows "\<exists>p'. handshake_parser_feed p c = Inr (p', greeting_status (bs @ [c])) \<and>
     handshake_after (bs @ [c]) p'"
proof -
  from after obtain m where m: "hp_parser p = Some m" "motor_ok handshake_parser_definition m"
    by (auto simp: handshake_after_def)
  obtain m' e where step: "parser_feed m c = Inr (m', e)" "motor_ok handshake_parser_definition m'"
      "p_state m' = fst (handshake_next (p_state m) c)"
      "ev_type e = snd (handshake_next (p_state m) c)" "ev_data e ! 0 = c"
    using handshake_motor [OF m(2) c] by blast
  consider "bs = []" | "bs \<noteq> []" "hd bs \<noteq> 5" | "hd bs = 5" "length bs = 1"
    | "hd bs = 5" "2 \<le> length bs"
    by (cases bs; cases "tl bs") auto
  then show ?thesis
  proof cases
    case 1
    with after m step show ?thesis
      by (auto simp: handshake_after_def handshake_parser_feed_def greeting_status_def)
  next
    case 2
    with after m step show ?thesis
      by (auto simp: handshake_after_def handshake_parser_feed_def greeting_status_def)
  next
    case 3
    then obtain x where "bs = [x]" by (cases bs) auto
    with 3 after m step show ?thesis
      by (auto simp: handshake_after_def handshake_parser_feed_def greeting_status_def offered_def)
  next
    case 4
    then have ne: "bs \<noteq> []" "length bs \<noteq> 1" "hd (bs @ [c]) = 5" by (cases bs; auto)+
    from 4 ne after m have st: "p_state m = HANDSHAKE_METHODS" "nmethods p = bs ! 1"
      "unat (method_count p) = length bs - 2" "no_auth p \<longleftrightarrow> 0 \<in> set (offered bs)"
      "user_pass_auth p \<longleftrightarrow> 2 \<in> set (offered bs)"
      by (auto simp: handshake_after_def)
    with len have cnt: "unat (method_count p + 1) = length bs - 1"
      using unat_inc_byte [of "method_count p"] 4 by simp
    have cmp: "nmethods p < method_count p + 1 \<longleftrightarrow> unat (bs ! 1) \<le> length bs - 2"
      "nmethods p = method_count p + 1 \<longleftrightarrow> unat (bs ! 1) = length bs - 1"
      using cnt st 4 by (auto simp: word_less_nat_alt word_unat_eq_iff)
    have off: "offered (bs @ [c]) =
        (if unat (bs ! 1) \<le> length bs - 2 then offered bs else offered bs @ [c])"
      using offered_snoc [of bs c] 4 by auto
    have suc: "length (bs @ [c]) - 2 = length bs - 1" using 4 by simp
    show ?thesis
      using 4 ne st cnt cmp m step off suc
      by (auto simp: handshake_after_def handshake_parser_feed_def greeting_status_def nth_append
          is_valid_socks5_auth_method_def socks5_method_defs Let_def)
  qed
qed

lemma handshake_feeds:
  "handshake_after bs p \<Longrightarrow> 255 \<notin> set cs \<Longrightarrow> length bs + length cs \<le> 257 \<Longrightarrow>
     \<exists>p'. feeds handshake_parser_feed p cs =
            Inr (p', map (\<lambda>n. greeting_status (bs @ take n cs)) [1..<Suc (length cs)]) \<and>
          handshake_after (bs @ cs) p'"
proof (induction cs arbitrary: bs p)
  case Nil
  then show ?case by simp
next
  case (Cons c cs)
  then obtain p' where p': "handshake_parser_feed p c = Inr (p', greeting_status (bs @ [c]))"
      "handshake_after (bs @ [c]) p'"
    using handshake_step [of bs p c] by auto
  with Cons.IH [of "bs @ [c]" p'] Cons.prems obtain p'' where
    p'': "feeds handshake_parser_feed p' cs =
        Inr (p'', map (\<lambda>n. greeting_status (bs @ c # take n cs)) [1..<Suc (length cs)])"
      "handshake_after (bs @ c # cs) p''"
    by auto
  have "map (\<lambda>n. greeting_status (bs @ take n (c # cs))) [1..<Suc (length (c # cs))] =
      greeting_status (bs @ [c]) # map (\<lambda>n. greeting_status (bs @ c # take n cs)) [1..<Suc (length cs)]"
    by (simp add: upt_conv_Cons map_Suc_upt [symmetric] o_def del: upt_Suc)
  with p' p'' show ?case by (simp del: upt_Suc)
qed

lemma handshake_feeds_init:
  assumes "handshake_parser_init True True = Some p" "255 \<notin> set bs" "length bs \<le> 257"
  shows "\<exists>p'. feeds handshake_parser_feed p bs =
            Inr (p', map (\<lambda>n. greeting_status (take n bs)) [1..<Suc (length bs)]) \<and>
          handshake_after bs p'"
  using handshake_feeds [OF handshake_after_init [OF assms(1)], of bs] assms(2,3) by simp

text \<open>A complete greeting: the statuses of its bytes and what the parser then knows.\<close>

lemma greeting_feeds:
  assumes start: "handshake_after [] p"
    and ms: "set ms \<subseteq> {0, 1, 2}" "ms \<noteq> []" and n: "unat n = length ms" "n \<noteq> 255"
  shows "\<exists>p'. feeds handshake_parser_feed p (5 # n # ms) =
      Inr (p', HANDSHAKE_VERSION # HANDSHAKE_NMETHODS #
               replicate (length ms - 1) HANDSHAKE_METHODS @ [HANDSHAKE_DONE]) \<and>
    (no_auth p' \<longleftrightarrow> 0 \<in> set ms) \<and> (user_pass_auth p' \<longleftrightarrow> 2 \<in> set ms)"
proof -
  let ?bs = "5 # n # ms"
  have "255 \<notin> set ?bs" using ms n by auto
  moreover have "length ?bs \<le> 257" using n unat_byte_le [of n] by simp
  ultimately obtain p' where p': "feeds handshake_parser_feed p ?bs =
      Inr (p', map (\<lambda>k. greeting_status (take k ?bs)) [1..<Suc (length ?bs)])"
    "handshake_after ?bs p'"
    using handshake_feeds [OF start, of ?bs] by (simp del: upt_Suc) blast
  have body: "greeting_status (take k ?bs) =
      (if k = length ms + 2 then HANDSHAKE_DONE else HANDSHAKE_METHODS)"
    if "k \<in> {3..length ms + 2}" for k
  proof -
    from that obtain j where j: "k = Suc (Suc (Suc j))" "j < length ms"
      by (metis Suc_le_D add_2_eq_Suc' atLeastAtMost_iff less_Suc_eq_le not_less_eq_eq numeral_3_eq_3)
    then have "last (take k ?bs) = ms ! j"
      by (simp add: take_Suc_conv_app_nth)
    moreover have "ms ! j \<in> {0, 1, 2}" using ms(1) j(2) nth_mem by blast
    ultimately show ?thesis using j n by (auto simp: greeting_status_def)
  qed
  have "map (\<lambda>k. greeting_status (take k ?bs)) [1..<Suc (length ?bs)] =
      HANDSHAKE_VERSION # HANDSHAKE_NMETHODS #
        map (\<lambda>k. greeting_status (take k ?bs)) [3..<length ms + 3]"
    by (simp add: upt_conv_Cons greeting_status_def numeral_3_eq_3 del: upt_Suc)
  also have "map (\<lambda>k. greeting_status (take k ?bs)) [3..<length ms + 3] =
      replicate (length ms - 1) HANDSHAKE_METHODS @ [HANDSHAKE_DONE]"
    by (rule nth_equalityI) (use ms(2) body in \<open>auto simp: nth_append\<close>)
  finally show ?thesis
    using p' n by (auto simp: handshake_after_def offered_def)
qed

section \<open>Properties\<close>

text \<open>
  C34: the greeting parser agrees with the message format on every input.  For any run of
  bytes (other than 255, and no longer than the longest greeting) the status returned
  for each byte is the one the format prescribes for what has been received: an error from
  the first byte on when the version is not 5, the end of the message at the last
  announced method, an error at a method that is neither 0, 1 nor 2.
\<close>

theorem handshake_parser_equiv:
  assumes "handshake_parser_init True True = Some p" "255 \<notin> set bs" "length bs \<le> 257"
  shows "\<exists>p'. feeds handshake_parser_feed p bs =
            Inr (p', map (\<lambda>n. greeting_status (take n bs)) [1..<Suc (length bs)])"
  using handshake_feeds_init [OF assms] by blast

theorem handshake_parser_equiv_witness:
  "\<exists>p'. feeds handshake_parser_feed (the (handshake_parser_init True True)) [5, 2, 0, 3] =
     Inr (p', [HANDSHAKE_VERSION, HANDSHAKE_NMETHODS, HANDSHAKE_METHODS, HANDSHAKE_ERROR])"
  using handshake_parser_equiv [of "the (handshake_parser_init True True)" "[5, 2, 0, 3]"]
  by (simp add: handshake_parser_init_def greeting_status_def)

text \<open>
  A well-formed greeting is accepted.  After the version, a count \<open>n \<ge> 1\<close> and \<open>n\<close>
  methods the server knows, the parser reports the end of the message at the last byte
  and at no byte before it, and has recorded exactly which of the two usable methods
  (none, user and password) were offered.
\<close>

theorem handshake_accepts:
  assumes init: "handshake_parser_init True True = Some p"
    and ms: "set ms \<subseteq> {0, 1, 2}" "ms \<noteq> []" and n: "unat n = length ms" "n \<noteq> 255"
  shows "\<exists>p'. feeds handshake_parser_feed p (5 # n # ms) =
      Inr (p', HANDSHAKE_VERSION # HANDSHAKE_NMETHODS #
               replicate (length ms - 1) HANDSHAKE_METHODS @ [HANDSHAKE_DONE]) \<and>
    (no_auth p' \<longleftrightarrow> 0 \<in> set ms) \<and> (user_pass_auth p' \<longleftrightarrow> 2 \<in> set ms)"
  by (rule greeting_feeds [OF handshake_after_init [OF init] ms n])

theorem handshake_accepts_witness:
  "\<exists>p'. feeds handshake_parser_feed (the (handshake_parser_init True True)) [5, 2, 1, 2] =
      Inr (p', [HANDSHAKE_VERSION, HANDSHAKE_NMETHODS, HANDSHAKE_METHODS, HANDSHAKE_DONE]) \<and>
    \<not> no_auth p' \<and> user_pass_auth p'"
  using handshake_accepts [of "the (handshake_parser_init True True)" "[1, 2]" 2]
  by (auto simp: handshake_parser_init_def)

text \<open>
  One unknown method refuses the whole offer.  If the client offers a method that is
  neither 0, 1 nor 2, the parser reports an error at that method even when
  acceptable methods precede or follow it, instead of passing it over.
\<close>

theorem handshake_unknown_method:
  assumes init: "handshake_parser_init True True = Some p"
    and ms: "set ms \<subseteq> {0, 1, 2}" "m \<notin> {0, 1, 2, 255}" and n: "length ms < unat n" "n \<noteq> 255"
  shows "\<exists>p' ss. feeds handshake_parser_feed p (5 # n # ms @ [m]) = Inr (p', ss @ [HANDSHAKE_ERROR])"
proof -
  let ?bs = "5 # n # ms @ [m]"
  have "255 \<notin> set ?bs" using ms n by auto
  moreover have "length ?bs \<le> 257" using n unat_byte_le [of n] by simp
  ultimately obtain p' where "feeds handshake_parser_feed p ?bs =
      Inr (p', map (\<lambda>k. greeting_status (take k ?bs)) [1..<Suc (length ?bs)])"
    using handshake_feeds_init [OF init] by blast
  moreover have "map (\<lambda>k. greeting_status (take k ?bs)) [1..<Suc (length ?bs)] =
      map (\<lambda>k. greeting_status (take k ?bs)) [1..<length ?bs] @ [greeting_status ?bs]"
    by (simp del: upt_Suc add: upt_Suc_append)
  moreover have "greeting_status ?bs = HANDSHAKE_ERROR"
    using ms(2) by (auto simp: greeting_status_def)
  ultimately show ?thesis by metis
qed

theorem handshake_unknown_method_witness:
  "\<exists>p' ss. feeds handshake_parser_feed (the (handshake_parser_init True True)) [5, 3, 0, 2, 0x80] =
     Inr (p', ss @ [HANDSHAKE_ERROR])"
  using handshake_unknown_method [of "the (handshake_parser_init True True)" "[0, 2]" "0x80" 3]
  by (simp add: handshake_parser_init_def)

end
