(* ===== verification/Auth_Parser.thy ===== *)
theory Auth_Parser
  imports Parser_Engine
begin

text \<open>
  The parser of the user and password message (RFC 1929) of
  \<open>src/src/server/socks5/parsers/auth_parser.c\<close>.  It is related to an abstract machine
  that collects the two fields as lists, and through it to the format of the message.
\<close>

section \<open>States, table and operations\<close>

datatype auth_state =
    AUTH_VERSION
  | AUTH_USERNAME_LEN
  | AUTH_USERNAME
  | AUTH_PASSWORD_LEN
  | AUTH_PASSWORD
  | AUTH_DONE
  | AUTH_ERROR

instantiation auth_state :: zero
begin
definition zero_auth_state :: auth_state where "zero_auth_state = AUTH_VERSION"
instance ..
end

definition SOCKS5_SUBNEGOTIATION_VERSION :: byte where "SOCKS5_SUBNEGOTIATION_VERSION = 0x01"

text \<open>The seven actions of the file differ only in the type they store.\<close>

definition auth_action ::
    "auth_state \<Rightarrow> auth_state parser_event \<Rightarrow> byte \<Rightarrow> auth_state parser_event" where
  "auth_action s ret c = ret\<lparr>ev_type := s, ev_n := 1, ev_data := (ev_data ret)[0 := c]\<rparr>"

definition auth_transition :: "int \<Rightarrow> auth_state \<Rightarrow> auth_state \<Rightarrow> auth_state transition" where
  "auth_transition when dest act =
     \<lparr>tr_when = when, tr_dest = dest, tr_act1 = auth_action act, tr_act2 = None\<rparr>"

definition auth_states :: "(auth_state \<times> auth_state transition list) list" where
  "auth_states =
    [(AUTH_VERSION,
        [auth_transition (uint SOCKS5_SUBNEGOTIATION_VERSION) AUTH_USERNAME_LEN AUTH_VERSION,
         auth_transition ANY AUTH_ERROR AUTH_ERROR]),
     (AUTH_USERNAME_LEN,
        [auth_transition 0x00 AUTH_ERROR AUTH_ERROR,
         auth_transition ANY AUTH_USERNAME AUTH_USERNAME_LEN]),
     (AUTH_USERNAME, [auth_transition ANY AUTH_USERNAME AUTH_USERNAME]),
     (AUTH_PASSWORD_LEN,
        [auth_transition 0x00 AUTH_ERROR AUTH_ERROR,
         auth_transition ANY AUTH_PASSWORD AUTH_PASSWORD_LEN]),
     (AUTH_PASSWORD, [auth_transition ANY AUTH_PASSWORD AUTH_PASSWORD]),
     (AUTH_DONE, [auth_transition ANY AUTH_DONE AUTH_DONE]),
     (AUTH_ERROR, [auth_transition ANY AUTH_ERROR AUTH_ERROR])]"

definition auth_parser_definition :: "auth_state parser_definition" where
  "auth_parser_definition =
     \<lparr>def_states = auth_states,
      def_states_n = map (\<lambda>(s, ts). (s, length ts)) auth_states,
      def_start = AUTH_VERSION\<rparr>"

record auth_parser =
  ap_parser :: "auth_state parser option"
  username_len :: byte
  username_count :: byte
  username :: "byte list"
  password_len :: byte
  password_count :: byte
  password :: "byte list"

text \<open>
  \<open>malloc\<close> does not clear the two arrays: \<open>u0\<close> and \<open>w0\<close> are what they hold.
\<close>

definition auth_parser_init :: "bool \<Rightarrow> bool \<Rightarrow> byte list \<Rightarrow> byte list \<Rightarrow> auth_parser option" where
  "auth_parser_init alloc1 alloc2 u0 w0 =
     (if alloc1
      then Some \<lparr>ap_parser = parser_init alloc2 parser_no_classes auth_parser_definition,
                 username_len = 0, username_count = 0, username = take MAX_USERNAME_LEN u0,
                 password_len = 0, password_count = 0, password = take MAX_PASSWORD_LEN w0\<rparr>
      else None)"

text \<open>Closing releases the memory of the parser, which is not tracked, after a look at it.\<close>

fun auth_parser_close :: "auth_parser option \<Rightarrow> unit res" where
  "auth_parser_close None = Inl Null_Deref"
| "auth_parser_close (Some p) = Inr ()"

definition auth_parser_feed :: "auth_parser \<Rightarrow> byte \<Rightarrow> (auth_parser \<times> auth_state) res" where
  "auth_parser_feed p byte =
     (case ap_parser p of
        None \<Rightarrow> Inl Null_Deref
      | Some motor \<Rightarrow>
          bind_res (parser_feed motor byte) (\<lambda>(motor', e).
          let p = p\<lparr>ap_parser := Some motor'\<rparr>; d = ev_data e ! 0 in
          case ev_type e of
            AUTH_USERNAME_LEN \<Rightarrow> Inr (p\<lparr>username_len := d\<rparr>, ev_type e)
          | AUTH_USERNAME \<Rightarrow>
              bind_res (mem_put (username p) (unat (username_count p)) d) (\<lambda>u.
              let p = p\<lparr>username := u, username_count := username_count p + 1\<rparr>
              in if username_count p \<ge> username_len p
                 then let p = p\<lparr>ap_parser := Some (parser_set motor' AUTH_PASSWORD_LEN)\<rparr>
                      in bind_res (mem_put (username p) (unat (username_count p)) 0) (\<lambda>u'.
                         Inr (p\<lparr>username := u'\<rparr>, AUTH_PASSWORD_LEN))
                 else Inr (p, ev_type e))
          | AUTH_PASSWORD_LEN \<Rightarrow> Inr (p\<lparr>password_len := d\<rparr>, ev_type e)
          | AUTH_PASSWORD \<Rightarrow>
              bind_res (mem_put (password p) (unat (password_count p)) d) (\<lambda>w.
              let p = p\<lparr>password := w, password_count := password_count p + 1\<rparr>
              in if password_count p \<ge> password_len p
                 then bind_res (mem_put (password p) (unat (password_count p)) 0) (\<lambda>w'.
                      Inr (p\<lparr>password := w', ap_parser := Some (parser_set motor' AUTH_DONE)\<rparr>,
                           AUTH_DONE))
                 else Inr (p, ev_type e))
          | _ \<Rightarrow> Inr (p, ev_type e)))"

section \<open>One byte of the motor\<close>

lemmas auth_table =
  auth_parser_definition_def auth_states_def auth_transition_def
  transition_matches_def ANY_def SOCKS5_SUBNEGOTIATION_VERSION_def

lemma auth_table_wf: "table_wf auth_parser_definition"
  by (simp add: table_wf_def row_wf_def auth_table)

lemma auth_state_in_table: "map_of (def_states auth_parser_definition) s \<noteq> None"
  by (cases s) (simp_all add: auth_table)

fun auth_next :: "auth_state \<Rightarrow> byte \<Rightarrow> auth_state \<times> auth_state" where
  "auth_next AUTH_VERSION c =
     (if c = 1 then (AUTH_USERNAME_LEN, AUTH_VERSION) else (AUTH_ERROR, AUTH_ERROR))"
| "auth_next AUTH_USERNAME_LEN c =
     (if c = 0 then (AUTH_ERROR, AUTH_ERROR) else (AUTH_USERNAME, AUTH_USERNAME_LEN))"
| "auth_next AUTH_PASSWORD_LEN c =
     (if c = 0 then (AUTH_ERROR, AUTH_ERROR) else (AUTH_PASSWORD, AUTH_PASSWORD_LEN))"
| "auth_next s c = (s, s)"

lemma auth_motor:
  assumes "motor_ok auth_parser_definition m" "c \<noteq> 255"
  shows "\<exists>m' e. parser_feed m c = Inr (m', e) \<and> motor_ok auth_parser_definition m' \<and>
     p_state m' = fst (auth_next (p_state m) c) \<and>
     ev_type e = snd (auth_next (p_state m) c) \<and> ev_data e ! 0 = c"
  using assms
  by (cases "p_state m")
     (auto simp: parser_feed_def motor_ok_def no_classes_get lookup_row_def Let_def auth_table
       auth_action_def uint_byte_eqs)

section \<open>The abstract machine\<close>

text \<open>
  What has been received, with the fields as lists: the announced length and the bytes of
  the field so far.
\<close>

datatype auth_view =
    AV_Start
  | AV_Ulen
  | AV_User nat "byte list"
  | AV_Plen "byte list"
  | AV_Pass "byte list" nat "byte list"
  | AV_Done "byte list" "byte list"
  | AV_Err

fun auth_view_step :: "auth_view \<Rightarrow> byte \<Rightarrow> auth_view \<times> auth_state" where
  "auth_view_step AV_Start c =
     (if c = 1 then (AV_Ulen, AUTH_VERSION) else (AV_Err, AUTH_ERROR))"
| "auth_view_step AV_Ulen c =
     (if c = 0 then (AV_Err, AUTH_ERROR) else (AV_User (unat c) [], AUTH_USERNAME_LEN))"
| "auth_view_step (AV_User n u) c =
     (if n \<le> Suc (length u) then (AV_Plen (u @ [c]), AUTH_PASSWORD_LEN)
      else (AV_User n (u @ [c]), AUTH_USERNAME))"
| "auth_view_step (AV_Plen u) c =
     (if c = 0 then (AV_Err, AUTH_ERROR) else (AV_Pass u (unat c) [], AUTH_PASSWORD_LEN))"
| "auth_view_step (AV_Pass u n w) c =
     (if n \<le> Suc (length w) then (AV_Done u (w @ [c]), AUTH_DONE)
      else (AV_Pass u n (w @ [c]), AUTH_PASSWORD))"
| "auth_view_step (AV_Done u w) c = (AV_Done u w, AUTH_DONE)"
| "auth_view_step AV_Err c = (AV_Err, AUTH_ERROR)"

fun auth_view_run :: "auth_view \<Rightarrow> byte list \<Rightarrow> auth_view \<times> auth_state list" where
  "auth_view_run v [] = (v, [])"
| "auth_view_run v (c # cs) =
     (let (v', s) = auth_view_step v c; (v'', ss) = auth_view_run v' cs in (v'', s # ss))"

definition auth_rel :: "auth_view \<Rightarrow> auth_parser \<Rightarrow> bool" where
  "auth_rel v p \<longleftrightarrow>
     (\<exists>m. ap_parser p = Some m \<and> motor_ok auth_parser_definition m \<and>
        length (username p) = 256 \<and> length (password p) = 256 \<and>
        (case v of
           AV_Start \<Rightarrow> p_state m = AUTH_VERSION \<and> username_count p = 0 \<and> password_count p = 0
         | AV_Ulen \<Rightarrow> p_state m = AUTH_USERNAME_LEN \<and> username_count p = 0 \<and> password_count p = 0
         | AV_User n u \<Rightarrow> p_state m = AUTH_USERNAME \<and> unat (username_len p) = n \<and> length u < n \<and>
             unat (username_count p) = length u \<and> field_in (username p) u \<and> password_count p = 0
         | AV_Plen u \<Rightarrow> p_state m = AUTH_PASSWORD_LEN \<and> field_closed (username p) u \<and>
             password_count p = 0
         | AV_Pass u n w \<Rightarrow> p_state m = AUTH_PASSWORD \<and> field_closed (username p) u \<and>
             unat (password_len p) = n \<and> length w < n \<and>
             unat (password_count p) = length w \<and> field_in (password p) w
         | AV_Done u w \<Rightarrow> p_state m = AUTH_DONE \<and> field_closed (username p) u \<and>
             field_closed (password p) w
         | AV_Err \<Rightarrow> p_state m = AUTH_ERROR))"

lemma auth_rel_init:
  "auth_parser_init True True u0 w0 = Some p \<Longrightarrow> 256 \<le> length u0 \<Longrightarrow> 256 \<le> length w0 \<Longrightarrow>
     auth_rel AV_Start p"
  by (auto simp: auth_parser_init_def auth_rel_def parser_init_def motor_ok_def
      zero_event_def auth_table MAX_USERNAME_LEN_def MAX_PASSWORD_LEN_def)

text \<open>The parser simulates the abstract machine, byte for byte and status for status.\<close>

lemma auth_step:
  assumes rel: "auth_rel v p" and c: "c \<noteq> 255"
  shows "\<exists>p'. auth_parser_feed p c = Inr (p', snd (auth_view_step v c)) \<and>
     auth_rel (fst (auth_view_step v c)) p'"
proof -
  from rel obtain m where m: "ap_parser p = Some m" "motor_ok auth_parser_definition m"
      and len: "length (username p) = 256" "length (password p) = 256"
    by (auto simp: auth_rel_def)
  obtain m' e where step: "parser_feed m c = Inr (m', e)" "motor_ok auth_parser_definition m'"
      "p_state m' = fst (auth_next (p_state m) c)"
      "ev_type e = snd (auth_next (p_state m) c)" "ev_data e ! 0 = c"
    using auth_motor [OF m(2) c] by blast
  show ?thesis
  proof (cases v)
    case (AV_User n u)
    let ?k = "length u"
    from rel AV_User m have st: "p_state m = AUTH_USERNAME" "unat (username_len p) = n" "?k < n"
        "unat (username_count p) = ?k" "field_in (username p) u" "password_count p = 0"
      by (auto simp: auth_rel_def)
    have k: "Suc ?k < 256" using st(2,3) unat_byte_le [of "username_len p"] by linarith
    have inc: "unat (username_count p + 1) = Suc ?k" using st(4) k by (simp add: unat_inc_byte)
    have cmp: "username_len p \<le> username_count p + 1 \<longleftrightarrow> n \<le> Suc ?k"
      using inc st(2) by (simp add: word_le_nat_alt)
    have fld: "field_in ((username p)[?k := c]) (u @ [c])"
      using field_in_snoc [OF st(5)] len k by simp
    have cls: "field_closed ((username p)[?k := c, Suc ?k := 0]) (u @ [c])"
      using field_closed_put [OF fld] by simp
    show ?thesis
      using AV_User st m step k inc cmp fld cls len
      by (auto simp: auth_parser_feed_def auth_rel_def Let_def motor_ok_set auth_state_in_table
          simp del: map_of_eq_None_iff)
  next
    case (AV_Pass u n w)
    let ?k = "length w"
    from rel AV_Pass m have st: "p_state m = AUTH_PASSWORD" "field_closed (username p) u"
        "unat (password_len p) = n" "?k < n" "unat (password_count p) = ?k" "field_in (password p) w"
      by (auto simp: auth_rel_def)
    have k: "Suc ?k < 256" using st(3,4) unat_byte_le [of "password_len p"] by linarith
    have inc: "unat (password_count p + 1) = Suc ?k" using st(5) k by (simp add: unat_inc_byte)
    have cmp: "password_len p \<le> password_count p + 1 \<longleftrightarrow> n \<le> Suc ?k"
      using inc st(3) by (simp add: word_le_nat_alt)
    have fld: "field_in ((password p)[?k := c]) (w @ [c])"
      using field_in_snoc [OF st(6)] len k by simp
    have cls: "field_closed ((password p)[?k := c, Suc ?k := 0]) (w @ [c])"
      using field_closed_put [OF fld] by simp
    show ?thesis
      using AV_Pass st m step k inc cmp fld cls len
      by (auto simp: auth_parser_feed_def auth_rel_def Let_def motor_ok_set auth_state_in_table
          simp del: map_of_eq_None_iff)
  qed (use rel m step in \<open>auto simp: auth_parser_feed_def auth_rel_def field_in_def
         unat_gt_0 simp del: map_of_eq_None_iff split: if_splits\<close>)
qed

definition auth_parser_ok :: "auth_parser \<Rightarrow> bool" where
  "auth_parser_ok p \<longleftrightarrow> (\<exists>v. auth_rel v p)"

lemma auth_255: "auth_parser_ok p \<Longrightarrow> auth_parser_feed p 255 = Inl Out_Of_Bounds"
  by (auto simp: auth_parser_ok_def auth_rel_def auth_parser_feed_def motor_255)

interpretation au: byte_parser auth_parser_ok auth_parser_feed
proof unfold_locales
  fix p c assume "auth_parser_ok p" "(c :: byte) \<noteq> 255"
  then show "\<exists>p' s. auth_parser_feed p c = Inr (p', s) \<and> auth_parser_ok p'"
    using auth_step unfolding auth_parser_ok_def by blast
qed (rule auth_255)

lemma auth_feeds_view:
  "auth_rel v p \<Longrightarrow> 255 \<notin> set cs \<Longrightarrow>
     \<exists>p'. feeds auth_parser_feed p cs = Inr (p', snd (auth_view_run v cs)) \<and>
          auth_rel (fst (auth_view_run v cs)) p'"
proof (induction cs arbitrary: v p)
  case Nil
  then show ?case by simp
next
  case (Cons c cs)
  obtain v' s where vs: "auth_view_step v c = (v', s)" by fastforce
  with Cons.prems obtain p' where p': "auth_parser_feed p c = Inr (p', s)" "auth_rel v' p'"
    using auth_step [of v p c] by auto
  from Cons.IH [OF p'(2)] Cons.prems p' vs show ?case
    by (auto simp: Let_def split: prod.splits)
qed

section \<open>The message\<close>

definition encode_auth :: "byte list \<Rightarrow> byte list \<Rightarrow> byte list" where
  "encode_auth u w = 1 # of_nat (length u) # u @ of_nat (length w) # w"

lemma auth_view_run_append:
  "auth_view_run v (xs @ ys) =
     (let (v', ss) = auth_view_run v xs; (v'', ts) = auth_view_run v' ys in (v'', ss @ ts))"
  by (induction xs arbitrary: v) (auto simp: Let_def split: prod.splits)

lemma view_run_user:
  "xs \<noteq> [] \<Longrightarrow> n = length u + length xs \<Longrightarrow>
     auth_view_run (AV_User n u) xs =
       (AV_Plen (u @ xs), replicate (length xs - 1) AUTH_USERNAME @ [AUTH_PASSWORD_LEN])"
proof (induction xs arbitrary: u)
  case (Cons x xs)
  show ?case
  proof (cases "xs = []")
    case False
    with Cons.IH [of "u @ [x]"] Cons.prems show ?thesis by (cases xs) auto
  qed (use Cons.prems in simp)
qed simp

lemma view_run_pass:
  "xs \<noteq> [] \<Longrightarrow> n = length w + length xs \<Longrightarrow>
     auth_view_run (AV_Pass u n w) xs =
       (AV_Done u (w @ xs), replicate (length xs - 1) AUTH_PASSWORD @ [AUTH_DONE])"
proof (induction xs arbitrary: w)
  case (Cons x xs)
  show ?case
  proof (cases "xs = []")
    case False
    with Cons.IH [of "w @ [x]"] Cons.prems show ?thesis by (cases xs) auto
  qed (use Cons.prems in simp)
qed simp

definition auth_field_ok :: "byte list \<Rightarrow> bool" where
  "auth_field_ok xs \<longleftrightarrow> 0 < length xs \<and> length xs < 255 \<and> 255 \<notin> set xs"

definition auth_statuses :: "byte list \<Rightarrow> byte list \<Rightarrow> auth_state list" where
  "auth_statuses u w =
     AUTH_VERSION # AUTH_USERNAME_LEN #
     replicate (length u - 1) AUTH_USERNAME @ [AUTH_PASSWORD_LEN, AUTH_PASSWORD_LEN] @
     replicate (length w - 1) AUTH_PASSWORD @ [AUTH_DONE]"

lemma view_run_encode:
  assumes "auth_field_ok u" "auth_field_ok w"
  shows "auth_view_run AV_Start (encode_auth u w) = (AV_Done u w, auth_statuses u w)"
proof -
  have u: "unat (of_nat (length u) :: byte) = length u" "(of_nat (length u) :: byte) \<noteq> 0" "u \<noteq> []"
    and w: "unat (of_nat (length w) :: byte) = length w" "(of_nat (length w) :: byte) \<noteq> 0" "w \<noteq> []"
    using assms of_nat_byte_neq by (auto simp: auth_field_ok_def unat_of_nat_byte)
  then show ?thesis
    by (simp add: encode_auth_def auth_statuses_def auth_view_run_append view_run_user
        view_run_pass)
qed

text \<open>
  What a view has consumed, as the message it is a prefix of.  It is only lost in the error
  state and after the end of the message.
\<close>

fun view_consumed :: "auth_view \<Rightarrow> byte list \<Rightarrow> bool" where
  "view_consumed AV_Start bs \<longleftrightarrow> bs = []"
| "view_consumed AV_Ulen bs \<longleftrightarrow> bs = [1]"
| "view_consumed (AV_User n u) bs \<longleftrightarrow> bs = 1 # of_nat n # u \<and> length u < n \<and> n < 256"
| "view_consumed (AV_Plen u) bs \<longleftrightarrow>
     bs = 1 # of_nat (length u) # u \<and> 0 < length u \<and> length u < 256"
| "view_consumed (AV_Pass u n w) bs \<longleftrightarrow>
     bs = 1 # of_nat (length u) # u @ of_nat n # w \<and> 0 < length u \<and> length u < 256 \<and>
     length w < n \<and> n < 256"
| "view_consumed (AV_Done u w) bs \<longleftrightarrow>
     (\<exists>ys. bs = encode_auth u w @ ys) \<and> 0 < length u \<and> length u < 256 \<and>
     0 < length w \<and> length w < 256"
| "view_consumed AV_Err bs \<longleftrightarrow> True"

lemma view_consumed_step:
  "view_consumed v bs \<Longrightarrow> view_consumed (fst (auth_view_step v c)) (bs @ [c])"
proof (cases v)
  case (AV_User n u)
  assume "view_consumed v bs"
  with AV_User show ?thesis
    by (cases "n = Suc (length u)") auto
next
  case (AV_Pass u n w)
  assume "view_consumed v bs"
  with AV_Pass show ?thesis
    by (cases "n = Suc (length w)") (auto simp: encode_auth_def)
qed (auto simp: encode_auth_def unat_gt_0 unat_byte_less)

lemma view_consumed_run: "view_consumed v bs \<Longrightarrow> view_consumed (fst (auth_view_run v cs)) (bs @ cs)"
proof (induction cs arbitrary: v bs)
  case (Cons c cs)
  from Cons.IH [OF view_consumed_step [OF Cons.prems, of c]] show ?case
    by (auto simp: Let_def split: prod.splits)
qed simp

text \<open>A complete login: the statuses of its bytes and the fields the parser then holds.\<close>

lemma login_feeds:
  assumes rel: "auth_rel AV_Start p" and fields: "auth_field_ok u" "auth_field_ok w"
  shows "\<exists>p'. feeds auth_parser_feed p (encode_auth u w) = Inr (p', auth_statuses u w) \<and>
     field_closed (username p') u \<and> field_closed (password p') w"
proof -
  have "255 \<notin> set (encode_auth u w)"
    using fields of_nat_byte_neq by (auto simp: encode_auth_def auth_field_ok_def)
  from auth_feeds_view [OF rel this] view_run_encode [OF fields]
  show ?thesis by (auto simp: auth_rel_def)
qed

section \<open>Properties\<close>

text \<open>
  C24: credentials survive the wire.  The message built from a user name and a password of
  1 to 254 bytes each (none of them 255) is accepted at its last byte and not earlier, and
  the parser then holds the two fields, each at the front of its array and closed by a zero.  (A byte 255, and the
  length of a field of 255 bytes, make the parser read past its array of classes.)
\<close>

theorem auth_roundtrip:
  assumes init: "auth_parser_init True True u0 w0 = Some p" "256 \<le> length u0" "256 \<le> length w0"
    and fields: "auth_field_ok u" "auth_field_ok w"
  shows "\<exists>p'. feeds auth_parser_feed p (encode_auth u w) = Inr (p', auth_statuses u w) \<and>
     field_closed (username p') u \<and> field_closed (password p') w"
  by (rule login_feeds [OF auth_rel_init [OF init] fields])

theorem auth_roundtrip_witness:
  "\<exists>p'. feeds auth_parser_feed (the (auth_parser_init True True (replicate 256 9) (replicate 256 9)))
        [1, 2, 97, 98, 1, 99] =
      Inr (p', [AUTH_VERSION, AUTH_USERNAME_LEN, AUTH_USERNAME, AUTH_PASSWORD_LEN,
                AUTH_PASSWORD_LEN, AUTH_DONE]) \<and>
     field_closed (username p') [97, 98] \<and> field_closed (password p') [99]"
  using auth_roundtrip [of "replicate 256 9" "replicate 256 9"
      "the (auth_parser_init True True (replicate 256 9) (replicate 256 9))" "[97, 98]" "[99]"]
  by (simp add: auth_parser_init_def auth_field_ok_def encode_auth_def auth_statuses_def)

text \<open>
  Only a well-formed message is accepted.  Whatever bytes arrive, if the parser reports
  the end of the message then the bytes received begin with the encoding of a non-empty
  user name and a non-empty password, and these are the fields it holds.
\<close>

theorem auth_accepts_only_messages:
  assumes init: "auth_parser_init True True u0 w0 = Some p" "256 \<le> length u0" "256 \<le> length w0"
    and bs: "255 \<notin> set bs" and fed: "feeds auth_parser_feed p bs = Inr (p', ss @ [AUTH_DONE])"
  shows "\<exists>u w ys. bs = encode_auth u w @ ys \<and> u \<noteq> [] \<and> w \<noteq> [] \<and>
     field_closed (username p') u \<and> field_closed (password p') w"
proof -
  obtain q where q: "feeds auth_parser_feed p bs = Inr (q, snd (auth_view_run AV_Start bs))"
      "auth_rel (fst (auth_view_run AV_Start bs)) q"
    using auth_feeds_view [OF auth_rel_init [OF init] bs] by blast
  from fed feeds_length have "bs \<noteq> []" by fastforce
  then obtain cs c where bsc: "bs = cs @ [c]" by (cases bs rule: rev_cases) auto
  obtain v ts where v: "auth_view_run AV_Start cs = (v, ts)" by fastforce
  have "snd (auth_view_step v c) = AUTH_DONE"
    using fed q bsc v by (auto simp: auth_view_run_append Let_def split: prod.splits)
  then obtain u w where fin: "fst (auth_view_step v c) = AV_Done u w"
    by (cases v) (auto split: if_splits)
  then have run: "fst (auth_view_run AV_Start bs) = AV_Done u w"
    using bsc v by (auto simp: auth_view_run_append Let_def split: prod.splits)
  have "view_consumed (fst (auth_view_run AV_Start bs)) ([] @ bs)"
    by (rule view_consumed_run) simp
  with run q fed show ?thesis by (auto simp: auth_rel_def)
qed

theorem auth_accepts_only_messages_witness:
  "\<exists>u w ys. [1, 1, 97, 1, 99, 7] = encode_auth u w @ ys \<and> u \<noteq> [] \<and> w \<noteq> []"
proof -
  let ?p = "the (auth_parser_init True True (replicate 256 9) (replicate 256 9))"
  have "auth_parser_init True True (replicate 256 9) (replicate 256 9) = Some ?p"
    by (simp add: auth_parser_init_def)
  moreover from auth_feeds_view [OF auth_rel_init [OF this], of "[1, 1, 97, 1, 99, 7]"]
  obtain p' where "feeds auth_parser_feed ?p [1, 1, 97, 1, 99, 7] =
      Inr (p', [AUTH_VERSION, AUTH_USERNAME_LEN, AUTH_PASSWORD_LEN, AUTH_PASSWORD_LEN, AUTH_DONE] @ [AUTH_DONE])"
    by auto
  ultimately show ?thesis
    using auth_accepts_only_messages [of "replicate 256 9" "replicate 256 9" ?p
        "[1, 1, 97, 1, 99, 7]" p'] by auto
qed

end
