(* ===== verification/Conn_Req_Parser.thy ===== *)
theory Conn_Req_Parser
  imports Parser_Engine
begin

text \<open>
  The parser of the SOCKS5 connection request (RFC 1928) of
  \<open>src/src/server/socks5/parsers/conn_req_parser.c\<close>: version, command, reserved byte,
  address type, destination address and port.  As for the other message, the parser is
  related to an abstract machine over lists and through it to the format.
\<close>

section \<open>States, table and operations\<close>

datatype conn_req_parser_state =
    CONN_REQ_VERSION
  | CONN_REQ_CMD
  | CONN_REQ_RSV
  | CONN_REQ_ATYP
  | CONN_REQ_DOM_LEN
  | CONN_REQ_DST_ADDR
  | CONN_REQ_DST_PORT_BYTE1
  | CONN_REQ_DST_PORT_BYTE2
  | CONN_REQ_DONE
  | CONN_REQ_ERROR

instantiation conn_req_parser_state :: zero
begin
definition zero_conn_req_parser_state :: conn_req_parser_state where
  "zero_conn_req_parser_state = CONN_REQ_VERSION"
instance ..
end

definition SOCKS5_CONN_REQ_CMD_CONNECT :: byte where "SOCKS5_CONN_REQ_CMD_CONNECT = 0x01"
definition SOCKS5_CONN_REQ_CMD_BIND :: byte where "SOCKS5_CONN_REQ_CMD_BIND = 0x02"
definition SOCKS5_CONN_REQ_CMD_UDP_ASSOCIATE :: byte where
  "SOCKS5_CONN_REQ_CMD_UDP_ASSOCIATE = 0x03"
definition SOCKS5_CONN_REQ_RSV :: byte where "SOCKS5_CONN_REQ_RSV = 0x00"
definition SOCKS5_CONN_REQ_ATYP_IPV4 :: byte where "SOCKS5_CONN_REQ_ATYP_IPV4 = 0x01"
definition SOCKS5_CONN_REQ_ATYP_DOMAIN_NAME :: byte where
  "SOCKS5_CONN_REQ_ATYP_DOMAIN_NAME = 0x03"
definition SOCKS5_CONN_REQ_ATYP_IPV6 :: byte where "SOCKS5_CONN_REQ_ATYP_IPV6 = 0x04"

text \<open>The version byte of this message has the value the greeting uses.\<close>

definition CONN_REQ_SOCKS5_VERSION :: byte where "CONN_REQ_SOCKS5_VERSION = 0x05"

lemmas conn_req_constants =
  SOCKS5_CONN_REQ_CMD_CONNECT_def SOCKS5_CONN_REQ_CMD_BIND_def
  SOCKS5_CONN_REQ_CMD_UDP_ASSOCIATE_def SOCKS5_CONN_REQ_RSV_def
  SOCKS5_CONN_REQ_ATYP_IPV4_def SOCKS5_CONN_REQ_ATYP_DOMAIN_NAME_def
  SOCKS5_CONN_REQ_ATYP_IPV6_def CONN_REQ_SOCKS5_VERSION_def

text \<open>The ten actions of the file differ only in the type they store.\<close>

definition conn_req_action ::
    "conn_req_parser_state \<Rightarrow> conn_req_parser_state parser_event \<Rightarrow> byte \<Rightarrow>
       conn_req_parser_state parser_event" where
  "conn_req_action s ret c = ret\<lparr>ev_type := s, ev_n := 1, ev_data := (ev_data ret)[0 := c]\<rparr>"

definition conn_req_transition ::
    "int \<Rightarrow> conn_req_parser_state \<Rightarrow> conn_req_parser_state \<Rightarrow>
       conn_req_parser_state transition" where
  "conn_req_transition when dest act =
     \<lparr>tr_when = when, tr_dest = dest, tr_act1 = conn_req_action act, tr_act2 = None\<rparr>"

definition conn_req_states ::
    "(conn_req_parser_state \<times> conn_req_parser_state transition list) list" where
  "conn_req_states =
    [(CONN_REQ_VERSION,
        [conn_req_transition (uint CONN_REQ_SOCKS5_VERSION) CONN_REQ_CMD CONN_REQ_VERSION,
         conn_req_transition ANY CONN_REQ_ERROR CONN_REQ_ERROR]),
     (CONN_REQ_CMD,
        [conn_req_transition (uint SOCKS5_CONN_REQ_CMD_CONNECT) CONN_REQ_RSV CONN_REQ_CMD,
         conn_req_transition (uint SOCKS5_CONN_REQ_CMD_BIND) CONN_REQ_RSV CONN_REQ_CMD,
         conn_req_transition (uint SOCKS5_CONN_REQ_CMD_UDP_ASSOCIATE) CONN_REQ_RSV CONN_REQ_CMD,
         conn_req_transition ANY CONN_REQ_ERROR CONN_REQ_ERROR]),
     (CONN_REQ_RSV,
        [conn_req_transition (uint SOCKS5_CONN_REQ_RSV) CONN_REQ_ATYP CONN_REQ_RSV,
         conn_req_transition ANY CONN_REQ_ERROR CONN_REQ_ERROR]),
     (CONN_REQ_ATYP,
        [conn_req_transition (uint SOCKS5_CONN_REQ_ATYP_IPV4) CONN_REQ_DST_ADDR CONN_REQ_ATYP,
         conn_req_transition (uint SOCKS5_CONN_REQ_ATYP_DOMAIN_NAME) CONN_REQ_DOM_LEN CONN_REQ_ATYP,
         conn_req_transition (uint SOCKS5_CONN_REQ_ATYP_IPV6) CONN_REQ_DST_ADDR CONN_REQ_ATYP,
         conn_req_transition ANY CONN_REQ_ERROR CONN_REQ_ERROR]),
     (CONN_REQ_DOM_LEN, [conn_req_transition ANY CONN_REQ_DST_ADDR CONN_REQ_DOM_LEN]),
     (CONN_REQ_DST_ADDR, [conn_req_transition ANY CONN_REQ_DST_ADDR CONN_REQ_DST_ADDR]),
     (CONN_REQ_DST_PORT_BYTE1,
        [conn_req_transition ANY CONN_REQ_DST_PORT_BYTE2 CONN_REQ_DST_PORT_BYTE1]),
     (CONN_REQ_DST_PORT_BYTE2, [conn_req_transition ANY CONN_REQ_DONE CONN_REQ_DST_PORT_BYTE2]),
     (CONN_REQ_DONE, [conn_req_transition ANY CONN_REQ_DONE CONN_REQ_DONE]),
     (CONN_REQ_ERROR, [conn_req_transition ANY CONN_REQ_ERROR CONN_REQ_ERROR])]"

definition conn_req_parser_definition :: "conn_req_parser_state parser_definition" where
  "conn_req_parser_definition =
     \<lparr>def_states = conn_req_states,
      def_states_n = map (\<lambda>(s, ts). (s, length ts)) conn_req_states,
      def_start = CONN_REQ_VERSION\<rparr>"

record conn_req_parser =
  cp_parser :: "conn_req_parser_state parser option"
  cp_cmd :: byte
  cp_atyp :: byte
  dst_addr_len :: byte
  dst_addr :: "byte list"
  dst_addr_count :: byte
  dst_port :: "16 word"

text \<open>\<open>a0\<close> is what the uncleared array of 256 bytes holds.\<close>

definition conn_req_parser_init :: "bool \<Rightarrow> bool \<Rightarrow> byte list \<Rightarrow> conn_req_parser option" where
  "conn_req_parser_init alloc1 alloc2 a0 =
     (if alloc1
      then Some \<lparr>cp_parser = parser_init alloc2 parser_no_classes conn_req_parser_definition,
                 cp_cmd = 0, cp_atyp = 0, dst_addr_len = 0, dst_addr = take 256 a0,
                 dst_addr_count = 0, dst_port = 0\<rparr>
      else None)"

text \<open>Closing releases the memory of the parser, which is not tracked, after a look at it.\<close>

fun conn_req_parser_close :: "conn_req_parser option \<Rightarrow> unit res" where
  "conn_req_parser_close None = Inl Null_Deref"
| "conn_req_parser_close (Some p) = Inr ()"

definition conn_req_parser_feed ::
    "conn_req_parser \<Rightarrow> byte \<Rightarrow> (conn_req_parser \<times> conn_req_parser_state) res" where
  "conn_req_parser_feed p byte =
     (case cp_parser p of
        None \<Rightarrow> Inl Null_Deref
      | Some motor \<Rightarrow>
          bind_res (parser_feed motor byte) (\<lambda>(motor', e).
          let p = p\<lparr>cp_parser := Some motor'\<rparr>; d = ev_data e ! 0 in
          case ev_type e of
            CONN_REQ_CMD \<Rightarrow> Inr (p\<lparr>cp_cmd := d\<rparr>, ev_type e)
          | CONN_REQ_ATYP \<Rightarrow>
              (let p = p\<lparr>cp_atyp := d\<rparr>
               in if cp_atyp p = SOCKS5_CONN_REQ_ATYP_IPV4 then Inr (p\<lparr>dst_addr_len := 4\<rparr>, ev_type e)
                  else if cp_atyp p = SOCKS5_CONN_REQ_ATYP_DOMAIN_NAME then Inr (p, ev_type e)
                  else if cp_atyp p = SOCKS5_CONN_REQ_ATYP_IPV6
                  then Inr (p\<lparr>dst_addr_len := 16\<rparr>, ev_type e)
                  else Inr (p, CONN_REQ_ERROR))
          | CONN_REQ_DOM_LEN \<Rightarrow> Inr (p\<lparr>dst_addr_len := d\<rparr>, ev_type e)
          | CONN_REQ_DST_ADDR \<Rightarrow>
              bind_res (mem_put (dst_addr p) (unat (dst_addr_count p)) d) (\<lambda>a.
              let p = p\<lparr>dst_addr := a, dst_addr_count := dst_addr_count p + 1\<rparr>
              in if dst_addr_count p \<ge> dst_addr_len p
                 then bind_res (mem_put (dst_addr p) (unat (dst_addr_count p)) 0) (\<lambda>a'.
                      Inr (p\<lparr>dst_addr := a',
                             cp_parser := Some (parser_set motor' CONN_REQ_DST_PORT_BYTE1)\<rparr>,
                           CONN_REQ_DST_PORT_BYTE1))
                 else Inr (p, ev_type e))
          | CONN_REQ_DST_PORT_BYTE1 \<Rightarrow> Inr (p\<lparr>dst_port := ucast d\<rparr>, ev_type e)
          | CONN_REQ_DST_PORT_BYTE2 \<Rightarrow>
              Inr (p\<lparr>dst_port := or (push_bit 8 (dst_port p)) (ucast d)\<rparr>, CONN_REQ_DONE)
          | _ \<Rightarrow> Inr (p, ev_type e)))"

section \<open>One byte of the motor\<close>

lemmas conn_req_table =
  conn_req_parser_definition_def conn_req_states_def conn_req_transition_def
  transition_matches_def ANY_def conn_req_constants

lemma conn_req_table_wf: "table_wf conn_req_parser_definition"
  by (simp add: table_wf_def row_wf_def conn_req_table)

lemma conn_req_state_in_table: "map_of (def_states conn_req_parser_definition) s \<noteq> None"
  by (cases s) (simp_all add: conn_req_table)

fun conn_req_next ::
    "conn_req_parser_state \<Rightarrow> byte \<Rightarrow> conn_req_parser_state \<times> conn_req_parser_state" where
  "conn_req_next CONN_REQ_VERSION c =
     (if c = 5 then (CONN_REQ_CMD, CONN_REQ_VERSION) else (CONN_REQ_ERROR, CONN_REQ_ERROR))"
| "conn_req_next CONN_REQ_CMD c =
     (if c = 1 \<or> c = 2 \<or> c = 3 then (CONN_REQ_RSV, CONN_REQ_CMD) else (CONN_REQ_ERROR, CONN_REQ_ERROR))"
| "conn_req_next CONN_REQ_RSV c =
     (if c = 0 then (CONN_REQ_ATYP, CONN_REQ_RSV) else (CONN_REQ_ERROR, CONN_REQ_ERROR))"
| "conn_req_next CONN_REQ_ATYP c =
     (if c = 1 \<or> c = 4 then (CONN_REQ_DST_ADDR, CONN_REQ_ATYP)
      else if c = 3 then (CONN_REQ_DOM_LEN, CONN_REQ_ATYP) else (CONN_REQ_ERROR, CONN_REQ_ERROR))"
| "conn_req_next CONN_REQ_DOM_LEN c = (CONN_REQ_DST_ADDR, CONN_REQ_DOM_LEN)"
| "conn_req_next CONN_REQ_DST_PORT_BYTE1 c = (CONN_REQ_DST_PORT_BYTE2, CONN_REQ_DST_PORT_BYTE1)"
| "conn_req_next CONN_REQ_DST_PORT_BYTE2 c = (CONN_REQ_DONE, CONN_REQ_DST_PORT_BYTE2)"
| "conn_req_next s c = (s, s)"

lemma conn_req_motor:
  assumes "motor_ok conn_req_parser_definition m" "c \<noteq> 255"
  shows "\<exists>m' e. parser_feed m c = Inr (m', e) \<and> motor_ok conn_req_parser_definition m' \<and>
     p_state m' = fst (conn_req_next (p_state m) c) \<and>
     ev_type e = snd (conn_req_next (p_state m) c) \<and> ev_data e ! 0 = c"
  using assms
  by (cases "p_state m")
     (auto simp: parser_feed_def motor_ok_def no_classes_get lookup_row_def Let_def conn_req_table
       conn_req_action_def uint_byte_eqs)

section \<open>The abstract machine\<close>

text \<open>
  The request so far: command, address type, announced address length and address bytes,
  port bytes.
\<close>

datatype conn_view =
    CV_Start
  | CV_Cmd
  | CV_Rsv byte
  | CV_Atyp byte
  | CV_Dlen byte
  | CV_Addr byte byte nat "byte list"
  | CV_Port1 byte byte nat "byte list"
  | CV_Port2 byte byte nat "byte list" byte
  | CV_Done byte byte nat "byte list" byte byte
  | CV_Err

fun conn_view_step :: "conn_view \<Rightarrow> byte \<Rightarrow> conn_view \<times> conn_req_parser_state" where
  "conn_view_step CV_Start c = (if c = 5 then (CV_Cmd, CONN_REQ_VERSION) else (CV_Err, CONN_REQ_ERROR))"
| "conn_view_step CV_Cmd c =
     (if c \<in> {1, 2, 3} then (CV_Rsv c, CONN_REQ_CMD) else (CV_Err, CONN_REQ_ERROR))"
| "conn_view_step (CV_Rsv m) c = (if c = 0 then (CV_Atyp m, CONN_REQ_RSV) else (CV_Err, CONN_REQ_ERROR))"
| "conn_view_step (CV_Atyp m) c =
     (if c = 1 then (CV_Addr m c 4 [], CONN_REQ_ATYP)
      else if c = 3 then (CV_Dlen m, CONN_REQ_ATYP)
      else if c = 4 then (CV_Addr m c 16 [], CONN_REQ_ATYP)
      else (CV_Err, CONN_REQ_ERROR))"
| "conn_view_step (CV_Dlen m) c = (CV_Addr m 3 (unat c) [], CONN_REQ_DOM_LEN)"
| "conn_view_step (CV_Addr m t n a) c =
     (if n \<le> Suc (length a) then (CV_Port1 m t n (a @ [c]), CONN_REQ_DST_PORT_BYTE1)
      else (CV_Addr m t n (a @ [c]), CONN_REQ_DST_ADDR))"
| "conn_view_step (CV_Port1 m t n a) c = (CV_Port2 m t n a c, CONN_REQ_DST_PORT_BYTE1)"
| "conn_view_step (CV_Port2 m t n a hi) c = (CV_Done m t n a hi c, CONN_REQ_DONE)"
| "conn_view_step (CV_Done m t n a hi lo) c = (CV_Done m t n a hi lo, CONN_REQ_DONE)"
| "conn_view_step CV_Err c = (CV_Err, CONN_REQ_ERROR)"

fun conn_view_run :: "conn_view \<Rightarrow> byte list \<Rightarrow> conn_view \<times> conn_req_parser_state list" where
  "conn_view_run v [] = (v, [])"
| "conn_view_run v (c # cs) =
     (let (v', s) = conn_view_step v c; (v'', ss) = conn_view_run v' cs in (v'', s # ss))"

text \<open>What the parser holds once the address is complete.\<close>

definition holds_addr :: "conn_req_parser \<Rightarrow> byte \<Rightarrow> byte \<Rightarrow> nat \<Rightarrow> byte list \<Rightarrow> bool" where
  "holds_addr p m t n a \<longleftrightarrow> cp_cmd p = m \<and> cp_atyp p = t \<and> unat (dst_addr_len p) = n \<and>
     field_closed (dst_addr p) a"

definition port_value :: "byte \<Rightarrow> byte \<Rightarrow> nat" where
  "port_value hi lo = 256 * unat hi + unat lo"

definition conn_rel :: "conn_view \<Rightarrow> conn_req_parser \<Rightarrow> bool" where
  "conn_rel v p \<longleftrightarrow>
     (\<exists>q. cp_parser p = Some q \<and> motor_ok conn_req_parser_definition q \<and>
        length (dst_addr p) = 256 \<and>
        (case v of
           CV_Start \<Rightarrow> p_state q = CONN_REQ_VERSION \<and> dst_addr_count p = 0 \<and> dst_addr_len p = 0
         | CV_Cmd \<Rightarrow> p_state q = CONN_REQ_CMD \<and> dst_addr_count p = 0 \<and> dst_addr_len p = 0
         | CV_Rsv m \<Rightarrow> p_state q = CONN_REQ_RSV \<and> dst_addr_count p = 0 \<and> dst_addr_len p = 0 \<and>
             cp_cmd p = m
         | CV_Atyp m \<Rightarrow> p_state q = CONN_REQ_ATYP \<and> dst_addr_count p = 0 \<and> dst_addr_len p = 0 \<and>
             cp_cmd p = m
         | CV_Dlen m \<Rightarrow> p_state q = CONN_REQ_DOM_LEN \<and> dst_addr_count p = 0 \<and>
             cp_cmd p = m \<and> cp_atyp p = 3
         | CV_Addr m t n a \<Rightarrow> p_state q = CONN_REQ_DST_ADDR \<and> cp_cmd p = m \<and> cp_atyp p = t \<and>
             unat (dst_addr_len p) = n \<and> length a < max 1 n \<and>
             unat (dst_addr_count p) = length a \<and> field_in (dst_addr p) a
         | CV_Port1 m t n a \<Rightarrow> p_state q = CONN_REQ_DST_PORT_BYTE1 \<and> holds_addr p m t n a
         | CV_Port2 m t n a hi \<Rightarrow> p_state q = CONN_REQ_DST_PORT_BYTE2 \<and> holds_addr p m t n a \<and>
             unat (dst_port p) = unat hi
         | CV_Done m t n a hi lo \<Rightarrow> p_state q = CONN_REQ_DONE \<and> holds_addr p m t n a \<and>
             unat (dst_port p) = port_value hi lo
         | CV_Err \<Rightarrow> p_state q = CONN_REQ_ERROR))"

lemma conn_rel_init:
  "conn_req_parser_init True True a0 = Some p \<Longrightarrow> 256 \<le> length a0 \<Longrightarrow> conn_rel CV_Start p"
  by (auto simp: conn_req_parser_init_def conn_rel_def parser_init_def motor_ok_def
      zero_event_def conn_req_table)

text \<open>Two bytes joined by shift and or are the number they spell, most significant first.\<close>

lemma port_bytes:
  "unat (w :: 16 word) = unat (hi :: byte) \<Longrightarrow>
     unat (or (push_bit 8 w) (ucast (lo :: byte))) = port_value hi lo"
proof -
  assume w: "unat w = unat hi"
  have hi: "unat hi < 256" and lo: "unat lo < 256" by (rule unat_byte_less)+
  have "and (push_bit 8 w) (ucast lo :: 16 word) = 0"
    by (rule bit_eqI) (auto simp: bit_simps dest: bit_imp_le_length)
  then have "or (push_bit 8 w) (ucast lo) = push_bit 8 w + (ucast lo :: 16 word)"
    by (simp add: disjunctive_add_eq_or)
  moreover have "unat (ucast lo :: 16 word) = unat lo"
    by (rule unat_ucast_8_16)
  moreover have "unat (push_bit 8 w) = 256 * unat hi"
    using w hi by (simp add: push_bit_eq_mult unat_word_ariths)
  ultimately show ?thesis
    using hi lo by (simp add: port_value_def unat_word_ariths)
qed

text \<open>The parser simulates the abstract machine, byte for byte and status for status.\<close>

lemma conn_step:
  assumes rel: "conn_rel v p" and c: "c \<noteq> 255"
  shows "\<exists>p'. conn_req_parser_feed p c = Inr (p', snd (conn_view_step v c)) \<and>
     conn_rel (fst (conn_view_step v c)) p'"
proof -
  from rel obtain q where q: "cp_parser p = Some q" "motor_ok conn_req_parser_definition q"
      and len: "length (dst_addr p) = 256"
    by (auto simp: conn_rel_def)
  obtain q' e where step: "parser_feed q c = Inr (q', e)" "motor_ok conn_req_parser_definition q'"
      "p_state q' = fst (conn_req_next (p_state q) c)"
      "ev_type e = snd (conn_req_next (p_state q) c)" "ev_data e ! 0 = c"
    using conn_req_motor [OF q(2) c] by blast
  show ?thesis
  proof (cases v)
    case (CV_Addr m t n a)
    let ?k = "length a"
    from rel CV_Addr q have st: "p_state q = CONN_REQ_DST_ADDR" "unat (dst_addr_len p) = n"
        "?k < max 1 n" "unat (dst_addr_count p) = ?k" "field_in (dst_addr p) a"
        "cp_cmd p = m" "cp_atyp p = t"
      by (auto simp: conn_rel_def)
    have k: "Suc ?k < 256" using st(2,3) unat_byte_le [of "dst_addr_len p"] by linarith
    have inc: "unat (dst_addr_count p + 1) = Suc ?k" using st(4) k by (simp add: unat_inc_byte)
    have cmp: "dst_addr_len p \<le> dst_addr_count p + 1 \<longleftrightarrow> n \<le> Suc ?k"
      using inc st(2) by (simp add: word_le_nat_alt)
    have fld: "field_in ((dst_addr p)[?k := c]) (a @ [c])"
      using field_in_snoc [OF st(5)] len k by simp
    have cls: "field_closed ((dst_addr p)[?k := c, Suc ?k := 0]) (a @ [c])"
      using field_closed_put [OF fld] by simp
    show ?thesis
      using CV_Addr st q step k inc cmp fld cls len
      by (auto simp: conn_req_parser_feed_def conn_rel_def holds_addr_def Let_def motor_ok_set
          conn_req_state_in_table simp del: map_of_eq_None_iff)
  next
    case (CV_Port2 m t n a hi)
    with rel q step port_bytes [of "dst_port p" hi c] show ?thesis
      by (auto simp: conn_req_parser_feed_def conn_rel_def holds_addr_def)
  qed (use rel q step len in \<open>auto simp: conn_req_parser_feed_def conn_rel_def holds_addr_def
         field_in_def conn_req_constants unat_ucast_8_16
         simp del: map_of_eq_None_iff split: if_splits\<close>)
qed

definition conn_req_ok :: "conn_req_parser \<Rightarrow> bool" where
  "conn_req_ok p \<longleftrightarrow> (\<exists>v. conn_rel v p)"

lemma conn_req_255: "conn_req_ok p \<Longrightarrow> conn_req_parser_feed p 255 = Inl Out_Of_Bounds"
  by (auto simp: conn_req_ok_def conn_rel_def conn_req_parser_feed_def motor_255)

interpretation cr: byte_parser conn_req_ok conn_req_parser_feed
proof unfold_locales
  fix p c assume "conn_req_ok p" "(c :: byte) \<noteq> 255"
  then show "\<exists>p' s. conn_req_parser_feed p c = Inr (p', s) \<and> conn_req_ok p'"
    using conn_step unfolding conn_req_ok_def by blast
qed (rule conn_req_255)

lemma conn_feeds_view:
  "conn_rel v p \<Longrightarrow> 255 \<notin> set cs \<Longrightarrow>
     \<exists>p'. feeds conn_req_parser_feed p cs = Inr (p', snd (conn_view_run v cs)) \<and>
          conn_rel (fst (conn_view_run v cs)) p'"
proof (induction cs arbitrary: v p)
  case Nil
  then show ?case by simp
next
  case (Cons c cs)
  obtain v' s where vs: "conn_view_step v c = (v', s)" by fastforce
  with Cons.prems obtain p' where p': "conn_req_parser_feed p c = Inr (p', s)" "conn_rel v' p'"
    using conn_step [of v p c] by auto
  from Cons.IH [OF p'(2)] Cons.prems p' vs show ?case
    by (auto simp: Let_def split: prod.splits)
qed

section \<open>The message\<close>

datatype socks_addr =
    Addr_IPv4 "byte list"
  | Addr_Domain "byte list"
  | Addr_IPv6 "byte list"

fun addr_bytes :: "socks_addr \<Rightarrow> byte list" where
  "addr_bytes (Addr_IPv4 xs) = xs"
| "addr_bytes (Addr_Domain xs) = xs"
| "addr_bytes (Addr_IPv6 xs) = xs"

fun addr_type :: "socks_addr \<Rightarrow> byte" where
  "addr_type (Addr_IPv4 xs) = 1"
| "addr_type (Addr_Domain xs) = 3"
| "addr_type (Addr_IPv6 xs) = 4"

fun addr_header :: "socks_addr \<Rightarrow> byte list" where
  "addr_header (Addr_Domain xs) = [3, of_nat (length xs)]"
| "addr_header a = [addr_type a]"

fun addr_wf :: "socks_addr \<Rightarrow> bool" where
  "addr_wf (Addr_IPv4 xs) \<longleftrightarrow> length xs = 4 \<and> 255 \<notin> set xs"
| "addr_wf (Addr_Domain xs) \<longleftrightarrow> 0 < length xs \<and> length xs < 255 \<and> 255 \<notin> set xs"
| "addr_wf (Addr_IPv6 xs) \<longleftrightarrow> length xs = 16 \<and> 255 \<notin> set xs"

definition encode_request :: "byte \<Rightarrow> socks_addr \<Rightarrow> byte \<Rightarrow> byte \<Rightarrow> byte list" where
  "encode_request m a hi lo = [5, m, 0] @ addr_header a @ addr_bytes a @ [hi, lo]"

fun addr_statuses :: "socks_addr \<Rightarrow> conn_req_parser_state list" where
  "addr_statuses (Addr_Domain xs) = [CONN_REQ_ATYP, CONN_REQ_DOM_LEN]"
| "addr_statuses a = [CONN_REQ_ATYP]"

definition request_statuses :: "socks_addr \<Rightarrow> conn_req_parser_state list" where
  "request_statuses a =
     [CONN_REQ_VERSION, CONN_REQ_CMD, CONN_REQ_RSV] @ addr_statuses a @
     replicate (length (addr_bytes a) - 1) CONN_REQ_DST_ADDR @
     [CONN_REQ_DST_PORT_BYTE1, CONN_REQ_DST_PORT_BYTE1, CONN_REQ_DONE]"

lemma conn_view_run_append:
  "conn_view_run v (xs @ ys) =
     (let (v', ss) = conn_view_run v xs; (v'', ts) = conn_view_run v' ys in (v'', ss @ ts))"
  by (induction xs arbitrary: v) (auto simp: Let_def split: prod.splits)

lemma view_run_addr:
  "xs \<noteq> [] \<Longrightarrow> n = length a + length xs \<Longrightarrow>
     conn_view_run (CV_Addr m t n a) xs =
       (CV_Port1 m t n (a @ xs),
        replicate (length xs - 1) CONN_REQ_DST_ADDR @ [CONN_REQ_DST_PORT_BYTE1])"
proof (induction xs arbitrary: a)
  case (Cons x xs)
  show ?case
  proof (cases "xs = []")
    case False
    with Cons.IH [of "a @ [x]"] Cons.prems show ?thesis by (cases xs) auto
  qed (use Cons.prems in simp)
qed simp

lemma view_run_header:
  assumes "addr_wf a"
  shows "conn_view_run (CV_Atyp m) (addr_header a) =
     (CV_Addr m (addr_type a) (length (addr_bytes a)) [], addr_statuses a)"
  using assms by (cases a) (auto simp: unat_of_nat_byte)

lemma view_run_request:
  assumes "addr_wf a" "m \<in> {1, 2, 3}"
  shows "conn_view_run CV_Start (encode_request m a hi lo) =
     (CV_Done m (addr_type a) (length (addr_bytes a)) (addr_bytes a) hi lo, request_statuses a)"
proof -
  have "addr_bytes a \<noteq> []" using assms(1) by (cases a) auto
  then have "conn_view_run (CV_Atyp m) (addr_header a @ addr_bytes a @ [hi, lo]) =
      (CV_Done m (addr_type a) (length (addr_bytes a)) (addr_bytes a) hi lo,
       addr_statuses a @ replicate (length (addr_bytes a) - 1) CONN_REQ_DST_ADDR @
       [CONN_REQ_DST_PORT_BYTE1, CONN_REQ_DST_PORT_BYTE1, CONN_REQ_DONE])"
    using assms(1) by (simp add: conn_view_run_append view_run_header view_run_addr)
  with assms(2) show ?thesis
    by (simp add: encode_request_def request_statuses_def)
qed

text \<open>A complete request: the statuses of its bytes and what the parser then holds.\<close>

lemma request_feeds:
  assumes rel: "conn_rel CV_Start p"
    and req: "m \<in> {1, 2, 3}" "addr_wf a" "hi \<noteq> 255" "lo \<noteq> 255"
  shows "\<exists>p'. feeds conn_req_parser_feed p (encode_request m a hi lo) = Inr (p', request_statuses a) \<and>
     cp_cmd p' = m \<and> cp_atyp p' = addr_type a \<and>
     unat (dst_addr_len p') = length (addr_bytes a) \<and> field_closed (dst_addr p') (addr_bytes a) \<and>
     unat (dst_port p') = 256 * unat hi + unat lo"
proof -
  have "255 \<notin> set (encode_request m a hi lo)"
    using req of_nat_byte_neq by (cases a) (auto simp: encode_request_def)
  from conn_feeds_view [OF rel this] view_run_request [OF req(2,1)]
  show ?thesis by (auto simp: conn_rel_def holds_addr_def port_value_def)
qed

section \<open>Properties\<close>

text \<open>
  C23: a connection request survives the wire.  For each of the three address types, the
  message built from a command, an address and a port, no byte of the address and the port 255 and a
  domain name of 1 to 254 bytes, is accepted at its last byte and not earlier; the parser then holds the command, the type, the length
  and the bytes of the address closed by a zero, and the port read most significant byte first.
  (A byte 255, legal in an address or a port, and the length of a domain of 255 bytes, make the parser read past its
  array of classes.)
\<close>

theorem conn_req_roundtrip:
  assumes init: "conn_req_parser_init True True a0 = Some p" "256 \<le> length a0"
    and req: "m \<in> {1, 2, 3}" "addr_wf a" "hi \<noteq> 255" "lo \<noteq> 255"
  shows "\<exists>p'. feeds conn_req_parser_feed p (encode_request m a hi lo) = Inr (p', request_statuses a) \<and>
     cp_cmd p' = m \<and> cp_atyp p' = addr_type a \<and>
     unat (dst_addr_len p') = length (addr_bytes a) \<and> field_closed (dst_addr p') (addr_bytes a) \<and>
     unat (dst_port p') = 256 * unat hi + unat lo"
  by (rule request_feeds [OF conn_rel_init [OF init] req])

theorem conn_req_roundtrip_witness:
  "\<exists>p'. feeds conn_req_parser_feed (the (conn_req_parser_init True True (replicate 256 7)))
        [5, 1, 0, 3, 2, 97, 98, 1, 187] =
      Inr (p', [CONN_REQ_VERSION, CONN_REQ_CMD, CONN_REQ_RSV, CONN_REQ_ATYP, CONN_REQ_DOM_LEN,
                CONN_REQ_DST_ADDR, CONN_REQ_DST_PORT_BYTE1, CONN_REQ_DST_PORT_BYTE1, CONN_REQ_DONE]) \<and>
     field_closed (dst_addr p') [97, 98] \<and> unat (dst_port p') = 443"
proof -
  let ?p = "the (conn_req_parser_init True True (replicate 256 7))"
  have "conn_req_parser_init True True (replicate 256 7) = Some ?p"
    by (simp add: conn_req_parser_init_def)
  from conn_req_roundtrip [OF this, of 1 "Addr_Domain [97, 98]" 1 187]
  show ?thesis by (auto simp: encode_request_def request_statuses_def)
qed

text \<open>
  Malformed requests are refused at the byte that is wrong, and for good: a version
  other than 5, a command outside 1 to 3, a reserved byte other than 0 or an address type
  outside 1, 3 and 4 gives the error status at that byte and at every byte that follows.
\<close>

theorem conn_req_rejects:
  assumes init: "conn_req_parser_init True True a0 = Some p" "256 \<le> length a0"
    and bad: "(pre = [] \<and> x \<noteq> 5) \<or> (pre = [5] \<and> x \<notin> {1, 2, 3}) \<or>
      (\<exists>m \<in> {1, 2, 3}. pre = [5, m] \<and> x \<noteq> 0) \<or>
      (\<exists>m \<in> {1, 2, 3}. pre = [5, m, 0] \<and> x \<notin> {1, 3, 4})"
    and bytes: "x \<noteq> 255" "255 \<notin> set rest"
  shows "\<exists>p' ss. feeds conn_req_parser_feed p (pre @ x # rest) =
     Inr (p', ss @ CONN_REQ_ERROR # replicate (length rest) CONN_REQ_ERROR) \<and>
     length ss = length pre \<and> CONN_REQ_ERROR \<notin> set ss"
proof -
  have err: "conn_view_run CV_Err cs = (CV_Err, replicate (length cs) CONN_REQ_ERROR)" for cs
    by (induction cs) auto
  have "255 \<notin> set (pre @ x # rest)" using bad bytes by auto
  from conn_feeds_view [OF conn_rel_init [OF init] this] obtain p' where
    p': "feeds conn_req_parser_feed p (pre @ x # rest) =
      Inr (p', snd (conn_view_run CV_Start (pre @ x # rest)))" by blast
  have "\<exists>ss. snd (conn_view_run CV_Start (pre @ x # rest)) =
      ss @ CONN_REQ_ERROR # replicate (length rest) CONN_REQ_ERROR \<and>
      length ss = length pre \<and> CONN_REQ_ERROR \<notin> set ss"
    using bad by (auto simp: err)
  with p' show ?thesis by auto
qed

theorem conn_req_rejects_witness:
  "\<exists>p' ss. feeds conn_req_parser_feed (the (conn_req_parser_init True True (replicate 256 7)))
       [5, 1, 0, 2, 9] = Inr (p', ss @ [CONN_REQ_ERROR, CONN_REQ_ERROR]) \<and> length ss = 3"
proof -
  let ?p = "the (conn_req_parser_init True True (replicate 256 7))"
  have "conn_req_parser_init True True (replicate 256 7) = Some ?p"
    by (simp add: conn_req_parser_init_def)
  from conn_req_rejects [OF this, of "[5, 1, 0]" 2 "[9]"] show ?thesis by auto
qed

text \<open>
  A domain name of length 0 shifts the frame.  The parser takes the first port byte
  as an address byte, so the complete message does not end it; it ends one byte later,
  with the second port byte and that extra byte as the port.
\<close>

theorem conn_req_empty_domain:
  assumes init: "conn_req_parser_init True True a0 = Some p" "256 \<le> length a0"
    and req: "m \<in> {1, 2, 3}" "hi \<noteq> 255" "lo \<noteq> 255" "x \<noteq> 255"
  shows "\<exists>p' ss. feeds conn_req_parser_feed p (encode_request m (Addr_Domain []) hi lo @ [x]) =
     Inr (p', ss @ [CONN_REQ_DONE]) \<and> CONN_REQ_DONE \<notin> set ss \<and>
     field_closed (dst_addr p') [hi] \<and> unat (dst_port p') = 256 * unat lo + unat x"
proof -
  let ?bs = "encode_request m (Addr_Domain []) hi lo @ [x]"
  have "255 \<notin> set ?bs" using req by (auto simp: encode_request_def)
  moreover have "conn_view_run CV_Start ?bs = (CV_Done m 3 0 [hi] lo x,
      [CONN_REQ_VERSION, CONN_REQ_CMD, CONN_REQ_RSV, CONN_REQ_ATYP, CONN_REQ_DOM_LEN,
       CONN_REQ_DST_PORT_BYTE1, CONN_REQ_DST_PORT_BYTE1] @ [CONN_REQ_DONE])"
    using req(1) by (simp add: encode_request_def)
  ultimately obtain p' where p': "feeds conn_req_parser_feed p ?bs = Inr (p',
      [CONN_REQ_VERSION, CONN_REQ_CMD, CONN_REQ_RSV, CONN_REQ_ATYP, CONN_REQ_DOM_LEN,
       CONN_REQ_DST_PORT_BYTE1, CONN_REQ_DST_PORT_BYTE1] @ [CONN_REQ_DONE])"
      "conn_rel (CV_Done m 3 0 [hi] lo x) p'"
    using conn_feeds_view [OF conn_rel_init [OF init], of ?bs] by auto
  show ?thesis
    by (rule exI [of _ p'], rule exI, intro conjI, rule p'(1))
       (use p'(2) in \<open>auto simp: conn_rel_def holds_addr_def port_value_def\<close>)
qed

theorem conn_req_empty_domain_witness:
  "\<exists>p' ss. feeds conn_req_parser_feed (the (conn_req_parser_init True True (replicate 256 7)))
       [5, 1, 0, 3, 0, 0, 80, 5] = Inr (p', ss @ [CONN_REQ_DONE]) \<and>
     unat (dst_port p') = 256 * 80 + 5"
proof -
  let ?p = "the (conn_req_parser_init True True (replicate 256 7))"
  have "conn_req_parser_init True True (replicate 256 7) = Some ?p"
    by (simp add: conn_req_parser_init_def)
  from conn_req_empty_domain [OF this, of 1 0 80 5] show ?thesis
    by (auto simp: encode_request_def)
qed

end
