(* ===== verification/Responses.thy ===== *)
theory Responses
  imports Handshake_Parser Auth_Parser Conn_Req_Parser
begin

text \<open>
  The replies of \<open>src/src/server/socks5/socks5_responses.c\<close> and \<open>socks5_responses.h\<close> as
  structures and as the bytes of these structures in memory, which is what the handlers
  copy to the output buffer; \<open>get_sock_data\<close> of \<open>src/src/server/utils/netutils.c\<close>, which
  the success reply calls; and \<open>get_code\<close> of \<open>socks5_connecting.c\<close>.  Local variables the
  code does not initialise are arguments.
\<close>

section \<open>Structures\<close>

datatype socks5_reply_status =
    SOCKS5_REP_SUCCEEDED
  | SOCKS5_REP_GENERAL_FAILURE
  | SOCKS5_REP_CONNECTION_NOT_ALLOWED
  | SOCKS5_REP_NETWORK_UNREACHABLE
  | SOCKS5_REP_HOST_UNREACHABLE
  | SOCKS5_REP_CONNECTION_REFUSED
  | SOCKS5_REP_TTL_EXPIRED
  | SOCKS5_REP_COMMAND_NOT_SUPPORTED
  | SOCKS5_REP_ADDR_TYPE_NOT_SUPPORTED
  | SOCKS5_REP_UNASSIGNED

fun reply_code :: "socks5_reply_status \<Rightarrow> byte" where
  "reply_code SOCKS5_REP_SUCCEEDED = 0x00"
| "reply_code SOCKS5_REP_GENERAL_FAILURE = 0x01"
| "reply_code SOCKS5_REP_CONNECTION_NOT_ALLOWED = 0x02"
| "reply_code SOCKS5_REP_NETWORK_UNREACHABLE = 0x03"
| "reply_code SOCKS5_REP_HOST_UNREACHABLE = 0x04"
| "reply_code SOCKS5_REP_CONNECTION_REFUSED = 0x05"
| "reply_code SOCKS5_REP_TTL_EXPIRED = 0x06"
| "reply_code SOCKS5_REP_COMMAND_NOT_SUPPORTED = 0x07"
| "reply_code SOCKS5_REP_ADDR_TYPE_NOT_SUPPORTED = 0x08"
| "reply_code SOCKS5_REP_UNASSIGNED = 0x09"

definition HANDSHAKE_RESPONSE_SIZE :: nat where "HANDSHAKE_RESPONSE_SIZE = 2"
definition AUTH_RESPONSE_SIZE :: nat where "AUTH_RESPONSE_SIZE = 2"
definition IPV4_ADDR_SIZE :: nat where "IPV4_ADDR_SIZE = 4"
definition IPV6_ADDR_SIZE :: nat where "IPV6_ADDR_SIZE = 16"
definition SOCKS5_CONN_REQ_RESPONSE_BASE_SIZE :: nat where
  "SOCKS5_CONN_REQ_RESPONSE_BASE_SIZE = 6"
definition SOCKS5_AUTH_OK :: byte where "SOCKS5_AUTH_OK = 0x00"
definition SOCKS5_AUTH_ERROR :: byte where "SOCKS5_AUTH_ERROR = 0x01"

lemmas response_constants =
  HANDSHAKE_RESPONSE_SIZE_def AUTH_RESPONSE_SIZE_def IPV4_ADDR_SIZE_def IPV6_ADDR_SIZE_def
  SOCKS5_CONN_REQ_RESPONSE_BASE_SIZE_def SOCKS5_AUTH_OK_def SOCKS5_AUTH_ERROR_def

record socks5_handshake_response =
  hr_version :: byte
  hr_method :: byte

record socks5_auth_response =
  ar_sub_negotiation_version :: byte
  ar_status :: byte

text \<open>
  \<open>bnd_addr\<close> is a union of the 4 bytes of an IPv4 and the 16 of an IPv6 address: 16 bytes.
\<close>

record socks5_conn_req_response =
  cr_version :: byte
  cr_response :: byte
  cr_reserved :: byte
  cr_address_type :: byte
  cr_bnd_addr :: "byte list"
  cr_bnd_port :: "16 word"

text \<open>
  The structures in memory, without padding: four bytes, the union at offset 4 and the
  port at offset 20, least significant byte first as on the x86 machines the Makefile builds for.
\<close>

definition handshake_response_bytes :: "socks5_handshake_response \<Rightarrow> byte list" where
  "handshake_response_bytes r = [hr_version r, hr_method r]"

definition auth_response_bytes :: "socks5_auth_response \<Rightarrow> byte list" where
  "auth_response_bytes r = [ar_sub_negotiation_version r, ar_status r]"

definition u16_bytes :: "16 word \<Rightarrow> byte list" where
  "u16_bytes w = [ucast w, ucast (drop_bit 8 w)]"

definition conn_req_response_bytes :: "socks5_conn_req_response \<Rightarrow> byte list" where
  "conn_req_response_bytes r =
     [cr_version r, cr_response r, cr_reserved r, cr_address_type r] @ cr_bnd_addr r @
     u16_bytes (cr_bnd_port r)"

text \<open>\<open>htons\<close> and \<open>ntohs\<close> on such a machine exchange the two bytes.\<close>

definition htons :: "16 word \<Rightarrow> 16 word" where
  "htons w = or (push_bit 8 w) (drop_bit 8 w)"

section \<open>The socket's own address\<close>

text \<open>
  What \<open>getsockname\<close> reports: the family, the address and the port in network order.
  \<open>AF_INET\<close> and \<open>AF_INET6\<close> have their values on Linux.
\<close>

datatype sockaddr =
    Sock_In "byte list" "16 word"
  | Sock_In6 "byte list" "16 word"
  | Sock_Other

definition AF_INET :: byte where "AF_INET = 2"
definition AF_INET6 :: byte where "AF_INET6 = 10"
definition ATYP_IPV4 :: byte where "ATYP_IPV4 = 0x01"
definition ATYP_IPV6 :: byte where "ATYP_IPV6 = 0x04"

lemmas family_constants = AF_INET_def AF_INET6_def ATYP_IPV4_def ATYP_IPV6_def

text \<open>
  The three out-parameters: \<open>atyp\<close>, the address buffer and the port.  \<open>memcpy\<close> fills the
  front of the buffer; an address of another family leaves all three as they were.
\<close>

fun get_sock_data :: "sockaddr \<Rightarrow> byte \<times> byte list \<times> 16 word \<Rightarrow> byte \<times> byte list \<times> 16 word" where
  "get_sock_data (Sock_In addr sin_port) (atyp, addr_ptr, port) =
     (ATYP_IPV4, take 4 addr @ drop 4 addr_ptr, htons sin_port)"
| "get_sock_data (Sock_In6 addr sin_port) (atyp, addr_ptr, port) =
     (ATYP_IPV6, take 16 addr @ drop 16 addr_ptr, htons sin_port)"
| "get_sock_data Sock_Other (atyp, addr_ptr, port) = (atyp, addr_ptr, port)"

section \<open>The replies\<close>

definition create_handshake_response :: "bool \<Rightarrow> bool \<Rightarrow> socks5_handshake_response" where
  "create_handshake_response na up =
     \<lparr>hr_version = SOCKS5_VERSION,
      hr_method = (if up then SOCKS5_AUTH_METHOD_USER_PASS
                   else if na then SOCKS5_AUTH_METHOD_NO_AUTH
                   else SOCKS5_AUTH_METHOD_NO_ACCEPTABLE)\<rparr>"

definition create_auth_response :: "bool \<Rightarrow> socks5_auth_response" where
  "create_auth_response auth_ok =
     \<lparr>ar_sub_negotiation_version = SOCKS5_SUBNEGOTIATION_VERSION,
      ar_status = (if auth_ok then SOCKS5_AUTH_OK else SOCKS5_AUTH_ERROR)\<rparr>"

text \<open>
  \<open>locals\<close> is what the uninitialised locals \<open>atyp\<close>, \<open>addr_ptr\<close> and \<open>port\<close> hold, \<open>junk\<close> what
  the union of the uninitialised structure holds.
\<close>

definition create_conn_req_response ::
    "socks5_reply_status \<Rightarrow> sockaddr \<Rightarrow> byte \<times> byte list \<times> 16 word \<Rightarrow> byte list \<Rightarrow>
       socks5_conn_req_response" where
  "create_conn_req_response response sock locals junk =
     (let (atyp, addr_ptr, port) = get_sock_data sock locals
      in \<lparr>cr_version = SOCKS5_VERSION,
          cr_response = reply_code response,
          cr_reserved = SOCKS5_CONN_REQ_RSV,
          cr_address_type = (if atyp = AF_INET then SOCKS5_CONN_REQ_ATYP_IPV4
                             else SOCKS5_CONN_REQ_ATYP_IPV6),
          cr_bnd_addr = (if atyp = AF_INET then take IPV4_ADDR_SIZE addr_ptr @ drop IPV4_ADDR_SIZE junk
                         else if atyp = AF_INET6
                         then take IPV6_ADDR_SIZE addr_ptr @ drop IPV6_ADDR_SIZE junk
                         else junk),
          cr_bnd_port = htons port\<rparr>)"

definition create_conn_req_error_response ::
    "socks5_reply_status \<Rightarrow> byte list \<Rightarrow> socks5_conn_req_response" where
  "create_conn_req_error_response response junk =
     \<lparr>cr_version = SOCKS5_VERSION,
      cr_response = reply_code response,
      cr_reserved = SOCKS5_CONN_REQ_RSV,
      cr_address_type = SOCKS5_CONN_REQ_ATYP_IPV4,
      cr_bnd_addr = junk[0 := 0, 1 := 0, 2 := 0, 3 := 0],
      cr_bnd_port = 0\<rparr>"

text \<open>
  The number of bytes of the structure the connecting handlers send for a success reply.
\<close>

definition conn_req_response_size :: "socks5_conn_req_response \<Rightarrow> nat" where
  "conn_req_response_size r =
     (if cr_address_type r = SOCKS5_CONN_REQ_ATYP_IPV4
      then SOCKS5_CONN_REQ_RESPONSE_BASE_SIZE + IPV4_ADDR_SIZE
      else SOCKS5_CONN_REQ_RESPONSE_BASE_SIZE + IPV6_ADDR_SIZE)"

text \<open>\<open>get_code\<close>: the reply for a value of \<open>errno\<close> (numbers of Linux).\<close>

definition ECONNREFUSED :: int where "ECONNREFUSED = 111"
definition ENETUNREACH :: int where "ENETUNREACH = 101"
definition EHOSTUNREACH :: int where "EHOSTUNREACH = 113"
definition ETIMEDOUT :: int where "ETIMEDOUT = 110"

definition get_code :: "int \<Rightarrow> socks5_reply_status" where
  "get_code errno =
     (if errno = ECONNREFUSED then SOCKS5_REP_CONNECTION_REFUSED
      else if errno = ENETUNREACH then SOCKS5_REP_NETWORK_UNREACHABLE
      else if errno = EHOSTUNREACH then SOCKS5_REP_HOST_UNREACHABLE
      else if errno = ETIMEDOUT then SOCKS5_REP_TTL_EXPIRED
      else SOCKS5_REP_HOST_UNREACHABLE)"

section \<open>Facts on the bytes of a port\<close>

lemma length_conn_req_response_bytes:
  "length (conn_req_response_bytes r) = length (cr_bnd_addr r) + 6"
  by (simp add: conn_req_response_bytes_def u16_bytes_def)

text \<open>A port converted to network order lies in memory most significant byte first.\<close>

lemma u16_bytes_htons: "u16_bytes (htons w) = [ucast (drop_bit 8 w), ucast w]"
proof -
  have "ucast (or (push_bit 8 w) (drop_bit 8 w)) = (ucast (drop_bit 8 w) :: byte)"
    by (rule bit_eqI) (auto simp: bit_simps)
  moreover have "ucast (drop_bit 8 (or (push_bit 8 w) (drop_bit 8 w))) = (ucast w :: byte)"
    by (rule bit_eqI) (auto simp: bit_simps dest: bit_imp_le_length)
  ultimately show ?thesis by (simp add: u16_bytes_def htons_def)
qed

lemma htons_htons: "htons (htons w) = w"
  by (rule bit_eqI) (auto simp: htons_def bit_simps dest: bit_imp_le_length)

section \<open>Properties\<close>

text \<open>
  The server's choice of method.  The reply to a greeting is two bytes, the version
  and the method: user and password whenever it was offered, otherwise no authentication
  if that was offered, otherwise 255, the refusal; so it never names a method that was
  not offered.
\<close>

theorem handshake_response_choice:
  "handshake_response_bytes (create_handshake_response na up) =
     [5, if up then 2 else if na then 0 else 255] \<and>
   (hr_method (create_handshake_response na up) = 255 \<longleftrightarrow> \<not> na \<and> \<not> up) \<and>
   length (handshake_response_bytes (create_handshake_response na up)) = HANDSHAKE_RESPONSE_SIZE"
  by (simp add: handshake_response_bytes_def create_handshake_response_def socks5_method_defs
      HANDSHAKE_RESPONSE_SIZE_def)

text \<open>
  The success reply never carries the bound address.  Whatever address the outgoing
  socket has, the reply says IPv6, sends the whole structure, and its 16 address bytes are
  what the stack held; only the port, most significant byte first, is the socket's.
  \<open>get_sock_data\<close> reports the type as 1 or 4 and \<open>create_conn_req_response\<close> compares it
  with the address families 2 and 10.
\<close>

theorem success_reply_address_never_set:
  assumes sock: "sock = Sock_In addr sin_port \<or> sock = Sock_In6 addr sin_port"
    and junk: "length junk = 16"
  shows "let r = create_conn_req_response rep sock locals junk
     in take (conn_req_response_size r) (conn_req_response_bytes r) =
          [5, reply_code rep, 0, 4] @ junk @ u16_bytes sin_port"
proof -
  obtain a b c where "locals = (a, b, c)" by (cases locals)
  with sock junk show ?thesis
    by (auto simp: create_conn_req_response_def family_constants conn_req_response_size_def
        conn_req_response_bytes_def conn_req_constants response_constants SOCKS5_VERSION_def
        htons_htons u16_bytes_def Let_def)
qed

theorem success_reply_address_never_set_witness:
  "let r = create_conn_req_response SOCKS5_REP_SUCCEEDED (Sock_In [10, 0, 0, 1] 0x5000)
        (9, replicate 46 9, 9) (replicate 16 0xAA)
   in take (conn_req_response_size r) (conn_req_response_bytes r) =
        [5, 0, 0, 4] @ replicate 16 0xAA @ u16_bytes 0x5000"
  using success_reply_address_never_set [of "Sock_In [10, 0, 0, 1] 0x5000" "[10, 0, 0, 1]" "0x5000"
      "replicate 16 0xAA" SOCKS5_REP_SUCCEEDED "(9, replicate 46 9, 9)"]
  by simp

text \<open>
  The failure reply ends in uninitialised memory.  The ten bytes sent of it are
  version, code, zero, IPv4 and the address 0.0.0.0 as intended, but where the protocol has
  the port there are bytes 4 and 5 of the union, which nothing assigns; the port field
  lies at offset 20 and is not sent.
\<close>

theorem failure_reply_bytes:
  assumes "length junk = 16"
  shows "take (SOCKS5_CONN_REQ_RESPONSE_BASE_SIZE + IPV4_ADDR_SIZE)
       (conn_req_response_bytes (create_conn_req_error_response rep junk)) =
     [5, reply_code rep, 0, 1, 0, 0, 0, 0, junk ! 4, junk ! 5]"
proof -
  from assms obtain a b c d e f js where "junk = a # b # c # d # e # f # js"
    by (auto simp: length_Suc_conv eval_nat_numeral)
  then show ?thesis
    by (simp add: create_conn_req_error_response_def conn_req_response_bytes_def response_constants
        conn_req_constants SOCKS5_VERSION_def eval_nat_numeral)
qed

theorem failure_reply_bytes_witness:
  "take 10 (conn_req_response_bytes
      (create_conn_req_error_response SOCKS5_REP_HOST_UNREACHABLE (replicate 16 0xAA))) =
     [5, 4, 0, 1, 0, 0, 0, 0, 0xAA, 0xAA]"
  using failure_reply_bytes [of "replicate 16 0xAA" SOCKS5_REP_HOST_UNREACHABLE]
  by (simp add: response_constants)

end
