(* ===== verification/Selector.thy ===== *)
theory Selector
  imports Prelude
begin

text \<open>
  The I/O multiplexer of \<open>src/src/server/utils/selector.c\<close>: a table of items indexed by file
  descriptor, the two descriptor sets given to \<open>pselect\<close>, the largest descriptor in use and
  the list of finished blocking jobs.  Handlers are function pointers in C; here an item
  holds a handler identifier of type \<open>'h\<close> and user data of type \<open>'d\<close>, and the operations that
  call handlers take the functions the identifiers stand for.
\<close>

section \<open>State\<close>

datatype selector_status =
    SELECTOR_SUCCESS
  | SELECTOR_ENOMEM
  | SELECTOR_MAXFD
  | SELECTOR_IARGS
  | SELECTOR_FDINUSE
  | SELECTOR_IO

text \<open>Interests are flags.\<close>

type_synonym fd_interest = "32 word"

definition OP_NOOP :: fd_interest where "OP_NOOP = 0"
definition OP_READ :: fd_interest where "OP_READ = 1"
definition OP_WRITE :: fd_interest where "OP_WRITE = 4"

lemmas interest_defs = OP_NOOP_def OP_READ_def OP_WRITE_def

definition wants :: "fd_interest \<Rightarrow> fd_interest \<Rightarrow> bool" where
  "wants i flag \<longleftrightarrow> and i flag \<noteq> 0"

lemma wants_simps [simp]:
  "\<not> wants OP_NOOP OP_READ" "\<not> wants OP_NOOP OP_WRITE" "wants OP_READ OP_READ"
  "\<not> wants OP_READ OP_WRITE" "\<not> wants OP_WRITE OP_READ" "wants OP_WRITE OP_WRITE"
  by (simp_all add: wants_def interest_defs)

text \<open>The name of an interest in the log; two flags together have none.\<close>

definition interest_to_string :: "fd_interest \<Rightarrow> string" where
  "interest_to_string i =
     (if i = OP_READ then ''READ'' else if i = OP_WRITE then ''WRITE'' else if i = OP_NOOP then ''NOOP'' else ''UNKNOWN'')"

record ('h, 'd) item =
  it_fd :: int
  it_interest :: fd_interest
  it_handler :: "'h option"
  it_data :: "'d option"

definition FD_UNUSED :: int where "FD_UNUSED = -1"

definition item_used :: "('h, 'd) item \<Rightarrow> bool" where
  "item_used i \<longleftrightarrow> it_fd i \<noteq> FD_UNUSED"

text \<open>An item of zeroed memory that \<open>item_init\<close> marked unused.\<close>

definition item_init :: "('h, 'd) item \<Rightarrow> ('h, 'd) item" where
  "item_init i = i\<lparr>it_fd := FD_UNUSED\<rparr>"

definition zero_item :: "('h, 'd) item" where
  "zero_item = \<lparr>it_fd = 0, it_interest = OP_NOOP, it_handler = None, it_data = None\<rparr>"

text \<open>
  \<open>fds\<close> is the array (empty while its pointer is null), \<open>fd_size\<close> its recorded length.
  Time-outs, thread identity and mutex are not state of the model.
\<close>

record ('h, 'd) fdselector =
  fds :: "('h, 'd) item list"
  fd_size :: nat
  max_fd :: int
  master_r :: "nat set"
  master_w :: "nat set"
  slave_r :: "nat set"
  slave_w :: "nat set"
  resolution_jobs :: "int list"

text \<open>\<open>FD_SETSIZE\<close> of Linux.\<close>

definition ITEMS_MAX_SIZE :: nat where "ITEMS_MAX_SIZE = 1024"

section \<open>Capacity\<close>

fun shift_count :: "nat \<Rightarrow> nat" where
  "shift_count tmp = (if tmp = 0 then 0 else Suc (shift_count (tmp div 2)))"

declare shift_count.simps [simp del]

definition next_capacity :: "nat \<Rightarrow> nat res" where
  "next_capacity n =
     (let tmp = 2 ^ shift_count n
      in guard Assert_Failed (tmp \<ge> n)
           (Inr ((if tmp > ITEMS_MAX_SIZE then ITEMS_MAX_SIZE else tmp) + 1)))"

text \<open>The items from \<open>old_size\<close> to the end of the array are marked unused.\<close>

definition items_init :: "('h, 'd) fdselector \<Rightarrow> nat \<Rightarrow> ('h, 'd) fdselector res" where
  "items_init s old_size =
     guard Assert_Failed (old_size \<le> fd_size s)
       (Inr (s\<lparr>fds := take old_size (fds s) @ map item_init (drop old_size (fds s))\<rparr>))"

text \<open>
  The added items: \<open>calloc\<close> zeroes them; what \<open>realloc\<close> leaves in them is overwritten
  in their descriptor only, which is all that is read of an unused item.
\<close>

definition ensure_capacity ::
    "bool \<Rightarrow> ('h, 'd) fdselector \<Rightarrow> nat \<Rightarrow> (selector_status \<times> ('h, 'd) fdselector) res" where
  "ensure_capacity alloc s n =
     (if n < fd_size s then Inr (SELECTOR_SUCCESS, s)
      else if n > ITEMS_MAX_SIZE then Inr (SELECTOR_MAXFD, s)
      else bind_res (next_capacity n) (\<lambda>new_size.
           if \<not> alloc then Inr (SELECTOR_ENOMEM, s)
           else bind_res (items_init
                  (s\<lparr>fds := fds s @ replicate (new_size - length (fds s)) zero_item, fd_size := new_size\<rparr>) (fd_size s))
                  (\<lambda>s. Inr (SELECTOR_SUCCESS, s))))"

definition empty_selector :: "('h, 'd) fdselector" where
  "empty_selector =
     \<lparr>fds = [], fd_size = 0, max_fd = 0, master_r = {}, master_w = {}, slave_r = {},
      slave_w = {}, resolution_jobs = []\<rparr>"

text \<open>\<open>None\<close> is the null pointer \<open>selector_new\<close> returns when an allocation fails.\<close>

definition selector_new :: "bool \<Rightarrow> bool \<Rightarrow> nat \<Rightarrow> ('h, 'd) fdselector option res" where
  "selector_new alloc1 alloc2 initial_elements =
     (if \<not> alloc1 then Inr None
      else bind_res (ensure_capacity alloc2 empty_selector initial_elements) (\<lambda>(st, s).
           Inr (if st = SELECTOR_SUCCESS then Some s else None)))"

section \<open>Registration\<close>

definition invalid_fd :: "int \<Rightarrow> bool" where
  "invalid_fd fd \<longleftrightarrow> fd < 0 \<or> fd \<ge> int ITEMS_MAX_SIZE"

text \<open>The loop of \<open>items_max_fd\<close> over the items \<open>0..max_fd\<close>, with its running maximum.\<close>

fun max_used :: "int \<Rightarrow> ('h, 'd) item list \<Rightarrow> int" where
  "max_used m [] = m"
| "max_used m (i # is) = max_used (if item_used i \<and> it_fd i > m then it_fd i else m) is"

definition items_max_fd :: "('h, 'd) fdselector \<Rightarrow> int res" where
  "items_max_fd s =
     guard Out_Of_Bounds (max_fd s < int (length (fds s)))
       (Inr (max_used 0 (take (nat (max_fd s + 1)) (fds s))))"

definition items_update_fdset_for_fd ::
    "('h, 'd) fdselector \<Rightarrow> ('h, 'd) item \<Rightarrow> ('h, 'd) fdselector" where
  "items_update_fdset_for_fd s i =
     (let n = nat (it_fd i); r = master_r s - {n}; w = master_w s - {n}
      in if item_used i
         then s\<lparr>master_r := (if wants (it_interest i) OP_READ then insert n r else r),
                master_w := (if wants (it_interest i) OP_WRITE then insert n w else w)\<rparr>
         else s\<lparr>master_r := r, master_w := w\<rparr>)"

text \<open>
  \<open>alloc\<close> tells whether growing the array succeeds.  The array grows only when the
  descriptor is greater than its size; the item is then addressed whatever happened.
\<close>

definition selector_register ::
    "bool \<Rightarrow> ('h, 'd) fdselector \<Rightarrow> int \<Rightarrow> 'h option \<Rightarrow> fd_interest \<Rightarrow> 'd option \<Rightarrow>
       (selector_status \<times> ('h, 'd) fdselector) res" where
  "selector_register alloc s fd handler interest data =
     (if invalid_fd fd \<or> handler = None then Inr (SELECTOR_IARGS, s)
      else bind_res (if nat fd > fd_size s then ensure_capacity alloc s (nat fd)
                     else Inr (SELECTOR_SUCCESS, s)) (\<lambda>(st, s).
           if st \<noteq> SELECTOR_SUCCESS then Inr (st, s)
           else bind_res (mem_get (fds s) (nat fd)) (\<lambda>item.
                if item_used item then Inr (SELECTOR_FDINUSE, s)
                else let item = \<lparr>it_fd = fd, it_interest = interest, it_handler = handler,
                                 it_data = data\<rparr>;
                         s = s\<lparr>fds := (fds s)[nat fd := item],
                               max_fd := (if fd > max_fd s then fd else max_fd s)\<rparr>
                     in Inr (SELECTOR_SUCCESS, items_update_fdset_for_fd s item))))"

text \<open>
  \<open>close h\<close> is the \<open>handle_close\<close> of the handler, if it has one; it is called with the
  descriptor and the data of the item while the item is still registered, and changes the
  state \<open>'w\<close> around the selector.  A null handler would be dereferenced.
\<close>

definition selector_unregister_fd ::
    "('h \<Rightarrow> (int \<Rightarrow> 'd option \<Rightarrow> 'w \<Rightarrow> 'w res) option) \<Rightarrow> ('h, 'd) fdselector \<Rightarrow> int \<Rightarrow> 'w \<Rightarrow>
       (selector_status \<times> ('h, 'd) fdselector \<times> 'w) res" where
  "selector_unregister_fd close s fd w =
     (if invalid_fd fd then Inr (SELECTOR_IARGS, s, w)
      else bind_res (mem_get (fds s) (nat fd)) (\<lambda>item.
           if \<not> item_used item then Inr (SELECTOR_IARGS, s, w)
           else case it_handler item of
                  None \<Rightarrow> Inl Null_Deref
                | Some h \<Rightarrow>
                    bind_res (case close h of None \<Rightarrow> Inr w | Some f \<Rightarrow> f (it_fd item) (it_data item) w) (\<lambda>w'.
                    let s1 = items_update_fdset_for_fd s (item\<lparr>it_interest := OP_NOOP\<rparr>);
                        s2 = s1\<lparr>fds := (fds s1)[nat fd := item_init zero_item]\<rparr>
                    in bind_res (items_max_fd s2) (\<lambda>m.
                       Inr (SELECTOR_SUCCESS, s2\<lparr>max_fd := m\<rparr>, w')))))"

definition selector_set_interest ::
    "('h, 'd) fdselector \<Rightarrow> int \<Rightarrow> fd_interest \<Rightarrow> (selector_status \<times> ('h, 'd) fdselector) res" where
  "selector_set_interest s fd i =
     (if invalid_fd fd then Inr (SELECTOR_IARGS, s)
      else bind_res (mem_get (fds s) (nat fd)) (\<lambda>item.
           if \<not> item_used item then Inr (SELECTOR_IARGS, s)
           else let item = item\<lparr>it_interest := i\<rparr>
                in Inr (SELECTOR_SUCCESS,
                     items_update_fdset_for_fd (s\<lparr>fds := (fds s)[nat fd := item]\<rparr>) item)))"

definition selector_notify_block ::
    "bool \<Rightarrow> ('h, 'd) fdselector \<Rightarrow> int \<Rightarrow> selector_status \<times> ('h, 'd) fdselector" where
  "selector_notify_block alloc s fd =
     (if alloc then (SELECTOR_SUCCESS, s\<lparr>resolution_jobs := fd # resolution_jobs s\<rparr>)
      else (SELECTOR_ENOMEM, s))"

section \<open>Dispatch\<close>

text \<open>
  The handlers act on a state \<open>'w\<close> that contains the selector; \<open>sel\<close> reads it.  An
  operation of a handler is absent when its function pointer is null.
\<close>

type_synonym ('d, 'w) callback = "int \<Rightarrow> 'd option \<Rightarrow> 'w \<Rightarrow> 'w res"

record ('h, 'd, 'w) fd_handlers =
  handle_read :: "'h \<Rightarrow> ('d, 'w) callback option"
  handle_write :: "'h \<Rightarrow> ('d, 'w) callback option"
  handle_block :: "'h \<Rightarrow> ('d, 'w) callback option"
  handle_close :: "'h \<Rightarrow> ('d, 'w) callback option"

text \<open>
  One pass over item \<open>i\<close>.  Descriptor and data are read before the first handler runs;
  interest and handler are read again before the second.  A handler that is absent although
  its event arrived fails the assertion.
\<close>

definition run_handler ::
    "('h \<Rightarrow> ('d, 'w) callback option) \<Rightarrow> 'h option \<Rightarrow> fault \<Rightarrow> int \<Rightarrow> 'd option \<Rightarrow> 'w \<Rightarrow> 'w res" where
  "run_handler f h missing fd d w =
     (case h of None \<Rightarrow> Inl Null_Deref
      | Some h \<Rightarrow> (case f h of None \<Rightarrow> Inl missing | Some g \<Rightarrow> g fd d w))"

definition handle_item ::
    "('h, 'd, 'w) fd_handlers \<Rightarrow> ('w \<Rightarrow> ('h, 'd) fdselector) \<Rightarrow> nat \<Rightarrow> 'w \<Rightarrow> 'w res" where
  "handle_item hs sel i w =
     bind_res (mem_get (fds (sel w)) i) (\<lambda>item.
     if \<not> item_used item then Inr w
     else let fd = it_fd item; d = it_data item in
       bind_res
         (if nat fd \<in> slave_r (sel w) \<and> wants (it_interest item) OP_READ
          then run_handler (handle_read hs) (it_handler item) Assert_Failed fd d w else Inr w) (\<lambda>w.
       bind_res (mem_get (fds (sel w)) i) (\<lambda>item.
         if i \<in> slave_w (sel w) \<and> wants (it_interest item) OP_WRITE
         then run_handler (handle_write hs) (it_handler item) Assert_Failed fd d w else Inr w)))"

fun iterate_items ::
    "('h, 'd, 'w) fd_handlers \<Rightarrow> ('w \<Rightarrow> ('h, 'd) fdselector) \<Rightarrow> nat list \<Rightarrow> 'w \<Rightarrow> 'w res" where
  "iterate_items hs sel [] w = Inr w"
| "iterate_items hs sel (i # is) w =
     bind_res (handle_item hs sel i w) (\<lambda>w. iterate_items hs sel is w)"

definition handle_iteration ::
    "('h, 'd, 'w) fd_handlers \<Rightarrow> ('w \<Rightarrow> ('h, 'd) fdselector) \<Rightarrow> 'w \<Rightarrow> 'w res" where
  "handle_iteration hs sel w = iterate_items hs sel [0..<nat (max_fd (sel w) + 1)] w"

text \<open>
  The finished jobs, most recent first; each is announced to its descriptor if that is
  still registered.  The call of \<open>handle_block\<close> is not guarded by a null test.
\<close>

fun notify_jobs ::
    "('h, 'd, 'w) fd_handlers \<Rightarrow> ('w \<Rightarrow> ('h, 'd) fdselector) \<Rightarrow> int list \<Rightarrow> 'w \<Rightarrow> 'w res" where
  "notify_jobs hs sel [] w = Inr w"
| "notify_jobs hs sel (fd # jobs) w =
     bind_res (if fd < 0 then Inl Out_Of_Bounds else mem_get (fds (sel w)) (nat fd)) (\<lambda>item.
     bind_res (if item_used item
               then run_handler (handle_block hs) (it_handler item) Null_Call (it_fd item) (it_data item) w
               else Inr w) (\<lambda>w. notify_jobs hs sel jobs w))"

definition handle_block_notifications ::
    "('h, 'd, 'w) fd_handlers \<Rightarrow> ('w \<Rightarrow> ('h, 'd) fdselector) \<Rightarrow>
       (('h, 'd) fdselector \<Rightarrow> 'w \<Rightarrow> 'w) \<Rightarrow> 'w \<Rightarrow> 'w res" where
  "handle_block_notifications hs sel set_sel w =
     bind_res (notify_jobs hs sel (resolution_jobs (sel w)) w) (\<lambda>w.
     Inr (set_sel ((sel w)\<lparr>resolution_jobs := []\<rparr>) w))"

text \<open>
  What \<open>pselect\<close> answers: the descriptors that are ready (subsets of those asked for), an
  interruption (\<open>EAGAIN\<close>, \<open>EINTR\<close>), a bad descriptor, or another error.
\<close>

datatype pselect_result =
    PS_Ready "nat set" "nat set"
  | PS_Interrupted
  | PS_Bad_Descriptor
  | PS_Error

definition selector_select ::
    "('h, 'd, 'w) fd_handlers \<Rightarrow> ('w \<Rightarrow> ('h, 'd) fdselector) \<Rightarrow>
       (('h, 'd) fdselector \<Rightarrow> 'w \<Rightarrow> 'w) \<Rightarrow> pselect_result \<Rightarrow> 'w \<Rightarrow> (selector_status \<times> 'w) res" where
  "selector_select hs sel set_sel ps w =
     (let s = sel w; mr = master_r s; mw = master_w s;
          w = set_sel (s\<lparr>slave_r := mr, slave_w := mw\<rparr>) w
      in case ps of
           PS_Interrupted \<Rightarrow>
             bind_res (handle_block_notifications hs sel set_sel w) (\<lambda>w. Inr (SELECTOR_SUCCESS, w))
         | PS_Bad_Descriptor \<Rightarrow> Inr (SELECTOR_IO, w)
         | PS_Error \<Rightarrow> Inr (SELECTOR_IO, w)
         | PS_Ready r wr \<Rightarrow>
             (let w = set_sel ((sel w)\<lparr>slave_r := r \<inter> mr, slave_w := wr \<inter> mw\<rparr>) w
              in bind_res (handle_iteration hs sel w) (\<lambda>w.
                 bind_res (handle_block_notifications hs sel set_sel w) (\<lambda>w.
                 Inr (SELECTOR_SUCCESS, w)))))"

section \<open>Starting and ending\<close>

text \<open>\<open>selector_init\<close>: whether the signal could be blocked and its handler set.\<close>

definition selector_init :: "bool \<Rightarrow> bool \<Rightarrow> selector_status" where
  "selector_init blocked handled =
     (if \<not> blocked then SELECTOR_IO else if \<not> handled then SELECTOR_IO else SELECTOR_SUCCESS)"

definition selector_close :: selector_status where
  "selector_close = SELECTOR_SUCCESS"

fun selector_error :: "selector_status \<Rightarrow> string" where
  "selector_error SELECTOR_SUCCESS = ''Success''"
| "selector_error SELECTOR_ENOMEM = ''Not enough memory''"
| "selector_error SELECTOR_MAXFD = ''Can't handle any more file descriptors''"
| "selector_error SELECTOR_IARGS = ''Illegal argument''"
| "selector_error SELECTOR_IO = ''I/O error''"
| "selector_error SELECTOR_FDINUSE = ''something failed''"

text \<open>The loop of \<open>selector_destroy\<close> over the \<open>n\<close> items from \<open>i\<close>; the memory is released afterwards.\<close>

fun destroy_items ::
    "('h \<Rightarrow> ('d, 'w) callback option) \<Rightarrow> nat \<Rightarrow> nat \<Rightarrow> ('h, 'd) fdselector \<Rightarrow> 'w \<Rightarrow>
       (('h, 'd) fdselector \<times> 'w) res" where
  "destroy_items close i 0 s w = Inr (s, w)"
| "destroy_items close i (Suc n) s w =
     bind_res (mem_get (fds s) i) (\<lambda>item.
     bind_res (if item_used item
               then bind_res (selector_unregister_fd close s (int i) w) (\<lambda>(st, s, w). Inr (s, w))
               else Inr (s, w)) (\<lambda>(s, w). destroy_items close (Suc i) n s w))"

definition selector_destroy ::
    "('h \<Rightarrow> ('d, 'w) callback option) \<Rightarrow> ('h, 'd) fdselector option \<Rightarrow> 'w \<Rightarrow> 'w res" where
  "selector_destroy close s w =
     (case s of None \<Rightarrow> Inr w
      | Some s \<Rightarrow> bind_res (destroy_items close 0 (fd_size s) s w) (\<lambda>(s, w). Inr w))"

section \<open>Capacity, proved\<close>

lemma shift_count_gt: "n < 2 ^ shift_count n"
proof (induction n rule: shift_count.induct)
  case (1 n)
  show ?case
  proof (cases "n = 0")
    case False
    with 1 have "n div 2 < 2 ^ shift_count (n div 2)" by simp
    then have "n < 2 * 2 ^ shift_count (n div 2)" by linarith
    with False show ?thesis by (simp add: shift_count.simps [of n])
  qed (simp add: shift_count.simps)
qed

lemma next_capacity_ok:
  "n \<le> ITEMS_MAX_SIZE \<Longrightarrow>
     \<exists>c. next_capacity n = Inr c \<and> n < c \<and> c \<le> ITEMS_MAX_SIZE + 1"
  using shift_count_gt [of n] by (auto simp: next_capacity_def Let_def)

text \<open>The capacity the server asks for is the largest there is.\<close>

lemma next_capacity_1024: "next_capacity 1024 = Inr 1025"
  using shift_count_gt [of 1024] by (auto simp: next_capacity_def ITEMS_MAX_SIZE_def Let_def)

section \<open>Invariant and abstract view\<close>

text \<open>
  An item in use sits at the index of its descriptor and has a handler; the two descriptor
  sets hold exactly the descriptors in use with that interest; \<open>max_fd\<close> is the largest
  descriptor in use, 0 if there is none; the array covers every descriptor \<open>select\<close> can
  handle.
\<close>

definition used_at :: "('h, 'd) fdselector \<Rightarrow> nat \<Rightarrow> bool" where
  "used_at s i \<longleftrightarrow> i < length (fds s) \<and> item_used (fds s ! i)"

definition sel_inv :: "('h, 'd) fdselector \<Rightarrow> bool" where
  "sel_inv s \<longleftrightarrow> fd_size s = length (fds s) \<and> ITEMS_MAX_SIZE < length (fds s) \<and>
     (\<forall>i. used_at s i \<longrightarrow> it_fd (fds s ! i) = int i \<and> it_handler (fds s ! i) \<noteq> None) \<and>
     master_r s = {i. used_at s i \<and> wants (it_interest (fds s ! i)) OP_READ} \<and>
     master_w s = {i. used_at s i \<and> wants (it_interest (fds s ! i)) OP_WRITE} \<and>
     max_fd s = int (Max (insert 0 {i. used_at s i}))"

definition sel_table :: "('h, 'd) fdselector \<Rightarrow> int \<Rightarrow> ('h, 'd) item option" where
  "sel_table s fd = (if 0 \<le> fd \<and> used_at s (nat fd) then Some (fds s ! nat fd) else None)"

lemma finite_used [simp]: "finite {i. used_at s i}"
  by (rule finite_subset [of _ "{..<length (fds s)}"]) (auto simp: used_at_def)

lemma used_at_less: "used_at s i \<Longrightarrow> i < length (fds s)"
  by (simp add: used_at_def)

lemma max_fd_bounds:
  assumes "sel_inv s"
  shows "0 \<le> max_fd s" "max_fd s < int (length (fds s))" "used_at s i \<Longrightarrow> int i \<le> max_fd s"
proof -
  have "Max (insert 0 {i. used_at s i}) \<in> insert 0 {i. used_at s i}"
    by (rule Max_in) simp_all
  with assms show "0 \<le> max_fd s" "max_fd s < int (length (fds s))"
    by (auto simp: sel_inv_def dest: used_at_less)
  show "used_at s i \<Longrightarrow> int i \<le> max_fd s"
    using assms by (simp add: sel_inv_def)
qed

lemma Max_insert_max:
  "finite S \<Longrightarrow> Max (insert (max a b) S) = Max (insert a (insert b S))" for a b :: nat
  by (cases "S = {}") (simp_all add: max.assoc)

lemma max_used_Max:
  "max_used (int m) is = int (Max (insert m (nat ` it_fd ` {i \<in> set is. item_used i})))"
  if "\<forall>i \<in> set is. item_used i \<longrightarrow> 0 \<le> it_fd i"
  using that
proof (induction "is" arbitrary: m)
  case (Cons i "is")
  let ?S = "nat ` it_fd ` {i \<in> set is. item_used i}"
  show ?case
  proof (cases "item_used i")
    case True
    with Cons.prems obtain k where k: "it_fd i = int k" using zero_le_imp_eq_int by auto
    have split: "nat ` it_fd ` {j \<in> set (i # is). item_used j} = insert (nat (it_fd i)) ?S"
      using True by auto
    have "max_used (int m) (i # is) = max_used (int (max m (nat (it_fd i)))) is"
      using True k by (simp add: max_def)
    also have "\<dots> = int (Max (insert (max m (nat (it_fd i))) ?S))"
      using Cons by simp
    also have "Max (insert (max m (nat (it_fd i))) ?S) = Max (insert m (insert (nat (it_fd i)) ?S))"
      by (rule Max_insert_max) simp
    finally show ?thesis using split by simp
  next
    case False
    then have "{j \<in> set (i # is). item_used j} = {j \<in> set is. item_used j}" by auto
    with False Cons show ?thesis by simp
  qed
qed simp

text \<open>The scan recomputes \<open>max_fd\<close> from any upper bound of the descriptors in use.\<close>

lemma items_max_fd_ok:
  assumes at: "\<forall>i. used_at s i \<longrightarrow> it_fd (fds s ! i) = int i"
    and bound: "max_fd s < int (length (fds s))" "\<forall>i. used_at s i \<longrightarrow> int i \<le> max_fd s"
  shows "items_max_fd s = Inr (int (Max (insert 0 {i. used_at s i})))"
proof -
  let ?n = "nat (max_fd s + 1)"
  let ?is = "take ?n (fds s)"
  have "{i \<in> set ?is. item_used i} = (\<lambda>i. fds s ! i) ` {i. used_at s i}"
  proof (intro equalityI subsetI)
    fix x assume "x \<in> {i \<in> set ?is. item_used i}"
    then obtain i where "i < length (fds s)" "x = fds s ! i" "item_used x"
      by (auto simp: in_set_conv_nth)
    then show "x \<in> (\<lambda>i. fds s ! i) ` {i. used_at s i}" by (auto simp: used_at_def)
  next
    fix x assume "x \<in> (\<lambda>i. fds s ! i) ` {i. used_at s i}"
    then obtain i where i: "used_at s i" "x = fds s ! i" by auto
    with bound(2) have "i < ?n" by fastforce
    with i have "x = ?is ! i" "i < length ?is" by (auto simp: used_at_def)
    then have "x \<in> set ?is" using nth_mem by metis
    with i show "x \<in> {i \<in> set ?is. item_used i}" by (simp add: used_at_def)
  qed
  then have "nat ` it_fd ` {i \<in> set ?is. item_used i} = (\<lambda>i. nat (it_fd (fds s ! i))) ` {i. used_at s i}"
    by (simp add: image_image)
  also have "\<dots> = (\<lambda>i. i) ` {i. used_at s i}"
    using at by (intro image_cong) auto
  finally have img: "nat ` it_fd ` {i \<in> set ?is. item_used i} = {i. used_at s i}" by simp
  have nn: "\<forall>i \<in> set ?is. item_used i \<longrightarrow> 0 \<le> it_fd i"
  proof (intro ballI impI)
    fix x assume x: "x \<in> set ?is" "item_used x"
    then obtain i where i: "i < length (fds s)" "x = fds s ! i"
      by (auto simp: in_set_conv_nth)
    with x(2) at show "0 \<le> it_fd x" by (simp add: used_at_def)
  qed
  show ?thesis
    using max_used_Max [OF nn, of 0] bound(1) img by (simp add: items_max_fd_def)
qed

section \<open>The operations keep the invariant\<close>

text \<open>
  All three operations put an item into the array and bring the sets up to date; what this
  does to the table is one fact.
\<close>

lemma update_fdset_sel [simp]:
  "fds (items_update_fdset_for_fd s i) = fds s"
  "fd_size (items_update_fdset_for_fd s i) = fd_size s"
  "max_fd (items_update_fdset_for_fd s i) = max_fd s"
  "used_at (items_update_fdset_for_fd s i) = used_at s"
  by (auto simp: items_update_fdset_for_fd_def Let_def used_at_def fun_eq_iff)

lemma used_at_put:
  "n < length (fds s) \<Longrightarrow>
     used_at (s\<lparr>fds := (fds s)[n := i]\<rparr>) k \<longleftrightarrow> (if k = n then item_used i else used_at s k)"
  by (auto simp: used_at_def nth_list_update)

lemma used_at_max_fd [simp]: "used_at (s\<lparr>max_fd := m\<rparr>) = used_at s"
  by (simp add: used_at_def fun_eq_iff)

lemma sets_after_put:
  fixes m :: int
  assumes inv: "sel_inv s" and n: "n < length (fds s)" "it_fd i = int n"
  defines "s' \<equiv> items_update_fdset_for_fd (s\<lparr>fds := (fds s)[n := i], max_fd := m\<rparr>) i"
  shows "master_r s' = {k. used_at s' k \<and> wants (it_interest (fds s' ! k)) OP_READ}"
    and "master_w s' = {k. used_at s' k \<and> wants (it_interest (fds s' ! k)) OP_WRITE}"
proof -
  have used: "item_used i" using n(2) by (simp add: item_used_def FD_UNUSED_def)
  with inv n show "master_r s' = {k. used_at s' k \<and> wants (it_interest (fds s' ! k)) OP_READ}"
    by (auto simp: s'_def items_update_fdset_for_fd_def Let_def sel_inv_def used_at_def
        nth_list_update)
  from used inv n show "master_w s' = {k. used_at s' k \<and> wants (it_interest (fds s' ! k)) OP_WRITE}"
    by (auto simp: s'_def items_update_fdset_for_fd_def Let_def sel_inv_def used_at_def
        nth_list_update)
qed

lemma register_free:
  fixes s :: "('h, 'd) fdselector" and h :: 'h and d :: "'d option" and interest :: fd_interest
  assumes inv: "sel_inv s" and fd: "\<not> invalid_fd fd" and free: "sel_table s fd = None"
  defines "i \<equiv> \<lparr>it_fd = fd, it_interest = interest, it_handler = Some h, it_data = d\<rparr>"
  defines "s' \<equiv> items_update_fdset_for_fd
     (s\<lparr>fds := (fds s)[nat fd := i], max_fd := max fd (max_fd s)\<rparr>) i"
  shows "selector_register alloc s fd (Some h) interest d = Inr (SELECTOR_SUCCESS, s')"
    and "sel_inv s'" and "sel_table s' = (sel_table s)(fd \<mapsto> i)"
proof -
  let ?n = "nat fd"
  from fd inv have n: "?n < length (fds s)" "fd = int ?n"
    by (auto simp: invalid_fd_def sel_inv_def)
  with free have nused: "\<not> item_used (fds s ! ?n)"
    by (auto simp: sel_table_def used_at_def split: if_splits)
  have iu: "item_used i" using fd by (auto simp: i_def item_used_def FD_UNUSED_def invalid_fd_def)
  from inv n(1) have sz: "\<not> fd_size s < ?n" by (simp add: sel_inv_def)
  have mx: "(if max_fd s < fd then fd else max_fd s) = max fd (max_fd s)" by (simp add: max_def)
  show "selector_register alloc s fd (Some h) interest d = Inr (SELECTOR_SUCCESS, s')"
    using n(1) fd nused sz by (simp add: selector_register_def s'_def i_def Let_def mx)
  have used: "used_at s' k \<longleftrightarrow> k = ?n \<or> used_at s k" for k
    using n(1) iu by (simp add: s'_def used_at_put)
  then have "{k. used_at s' k} = insert ?n {k. used_at s k}" by auto
  then have "Max (insert 0 {k. used_at s' k}) = max ?n (Max (insert 0 {k. used_at s k}))"
    by (simp add: insert_commute [of 0])
  with inv n(2) have mfd: "max_fd s' = int (Max (insert 0 {k. used_at s' k}))"
    by (auto simp: s'_def sel_inv_def)
  have "it_fd (fds s' ! k) = int k \<and> it_handler (fds s' ! k) \<noteq> None" if "used_at s' k" for k
    using that inv n used [of k] by (auto simp: s'_def sel_inv_def nth_list_update i_def)
  with inv mfd sets_after_put [OF inv n(1), of i "max fd (max_fd s)"] n(2) show "sel_inv s'"
    by (auto simp: sel_inv_def s'_def i_def)
  show "sel_table s' = (sel_table s)(fd \<mapsto> i)"
    using n used by (auto simp: sel_table_def fun_eq_iff s'_def)
qed

lemma register_taken:
  "sel_inv s \<Longrightarrow> sel_table s fd = Some i \<Longrightarrow>
     selector_register alloc s fd (Some h) interest d =
       Inr (if invalid_fd fd then SELECTOR_IARGS else SELECTOR_FDINUSE, s)"
  by (auto simp: selector_register_def sel_inv_def sel_table_def used_at_def invalid_fd_def
      split: if_splits)

lemma table_item:
  "sel_inv s \<Longrightarrow> sel_table s fd = Some i \<Longrightarrow> it_fd i = fd \<and> (\<exists>h. it_handler i = Some h) \<and> item_used i"
  by (auto simp: sel_table_def sel_inv_def used_at_def split: if_splits)

lemma set_interest_used:
  fixes f :: fd_interest
  assumes inv: "sel_inv s" and fd: "\<not> invalid_fd fd" and used: "sel_table s fd = Some i"
  defines "s' \<equiv> items_update_fdset_for_fd
     (s\<lparr>fds := (fds s)[nat fd := i\<lparr>it_interest := f\<rparr>]\<rparr>) (i\<lparr>it_interest := f\<rparr>)"
  shows "selector_set_interest s fd f = Inr (SELECTOR_SUCCESS, s')"
    and "sel_inv s'" and "sel_table s' = (sel_table s)(fd \<mapsto> i\<lparr>it_interest := f\<rparr>)"
proof -
  let ?n = "nat fd"
  from used have n: "used_at s ?n" "fds s ! ?n = i" "fd = int ?n" "?n < length (fds s)"
    by (auto simp: sel_table_def used_at_def split: if_splits)
  from table_item [OF inv used] have i: "it_fd i = int ?n" "it_handler i \<noteq> None" "item_used i"
    using n(3) by auto
  have iu: "item_used (i\<lparr>it_interest := f\<rparr>)" using i(3) by (simp add: item_used_def)
  show "selector_set_interest s fd f = Inr (SELECTOR_SUCCESS, s')"
    using n i fd by (simp add: selector_set_interest_def s'_def Let_def)
  have used': "used_at s' k \<longleftrightarrow> used_at s k" for k
    using n iu by (simp add: s'_def used_at_put)
  have "it_fd (fds s' ! k) = int k \<and> it_handler (fds s' ! k) \<noteq> None" if "used_at s' k" for k
    using that inv n i used' [of k] by (auto simp: s'_def sel_inv_def nth_list_update)
  moreover have "s\<lparr>fds := (fds s)[?n := i\<lparr>it_interest := f\<rparr>], max_fd := max_fd s\<rparr> =
      s\<lparr>fds := (fds s)[?n := i\<lparr>it_interest := f\<rparr>]\<rparr>"
    by simp
  then have "master_r s' = {k. used_at s' k \<and> wants (it_interest (fds s' ! k)) OP_READ}"
    "master_w s' = {k. used_at s' k \<and> wants (it_interest (fds s' ! k)) OP_WRITE}"
    using sets_after_put [OF inv n(4), of "i\<lparr>it_interest := f\<rparr>" "max_fd s"] i(1)
    unfolding s'_def by simp_all
  moreover have "fd_size s' = length (fds s')" "ITEMS_MAX_SIZE < length (fds s')"
    "max_fd s' = int (Max (insert 0 {k. used_at s' k}))"
    using inv used' by (simp_all add: sel_inv_def s'_def)
  ultimately show "sel_inv s'" unfolding sel_inv_def by blast
  show "sel_table s' = (sel_table s)(fd \<mapsto> i\<lparr>it_interest := f\<rparr>)"
    using n used' by (auto simp: sel_table_def fun_eq_iff s'_def)
qed

lemma unused_zero [simp]: "\<not> item_used (item_init zero_item)"
  by (simp add: item_used_def item_init_def)

text \<open>
  Unregistering calls the close handler on the item's descriptor and data; if that returns
  \<open>w'\<close>, the descriptor is free afterwards and the rest of the table is as it was.
  \<open>cleared s n\<close> is the selector after item \<open>n\<close> has been cleared, before the rescan.
\<close>

definition cleared :: "('h, 'd) fdselector \<Rightarrow> nat \<Rightarrow> ('h, 'd) fdselector" where
  "cleared s n =
     (let s1 = items_update_fdset_for_fd s ((fds s ! n)\<lparr>it_interest := OP_NOOP\<rparr>)
      in s1\<lparr>fds := (fds s1)[n := item_init zero_item]\<rparr>)"

lemma cleared_sel:
  assumes "it_fd (fds s ! n) = int n" "item_used (fds s ! n)"
  shows "fds (cleared s n) = (fds s)[n := item_init zero_item]" "fd_size (cleared s n) = fd_size s"
    "max_fd (cleared s n) = max_fd s" "slave_r (cleared s n) = slave_r s"
    "slave_w (cleared s n) = slave_w s" "resolution_jobs (cleared s n) = resolution_jobs s"
    "master_r (cleared s n) = master_r s - {n}" "master_w (cleared s n) = master_w s - {n}"
  using assms by (simp_all add: cleared_def items_update_fdset_for_fd_def Let_def item_used_def)

lemma cleared_used:
  assumes "it_fd (fds s ! n) = int n" "used_at s n"
  shows "used_at (cleared s n) k \<longleftrightarrow> k \<noteq> n \<and> used_at s k"
  using assms by (cases "k = n") (simp_all add: used_at_def cleared_sel)

lemma cleared_at:
  assumes "it_fd (fds s ! n) = int n" "used_at s n" "k \<noteq> n"
  shows "fds (cleared s n) ! k = fds s ! k"
  using assms by (simp add: used_at_def cleared_sel)

lemma cleared_scan:
  assumes inv: "sel_inv s" and n: "used_at s n"
  shows "items_max_fd (cleared s n) = Inr (int (Max (insert 0 {k. used_at (cleared s n) k})))"
proof -
  from inv n have at: "it_fd (fds s ! n) = int n" by (simp add: sel_inv_def)
  note used = cleared_used [OF at n]
  have iu: "item_used (fds s ! n)" using n by (simp add: used_at_def)
  show ?thesis
  proof (rule items_max_fd_ok)
    show "\<forall>k. used_at (cleared s n) k \<longrightarrow> it_fd (fds (cleared s n) ! k) = int k"
      using inv by (simp add: used cleared_at [OF at n] sel_inv_def)
    show "max_fd (cleared s n) < int (length (fds (cleared s n)))"
      using max_fd_bounds(2) [OF inv] by (simp add: cleared_sel [OF at iu])
    show "\<forall>k. used_at (cleared s n) k \<longrightarrow> int k \<le> max_fd (cleared s n)"
      using max_fd_bounds(3) [OF inv] by (simp add: used cleared_sel [OF at iu])
  qed
qed

lemma cleared_inv:
  assumes inv: "sel_inv s" and n: "used_at s n"
  shows "sel_inv (cleared s n\<lparr>max_fd := int (Max (insert 0 {k. used_at (cleared s n) k}))\<rparr>)"
proof -
  from inv n have at: "it_fd (fds s ! n) = int n" by (simp add: sel_inv_def)
  note used = cleared_used [OF at n]
  have iu: "item_used (fds s ! n)" using n by (simp add: used_at_def)
  let ?c = "cleared s n"
  have sz: "fd_size ?c = length (fds ?c)" "ITEMS_MAX_SIZE < length (fds ?c)"
    using inv by (simp_all add: cleared_sel [OF at iu] sel_inv_def)
  have items: "\<forall>k. used_at ?c k \<longrightarrow> it_fd (fds ?c ! k) = int k \<and> it_handler (fds ?c ! k) \<noteq> None"
    using inv by (simp add: used cleared_at [OF at n] sel_inv_def)
  have "{k. used_at ?c k \<and> wants (it_interest (fds ?c ! k)) f} =
      {k. used_at s k \<and> wants (it_interest (fds s ! k)) f} - {n}" for f
    using cleared_at [OF at n] by (auto simp: used)
  moreover have "master_r s = {k. used_at s k \<and> wants (it_interest (fds s ! k)) OP_READ}"
    "master_w s = {k. used_at s k \<and> wants (it_interest (fds s ! k)) OP_WRITE}"
    using inv unfolding sel_inv_def by blast+
  ultimately have
    "master_r ?c = {k. used_at ?c k \<and> wants (it_interest (fds ?c ! k)) OP_READ}"
    "master_w ?c = {k. used_at ?c k \<and> wants (it_interest (fds ?c ! k)) OP_WRITE}"
    by (simp_all add: cleared_sel(7,8) [OF at iu])
  with sz items show ?thesis unfolding sel_inv_def by simp
qed

lemma unregister_used:
  assumes inv: "sel_inv s" and fd: "\<not> invalid_fd fd" and used: "sel_table s fd = Some i"
    and h: "it_handler i = Some h"
    and close: "(case close h of None \<Rightarrow> Inr w | Some f \<Rightarrow> f fd (it_data i) w) = Inr w'"
  shows "\<exists>s'. selector_unregister_fd close s fd w = Inr (SELECTOR_SUCCESS, s', w') \<and> sel_inv s' \<and>
     sel_table s' = (sel_table s)(fd := None) \<and> slave_r s' = slave_r s \<and> slave_w s' = slave_w s \<and>
     resolution_jobs s' = resolution_jobs s"
proof -
  define n where "n = nat fd"
  from used have n: "used_at s n" "fds s ! n = i" "fd = int n" "n < length (fds s)"
    by (auto simp: sel_table_def used_at_def n_def split: if_splits)
  from table_item [OF inv used] have i: "it_fd i = fd" "item_used i" by auto
  from i n have at: "it_fd (fds s ! n) = int n" "item_used (fds s ! n)" by simp_all
  let ?s3 = "cleared s n\<lparr>max_fd := int (Max (insert 0 {k. used_at (cleared s n) k}))\<rparr>"
  have close': "(case close h of None \<Rightarrow> Inr w | Some f \<Rightarrow> f (it_fd i) (it_data i) w) = Inr w'"
    by (simp only: i(1) close)
  have get: "mem_get (fds s) (nat fd) = Inr i" using n by simp
  have clr: "(let s1 = items_update_fdset_for_fd s (i\<lparr>it_interest := OP_NOOP\<rparr>)
      in s1\<lparr>fds := (fds s1)[nat fd := item_init zero_item]\<rparr>) = cleared s n"
    by (simp add: cleared_def n(2) n_def [symmetric])
  have "selector_unregister_fd close s fd w = Inr (SELECTOR_SUCCESS, ?s3, w')"
    unfolding selector_unregister_fd_def if_not_P [OF fd] get
    using i(2) h close' cleared_scan [OF inv n(1)] clr by (simp add: Let_def)
  moreover have "sel_table ?s3 = (sel_table s)(fd := None)"
  proof
    fix x show "sel_table ?s3 x = ((sel_table s)(fd := None)) x"
      using n(3) cleared_used [OF at(1) n(1), of "nat x"] cleared_at [OF at(1) n(1), of "nat x"]
      by (auto simp: sel_table_def)
  qed
  ultimately show ?thesis
    using cleared_inv [OF inv n(1)] cleared_sel [OF at]
    by (intro exI [of _ ?s3]) simp
qed

lemma unregister_free:
  "sel_inv s \<Longrightarrow> sel_table s fd = None \<Longrightarrow>
     selector_unregister_fd close s fd w = Inr (SELECTOR_IARGS, s, w)"
  by (auto simp: selector_unregister_fd_def sel_inv_def sel_table_def used_at_def invalid_fd_def
      split: if_splits)

lemma set_interest_free:
  "sel_inv s \<Longrightarrow> sel_table s fd = None \<Longrightarrow> selector_set_interest s fd f = Inr (SELECTOR_IARGS, s)"
  by (auto simp: selector_set_interest_def sel_inv_def sel_table_def used_at_def invalid_fd_def
      split: if_splits)

lemma invalid_free: "sel_inv s \<Longrightarrow> invalid_fd fd \<Longrightarrow> sel_table s fd = None \<or> fd \<ge> int ITEMS_MAX_SIZE"
  by (auto simp: invalid_fd_def sel_table_def)

lemma selector_new_ok:
  "\<exists>s. selector_new True True 1024 = Inr (Some s) \<and> sel_inv s \<and> sel_table s = Map.empty"
proof -
  let ?s = "empty_selector\<lparr>fds := replicate 1025 (item_init zero_item), fd_size := 1025\<rparr>
    :: ('h, 'd) fdselector"
  have new: "selector_new True True 1024 = Inr (Some ?s)"
    by (simp add: selector_new_def ensure_capacity_def items_init_def next_capacity_1024 empty_selector_def
        ITEMS_MAX_SIZE_def)
  have free: "used_at ?s k \<longleftrightarrow> False" for k
    by (auto simp: used_at_def)
  have "sel_inv ?s" "sel_table ?s = Map.empty"
    unfolding sel_inv_def sel_table_def free
    by (simp_all add: empty_selector_def ITEMS_MAX_SIZE_def fun_eq_iff)
  with new show ?thesis by blast
qed

section \<open>Destroying the selector\<close>

text \<open>
  Every registration is closed, in the order of the descriptors, where each close handler keeps what
  the remaining ones need (\<open>ok\<close>).
\<close>

lemma unregister_length:
  "selector_unregister_fd close s fd w = Inr (st, s', w') \<Longrightarrow> length (fds s') = length (fds s)"
  by (auto simp: selector_unregister_fd_def items_update_fdset_for_fd_def Let_def bind_res_eq_Inr
      split: if_splits option.splits)

lemma destroy_items_ok:
  assumes valid: "\<And>t fd e w. ok t w \<Longrightarrow> t fd = Some e \<Longrightarrow> \<not> invalid_fd fd"
    and step: "\<And>t fd e w. ok t w \<Longrightarrow> t fd = Some e \<Longrightarrow>
      \<exists>h w'. it_handler e = Some h \<and> (case close h of None \<Rightarrow> Inr w | Some f \<Rightarrow> f fd (it_data e) w) = Inr w' \<and>
        ok (t(fd := None)) w'"
  shows "sel_inv s \<Longrightarrow> ok (sel_table s) w \<Longrightarrow> i + n = length (fds s) \<Longrightarrow> \<forall>fd. nat fd < i \<longrightarrow> sel_table s fd = None \<Longrightarrow>
    \<exists>s' w'. destroy_items close i n s w = Inr (s', w') \<and> sel_inv s' \<and> sel_table s' = Map.empty \<and> ok Map.empty w'"
proof (induction n arbitrary: i s w)
  case 0
  have "sel_table s fd = None" for fd
    using 0(3,4) by (cases "nat fd < i") (auto simp: sel_table_def used_at_def)
  then have "sel_table s = Map.empty" by (simp add: fun_eq_iff)
  with 0 show ?case by simp
next
  case (Suc n)
  from Suc.prems(3) have i: "i < length (fds s)" by simp
  show ?case
  proof (cases "item_used (fds s ! i)")
    case False
    then have none: "sel_table s (int i) = None" by (simp add: sel_table_def used_at_def)
    have free: "\<forall>fd. nat fd < Suc i \<longrightarrow> sel_table s fd = None"
    proof (intro allI impI)
      fix fd assume "nat fd < Suc i"
      then consider "nat fd < i" | "fd < 0" | "fd = int i" by linarith
      then show "sel_table s fd = None" using Suc.prems(4) none by cases (auto simp: sel_table_def)
    qed
    have next_i: "Suc i + n = length (fds s)" using Suc.prems(3) by simp
    from Suc.IH [OF Suc.prems(1,2) next_i free] i False show ?thesis by simp
  next
    case True
    then have used: "sel_table s (int i) = Some (fds s ! i)" using i by (simp add: sel_table_def used_at_def)
    note valid = valid [OF Suc.prems(2) used]
    obtain h w1 where h: "it_handler (fds s ! i) = Some h"
      "(case close h of None \<Rightarrow> Inr w | Some f \<Rightarrow> f (int i) (it_data (fds s ! i)) w) = Inr w1"
      "ok ((sel_table s)(int i := None)) w1"
      using step [OF Suc.prems(2) used] by blast
    obtain s1 where s1: "selector_unregister_fd close s (int i) w = Inr (SELECTOR_SUCCESS, s1, w1)" "sel_inv s1"
      "sel_table s1 = (sel_table s)(int i := None)"
      using unregister_used [where close = close and w = w and w' = w1, OF Suc.prems(1) valid used h(1)] h(2) by blast
    have len: "length (fds s1) = length (fds s)" using unregister_length [OF s1(1)] .
    have free: "\<forall>fd. nat fd < Suc i \<longrightarrow> sel_table s1 fd = None"
    proof (intro allI impI)
      fix fd assume "nat fd < Suc i"
      then consider "nat fd < i" | "fd < 0" | "fd = int i" by linarith
      then show "sel_table s1 fd = None"
        using Suc.prems(4) by cases (simp_all add: s1(3), simp add: sel_table_def)
    qed
    have "ok (sel_table s1) w1" "Suc i + n = length (fds s1)" using h(3) s1(3) len Suc.prems(3) by simp_all
    from Suc.IH [OF s1(2) this free] i True s1(1) show ?thesis by simp
  qed
qed

section \<open>The interface: a table of descriptors\<close>

text \<open>
  What the rest of the server relies on: over an invariant, the three operations are total
  and act on the table the way the same operations act on a partial map.
\<close>

datatype ('h, 'd) sel_op =
    Op_Register int 'h fd_interest "'d option"
  | Op_Set_Interest int fd_interest
  | Op_Unregister int

fun table_step ::
    "(int \<Rightarrow> ('h, 'd) item option) \<Rightarrow> ('h, 'd) sel_op \<Rightarrow>
       selector_status \<times> (int \<Rightarrow> ('h, 'd) item option)" where
  "table_step t (Op_Register fd h i d) =
     (if invalid_fd fd then (SELECTOR_IARGS, t)
      else if t fd \<noteq> None then (SELECTOR_FDINUSE, t)
      else (SELECTOR_SUCCESS,
            t(fd \<mapsto> \<lparr>it_fd = fd, it_interest = i, it_handler = Some h, it_data = d\<rparr>)))"
| "table_step t (Op_Set_Interest fd i) =
     (if invalid_fd fd then (SELECTOR_IARGS, t)
      else case t fd of None \<Rightarrow> (SELECTOR_IARGS, t)
           | Some e \<Rightarrow> (SELECTOR_SUCCESS, t(fd \<mapsto> e\<lparr>it_interest := i\<rparr>)))"
| "table_step t (Op_Unregister fd) =
     (if invalid_fd fd then (SELECTOR_IARGS, t)
      else case t fd of None \<Rightarrow> (SELECTOR_IARGS, t)
           | Some e \<Rightarrow> (SELECTOR_SUCCESS, t(fd := None)))"

fun table_steps ::
    "(int \<Rightarrow> ('h, 'd) item option) \<Rightarrow> ('h, 'd) sel_op list \<Rightarrow>
       selector_status list \<times> (int \<Rightarrow> ('h, 'd) item option)" where
  "table_steps t [] = ([], t)"
| "table_steps t (a # as) =
     (let (st, t') = table_step t a; (sts, t'') = table_steps t' as in (st # sts, t''))"

locale fd_table =
  fixes table :: "'s \<Rightarrow> int \<Rightarrow> ('h, 'd) item option"
    and ok :: "'s \<Rightarrow> bool"
    and step :: "('h, 'd) sel_op \<Rightarrow> 's \<Rightarrow> (selector_status \<times> 's) res"
  assumes step_refines:
      "ok s \<Longrightarrow> \<exists>st s'. step a s = Inr (st, s') \<and> ok s' \<and> table_step (table s) a = (st, table s')"
begin

fun steps :: "('h, 'd) sel_op list \<Rightarrow> 's \<Rightarrow> (selector_status list \<times> 's) res" where
  "steps [] s = Inr ([], s)"
| "steps (a # as) s =
     bind_res (step a s) (\<lambda>(st, s). bind_res (steps as s) (\<lambda>(sts, s). Inr (st # sts, s)))"

lemma steps_refine:
  "ok s \<Longrightarrow> \<exists>sts s'. steps as s = Inr (sts, s') \<and> ok s' \<and> table_steps (table s) as = (sts, table s')"
proof (induction as arbitrary: s)
  case (Cons a as)
  from step_refines [OF Cons.prems, of a] obtain st s1 where
    1: "step a s = Inr (st, s1)" "ok s1" "table_step (table s) a = (st, table s1)" by blast
  from Cons.IH [OF 1(2)] 1 show ?case by auto
qed simp

end

text \<open>The selector's operations as one step; the close handlers here do nothing.\<close>

fun sel_step ::
    "('h, 'd) sel_op \<Rightarrow> ('h, 'd) fdselector \<Rightarrow> (selector_status \<times> ('h, 'd) fdselector) res" where
  "sel_step (Op_Register fd h i d) s = selector_register True s fd (Some h) i d"
| "sel_step (Op_Set_Interest fd i) s = selector_set_interest s fd i"
| "sel_step (Op_Unregister fd) s =
     bind_res (selector_unregister_fd (\<lambda>_. None) s fd ()) (\<lambda>(st, s, _). Inr (st, s))"

fun sel_steps ::
    "('h, 'd) sel_op list \<Rightarrow> ('h, 'd) fdselector \<Rightarrow>
       (selector_status list \<times> ('h, 'd) fdselector) res" where
  "sel_steps [] s = Inr ([], s)"
| "sel_steps (a # as) s =
     bind_res (sel_step a s) (\<lambda>(st, s). bind_res (sel_steps as s) (\<lambda>(sts, s). Inr (st # sts, s)))"

lemma sel_step_refines:
  assumes inv: "sel_inv s"
  shows "\<exists>st s'. sel_step a s = Inr (st, s') \<and> sel_inv s' \<and>
    table_step (sel_table s) a = (st, sel_table s')"
proof (cases a)
  case (Op_Register fd h i d)
  consider "invalid_fd fd" | "\<not> invalid_fd fd" "sel_table s fd = None"
    | e where "\<not> invalid_fd fd" "sel_table s fd = Some e" by fastforce
  then show ?thesis
  proof cases
    case 1 with inv Op_Register show ?thesis by (simp add: selector_register_def)
  next
    case 2 with register_free [OF inv 2] Op_Register show ?thesis by simp
  next
    case 3 with register_taken [OF inv 3(2)] inv Op_Register show ?thesis by simp
  qed
next
  case (Op_Set_Interest fd f)
  consider "invalid_fd fd" | "\<not> invalid_fd fd" "sel_table s fd = None"
    | e where "\<not> invalid_fd fd" "sel_table s fd = Some e" by fastforce
  then show ?thesis
  proof cases
    case 1 with inv Op_Set_Interest show ?thesis by (simp add: selector_set_interest_def)
  next
    case 2 with set_interest_free [OF inv 2(2)] inv Op_Set_Interest show ?thesis by simp
  next
    case 3 with set_interest_used [OF inv 3] Op_Set_Interest show ?thesis by simp
  qed
next
  case (Op_Unregister fd)
  consider "invalid_fd fd" | "\<not> invalid_fd fd" "sel_table s fd = None"
    | e where "\<not> invalid_fd fd" "sel_table s fd = Some e" by fastforce
  then show ?thesis
  proof cases
    case 1 with inv Op_Unregister show ?thesis by (simp add: selector_unregister_fd_def)
  next
    case 2
    with unregister_free [OF inv 2(2), where close = "\<lambda>_. None" and w = "()"] inv Op_Unregister
    show ?thesis by simp
  next
    case 3
    with table_item [OF inv] obtain h where "it_handler e = Some h" by blast
    with unregister_used [OF inv 3, where h = h and close = "\<lambda>_. None" and w = "()" and w' = "()"] 3 Op_Unregister
    show ?thesis by auto
  qed
qed

interpretation selector: fd_table sel_table sel_inv sel_step
  by unfold_locales (rule sel_step_refines)

lemma sel_steps_eq: "sel_steps as s = selector.steps as s"
  by (induction as arbitrary: s) simp_all

section \<open>Properties\<close>

text \<open>C30: A selector created with 1024 elements, as both servers create theirs, carries out any
  sequence of registrations, changes of interest and unregistrations without a memory fault:
  it answers with the status codes, and ends with the table, that the same operations give on
  a partial map from descriptors to items, and ends with the descriptor sets given to
  \<open>pselect\<close> and \<open>max_fd\<close> in agreement with that table.\<close>

theorem selector_refines_map:
  "\<exists>s sts s'. selector_new True True 1024 = Inr (Some s) \<and> sel_steps ops s = Inr (sts, s') \<and>
     table_steps Map.empty ops = (sts, sel_table s') \<and> sel_inv s'"
proof -
  obtain s :: "('a, 'b) fdselector" where
    s: "selector_new True True 1024 = Inr (Some s)" "sel_inv s" "sel_table s = Map.empty"
    using selector_new_ok by blast
  from selector.steps_refine [OF s(2), of ops] s show ?thesis
    by (auto simp: sel_steps_eq)
qed

text \<open>The selector grows its array only for a descriptor greater than its size, although
  the descriptor equal to the size has no item yet: whatever the size of the array, registering
  that descriptor, if it is a legal one, reads past the end of the array.\<close>

theorem register_at_size_out_of_bounds:
  assumes "fd_size s = length (fds s)" "fd_size s < ITEMS_MAX_SIZE"
  shows "selector_register alloc s (int (fd_size s)) (Some h) interest d = Inl Out_Of_Bounds"
  using assms by (simp add: selector_register_def invalid_fd_def mem_get_def)

theorem register_at_size_out_of_bounds_witness:
  "\<exists>s. selector_new True True 20 = Inr (Some s) \<and> fd_size s = 33 \<and>
     selector_register True s 33 (Some ()) OP_READ (None :: unit option) = Inl Out_Of_Bounds"
proof -
  have "next_capacity 20 = Inr 33"
    by (simp add: next_capacity_def ITEMS_MAX_SIZE_def shift_count.simps)
  then have new: "selector_new True True 20 = Inr (Some (empty_selector
      \<lparr>fds := replicate 33 (item_init zero_item), fd_size := 33\<rparr> :: (unit, unit) fdselector))"
    by (simp add: selector_new_def ensure_capacity_def items_init_def empty_selector_def ITEMS_MAX_SIZE_def)
  show ?thesis
    using new register_at_size_out_of_bounds [where s = "empty_selector
      \<lparr>fds := replicate 33 (item_init zero_item), fd_size := 33\<rparr> :: (unit, unit) fdselector"
      and alloc = True and h = "()" and interest = OP_READ and d = None]
    by (simp add: ITEMS_MAX_SIZE_def)
qed

section \<open>What one select calls\<close>

text \<open>
  Handlers that only record how they were called, each call with its descriptor and data.
\<close>

datatype 'd event = Read_Call int "'d option" | Write_Call int "'d option" | Block_Call int "'d option"

type_synonym ('h, 'd) logged = "('h, 'd) fdselector \<times> 'd event list"

definition log_handlers :: "('h, 'd, ('h, 'd) logged) fd_handlers" where
  "log_handlers =
     \<lparr>handle_read = (\<lambda>h. Some (\<lambda>fd d (s, l). Inr (s, l @ [Read_Call fd d]))),
      handle_write = (\<lambda>h. Some (\<lambda>fd d (s, l). Inr (s, l @ [Write_Call fd d]))),
      handle_block = (\<lambda>h. Some (\<lambda>fd d (s, l). Inr (s, l @ [Block_Call fd d]))),
      handle_close = (\<lambda>h. None)\<rparr>"

text \<open>The calls the table asks for, when \<open>r\<close> and \<open>w\<close> are ready to be read and written.\<close>

definition due_calls :: "(int \<Rightarrow> ('h, 'd) item option) \<Rightarrow> nat set \<Rightarrow> nat set \<Rightarrow> nat \<Rightarrow> 'd event list" where
  "due_calls t r w n =
     (case t (int n) of None \<Rightarrow> []
      | Some e \<Rightarrow>
          (if n \<in> r \<and> wants (it_interest e) OP_READ then [Read_Call (int n) (it_data e)] else []) @
          (if n \<in> w \<and> wants (it_interest e) OP_WRITE then [Write_Call (int n) (it_data e)] else []))"

definition block_calls :: "(int \<Rightarrow> ('h, 'd) item option) \<Rightarrow> int \<Rightarrow> 'd event list" where
  "block_calls t fd = (case t fd of None \<Rightarrow> [] | Some e \<Rightarrow> [Block_Call fd (it_data e)])"

lemma table_slave [simp]: "sel_table (s\<lparr>slave_r := r, slave_w := w\<rparr>) = sel_table s"
  by (simp add: sel_table_def used_at_def fun_eq_iff)

lemma inv_slave [simp]: "sel_inv (s\<lparr>slave_r := r, slave_w := w\<rparr>) = sel_inv s"
  by (simp add: sel_inv_def used_at_def)

lemma handle_item_log:
  assumes inv: "sel_inv s" and n: "n < length (fds s)"
    and r: "slave_r s = r \<inter> master_r s" and w: "slave_w s = w \<inter> master_w s"
  shows "handle_item log_handlers fst n (s, l) = Inr (s, l @ due_calls (sel_table s) r w n)"
proof (cases "used_at s n")
  case False
  with n show ?thesis by (simp add: handle_item_def due_calls_def sel_table_def used_at_def)
next
  case True
  let ?i = "fds s ! n"
  from True have iu: "item_used ?i" and t: "sel_table s (int n) = Some ?i"
    by (simp_all add: used_at_def sel_table_def)
  from inv True obtain h where i: "it_fd ?i = int n" "it_handler ?i = Some h"
    by (auto simp: sel_inv_def)
  have "n \<in> slave_r s \<longleftrightarrow> n \<in> r \<and> wants (it_interest ?i) OP_READ"
    and "n \<in> slave_w s \<longleftrightarrow> n \<in> w \<and> wants (it_interest ?i) OP_WRITE"
    using inv True by (auto simp: r w sel_inv_def)
  then show ?thesis
    using n iu i t by (auto simp: handle_item_def due_calls_def run_handler_def log_handlers_def Let_def)
qed

lemma iterate_log:
  assumes inv: "sel_inv s" and r: "slave_r s = r \<inter> master_r s" and w: "slave_w s = w \<inter> master_w s"
  shows "\<forall>n \<in> set ns. n < length (fds s) \<Longrightarrow>
    iterate_items log_handlers fst ns (s, l) =
      Inr (s, l @ concat (map (due_calls (sel_table s) r w) ns))"
  by (induction ns arbitrary: l) (simp_all add: handle_item_log [OF inv _ r w])

lemma notify_log:
  assumes inv: "sel_inv s"
  shows "\<forall>fd \<in> set js. \<not> invalid_fd fd \<Longrightarrow>
    notify_jobs log_handlers fst js (s, l) =
      Inr (s, l @ concat (map (block_calls (sel_table s)) js))"
proof (induction js arbitrary: l)
  case (Cons fd js)
  then have fd: "\<not> fd < 0" "nat fd < length (fds s)" "0 \<le> fd"
    using inv by (auto simp: invalid_fd_def sel_inv_def)
  show ?case
  proof (cases "used_at s (nat fd)")
    case True
    let ?i = "fds s ! nat fd"
    from True have "item_used ?i" and "sel_table s fd = Some ?i"
      using fd by (simp_all add: used_at_def sel_table_def)
    moreover from inv True fd obtain h where "it_fd ?i = fd" "it_handler ?i = Some h"
      by (auto simp: sel_inv_def)
    ultimately show ?thesis
      using Cons fd by (simp add: block_calls_def run_handler_def log_handlers_def)
  next
    case False
    with Cons fd show ?thesis by (simp add: block_calls_def sel_table_def used_at_def)
  qed
qed simp

lemma due_beyond_max:
  assumes inv: "sel_inv s"
  shows "concat (map (due_calls (sel_table s) r w) [0..<nat (max_fd s + 1)]) =
    concat (map (due_calls (sel_table s) r w) [0..<length (fds s)])"
proof -
  let ?m = "nat (max_fd s + 1)"
  from max_fd_bounds [OF inv] have le: "?m \<le> length (fds s)" by linarith
  then have "[0..<length (fds s)] = [0..<?m] @ [?m..<length (fds s)]"
    using upt_add_eq_append [of 0 ?m "length (fds s) - ?m"] by simp
  moreover have "due_calls (sel_table s) r w n = []" if "n \<in> set [?m..<length (fds s)]" for n
    using that max_fd_bounds(3) [OF inv, of n]
    by (auto simp: due_calls_def sel_table_def)
  then have "concat (map (due_calls (sel_table s) r w) [?m..<length (fds s)]) = []" by simp
  ultimately show ?thesis by simp
qed

text \<open>C31: One pass of the multiplexer calls exactly the handlers it should: for each descriptor in
  ascending order, the read handler if it is registered, reported ready and wants to read, then
  the write handler likewise; then, for each finished blocking job whose descriptor is still
  registered, the block handler.  Each is called with the descriptor and data it was
  registered with, and the jobs are gone afterwards.\<close>

theorem select_calls_due:
  assumes "sel_inv s" "\<forall>fd \<in> set (resolution_jobs s). \<not> invalid_fd fd"
  shows "selector_select log_handlers fst (\<lambda>s (_, l). (s, l)) (PS_Ready r w) (s, l) =
    Inr (SELECTOR_SUCCESS,
      s\<lparr>slave_r := r \<inter> master_r s, slave_w := w \<inter> master_w s, resolution_jobs := []\<rparr>,
      l @ concat (map (due_calls (sel_table s) r w) [0..<length (fds s)]) @
      concat (map (block_calls (sel_table s)) (resolution_jobs s)))"
proof -
  let ?s = "s\<lparr>slave_r := r \<inter> master_r s, slave_w := w \<inter> master_w s\<rparr>"
  have inv: "sel_inv ?s" using assms by simp
  note it = iterate_log [OF inv, of r w]
  have bound: "\<forall>n \<in> {0..<nat (max_fd s + 1)}. n < length (fds s)"
    using max_fd_bounds(2) [OF assms(1)] by auto
  have "handle_iteration log_handlers fst (?s, l) =
      Inr (?s, l @ concat (map (due_calls (sel_table s) r w) [0..<length (fds s)]))"
    using it [of "[0..<nat (max_fd s + 1)]" l] due_beyond_max [OF assms(1), of r w] bound
    by (simp add: handle_iteration_def)
  with notify_log [OF inv, of "resolution_jobs s"] assms(2) show ?thesis
    by (simp add: selector_select_def Let_def handle_block_notifications_def)
qed

theorem select_calls_due_witness:
  "\<exists>s :: (unit, nat) fdselector. sel_inv s \<and> sel_table s 3 \<noteq> None \<and>
     selector_select log_handlers fst (\<lambda>s (_, l). (s, l)) (PS_Ready {3, 5} {}) (s, []) =
       Inr (SELECTOR_SUCCESS, s\<lparr>slave_r := {3, 5} \<inter> master_r s, slave_w := {},
              resolution_jobs := []\<rparr>,
         concat (map (due_calls (sel_table s) {3, 5} {}) [0..<length (fds s)]))"
proof -
  obtain s0 :: "(unit, nat) fdselector" where
    s0: "selector_new True True 1024 = Inr (Some s0)" "sel_inv s0" "sel_table s0 = Map.empty"
    using selector_new_ok by blast
  have fd: "\<not> invalid_fd 3" by (simp add: invalid_fd_def ITEMS_MAX_SIZE_def)
  from register_free [OF s0(2) fd, where h = "()" and d = "Some 7" and interest = OP_READ] s0(3) obtain s where
    s: "selector_register True s0 3 (Some ()) OP_READ (Some 7) = Inr (SELECTOR_SUCCESS, s)"
       "sel_inv s" "sel_table s 3 \<noteq> None" by auto
  have jobs: "sel_inv (s\<lparr>resolution_jobs := []\<rparr>)" "sel_table (s\<lparr>resolution_jobs := []\<rparr>) = sel_table s"
    using s(2) by (simp_all add: sel_inv_def used_at_def sel_table_def fun_eq_iff)
  show ?thesis
    using select_calls_due [OF jobs(1), of "{3, 5}" "{}" "[]"] jobs s(3)
    by (intro exI [of _ "s\<lparr>resolution_jobs := []\<rparr>"]) simp
qed

end
