(* ===== verification/C_String.thy ===== *)
theory C_String
  imports Prelude
begin

text \<open>
  The C strings and the formatted output the server's text components use.  A string is the
  list of its bytes before the terminating zero; an array that should hold one is a memory
  block, and reading a string from a block without a zero leaves the block.  \<open>snprintf\<close> is
  the text it would write, cut to the room there is; the conversions used are \<open>%s\<close>,
  \<open>%c\<close>, \<open>%d\<close> and \<open>%lu\<close>, with left-justified widths.
\<close>

section \<open>Strings\<close>

definition lit :: "string \<Rightarrow> byte list" where
  "lit s = map of_char s"

definition c_str :: "byte list \<Rightarrow> byte list res" where
  "c_str mem = guard Out_Of_Bounds (0 \<in> set mem) (Inr (takeWhile (\<lambda>b. b \<noteq> 0) mem))"

definition is_text :: "byte list \<Rightarrow> bool" where
  "is_text s \<longleftrightarrow> 0 \<notin> set s"

text \<open>\<open>strncpy\<close> to an array of \<open>n\<close> bytes: the rest is filled with zeros, if there is a rest.\<close>

definition strncpy :: "byte list \<Rightarrow> nat \<Rightarrow> byte list" where
  "strncpy s n = take n s @ replicate (n - length s) 0"

text \<open>\<open>strcpy\<close> and \<open>snprintf\<close> into a block at an offset, for \<open>snprintf\<close> with the room given.\<close>

definition strcpy_to :: "byte list \<Rightarrow> nat \<Rightarrow> byte list \<Rightarrow> byte list res" where
  "strcpy_to mem at s = mem_write mem at (s @ [0])"

definition snprintf_to :: "byte list \<Rightarrow> nat \<Rightarrow> nat \<Rightarrow> byte list \<Rightarrow> byte list res" where
  "snprintf_to mem at room s =
     (if room = 0 then Inr mem else mem_write mem at (take (room - 1) s @ [0]))"

lemma is_text_simps [simp]:
  "is_text []" "is_text (b # s) \<longleftrightarrow> b \<noteq> 0 \<and> is_text s" "is_text (s @ t) \<longleftrightarrow> is_text s \<and> is_text t"
  by (auto simp: is_text_def)

lemma is_text_take [simp]: "is_text s \<Longrightarrow> is_text (take n s)"
  by (auto simp: is_text_def dest: in_set_takeD)

lemma is_text_concat [simp]: "is_text (concat ss) \<longleftrightarrow> (\<forall>s \<in> set ss. is_text s)"
  by (auto simp: is_text_def)

lemma c_str_text: "is_text s \<Longrightarrow> c_str (s @ 0 # rest) = Inr s"
  by (auto simp: c_str_def is_text_def takeWhile_append)

lemma c_str_strncpy:
  "is_text s \<Longrightarrow> length s < n \<Longrightarrow> c_str (strncpy s n) = Inr s"
  using c_str_text [of s "replicate (n - length s - 1) 0"]
  by (cases "n - length s") (simp_all add: strncpy_def)

lemma c_str_unterminated:
  "is_text s \<Longrightarrow> n \<le> length s \<Longrightarrow> c_str (strncpy s n) = Inl Out_Of_Bounds"
  using is_text_take [of s n] by (simp add: strncpy_def c_str_def is_text_def)

lemma snprintf_whole:
  "length s < room \<Longrightarrow> at + room \<le> length mem \<Longrightarrow>
     snprintf_to mem at room s = Inr (take at mem @ s @ 0 # drop (at + length s + 1) mem)"
  by (simp add: snprintf_to_def)

lemma snprintf_length:
  "at + room \<le> length mem \<Longrightarrow>
     \<exists>mem'. snprintf_to mem at room s = Inr mem' \<and> length mem' = length mem \<and> take at mem' = take at mem"
  by (auto simp: snprintf_to_def mem_write_def guard_def min_def)

section \<open>Numbers\<close>

fun decimal :: "nat \<Rightarrow> byte list" where
  "decimal n = (if n < 10 then [48 + of_nat n] else decimal (n div 10) @ [48 + of_nat (n mod 10)])"

declare decimal.simps [simp del]

definition decimal_int :: "int \<Rightarrow> byte list" where
  "decimal_int i = (if i < 0 then 45 # decimal (nat (- i)) else decimal (nat i))"

text \<open>\<open>atoi\<close>: white space, a sign, digits; as the library does it, the value is that of
  \<open>strtol\<close>, which stops at the ends of the range of 64 bits, cut to 32 bits.\<close>

definition is_space_char :: "byte \<Rightarrow> bool" where
  "is_space_char b \<longleftrightarrow> b = 32 \<or> (9 \<le> b \<and> b \<le> 13)"

definition is_digit_char :: "byte \<Rightarrow> bool" where
  "is_digit_char b \<longleftrightarrow> 48 \<le> b \<and> b \<le> 57"

definition digits_value :: "nat \<Rightarrow> byte list \<Rightarrow> nat" where
  "digits_value a ds = foldl (\<lambda>v d. 10 * v + (unat d - 48)) a ds"

definition strtol :: "byte list \<Rightarrow> int" where
  "strtol s =
     (let s = dropWhile is_space_char s;
          neg = (s \<noteq> [] \<and> hd s = 45);
          s = (if s \<noteq> [] \<and> (hd s = 45 \<or> hd s = 43) then tl s else s);
          v = int (digits_value 0 (takeWhile is_digit_char s))
      in if neg then max (- v) (- (2 ^ 63)) else min v (2 ^ 63 - 1))"

definition atoi :: "byte list \<Rightarrow> int" where
  "atoi s = signed_take_bit 31 (strtol s)"

definition pad_right :: "nat \<Rightarrow> byte list \<Rightarrow> byte list" where
  "pad_right w s = s @ replicate (w - length s) 32"

lemma unat_digit: "d < 10 \<Longrightarrow> unat (48 + of_nat d :: byte) = 48 + d"
  by (simp add: unat_word_ariths unat_of_nat)

lemma digit_char: "d < 10 \<Longrightarrow> is_digit_char (48 + of_nat d)"
  by (simp add: is_digit_char_def word_le_nat_alt unat_digit)

lemma decimal_digits: "\<forall>b \<in> set (decimal n). is_digit_char b"
  by (induction n rule: decimal.induct) (subst decimal.simps, simp add: digit_char)

lemma digits_value_decimal: "digits_value 0 (decimal n) = n"
proof (induction n rule: decimal.induct)
  case (1 n)
  show ?case
  proof (cases "n < 10")
    case True
    then show ?thesis by (simp add: decimal.simps [of n] digits_value_def unat_digit)
  next
    case False
    with 1 have "digits_value 0 (decimal (n div 10)) = n div 10" by simp
    with False show ?thesis
      by (simp add: decimal.simps [of n] digits_value_def unat_digit)
  qed
qed

lemma decimal_nonempty: "decimal n \<noteq> []"
  by (subst decimal.simps) simp

lemma decimal_text [simp]: "is_text (decimal n)"
  using decimal_digits [of n] by (auto simp: is_text_def is_digit_char_def)

lemma pad_text [simp]: "is_text (pad_right w s) \<longleftrightarrow> is_text s"
  by (auto simp: pad_right_def is_text_def)

lemma digit_not_sign: "is_digit_char b \<Longrightarrow> \<not> is_space_char b \<and> b \<noteq> 45 \<and> b \<noteq> 43"
  by (auto simp: is_digit_char_def is_space_char_def word_le_nat_alt)

lemma strtol_decimal: "n < 2 ^ 63 \<Longrightarrow> strtol (decimal n) = int n"
proof -
  assume n: "n < 2 ^ 63"
  obtain d ds where d: "decimal n = d # ds"
    using decimal_nonempty [of n] by (cases "decimal n") simp_all
  with decimal_digits [of n] have "is_digit_char d" by simp
  from digit_not_sign [OF this] have "strtol (d # ds) =
      min (int (digits_value 0 (takeWhile is_digit_char (d # ds)))) (2 ^ 63 - 1)"
    by (simp add: strtol_def Let_def)
  moreover have "takeWhile is_digit_char (d # ds) = d # ds"
    unfolding takeWhile_eq_all_conv using decimal_digits [of n] d by simp
  ultimately show ?thesis
    using n digits_value_decimal [of n] d by simp
qed

text \<open>What \<open>%d\<close> prints \<open>atoi\<close> reads back.\<close>

lemma atoi_decimal: "n < 2 ^ 31 \<Longrightarrow> atoi (decimal n) = int n"
  using strtol_decimal [of n] by (simp add: atoi_def signed_take_bit_int_eq_self)

section \<open>Printing line after line\<close>

text \<open>
  The loop of the listing functions: each line is printed after the \<open>written\<close> bytes there
  are already, and the loop ends early, with the flag set, when a line does not fit in the
  rest of the \<open>sz\<close> bytes.
\<close>

fun append_lines ::
    "byte list list \<Rightarrow> byte list \<Rightarrow> nat \<Rightarrow> nat \<Rightarrow> (byte list \<times> nat \<times> bool) res" where
  "append_lines [] resp sz written = Inr (resp, written, False)"
| "append_lines (s # ss) resp sz written =
     bind_res (snprintf_to resp written (sz - written) s) (\<lambda>resp.
       if length s \<ge> sz - written then Inr (resp, written, True)
       else append_lines ss resp sz (written + length s))"

lemma append_lines_fits:
  assumes "length resp = sz" "written = length before" "take written resp = before"
    and "written + length (concat ss) < sz"
  shows "\<exists>resp'. append_lines ss resp sz written = Inr (resp', written + length (concat ss), False) \<and>
    length resp' = sz \<and> take (written + length (concat ss)) resp' = before @ concat ss"
  using assms
proof (induction ss arbitrary: resp written before)
  case (Cons s ss)
  let ?resp = "take written resp @ s @ 0 # drop (written + length s + 1) resp"
  have room: "written + length s < sz" "length s < sz - written"
    and rest: "written + length s + length (concat ss) < sz"
    using Cons.prems(4) by auto
  have put: "snprintf_to resp written (sz - written) s = Inr ?resp"
    using room Cons.prems(1) by (intro snprintf_whole) auto
  have "length ?resp = sz" "take (written + length s) ?resp = before @ s"
    using room Cons.prems by (auto simp: min_def)
  from Cons.IH [OF this(1) _ this(2)] rest Cons.prems(2) obtain resp' where
    "append_lines ss ?resp sz (written + length s) =
       Inr (resp', written + length s + length (concat ss), False)"
    "length resp' = sz"
    "take (written + length s + length (concat ss)) resp' = (before @ s) @ concat ss"
    by auto
  then show ?case
    using put room by (auto simp: add.assoc)
qed simp

lemma lit_end [simp]: "lit ''END\<newline>'' = [69, 78, 68, 10]" "lit ''\<newline>'' = [10]"
  by (simp_all add: lit_def)

section \<open>Widths\<close>

lemma length_decimal: "n < 10 ^ k \<Longrightarrow> 0 < k \<Longrightarrow> length (decimal n) \<le> k"
proof (induction n arbitrary: k rule: decimal.induct)
  case (1 n)
  show ?case
  proof (cases "n < 10")
    case True
    with 1 show ?thesis by (simp add: decimal.simps [of n])
  next
    case False
    with 1(2) obtain j where k: "k = Suc j" "0 < j" by (cases k; cases "k - 1") auto
    with 1(2) have "n div 10 < 10 ^ j" by (simp add: div_less_iff_less_mult mult.commute)
    with 1(1) [OF False this k(2)] k False show ?thesis by (simp add: decimal.simps [of n])
  qed
qed

lemma length_pad_right [simp]: "length (pad_right w s) = max w (length s)"
  by (simp add: pad_right_def)

end
