(* ===== verification/Auth_Table.thy ===== *)
theory Auth_Table
  imports C_String "HOL-Library.Multiset"
begin

text \<open>
  The table of users of \<open>src/src/server/utils/auth_table.c\<close>: 1031 chains, a chain chosen by
  a djb2 hash of the name.  The table is used with names of arbitrary bytes (no zero among
  them); names and passwords are kept in arrays of 256 bytes, so their first 255 bytes are
  stored.  The interface \<open>user_table\<close> states what the proxy and the admin protocol rely on.
\<close>

section \<open>State\<close>

definition HASHMAP_SIZE :: nat where "HASHMAP_SIZE = 1031"

record user_entry =
  username :: "byte list"
  password :: "byte list"

type_synonym hashmap = "user_entry list list"

text \<open>The characters are signed: a byte above 127 subtracts.\<close>

fun hash_loop :: "64 word \<Rightarrow> byte list \<Rightarrow> 64 word" where
  "hash_loop h [] = h"
| "hash_loop h (c # cs) = hash_loop ((push_bit 5 h + h) + scast c) cs"

definition hash :: "byte list \<Rightarrow> nat" where
  "hash str = unat (hash_loop 5381 str mod 1031)"

section \<open>Operations\<close>

definition auth_init :: hashmap where
  "auth_init = replicate HASHMAP_SIZE []"

definition auth_destroy :: "hashmap \<Rightarrow> hashmap" where
  "auth_destroy m = map (\<lambda>_. []) m"

text \<open>\<open>alloc\<close> tells whether \<open>malloc\<close> succeeds.\<close>

definition auth_add_user :: "bool \<Rightarrow> hashmap \<Rightarrow> byte list \<Rightarrow> byte list \<Rightarrow> bool \<times> hashmap" where
  "auth_add_user alloc m user pass =
     (let h = hash user; chain = m ! h
      in if \<exists>e \<in> set chain. username e = user then (False, m)
         else if \<not> alloc then (False, m)
         else (True, m[h := \<lparr>username = take (MAX_USERNAME_LEN - 1) user,
                             password = take (MAX_PASSWORD_LEN - 1) pass\<rparr> # chain]))"

fun unlink :: "byte list \<Rightarrow> user_entry list \<Rightarrow> user_entry list option" where
  "unlink user [] = None"
| "unlink user (e # es) =
     (if username e = user then Some es
      else case unlink user es of None \<Rightarrow> None | Some es' \<Rightarrow> Some (e # es'))"

definition auth_remove_user :: "hashmap \<Rightarrow> byte list \<Rightarrow> bool \<times> hashmap" where
  "auth_remove_user m user =
     (let h = hash user
      in case unlink user (m ! h) of
           None \<Rightarrow> (False, m)
         | Some chain \<Rightarrow> (True, m[h := chain]))"

definition auth_check_credentials :: "hashmap \<Rightarrow> byte list \<Rightarrow> byte list \<Rightarrow> bool" where
  "auth_check_credentials m user pass \<longleftrightarrow>
     (\<exists>e \<in> set (m ! hash user). username e = user \<and> password e = pass)"

text \<open>The listing goes through the chains in order.  It may count more than it wrote: the
  final line is counted even where it was cut.\<close>

definition user_line :: "user_entry \<Rightarrow> byte list" where
  "user_line e = username e @ lit ''\<newline>''"

definition auth_list_users :: "hashmap \<Rightarrow> byte list \<Rightarrow> nat \<Rightarrow> (byte list \<times> nat) res" where
  "auth_list_users m resp sz =
     bind_res (append_lines (map user_line (concat m)) resp sz 0) (\<lambda>(resp, written, full).
       if full then Inr (resp, written)
       else if written < sz
            then bind_res (snprintf_to resp written (sz - written) (lit ''END\<newline>'')) (\<lambda>resp.
                 Inr (resp, written + 4))
            else Inr (resp, written))"

section \<open>The table as a map\<close>

definition table_inv :: "hashmap \<Rightarrow> bool" where
  "table_inv m \<longleftrightarrow> length m = HASHMAP_SIZE \<and>
     (\<forall>h < HASHMAP_SIZE. distinct (map username (m ! h)) \<and>
        (\<forall>e \<in> set (m ! h). hash (username e) = h \<and> length (username e) < MAX_USERNAME_LEN))"

fun chain_lookup :: "user_entry list \<Rightarrow> byte list \<Rightarrow> byte list option" where
  "chain_lookup [] user = None"
| "chain_lookup (e # es) user = (if username e = user then Some (password e) else chain_lookup es user)"

definition users :: "hashmap \<Rightarrow> byte list \<rightharpoonup> byte list" where
  "users m user = chain_lookup (m ! hash user) user"

lemma hash_less [simp]: "hash s < HASHMAP_SIZE"
proof -
  have "hash_loop 5381 s mod 1031 < 1031"
    by (rule word_mod_less_divisor) simp
  then show ?thesis by (simp add: hash_def HASHMAP_SIZE_def word_less_nat_alt)
qed

lemma table_entry:
  "table_inv m \<Longrightarrow> h < HASHMAP_SIZE \<Longrightarrow> e \<in> set (m ! h) \<Longrightarrow>
     hash (username e) = h \<and> length (username e) < MAX_USERNAME_LEN"
  unfolding table_inv_def by blast

lemma chain_lookup_None: "chain_lookup es user = None \<longleftrightarrow> (\<forall>e \<in> set es. username e \<noteq> user)"
  by (induction es) auto

lemma chain_lookup_Some:
  "distinct (map username es) \<Longrightarrow>
     chain_lookup es user = Some p \<longleftrightarrow> (\<exists>e \<in> set es. username e = user \<and> password e = p)"
  by (induction es) (auto simp: chain_lookup_None image_iff)

lemma unlink_None: "unlink user es = None \<longleftrightarrow> chain_lookup es user = None"
  by (induction es) (auto split: option.splits)

lemma unlink_Some:
  "unlink user es = Some es' \<Longrightarrow> distinct (map username es) \<Longrightarrow>
     distinct (map username es') \<and> set es' = {e \<in> set es. username e \<noteq> user} \<and>
     chain_lookup es' = (chain_lookup es)(user := None)"
proof (induction es arbitrary: es')
  case (Cons e es)
  show ?case
  proof (cases "username e = user")
    case True
    with Cons.prems have "es' = es" "\<forall>x \<in> set es. username x \<noteq> user"
      by (auto simp: image_iff)
    with True Cons.prems show ?thesis
      by (auto simp: fun_eq_iff chain_lookup_None)
  next
    case False
    with Cons.prems obtain es2 where
      2: "unlink user es = Some es2" "es' = e # es2" by (auto split: option.splits)
    from Cons.IH [OF 2(1)] Cons.prems(2) have IH: "distinct (map username es2)"
      "set es2 = {e \<in> set es. username e \<noteq> user}"
      "chain_lookup es2 = (chain_lookup es)(user := None)" by auto
    with False 2(2) Cons.prems(2) show ?thesis by (auto simp: fun_eq_iff)
  qed
qed simp

lemma auth_init_ok: "table_inv auth_init" "users auth_init = Map.empty"
  by (auto simp: table_inv_def auth_init_def users_def fun_eq_iff)

lemma auth_destroy_ok: "table_inv m \<Longrightarrow> auth_destroy m = auth_init"
  by (simp add: table_inv_def auth_destroy_def auth_init_def map_replicate_const)

lemma auth_check_users:
  "table_inv m \<Longrightarrow> auth_check_credentials m user pass \<longleftrightarrow> users m user = Some pass"
  by (auto simp: auth_check_credentials_def users_def table_inv_def chain_lookup_Some)

lemma auth_add_known:
  "users m user \<noteq> None \<Longrightarrow> auth_add_user alloc m user pass = (False, m)"
  by (auto simp: auth_add_user_def users_def chain_lookup_None Let_def)

lemma auth_add_new:
  assumes inv: "table_inv m" and new: "users m user = None" and len: "length user < MAX_USERNAME_LEN"
  shows "\<exists>m'. auth_add_user True m user pass = (True, m') \<and> table_inv m' \<and>
    users m' = (users m)(user \<mapsto> take (MAX_PASSWORD_LEN - 1) pass)"
proof -
  let ?e = "\<lparr>username = user, password = take (MAX_PASSWORD_LEN - 1) pass\<rparr>"
  let ?m = "m[hash user := ?e # m ! hash user]"
  have fresh: "\<forall>e \<in> set (m ! hash user). username e \<noteq> user"
    using new by (simp add: users_def chain_lookup_None)
  have cut: "take (MAX_USERNAME_LEN - 1) user = user" using len by simp
  have "auth_add_user True m user pass = (True, ?m)"
    using fresh cut by (auto simp: auth_add_user_def Let_def)
  moreover have "table_inv ?m"
    using inv fresh len by (auto simp: table_inv_def nth_list_update)
  moreover have "users ?m = (users m)(user \<mapsto> take (MAX_PASSWORD_LEN - 1) pass)"
    using inv by (auto simp: users_def fun_eq_iff table_inv_def nth_list_update)
  ultimately show ?thesis by blast
qed

lemma auth_remove_unknown:
  "users m user = None \<Longrightarrow> auth_remove_user m user = (False, m)"
  by (simp add: auth_remove_user_def users_def unlink_None [symmetric] Let_def)

lemma auth_remove_known:
  assumes inv: "table_inv m" and known: "users m user \<noteq> None"
  shows "\<exists>m'. auth_remove_user m user = (True, m') \<and> table_inv m' \<and> users m' = (users m)(user := None)"
proof -
  from known obtain es where es: "unlink user (m ! hash user) = Some es"
    using unlink_None [of user "m ! hash user"] by (auto simp: users_def)
  let ?m = "m[hash user := es]"
  from inv have "distinct (map username (m ! hash user))" by (simp add: table_inv_def)
  note un = unlink_Some [OF es this]
  have "auth_remove_user m user = (True, ?m)" using es by (simp add: auth_remove_user_def)
  moreover have "table_inv ?m"
    using inv un by (auto simp: table_inv_def nth_list_update)
  moreover have "users ?m = (users m)(user := None)"
  proof
    fix u show "users ?m u = ((users m)(user := None)) u"
    proof (cases "hash u = hash user")
      case True
      then show ?thesis using un inv by (auto simp: users_def table_inv_def)
    next
      case False
      then show ?thesis by (auto simp: users_def)
    qed
  qed
  ultimately show ?thesis by blast
qed

section \<open>The interface: a table of users\<close>

datatype user_op = Add_User "byte list" "byte list" | Remove_User "byte list" | Check_User "byte list" "byte list"

text \<open>Names and passwords that fit their arrays.\<close>

fun op_fits :: "user_op \<Rightarrow> bool" where
  "op_fits (Add_User u p) \<longleftrightarrow> length u < MAX_USERNAME_LEN \<and> length p < MAX_PASSWORD_LEN"
| "op_fits (Remove_User u) \<longleftrightarrow> True"
| "op_fits (Check_User u p) \<longleftrightarrow> True"

text \<open>The same operations on a partial map from names to passwords.\<close>

fun users_step :: "(byte list \<rightharpoonup> byte list) \<Rightarrow> user_op \<Rightarrow> bool \<times> (byte list \<rightharpoonup> byte list)" where
  "users_step t (Add_User u p) = (if t u = None then (True, t(u \<mapsto> p)) else (False, t))"
| "users_step t (Remove_User u) = (t u \<noteq> None, t(u := None))"
| "users_step t (Check_User u p) = (t u = Some p, t)"

fun users_steps :: "(byte list \<rightharpoonup> byte list) \<Rightarrow> user_op list \<Rightarrow> bool list \<times> (byte list \<rightharpoonup> byte list)" where
  "users_steps t [] = ([], t)"
| "users_steps t (a # as) =
     (let (b, t') = users_step t a; (bs, t'') = users_steps t' as in (b # bs, t''))"

fun user_step :: "user_op \<Rightarrow> hashmap \<Rightarrow> bool \<times> hashmap" where
  "user_step (Add_User u p) m = auth_add_user True m u p"
| "user_step (Remove_User u) m = auth_remove_user m u"
| "user_step (Check_User u p) m = (auth_check_credentials m u p, m)"

fun user_steps :: "user_op list \<Rightarrow> hashmap \<Rightarrow> bool list \<times> hashmap" where
  "user_steps [] m = ([], m)"
| "user_steps (a # as) m = (let (b, m) = user_step a m; (bs, m) = user_steps as m in (b # bs, m))"

locale user_table =
  fixes table :: "'t \<Rightarrow> byte list \<rightharpoonup> byte list"
    and ok :: "'t \<Rightarrow> bool"
    and step :: "user_op \<Rightarrow> 't \<Rightarrow> bool \<times> 't"
  assumes step_ok: "ok t \<Longrightarrow> op_fits a \<Longrightarrow> ok (snd (step a t))"
    and step_table: "ok t \<Longrightarrow> op_fits a \<Longrightarrow>
      users_step (table t) a = (fst (step a t), table (snd (step a t)))"
begin

lemma check_table: "ok t \<Longrightarrow> fst (step (Check_User u q) t) \<longleftrightarrow> table t u = Some q"
  using step_table [of t "Check_User u q"] by auto

lemma add_table:
  "ok t \<Longrightarrow> op_fits (Add_User u p) \<Longrightarrow>
     table (snd (step (Add_User u p) t)) = (if table t u = None then (table t)(u \<mapsto> p) else table t)"
  "ok t \<Longrightarrow> op_fits (Add_User u p) \<Longrightarrow> fst (step (Add_User u p) t) \<longleftrightarrow> table t u = None"
  using step_table [of t "Add_User u p"] by (auto split: if_splits)

lemma remove_table:
  "ok t \<Longrightarrow> table (snd (step (Remove_User u) t)) = (table t)(u := None)"
  using step_table [of t "Remove_User u"] by simp

lemma add_then_check:
  assumes "ok t" "op_fits (Add_User u p)" "fst (step (Add_User u p) t)"
  shows "fst (step (Check_User v q) (snd (step (Add_User u p) t))) \<longleftrightarrow>
    (if v = u then q = p else fst (step (Check_User v q) t))"
  using assms by (auto simp: check_table step_ok add_table simp del: op_fits.simps)

lemma remove_then_check:
  "ok t \<Longrightarrow> \<not> fst (step (Check_User u q) (snd (step (Remove_User u) t)))"
  by (simp add: check_table step_ok remove_table)

end

lemma user_step_table:
  assumes inv: "table_inv m" and fits: "op_fits a"
  shows "table_inv (snd (user_step a m))"
    and "users_step (users m) a = (fst (user_step a m), users (snd (user_step a m)))"
proof -
  have "table_inv (snd (user_step a m)) \<and>
    users_step (users m) a = (fst (user_step a m), users (snd (user_step a m)))"
  proof (cases a)
    case (Add_User u p)
    show ?thesis
    proof (cases "users m u")
      case None
      with auth_add_new [OF inv None, of p] fits Add_User show ?thesis by auto
    next
      case (Some q)
      with auth_add_known [of m u True p] inv Add_User show ?thesis by simp
    qed
  next
    case (Remove_User u)
    show ?thesis
    proof (cases "users m u")
      case None
      with auth_remove_unknown [OF None] inv Remove_User show ?thesis by (simp add: fun_upd_idem)
    next
      case (Some q)
      with auth_remove_known [OF inv, of u] Remove_User show ?thesis by auto
    qed
  next
    case (Check_User u p)
    with inv auth_check_users [OF inv, of u p] show ?thesis by simp
  qed
  then show "table_inv (snd (user_step a m))"
    and "users_step (users m) a = (fst (user_step a m), users (snd (user_step a m)))" by simp_all
qed

interpretation auth: user_table users table_inv user_step
  by unfold_locales (simp_all add: user_step_table)

lemma user_steps_refine:
  "table_inv m \<Longrightarrow> \<forall>a \<in> set as. op_fits a \<Longrightarrow>
     table_inv (snd (user_steps as m)) \<and>
     users_steps (users m) as = (fst (user_steps as m), users (snd (user_steps as m)))"
proof (induction as arbitrary: m)
  case (Cons a as)
  obtain b m1 where 1: "user_step a m = (b, m1)" by fastforce
  with user_step_table [of m a] Cons.prems
  have 2: "table_inv m1" "users_step (users m) a = (b, users m1)" by simp_all
  from Cons.IH [OF 2(1)] Cons.prems 1 2(2) show ?case
    by (auto simp: Let_def split: prod.split)
qed simp

section \<open>The listing\<close>

definition listing :: "user_entry list \<Rightarrow> byte list" where
  "listing es = concat (map user_line es)"

lemma names_dom:
  assumes inv: "table_inv m"
  shows "set (map username (concat m)) = dom (users m)"
proof (intro equalityI subsetI)
  fix u assume "u \<in> set (map username (concat m))"
  then obtain h e where e: "h < length m" "e \<in> set (m ! h)" "username e = u"
    by (auto simp: in_set_conv_nth [of _ m])
  with inv have "hash u = h" by (auto simp: table_inv_def)
  with e have "users m u \<noteq> None" by (auto simp: users_def chain_lookup_None)
  then show "u \<in> dom (users m)" by auto
next
  fix u assume "u \<in> dom (users m)"
  then obtain e where e: "e \<in> set (m ! hash u)" "username e = u"
    unfolding users_def dom_def using chain_lookup_None [of "m ! hash u" u] by auto
  moreover have "m ! hash u \<in> set m" using inv by (intro nth_mem) (simp add: table_inv_def)
  ultimately show "u \<in> set (map username (concat m))" by force
qed

lemma names_distinct:
  assumes inv: "table_inv m"
  shows "distinct (map username (concat m))"
proof -
  have "distinct (map username (concat (take n m)))" if "n \<le> length m" for n
    using that
  proof (induction n)
    case (Suc n)
    have "username ` set (m ! n) \<inter> username ` set (concat (take n m)) = {}"
    proof (intro equals0I, elim IntE imageE)
      fix u e e' assume e: "u = username e" "e \<in> set (m ! n)" "u = username e'"
        "e' \<in> set (concat (take n m))"
      then obtain k where k: "k < n" "e' \<in> set (m ! k)"
        using Suc.prems by (auto simp: in_set_conv_nth [of _ "take n m"])
      have sz: "n < HASHMAP_SIZE" "k < HASHMAP_SIZE"
        using inv Suc.prems k(1) by (auto simp: table_inv_def)
      have "hash u = n" using table_entry [OF inv sz(1) e(2)] e(1) by simp
      moreover have "hash (username e') = k" using table_entry [OF inv sz(2) k(2)] by simp
      ultimately show False using e k(1) by simp
    qed
    moreover have "distinct (map username (m ! n))"
      using inv Suc.prems by (simp add: table_inv_def)
    ultimately show ?case
      using Suc by (auto simp: take_Suc_conv_app_nth)
  qed simp
  from this [of "length m"] show ?thesis by simp
qed

section \<open>Properties\<close>

text \<open>C29: Any sequence of additions, removals and checks on the freshly initialised table, with
  the names and passwords that are added shorter than 256 bytes, answers as the same sequence does on a partial map
  from names to passwords: a name is added once, removed if it is there, and a check succeeds
  exactly for the stored password.  (A longer name is cut and never found again: \<open>long_name_unusable\<close>.)\<close>

theorem auth_table_refines_map:
  assumes "\<forall>a \<in> set ops. op_fits a"
  shows "fst (user_steps ops auth_init) = fst (users_steps Map.empty ops) \<and>
    users (snd (user_steps ops auth_init)) = snd (users_steps Map.empty ops)"
  using user_steps_refine [OF auth_init_ok(1) assms] by (simp add: auth_init_ok)

theorem auth_table_refines_map_witness:
  "fst (user_steps [Add_User [97] [1, 2], Add_User [97] [3], Check_User [97] [1, 2],
      Remove_User [97], Check_User [97] [1, 2]] auth_init) = [True, False, True, True, False]"
  using auth_table_refines_map [of "[Add_User [97] [1, 2], Add_User [97] [3],
      Check_User [97] [1, 2], Remove_User [97], Check_User [97] [1, 2]]"]
  by (simp add: MAX_USERNAME_LEN_def MAX_PASSWORD_LEN_def)

text \<open>A name longer than its array is accepted, since it is cut only after the search for
  duplicates, and then serves nobody: no check of that name succeeds, it cannot be removed, and
  it can be added again.\<close>

theorem long_name_unusable:
  assumes inv: "table_inv m" and len: "MAX_USERNAME_LEN \<le> length u"
  shows "fst (auth_add_user True m u p) \<and>
    \<not> auth_check_credentials (snd (auth_add_user True m u p)) u q \<and>
    \<not> fst (auth_remove_user (snd (auth_add_user True m u p)) u) \<and>
    fst (auth_add_user True (snd (auth_add_user True m u p)) u p)"
proof -
  let ?e = "\<lparr>username = take (MAX_USERNAME_LEN - 1) u, password = take (MAX_PASSWORD_LEN - 1) p\<rparr>"
  have short: "\<forall>e \<in> set (m ! hash u). username e \<noteq> u"
  proof
    fix e assume "e \<in> set (m ! hash u)"
    with table_entry [OF inv hash_less] have "length (username e) < MAX_USERNAME_LEN" by blast
    with len show "username e \<noteq> u" by auto
  qed
  have "length (take (MAX_USERNAME_LEN - 1) u) < length u"
    using len by (simp add: MAX_USERNAME_LEN_def)
  then have cut: "take (MAX_USERNAME_LEN - 1) u \<noteq> u" by (metis less_irrefl)
  have add: "auth_add_user True m u p = (True, m[hash u := ?e # m ! hash u])"
    using short by (auto simp: auth_add_user_def Let_def)
  have chain: "m[hash u := ?e # m ! hash u] ! hash u = ?e # m ! hash u"
    using inv by (simp add: table_inv_def)
  have un: "unlink u (?e # m ! hash u) = None"
    using short cut by (simp only: unlink_None chain_lookup_None) simp
  have "fst (auth_add_user True m u p)" by (simp add: add)
  moreover have "\<not> auth_check_credentials (snd (auth_add_user True m u p)) u q"
    unfolding add snd_conv auth_check_credentials_def chain using short cut by simp
  moreover have "\<not> fst (auth_remove_user (snd (auth_add_user True m u p)) u)"
    unfolding add snd_conv auth_remove_user_def Let_def chain un by simp
  moreover have "fst (auth_add_user True (snd (auth_add_user True m u p)) u p)"
    unfolding add snd_conv auth_add_user_def Let_def using short cut chain by simp
  ultimately show ?thesis by blast
qed

theorem long_name_unusable_witness:
  "fst (auth_add_user True auth_init (replicate 256 97) [1]) \<and>
   \<not> auth_check_credentials (snd (auth_add_user True auth_init (replicate 256 97) [1]))
       (replicate 256 97) [1]"
  using long_name_unusable [OF auth_init_ok(1), of "replicate 256 97" "[1]" "[1]"]
  by (simp add: MAX_USERNAME_LEN_def)

text \<open>C36: Given enough room, the response of \<open>LIST_USERS\<close> is a line for each user of the table,
  every user once and nobody else, and a line \<open>END\<close>; the count returned is its length.\<close>

theorem list_users_complete:
  assumes inv: "table_inv m" and nz: "\<forall>e \<in> set (concat m). is_text (username e)"
    and room: "length (listing (concat m)) + 4 < length resp"
  shows "\<exists>resp' names. auth_list_users m resp (length resp) =
      Inr (resp', length (concat (map (\<lambda>u. u @ [10]) names)) + 4) \<and>
    c_str resp' = Inr (concat (map (\<lambda>u. u @ [10]) names) @ lit ''END\<newline>'') \<and>
    distinct names \<and> set names = dom (users m)"
proof -
  let ?names = "map username (concat m)" and ?l = "listing (concat m)"
  have l: "?l = concat (map (\<lambda>u. u @ [10]) ?names)"
    by (simp add: listing_def user_line_def [abs_def] comp_def)
  from append_lines_fits [of resp "length resp" 0 "[]" "map user_line (concat m)"] room obtain r where
    r: "append_lines (map user_line (concat m)) resp (length resp) 0 = Inr (r, length ?l, False)"
       "length r = length resp" "take (length ?l) r = ?l" by (auto simp: listing_def)
  let ?e = "lit ''END\<newline>''"
  let ?rest = "drop (length ?l + length ?e + 1) r"
  let ?r = "take (length ?l) r @ ?e @ 0 # ?rest"
  have put: "snprintf_to r (length ?l) (length resp - length ?l) ?e = Inr ?r"
    using room r(2) by (intro snprintf_whole) simp_all
  have "auth_list_users m resp (length resp) = Inr (?r, length ?l + 4)"
    using r(1) put room by (simp add: auth_list_users_def)
  moreover have "is_text (?l @ [69, 78, 68, 10])"
    using nz by (auto simp: listing_def user_line_def)
  from c_str_text [OF this, of ?rest]
  have "c_str ?r = Inr (?l @ lit ''END\<newline>'')" by (simp add: r(3))
  moreover have "set ?names = dom (users m)"
    by (rule names_dom [OF inv])
  moreover have "distinct ?names"
    by (rule names_distinct [OF inv])
  ultimately show ?thesis unfolding l by blast
qed

theorem list_users_complete_witness:
  "\<exists>resp' names. auth_list_users (auth_init[hash [97] := [\<lparr>username = [97], password = [98]\<rparr>]])
      (replicate 64 0) 64 = Inr (resp', length (concat (map (\<lambda>u. u @ [10]) names)) + 4) \<and>
    c_str resp' = Inr (concat (map (\<lambda>u. u @ [10]) names) @ lit ''END\<newline>'') \<and> set names = {[97]}"
proof -
  let ?e = "\<lparr>username = [97], password = [98]\<rparr>" and ?m = "auth_init[hash [97] := [\<lparr>username = [97], password = [98]\<rparr>]]"
  have fresh: "users auth_init [97] = None" by (simp add: auth_init_ok)
  from auth_add_new [OF auth_init_ok(1) fresh, of "[98]"]
  have m: "table_inv ?m" "users ?m = Map.empty([97] \<mapsto> [98])"
    by (simp_all add: MAX_USERNAME_LEN_def MAX_PASSWORD_LEN_def auth_add_user_def Let_def
        auth_init_def auth_init_ok(2) [unfolded auth_init_def])
  have "concat (replicate n [] :: user_entry list list) = []" for n by (simp add: concat_eq_Nil_conv)
  then have c: "concat ?m = [?e]"
    by (simp add: auth_init_def upd_conv_take_nth_drop)
  show ?thesis
    using list_users_complete [OF m(1), of "replicate 64 0"] m(2)
    unfolding c by (simp add: listing_def user_line_def) blast
qed

end
