(* ===== verification/Access_Register.thy ===== *)
theory Access_Register
  imports C_String
begin

text \<open>
  The register of accesses of \<open>src/src/server/s5admin/access_register.c\<close>: a ring of a hundred
  entries that overwrites the oldest, refining the list of the last hundred accesses, and the
  table printed from it.
\<close>

section \<open>Dates\<close>

text \<open>
  \<open>gmtime_r\<close> and \<open>strftime\<close> for the format \<open>%Y-%m-%dT%H:%M:%SZ\<close>, of a time not before 1970: the
  days since the first of March of year 0 are split into eras of 400 years.
\<close>

definition two_digits :: "nat \<Rightarrow> byte list" where
  "two_digits n = (if n < 10 then 48 # decimal n else decimal n)"

definition era_year :: "nat \<Rightarrow> nat" where
  "era_year doe = (doe - doe div 1460 + doe div 36524 - doe div 146096) div 365"

definition year_day :: "nat \<Rightarrow> nat" where
  "year_day doe = doe - (365 * era_year doe + era_year doe div 4 - era_year doe div 100)"

definition march_month :: "nat \<Rightarrow> nat" where
  "march_month doy = (5 * doy + 2) div 153"

definition month_day :: "nat \<Rightarrow> nat" where
  "month_day doy = doy - (153 * march_month doy + 2) div 5 + 1"

definition month_number :: "nat \<Rightarrow> nat" where
  "month_number mp = (if mp < 10 then mp + 3 else mp - 9)"

definition civil_date :: "nat \<Rightarrow> nat \<times> nat \<times> nat" where
  "civil_date days =
     (let z = days + 719468; doe = z mod 146097; m = month_number (march_month (year_day doe))
      in (era_year doe + z div 146097 * 400 + (if m \<le> 2 then 1 else 0), m, month_day (year_day doe)))"

definition iso_time :: "nat \<Rightarrow> byte list" where
  "iso_time t =
     (let (y, m, d) = civil_date (t div 86400); s = t mod 86400
      in decimal y @ 45 # two_digits m @ 45 # two_digits d @ 84 # two_digits (s div 3600) @
         58 # two_digits (s mod 3600 div 60) @ 58 # two_digits (s mod 60) @ [90])"

text \<open>The example the header gives for the format.\<close>

lemma civil_date_example: "civil_date 20249 = (2025, 6, 10)"
proof -
  have "era_year 9232 = 25" by (simp add: era_year_def)
  then have "year_day 9232 = 101" by (simp add: year_day_def)
  moreover have "march_month 101 = 3" by (simp add: march_month_def)
  moreover from this have "month_day 101 = 10" by (simp add: month_day_def)
  ultimately show ?thesis
    using \<open>era_year 9232 = 25\<close> by (simp add: civil_date_def month_number_def)
qed

lemma decimal_numeral:
  "decimal (numeral k) =
     (if numeral k < (10 :: nat) then [48 + numeral k]
      else decimal (numeral k div 10) @ [48 + of_nat (numeral k mod 10)])"
  by (subst decimal.simps) (simp only: of_nat_numeral)

lemma decimal_digit: "decimal 0 = [48]" "decimal 1 = [49]" "decimal (Suc 0) = [49]"
  by (simp_all add: decimal.simps)

lemma iso_time_example: "iso_time 1749585394 = lit ''2025-06-10T19:56:34Z''"
proof -
  have t: "(1749585394 :: nat) div 86400 = 20249" "(1749585394 :: nat) mod 86400 = 71794" by simp_all
  have d: "decimal 2025 = [50, 48, 50, 53]" "two_digits 6 = [48, 54]" "two_digits 10 = [49, 48]"
    "two_digits 19 = [49, 57]" "two_digits 56 = [53, 54]" "two_digits 34 = [51, 52]"
    by (simp_all add: two_digits_def decimal_numeral decimal_digit)
  show ?thesis
    unfolding iso_time_def t civil_date_example Let_def prod.case
    by (simp add: d lit_def)
qed

lemma two_digits_text [simp]: "is_text (two_digits n)"
  by (simp add: two_digits_def)

lemma length_two_digits: "n < 10 ^ k \<Longrightarrow> 2 \<le> k \<Longrightarrow> length (two_digits n) \<le> k"
  using length_decimal [of n k] length_decimal [of n 1] by (auto simp: two_digits_def)

lemma civil_date_bounds:
  assumes "days < 12725830" "civil_date days = (y, m, d)"
  shows "y < 10 ^ 5" "m < 10 ^ 4" "d < 10 ^ 6"
proof -
  define z where "z = days + 719468"
  define doe where "doe = z mod 146097"
  have y: "y = era_year doe + z div 146097 * 400 + (if m \<le> 2 then 1 else 0)"
    and m: "m = month_number (march_month (year_day doe))" and d: "d = month_day (year_day doe)"
    using assms(2) by (auto simp: civil_date_def Let_def z_def doe_def)
  have doe: "doe < 146097" by (simp add: doe_def)
  have doy: "year_day doe < 146097" using doe by (simp add: year_day_def less_imp_diff_less)
  have "era_year doe \<le> (2 * doe) div 365"
    unfolding era_year_def
  proof (rule div_le_mono)
    have "doe div 36524 \<le> doe" by simp
    then show "doe - doe div 1460 + doe div 36524 - doe div 146096 \<le> 2 * doe" by linarith
  qed
  also have "\<dots> \<le> 292194 div 365" using doe by (intro div_le_mono) simp
  finally have yoe: "era_year doe \<le> 800" by simp
  have "z div 146097 < 93" using assms(1) by (simp add: z_def div_less_iff_less_mult)
  with yoe y show "y < 10 ^ 5" by (simp split: if_splits)
  have "march_month (year_day doe) < 4776"
    using doy by (simp add: march_month_def div_less_iff_less_mult)
  with m show "m < 10 ^ 4" by (simp add: month_number_def split: if_splits)
  show "d < 10 ^ 6" using doy by (simp add: d month_day_def)
qed

lemma length_iso_time: "t < 2 ^ 40 \<Longrightarrow> length (iso_time t) \<le> 31"
proof -
  assume t: "t < 2 ^ 40"
  obtain y m d where c: "civil_date (t div 86400) = (y, m, d)" by (cases "civil_date (t div 86400)")
  from t have "t div 86400 < 12725830" by simp
  note b = civil_date_bounds [OF this c]
  have "t mod 86400 div 3600 < 10 ^ 2" "t mod 86400 mod 3600 div 60 < 10 ^ 2" "t mod 86400 mod 60 < 10 ^ 2"
    by (simp_all add: div_less_iff_less_mult less_imp_le_nat less_le_trans [OF mod_less_divisor])
  note s = this [THEN length_two_digits]
  show ?thesis
    using length_decimal [OF b(1)] length_two_digits [OF b(2)] length_two_digits [OF b(3)] s
    by (simp add: iso_time_def c Let_def)
qed

lemma iso_time_text [simp]: "is_text (iso_time t)"
  by (simp add: iso_time_def Let_def split: prod.split)

section \<open>State and operations\<close>

definition REGISTER_MAX_ENTRIES :: nat where "REGISTER_MAX_ENTRIES = 100"
definition IP_MAX_LEN :: nat where "IP_MAX_LEN = 64"
definition DEST_MAX_LEN :: nat where "DEST_MAX_LEN = 256"

lemmas field_lens = IP_MAX_LEN_def DEST_MAX_LEN_def MAX_USERNAME_LEN_def

record access_entry =
  iso_date :: "byte list"
  ae_username :: "byte list"
  register_type :: byte
  ae_src_ip :: "byte list"
  ae_src_port :: "16 word"
  ae_destination :: "byte list"
  ae_dest_port :: "16 word"
  ae_status_code :: int

record access_register =
  entries :: "access_entry list"
  head :: nat
  tail :: nat
  count :: nat

text \<open>The entries of memory that \<open>malloc\<close> returned are unknown: \<open>garbage\<close>.\<close>

definition access_register_init :: "access_entry list \<Rightarrow> access_register" where
  "access_register_init garbage = \<lparr>entries = garbage, head = 0, tail = 0, count = 0\<rparr>"

definition make_entry ::
    "byte list \<Rightarrow> byte list \<Rightarrow> 16 word \<Rightarrow> byte list \<Rightarrow> 16 word \<Rightarrow> int \<Rightarrow> nat \<Rightarrow> access_entry" where
  "make_entry user src_ip src_port destination dest_port status timestamp =
     \<lparr>iso_date = iso_time timestamp, ae_username = take (MAX_USERNAME_LEN - 1) user,
      register_type = 65, ae_src_ip = take (IP_MAX_LEN - 1) src_ip, ae_src_port = src_port,
      ae_destination = take (DEST_MAX_LEN - 1) destination, ae_dest_port = dest_port,
      ae_status_code = status\<rparr>"

text \<open>The row of an entry, as it is printed when it is added and in the listing.\<close>

definition entry_row :: "access_entry \<Rightarrow> byte list" where
  "entry_row e =
     pad_right 25 (iso_date e) @ [32] @ pad_right 15 (ae_username e) @ [32] @
     pad_right 10 [register_type e] @ [32] @ pad_right 15 (ae_src_ip e) @ [32] @
     pad_right 12 (decimal (unat (ae_src_port e))) @ [32] @ pad_right 20 (ae_destination e) @ [32] @
     pad_right 12 (decimal (unat (ae_dest_port e))) @ [32] @
     pad_right 10 (decimal_int (ae_status_code e)) @ lit ''\<newline>''"

definition header_row :: "byte list" where
  "header_row =
     pad_right 25 (lit ''Fecha'') @ [32] @ pad_right 15 (lit ''Usuario'') @ [32] @
     pad_right 10 (lit ''Tipo'') @ [32] @ pad_right 15 (lit ''IP_origen'') @ [32] @
     pad_right 12 (lit ''Pto_org'') @ [32] @ pad_right 20 (lit ''Destino'') @ [32] @
     pad_right 12 (lit ''Pto_dst'') @ [32] @ pad_right 10 (lit ''Status'') @ lit ''\<newline>''"

text \<open>The register is a null pointer where its allocation failed.  The result is the register
  and the row written to the standard output.\<close>

definition access_register_add_entry ::
    "access_register option \<Rightarrow> access_entry \<Rightarrow> (access_register option \<times> byte list) res" where
  "access_register_add_entry reg e =
     (case reg of
        None \<Rightarrow> Inr (None, [])
      | Some r \<Rightarrow>
          bind_res (mem_put (entries r) (tail r) e) (\<lambda>es.
          let r = r\<lparr>entries := es, tail := (tail r + 1) mod REGISTER_MAX_ENTRIES\<rparr>;
              r = (if count r < REGISTER_MAX_ENTRIES then r\<lparr>count := count r + 1\<rparr>
                   else r\<lparr>head := (head r + 1) mod REGISTER_MAX_ENTRIES\<rparr>)
          in Inr (Some r, entry_row e)))"

text \<open>The entries the listing visits: \<open>n\<close> of them from index \<open>idx\<close> on.\<close>

fun ring_from :: "access_entry list \<Rightarrow> nat \<Rightarrow> nat \<Rightarrow> access_entry list res" where
  "ring_from es idx 0 = Inr []"
| "ring_from es idx (Suc n) =
     bind_res (mem_get es idx) (\<lambda>e.
     bind_res (ring_from es ((idx + 1) mod REGISTER_MAX_ENTRIES) n) (\<lambda>rest. Inr (e # rest)))"

definition access_register_print ::
    "access_register option \<Rightarrow> byte list \<Rightarrow> nat \<Rightarrow> (byte list \<times> nat) res" where
  "access_register_print reg resp sz =
     (case reg of
        None \<Rightarrow> Inr (resp, 0)
      | Some r \<Rightarrow>
          bind_res (snprintf_to resp 0 sz header_row) (\<lambda>resp.
          if length header_row \<ge> sz then Inr (resp, 0)
          else bind_res (ring_from (entries r) (head r) (count r)) (\<lambda>es.
               bind_res (append_lines (map entry_row es) resp sz (length header_row))
                 (\<lambda>(resp, written, cut).
               if written < sz
               then bind_res (snprintf_to resp written (sz - written) (lit ''END\<newline>'')) (\<lambda>resp.
                    Inr (resp, if 4 < sz - written then written + 4 else written))
               else Inr (resp, written)))))"

section \<open>The ring as a list\<close>

definition reg_inv :: "access_register \<Rightarrow> bool" where
  "reg_inv r \<longleftrightarrow> length (entries r) = REGISTER_MAX_ENTRIES \<and> count r \<le> REGISTER_MAX_ENTRIES \<and>
     head r < REGISTER_MAX_ENTRIES \<and> tail r = (head r + count r) mod REGISTER_MAX_ENTRIES \<and>
     (count r < REGISTER_MAX_ENTRIES \<longrightarrow> head r = 0)"

definition logged :: "access_register \<Rightarrow> access_entry list" where
  "logged r = map (\<lambda>i. entries r ! ((head r + i) mod REGISTER_MAX_ENTRIES)) [0..<count r]"

lemma ring_from_logged:
  "length es = REGISTER_MAX_ENTRIES \<Longrightarrow> idx < REGISTER_MAX_ENTRIES \<Longrightarrow>
     ring_from es idx n = Inr (map (\<lambda>i. es ! ((idx + i) mod REGISTER_MAX_ENTRIES)) [0..<n])"
proof (induction n arbitrary: idx)
  case (Suc n)
  have "[0..<Suc n] = 0 # map Suc [0..<n]" by (simp add: map_Suc_upt upt_conv_Cons del: upt_Suc)
  moreover have "(Suc idx mod REGISTER_MAX_ENTRIES + i) mod REGISTER_MAX_ENTRIES =
      Suc (idx + i) mod REGISTER_MAX_ENTRIES" for i
    by (simp add: mod_simps)
  ultimately show ?case
    using Suc by (simp del: upt_Suc)
qed simp

lemma init_logged:
  "length g = REGISTER_MAX_ENTRIES \<Longrightarrow>
     reg_inv (access_register_init g) \<and> logged (access_register_init g) = []"
  by (simp add: reg_inv_def logged_def access_register_init_def REGISTER_MAX_ENTRIES_def)

lemma add_entry_logged:
  assumes inv: "reg_inv r"
  shows "\<exists>r'. access_register_add_entry (Some r) e = Inr (Some r', entry_row e) \<and> reg_inv r' \<and>
    logged r' = drop (if count r < REGISTER_MAX_ENTRIES then 0 else 1) (logged r) @ [e]"
proof (cases "count r < REGISTER_MAX_ENTRIES")
  case True
  with inv have h: "head r = 0" "tail r = count r" "length (entries r) = REGISTER_MAX_ENTRIES"
    by (auto simp: reg_inv_def)
  let ?r = "r\<lparr>entries := (entries r)[count r := e],
    tail := Suc (count r) mod REGISTER_MAX_ENTRIES, count := Suc (count r)\<rparr>"
  have "access_register_add_entry (Some r) e = Inr (Some ?r, entry_row e)"
    using True h by (simp add: access_register_add_entry_def Let_def)
  moreover have "reg_inv ?r" using True h by (simp add: reg_inv_def)
  moreover have "logged ?r = logged r @ [e]"
    using True h by (auto simp: logged_def)
  ultimately show ?thesis using True by auto
next
  case False
  with inv have h: "count r = REGISTER_MAX_ENTRIES" "tail r = head r"
    "length (entries r) = REGISTER_MAX_ENTRIES" "head r < REGISTER_MAX_ENTRIES"
    by (auto simp: reg_inv_def)
  let ?N = REGISTER_MAX_ENTRIES
  let ?r = "r\<lparr>entries := (entries r)[head r := e], tail := Suc (head r) mod ?N,
    head := Suc (head r) mod ?N\<rparr>"
  have N: "0 < ?N" by (simp add: REGISTER_MAX_ENTRIES_def)
  have "access_register_add_entry (Some r) e = Inr (Some ?r, entry_row e)"
    using False h by (simp add: access_register_add_entry_def Let_def)
  moreover have "reg_inv ?r" using h N by (simp add: reg_inv_def)
  moreover have "logged ?r = drop 1 (logged r) @ [e]"
  proof (rule nth_equalityI)
    show "length (logged ?r) = length (drop 1 (logged r) @ [e])"
      using h N by (simp add: logged_def)
    fix i assume "i < length (logged ?r)"
    then have i: "i < ?N" using h by (simp add: logged_def)
    have "(Suc (head r) mod ?N + i) mod ?N = (head r + Suc i) mod ?N" by (simp add: mod_simps)
    then have l: "logged ?r ! i = (entries r)[head r := e] ! ((head r + Suc i) mod ?N)"
      using i h by (simp add: logged_def)
    show "logged ?r ! i = (drop 1 (logged r) @ [e]) ! i"
    proof (cases "Suc i = ?N")
      case True
      then have "(head r + Suc i) mod ?N = head r" using h by simp
      with l True h show ?thesis by (simp add: nth_append logged_def)
    next
      case False
      with i have i': "Suc i < ?N" by simp
      then have "(head r + Suc i) mod ?N \<noteq> head r"
        using h(4) by (cases "head r + Suc i < ?N") (auto simp: mod_if)
      with l i' h show ?thesis by (simp add: nth_append logged_def)
    qed
  qed
  ultimately show ?thesis using False by auto
qed

fun add_entries :: "access_register option \<Rightarrow> access_entry list \<Rightarrow> access_register option res" where
  "add_entries r [] = Inr r"
| "add_entries r (e # es) = bind_res (access_register_add_entry r e) (\<lambda>(r, _). add_entries r es)"

lemma length_logged: "length (logged r) = count r"
  by (simp add: logged_def)

lemma add_entries_logged:
  "reg_inv r \<Longrightarrow> \<exists>r'. add_entries (Some r) es = Inr (Some r') \<and> reg_inv r' \<and>
     logged r' = drop (length (logged r @ es) - REGISTER_MAX_ENTRIES) (logged r @ es)"
proof (induction es arbitrary: r)
  case Nil
  then show ?case by (simp add: length_logged reg_inv_def)
next
  case (Cons e es)
  from add_entry_logged [OF Cons.prems, of e] obtain r1 where
    1: "access_register_add_entry (Some r) e = Inr (Some r1, entry_row e)" "reg_inv r1"
       "logged r1 = drop (if count r < REGISTER_MAX_ENTRIES then 0 else 1) (logged r) @ [e]" by blast
  from Cons.IH [OF 1(2)] obtain r' where
    2: "add_entries (Some r1) es = Inr (Some r')" "reg_inv r'"
       "logged r' = drop (length (logged r1 @ es) - REGISTER_MAX_ENTRIES) (logged r1 @ es)" by blast
  have le: "length (logged r) \<le> REGISTER_MAX_ENTRIES"
    using Cons.prems by (simp add: length_logged reg_inv_def)
  have "drop (length (logged r1 @ es) - REGISTER_MAX_ENTRIES) (logged r1 @ es) =
      drop (length (logged r @ e # es) - REGISTER_MAX_ENTRIES) (logged r @ e # es)"
  proof (cases "count r < REGISTER_MAX_ENTRIES")
    case True
    then show ?thesis by (simp add: 1(3))
  next
    case False
    with le have full: "length (logged r) = REGISTER_MAX_ENTRIES" by (simp add: length_logged)
    then obtain x xs where xs: "logged r = x # xs"
      by (cases "logged r") (simp_all add: REGISTER_MAX_ENTRIES_def)
    with 1(3) False have "logged r1 = xs @ [e]" by simp
    with xs full show ?thesis by (auto simp: Suc_diff_le)
  qed
  with 1(1) 2 show ?case by simp
qed

section \<open>Properties\<close>

text \<open>C37: The register holds the last hundred accesses, oldest first: after any sequence of
  additions to the fresh register, whatever its memory held, no access was out of bounds and
  the list it stands for is the sequence without all but its last hundred elements.\<close>

theorem register_keeps_last_hundred:
  assumes "length garbage = REGISTER_MAX_ENTRIES"
  shows "\<exists>r. add_entries (Some (access_register_init garbage)) es = Inr (Some r) \<and>
    logged r = drop (length es - 100) es"
  using add_entries_logged [of "access_register_init garbage" es] init_logged [OF assms]
  by (auto simp: REGISTER_MAX_ENTRIES_def)

theorem register_keeps_last_hundred_witness:
  "\<exists>r. add_entries (Some (access_register_init (replicate 100 (make_entry [] [] 0 [] 0 0 0))))
      (replicate 150 (make_entry [] [] 1 [] 0 0 0) @ replicate 99 (make_entry [] [] 2 [] 0 0 0)) =
      Inr (Some r) \<and>
    logged r = make_entry [] [] 1 [] 0 0 0 # replicate 99 (make_entry [] [] 2 [] 0 0 0)"
  using register_keeps_last_hundred [of "replicate 100 (make_entry [] [] 0 [] 0 0 0)"
      "replicate 150 (make_entry [] [] 1 [] 0 0 0) @ replicate 99 (make_entry [] [] 2 [] 0 0 0)"]
  by (simp add: REGISTER_MAX_ENTRIES_def)

text \<open>Entries as the server makes them, up to the year 36000.\<close>

definition entry_fits :: "access_entry \<Rightarrow> bool" where
  "entry_fits e \<longleftrightarrow> length (iso_date e) \<le> 31 \<and> length (ae_username e) < MAX_USERNAME_LEN \<and>
     length (ae_src_ip e) < IP_MAX_LEN \<and> length (ae_destination e) < DEST_MAX_LEN \<and>
     - (2 ^ 31) \<le> ae_status_code e \<and> ae_status_code e < 2 ^ 31 \<and>
     is_text (iso_date e) \<and> is_text (ae_username e) \<and> is_text (ae_src_ip e) \<and>
     is_text (ae_destination e) \<and> register_type e \<noteq> 0"

lemma make_entry_fits:
  "is_text user \<Longrightarrow> is_text ip \<Longrightarrow> is_text dest \<Longrightarrow> - (2 ^ 31) \<le> status \<Longrightarrow> status < 2 ^ 31 \<Longrightarrow>
     t < 2 ^ 40 \<Longrightarrow> entry_fits (make_entry user ip p dest q status t)"
  by (simp add: entry_fits_def make_entry_def length_iso_time field_lens min_less_iff_disj)

lemma length_port: "length (decimal (unat (p :: 16 word))) \<le> 5"
  by (rule length_decimal) (use unsigned_less [where 'a = nat, of p] in simp_all)

lemma length_decimal_int:
  assumes "- (2 ^ 31) \<le> i" "i < 2 ^ 31"
  shows "length (decimal_int i) \<le> 11"
proof -
  from assms have "nat (- i) < 10 ^ 10" "nat i < 10 ^ 10" by (simp_all add: nat_less_iff)
  from this [THEN length_decimal] show ?thesis by (simp add: decimal_int_def)
qed

lemma decimal_int_text [simp]: "is_text (decimal_int i)"
  by (simp add: decimal_int_def)

lemma entry_row_fits:
  assumes "entry_fits e"
  shows "length (entry_row e) \<le> 670" "is_text (entry_row e)"
proof -
  note f = assms [unfolded entry_fits_def field_lens]
  from f have "length (decimal_int (ae_status_code e)) \<le> 11" by (simp add: length_decimal_int)
  then show "length (entry_row e) \<le> 670"
    using f length_port [of "ae_src_port e"] length_port [of "ae_dest_port e"]
    by (simp add: entry_row_def max_def)
  show "is_text (entry_row e)" using f by (simp add: entry_row_def)
qed

lemma header_row_facts: "length header_row = 127" "is_text header_row"
  by (simp_all add: header_row_def lit_def)

lemma rows_length:
  "\<forall>e \<in> set es. entry_fits e \<Longrightarrow> length (concat (map entry_row es)) \<le> 670 * length es"
proof (induction es)
  case (Cons e es)
  then have "length (entry_row e) \<le> 670" by (simp add: entry_row_fits)
  with Cons show ?case by simp
qed simp

text \<open>C38: The report of the register fits the response block of the admin protocol (100 KiB) when the entries held are as the
  server makes them: names, addresses and targets cut to their arrays, none with a zero byte, a status of 32 bits, and a
  time whose year has at most five digits (\<open>make_entry_fits\<close>, up to the year 36000).  It is the heading, the row of each
  of the entries, oldest first, and the line \<open>END\<close>, with nothing cut, and the count returned is its length.\<close>

theorem access_report_complete:
  assumes inv: "reg_inv r" and fit: "\<forall>e \<in> set (logged r). entry_fits e"
    and room: "length resp = 102400"
  shows "\<exists>resp'. access_register_print (Some r) resp 102400 =
      Inr (resp', length (header_row @ concat (map entry_row (logged r))) + 4) \<and>
    c_str resp' = Inr (header_row @ concat (map entry_row (logged r)) @ lit ''END\<newline>'')"
proof -
  let ?rows = "concat (map entry_row (logged r))" and ?e = "lit ''END\<newline>''"
  let ?w = "length header_row + length ?rows"
  have "length (logged r) \<le> 100" using inv by (simp add: length_logged reg_inv_def REGISTER_MAX_ENTRIES_def)
  then have w: "?w < 80000" using rows_length [OF fit] header_row_facts by linarith
  let ?r1 = "take 0 resp @ header_row @ 0 # drop (0 + length header_row + 1) resp"
  have put1: "snprintf_to resp 0 102400 header_row = Inr ?r1"
    using w room by (intro snprintf_whole) simp_all
  have "length ?r1 = 102400" using w room by simp
  then obtain r2 where
    r2: "append_lines (map entry_row (logged r)) ?r1 102400 (length header_row) = Inr (r2, ?w, False)"
      "length r2 = 102400" "take ?w r2 = header_row @ ?rows"
    using append_lines_fits [of ?r1 102400 "length header_row" header_row "map entry_row (logged r)"] w
    by auto
  let ?rest = "drop (?w + length ?e + 1) r2"
  let ?r3 = "take ?w r2 @ ?e @ 0 # ?rest"
  have put2: "snprintf_to r2 ?w (102400 - ?w) ?e = Inr ?r3"
    using w r2(2) by (intro snprintf_whole) simp_all
  have ring: "ring_from (entries r) (head r) (count r) = Inr (logged r)"
    using inv by (simp add: ring_from_logged reg_inv_def logged_def)
  have "access_register_print (Some r) resp 102400 = Inr (?r3, ?w + 4)"
    unfolding access_register_print_def using put1 ring r2(1) put2 w by simp
  moreover have "is_text ((header_row @ ?rows) @ ?e)"
    using fit header_row_facts entry_row_fits by auto
  from c_str_text [OF this, of ?rest]
  have "c_str ?r3 = Inr (header_row @ ?rows @ ?e)" by (simp add: r2(3))
  ultimately show ?thesis by simp
qed

text \<open>A register with two entries, one of a connection that was made and one of a connection that was refused.\<close>

definition sample_accesses :: "access_entry list" where
  "sample_accesses = [make_entry (lit ''bob'') (lit ''10.0.0.1'') 40000 (lit ''example.org'') 443 0 1700000000,
     make_entry (lit ''alice'') (lit ''10.0.0.2'') 40001 (lit ''192.0.2.7'') 80 5 1700000060]"

lemma sample_accesses_fit: "\<forall>e \<in> set sample_accesses. entry_fits e"
  by (auto simp: sample_accesses_def lit_def intro!: make_entry_fits)

theorem access_report_complete_witness:
  "\<exists>r resp'. add_entries (Some (access_register_init (replicate 100 (make_entry [] [] 0 [] 0 0 0)))) sample_accesses = Inr (Some r) \<and>
    access_register_print (Some r) (replicate 102400 0) 102400 =
      Inr (resp', length (header_row @ concat (map entry_row sample_accesses)) + 4) \<and>
    c_str resp' = Inr (header_row @ entry_row (sample_accesses ! 0) @ entry_row (sample_accesses ! 1) @ lit ''END\<newline>'')"
proof -
  let ?i = "access_register_init (replicate 100 (make_entry [] [] 0 [] 0 0 0))"
  have "reg_inv ?i" "logged ?i = []"
    using init_logged [of "replicate 100 (make_entry [] [] 0 [] 0 0 0)"] by (simp_all add: REGISTER_MAX_ENTRIES_def)
  then obtain r where r: "add_entries (Some ?i) sample_accesses = Inr (Some r)" "reg_inv r" "logged r = sample_accesses"
    using add_entries_logged [of ?i sample_accesses] by (auto simp: REGISTER_MAX_ENTRIES_def sample_accesses_def)
  obtain resp' where "access_register_print (Some r) (replicate 102400 0) 102400 =
      Inr (resp', length (header_row @ concat (map entry_row (logged r))) + 4)"
    "c_str resp' = Inr (header_row @ concat (map entry_row (logged r)) @ lit ''END\<newline>'')"
    using access_report_complete [OF r(2), of "replicate 102400 0"] sample_accesses_fit unfolding r(3) by auto
  moreover have "concat (map entry_row sample_accesses) = entry_row (sample_accesses ! 0) @ entry_row (sample_accesses ! 1)"
    by (simp add: sample_accesses_def)
  ultimately show ?thesis using r(1) unfolding r(3) by (intro exI [of _ r] exI [of _ resp']) simp
qed

end
