(* ===== verification/Server_Data.thy ===== *)
theory Server_Data
  imports C_String Access_Register
begin

text \<open>
  What the server knows of itself: the log level (\<open>src/src/shared/logger.c\<close>), the counters
  (\<open>src/src/server/s5admin/metrics.c\<close>), the register of the last hundred accesses
  (\<open>src/src/server/s5admin/access_register.c\<close>) and the settings an administrator may change
  (\<open>src/src/server/server_data.c\<close>).
\<close>

section \<open>Log levels\<close>

text \<open>
  The type is an \<open>enum\<close> of four names, unsigned for the compiler; \<open>Other_Level\<close> is the value \<open>(log_level_t) -1\<close>, which
  the readers of the command line make of a name they do not know.  No message has it.
\<close>

datatype log_level = DEBUG | INFO | WARNING | ERROR | Other_Level

fun level_index :: "log_level \<Rightarrow> nat" where
  "level_index DEBUG = 0"
| "level_index INFO = 1"
| "level_index WARNING = 2"
| "level_index ERROR = 3"
| "level_index Other_Level = 2 ^ 32 - 1"

lemma level_index_inj: "level_index a = level_index b \<Longrightarrow> a = b"
  by (cases a; cases b) simp_all

instantiation log_level :: linorder
begin

definition less_eq_log_level :: "log_level \<Rightarrow> log_level \<Rightarrow> bool" where
  "less_eq_log_level a b \<longleftrightarrow> level_index a \<le> level_index b"

definition less_log_level :: "log_level \<Rightarrow> log_level \<Rightarrow> bool" where
  "less_log_level a b \<longleftrightarrow> level_index a < level_index b"

instance
  by standard (auto simp: less_eq_log_level_def less_log_level_def dest: level_index_inj)

end

text \<open>Where the log goes: nowhere yet, to the standard output, or to a file.\<close>

datatype log_target = No_Log | Log_Stdout | Log_File

record logger =
  current_log_level :: log_level
  log_file :: log_target

definition log_start :: logger where
  "log_start = \<lparr>current_log_level = DEBUG, log_file = No_Log\<rparr>"

text \<open>\<open>opened\<close> tells whether the file could be opened; \<open>None\<close> is the exit of the process.\<close>

definition init_logging :: "bool \<Rightarrow> logger \<Rightarrow> byte list option \<Rightarrow> log_level \<Rightarrow> logger option" where
  "init_logging opened l filename level =
     (let l = l\<lparr>current_log_level := level\<rparr>
      in case filename of
           None \<Rightarrow> Some (l\<lparr>log_file := Log_Stdout\<rparr>)
         | Some f \<Rightarrow> if opened then Some (l\<lparr>log_file := Log_File\<rparr>) else None)"

definition close_logging :: "logger \<Rightarrow> logger" where
  "close_logging l = (if log_file l = Log_File then l\<lparr>log_file := No_Log\<rparr> else l)"

definition set_log_level :: "logger \<Rightarrow> log_level \<Rightarrow> logger" where
  "set_log_level l level = l\<lparr>current_log_level := level\<rparr>"

definition level_string :: "log_level \<Rightarrow> byte list" where
  "level_string level =
     (case level of DEBUG \<Rightarrow> lit ''DEBUG'' | INFO \<Rightarrow> lit ''INFO'' | WARNING \<Rightarrow> lit ''WARNING''
      | ERROR \<Rightarrow> lit ''ERROR'' | Other_Level \<Rightarrow> lit ''UNKNOWN'')"

definition get_log_level_string :: "logger \<Rightarrow> byte list" where
  "get_log_level_string l = level_string (current_log_level l)"

definition level_color :: "log_level \<Rightarrow> byte list" where
  "level_color level =
     27 # (case level of DEBUG \<Rightarrow> lit ''[35m'' | INFO \<Rightarrow> lit ''[34m'' | WARNING \<Rightarrow> lit ''[33m''
           | ERROR \<Rightarrow> lit ''[31m'' | Other_Level \<Rightarrow> [])"

definition color_gray :: "byte list" where "color_gray = 27 # lit ''[90m''"
definition color_white :: "byte list" where "color_white = 27 # lit ''[37m''"
definition color_reset :: "byte list" where "color_reset = 27 # lit ''[0m''"

text \<open>
  The line a message becomes on the log; \<open>timebuf\<close> is the formatted local time and \<open>msg\<close>
  the formatted message.  \<open>None\<close> is a message that is not written to the log.
\<close>

definition log_message :: "logger \<Rightarrow> byte list \<Rightarrow> log_level \<Rightarrow> byte list \<Rightarrow> byte list option" where
  "log_message l timebuf level msg =
     (if log_file l = No_Log then None
      else if level < current_log_level l then None
      else Some (
        if log_file l = Log_Stdout
        then color_gray @ lit ''['' @ timebuf @ lit '']'' @ color_reset @ lit ''['' @ level_color level @
             level_string level @ color_reset @ lit ''] '' @ color_white @ msg @ color_reset @
             lit ''\<newline>''
        else lit ''['' @ timebuf @ lit '']['' @ level_string level @ lit ''] '' @ msg @ lit ''\<newline>''))"

definition log_messagef ::
    "logger \<Rightarrow> byte list \<Rightarrow> log_level \<Rightarrow> byte list \<Rightarrow> int \<Rightarrow> byte list \<Rightarrow> byte list option" where
  "log_messagef l timebuf level src line msg =
     (if log_file l = No_Log then None
      else if level < current_log_level l then None
      else Some (
        if log_file l = Log_Stdout
        then color_gray @ lit ''['' @ timebuf @ lit '']'' @ color_reset @ lit ''['' @ level_color level @
             level_string level @ color_reset @ lit ''][''  @ src @ lit '':'' @ decimal_int line @
             lit ''] '' @ color_white @ msg @ color_reset @ lit ''\<newline>''
        else lit ''['' @ timebuf @ lit '']['' @ level_string level @ lit ''][''  @ src @ lit '':'' @
             decimal_int line @ lit ''] '' @ msg @ lit ''\<newline>''))"

lemma log_silent:
  "log_file l \<noteq> No_Log \<Longrightarrow> log_messagef l tb level src n msg = None \<longleftrightarrow> level < current_log_level l"
  by (simp add: log_messagef_def)

section \<open>Counters\<close>

record server_metrics =
  total_connections :: "64 word"
  current_connections :: "64 word"
  bytes_transferred :: "64 word"
  errors :: "64 word"

definition metrics_init :: server_metrics where
  "metrics_init =
     \<lparr>total_connections = 0, current_connections = 0, bytes_transferred = 0, errors = 0\<rparr>"

definition metrics_inc_total_conn :: "server_metrics \<Rightarrow> server_metrics" where
  "metrics_inc_total_conn m = m\<lparr>total_connections := total_connections m + 1\<rparr>"

definition metrics_inc_curr_conn :: "server_metrics \<Rightarrow> server_metrics" where
  "metrics_inc_curr_conn m = m\<lparr>current_connections := current_connections m + 1\<rparr>"

definition metrics_dec_curr_conn :: "server_metrics \<Rightarrow> server_metrics" where
  "metrics_dec_curr_conn m =
     (if current_connections m > 0 then m\<lparr>current_connections := current_connections m - 1\<rparr> else m)"

definition metrics_add_bytes :: "server_metrics \<Rightarrow> 64 word \<Rightarrow> server_metrics" where
  "metrics_add_bytes m n = m\<lparr>bytes_transferred := bytes_transferred m + n\<rparr>"

definition metrics_inc_errors :: "server_metrics \<Rightarrow> server_metrics" where
  "metrics_inc_errors m = m\<lparr>errors := errors m + 1\<rparr>"

definition metrics_text :: "server_metrics \<Rightarrow> byte list" where
  "metrics_text m =
     lit ''CONNECTED: '' @ decimal (unat (current_connections m)) @ lit ''\<newline>'' @
     lit ''HISTORICAL: '' @ decimal (unat (total_connections m)) @ lit ''\<newline>'' @
     lit ''BYTES: '' @ decimal (unat (bytes_transferred m)) @ lit ''\<newline>'' @
     lit ''ERRORS: '' @ decimal (unat (errors m)) @ lit ''\<newline>'' @ lit ''END\<newline>''"

definition metrics_print :: "server_metrics \<Rightarrow> byte list \<Rightarrow> nat \<Rightarrow> byte list res" where
  "metrics_print m buf buffer_size = snprintf_to buf 0 buffer_size (metrics_text m)"

text \<open>Opening and closing connections in any order that closes no more than were opened.\<close>

datatype conn_event = Opened | Closed | Transferred "64 word"

fun metrics_event :: "server_metrics \<Rightarrow> conn_event \<Rightarrow> server_metrics" where
  "metrics_event m Opened = metrics_inc_curr_conn (metrics_inc_total_conn m)"
| "metrics_event m Closed = metrics_dec_curr_conn m"
| "metrics_event m (Transferred n) = metrics_add_bytes m n"

fun open_after :: "nat \<Rightarrow> conn_event list \<Rightarrow> nat" where
  "open_after n [] = n"
| "open_after n (Opened # es) = open_after (Suc n) es"
| "open_after n (Closed # es) = open_after (n - 1) es"
| "open_after n (Transferred k # es) = open_after n es"

definition opened_in :: "conn_event list \<Rightarrow> nat" where
  "opened_in es = length (filter (\<lambda>e. e = Opened) es)"

lemma metrics_events_gen:
  "unat (current_connections m) = c \<Longrightarrow> unat (total_connections m) = t \<Longrightarrow>
   c + opened_in es < 2 ^ 64 \<Longrightarrow> t + opened_in es < 2 ^ 64 \<Longrightarrow>
     unat (current_connections (foldl metrics_event m es)) = open_after c es \<and>
     unat (total_connections (foldl metrics_event m es)) = t + opened_in es"
proof (induction es arbitrary: m c t)
  case (Cons e es)
  show ?case
  proof (cases e)
    case Opened
    have "unat (current_connections m + 1) = Suc c" "unat (total_connections m + 1) = Suc t"
      using Cons.prems Opened by (simp_all add: opened_in_def unat_word_ariths)
    then show ?thesis
      using Cons.IH [of "metrics_event m e" "Suc c" "Suc t"] Cons.prems(3,4) Opened
      by (simp add: metrics_inc_curr_conn_def metrics_inc_total_conn_def opened_in_def)
  next
    case Closed
    have "unat (current_connections (metrics_dec_curr_conn m)) = c - 1"
    proof (cases "current_connections m = 0")
      case False
      then have "unat (current_connections m - 1) = unat (current_connections m) - 1"
        by (simp add: unat_minus_one)
      with False Cons.prems(1) show ?thesis
        by (simp add: metrics_dec_curr_conn_def word_neq_0_conv)
    qed (use Cons.prems(1) in \<open>simp add: metrics_dec_curr_conn_def\<close>)
    moreover have "total_connections (metrics_dec_curr_conn m) = total_connections m"
      by (simp add: metrics_dec_curr_conn_def)
    ultimately show ?thesis
      using Cons.IH [of "metrics_event m e" "c - 1" t] Cons.prems Closed
      by (simp add: opened_in_def)
  next
    case (Transferred k)
    then show ?thesis
      using Cons.IH [of "metrics_event m e" c t] Cons.prems
      by (simp add: opened_in_def metrics_add_bytes_def)
  qed
qed (simp add: opened_in_def)

text \<open>The metrics count the connections: after any sequence of openings, closings and
  transfers, fewer than 2^64 of them openings, \<open>HISTORICAL\<close> is the number of openings and
  \<open>CONNECTED\<close> the number of connections open, where a closing without an opening does not
  count.\<close>

theorem metrics_count_connections:
  assumes "opened_in es < 2 ^ 64"
  shows "unat (total_connections (foldl metrics_event metrics_init es)) = opened_in es \<and>
    unat (current_connections (foldl metrics_event metrics_init es)) = open_after 0 es"
  using metrics_events_gen [of metrics_init 0 0 es] assms by (simp_all add: metrics_init_def)

theorem metrics_count_connections_witness:
  "unat (total_connections (foldl metrics_event metrics_init
      [Closed, Opened, Transferred 7, Opened, Closed])) = 2 \<and>
   unat (current_connections (foldl metrics_event metrics_init
      [Closed, Opened, Transferred 7, Opened, Closed])) = 1"
  using metrics_count_connections [of "[Closed, Opened, Transferred 7, Opened, Closed]"]
  by (simp add: opened_in_def)

lemma metrics_text_is_text [simp]: "is_text (metrics_text m)"
  by (simp add: metrics_text_def lit_def)

section \<open>Settings\<close>

definition BUFF_DEFAULT_LEN :: int where "BUFF_DEFAULT_LEN = 131072"
definition BUFF_MIN_LEN :: int where "BUFF_MIN_LEN = 256"
definition MAX_CONN_DEFAULT :: int where "MAX_CONN_DEFAULT = 500"

lemmas settings_defs = BUFF_DEFAULT_LEN_def BUFF_MIN_LEN_def MAX_CONN_DEFAULT_def

text \<open>The metrics and the register are null pointers where their allocations failed.\<close>

record server_data =
  metrics :: "server_metrics option"
  access_reg :: "access_register option"
  buffer_size :: "32 word"
  max_conn :: "32 word"

text \<open>\<open>None\<close> is the exit of the process when the first allocation fails.\<close>

definition server_data_init :: "bool \<Rightarrow> bool \<Rightarrow> bool \<Rightarrow> access_entry list \<Rightarrow> server_data option" where
  "server_data_init alloc alloc_metrics alloc_register garbage =
     (if alloc
      then Some \<lparr>metrics = (if alloc_metrics then Some metrics_init else None),
                 access_reg = (if alloc_register then Some (access_register_init garbage) else None),
                 buffer_size = word_of_int BUFF_DEFAULT_LEN, max_conn = word_of_int MAX_CONN_DEFAULT\<rparr>
      else None)"

text \<open>The data is gone afterwards, whether there was any or not.\<close>

definition server_data_destroy :: "server_data option \<Rightarrow> server_data option" where
  "server_data_destroy d = None"

text \<open>The arguments are of type \<open>int\<close>, the settings unsigned.\<close>

definition set_buffer_size :: "server_data \<Rightarrow> int \<Rightarrow> int \<times> server_data" where
  "set_buffer_size d sz =
     (if sz < BUFF_MIN_LEN then (-1, d) else (0, d\<lparr>buffer_size := word_of_int sz\<rparr>))"

definition set_max_conn :: "server_data \<Rightarrow> int \<Rightarrow> int \<times> server_data" where
  "set_max_conn d n =
     (if n < 1 then (-1, d) else (0, d\<lparr>max_conn := word_of_int n\<rparr>))"

text \<open>What every setting a client can see satisfies.\<close>

definition settings_ok :: "server_data \<Rightarrow> bool" where
  "settings_ok d \<longleftrightarrow> 256 \<le> uint (buffer_size d) \<and> uint (buffer_size d) < 2 ^ 31 \<and>
     1 \<le> uint (max_conn d) \<and> uint (max_conn d) < 2 ^ 31"

lemma uint_setting: "0 \<le> i \<Longrightarrow> i < 2 ^ 31 \<Longrightarrow> uint (word_of_int i :: 32 word) = i"
  by (simp add: uint_word_of_int_eq take_bit_int_eq_self)

lemma set_buffer_size_ok:
  "settings_ok d \<Longrightarrow> n < 2 ^ 31 \<Longrightarrow> settings_ok (snd (set_buffer_size d n))"
  by (simp add: set_buffer_size_def settings_ok_def uint_setting settings_defs)

lemma set_max_conn_ok:
  "settings_ok d \<Longrightarrow> n < 2 ^ 31 \<Longrightarrow> settings_ok (snd (set_max_conn d n))"
  by (simp add: set_max_conn_def settings_ok_def uint_setting)

lemma server_data_init_ok: "server_data_init True b c g = Some d \<Longrightarrow> settings_ok d"
  by (auto simp: server_data_init_def settings_ok_def uint_setting settings_defs)

end
