(* ===== verification/Admin_Parser.thy ===== *)
theory Admin_Parser
  imports C_String
begin

text \<open>
  The parser of administration commands, \<open>src/src/shared/s5admin_parser.c\<close>, which the server
  and the admin client share.  It cuts the line into words in place with \<open>strtok_r\<close>, looks
  the first up in the table of commands and takes as many arguments as the table says.  The
  section on words gives the same parser over the list of words of the line.
\<close>

section \<open>Cutting words in place\<close>

text \<open>The delimiters are blank, carriage return and newline.\<close>

definition is_delim :: "byte \<Rightarrow> bool" where
  "is_delim b \<longleftrightarrow> b = 32 \<or> b = 13 \<or> b = 10"

text \<open>
  \<open>strtok_r\<close> on the string at \<open>pos\<close>: the word found, if any, the memory, in which the
  delimiter behind the word has become a zero, and the position to go on from.
\<close>

definition strtok_r :: "byte list \<Rightarrow> nat \<Rightarrow> (byte list option \<times> byte list \<times> nat) res" where
  "strtok_r mem pos =
     bind_res (c_str (drop pos mem)) (\<lambda>s.
       let s1 = dropWhile is_delim s; p = pos + (length s - length s1);
           tok = takeWhile (\<lambda>b. \<not> is_delim b) s1; e = p + length tok
       in if s1 = [] then Inr (None, mem, p)
          else if length tok = length s1 then Inr (Some tok, mem, e)
          else Inr (Some tok, mem[e := 0], e + 1))"

lemma c_str_length:
  assumes "c_str m = Inr s"
  shows "length s < length m"
proof -
  have s: "s = takeWhile (\<lambda>b. b \<noteq> 0) m" "0 \<in> set m"
    using assms by (auto simp: c_str_def guard_def split: if_splits)
  have "m = s @ dropWhile (\<lambda>b. b \<noteq> 0) m" by (simp add: s(1))
  moreover have "dropWhile (\<lambda>b. b \<noteq> 0) m \<noteq> []" using s(2) by (auto simp: dropWhile_eq_Nil_conv)
  ultimately show ?thesis by (metis append_Nil2 length_append length_greater_0_conv less_add_same_cancel1)
qed

text \<open>The outcome of \<open>strtok_r\<close>, with the blanks skipped and the word split off.\<close>

lemma strtok_cases:
  assumes "c_str (drop pos mem) = Inr s"
  obtains (no_word) "\<forall>b \<in> set s. is_delim b" "strtok_r mem pos = Inr (None, mem, pos + length s)"
  | (last_word) bs w where "s = bs @ w" "\<forall>b \<in> set bs. is_delim b" "\<forall>b \<in> set w. \<not> is_delim b" "w \<noteq> []"
      "strtok_r mem pos = Inr (Some w, mem, pos + length s)"
  | (word) bs w d r where "s = bs @ w @ d # r" "\<forall>b \<in> set bs. is_delim b"
      "\<forall>b \<in> set w. \<not> is_delim b" "w \<noteq> []" "is_delim d"
      "strtok_r mem pos =
         Inr (Some w, mem[pos + length bs + length w := 0], pos + length bs + length w + 1)"
proof -
  define bs where "bs = takeWhile is_delim s"
  define s1 where "s1 = dropWhile is_delim s"
  define w where "w = takeWhile (\<lambda>b. \<not> is_delim b) s1"
  define r where "r = dropWhile (\<lambda>b. \<not> is_delim b) s1"
  have s: "s = bs @ s1" "s1 = w @ r" by (simp_all add: bs_def s1_def w_def r_def)
  have all: "\<forall>b \<in> set bs. is_delim b" "\<forall>b \<in> set w. \<not> is_delim b"
    by (auto simp: bs_def w_def dest: set_takeWhileD)
  have len: "length s - length s1 = length bs" using s(1) by simp
  have tok: "strtok_r mem pos =
      (let p = pos + length bs; e = p + length w
       in if s1 = [] then Inr (None, mem, p)
          else if length w = length s1 then Inr (Some w, mem, e) else Inr (Some w, mem[e := 0], e + 1))"
    unfolding strtok_r_def assms bind_res_Inr Let_def s1_def [symmetric] w_def [symmetric] len
    by (rule refl)
  show thesis
  proof (cases "s1 = []")
    case True
    with s all(1) tok show thesis by (intro no_word) (simp_all add: Let_def)
  next
    case False
    then have "\<not> is_delim (hd s1)" unfolding s1_def by (rule hd_dropWhile)
    with False have w: "w \<noteq> []" by (cases s1) (simp_all add: w_def)
    show thesis
    proof (cases r)
      case Nil
      with s all False w tok show thesis by (intro last_word [of bs w]) (simp_all add: Let_def)
    next
      case (Cons d r')
      have "is_delim d" using hd_dropWhile [of "\<lambda>b. \<not> is_delim b" s1] Cons unfolding r_def
        by (metis list.distinct(1) list.sel(1))
      with Cons s all False w tok show thesis by (intro word [of bs w d r']) (simp_all add: Let_def)
    qed
  qed
qed

lemma strtok_fault: "c_str (drop pos mem) = Inl f \<Longrightarrow> strtok_r mem pos = Inl f"
  by (simp add: strtok_r_def)

lemma strtok_moves:
  assumes "strtok_r mem pos = Inr (Some tok, mem', p)"
  shows "pos < p" "p \<le> length mem" "length mem' = length mem"
proof -
  obtain s where s: "c_str (drop pos mem) = Inr s"
    using assms by (cases "c_str (drop pos mem)") (simp_all add: strtok_fault)
  from s show "pos < p" "p \<le> length mem" "length mem' = length mem"
    using assms c_str_length [OF s] by (cases rule: strtok_cases; auto)+
qed

text \<open>\<open>while (strtok_r(NULL, ...));\<close>\<close>

function strtok_rest :: "byte list \<Rightarrow> nat \<Rightarrow> byte list res" where
  "strtok_rest mem pos =
     (case strtok_r mem pos of
        Inl f \<Rightarrow> Inl f
      | Inr (None, mem, p) \<Rightarrow> Inr mem
      | Inr (Some tok, mem, p) \<Rightarrow> strtok_rest mem p)"
  by pat_completeness auto
termination
proof (relation "measure (\<lambda>(mem, pos). length mem - pos)", simp, clarify)
  fix mem pos tok mem' p
  assume "strtok_r mem pos = Inr (Some tok, mem', p)"
  from strtok_moves [OF this]
  show "((mem', p), (mem, pos)) \<in> measure (\<lambda>(mem, pos). length mem - pos)" by simp
qed

declare strtok_rest.simps [simp del]

section \<open>Commands\<close>

datatype s5admin_command =
    CMD_ADD_USER
  | CMD_REMOVE_USER
  | CMD_LIST_USERS
  | CMD_GET_METRICS
  | CMD_GET_ACCESS_REGISTER
  | CMD_SET_LOGLEVEL
  | CMD_SET_MAX_CONN
  | CMD_SET_BUFF
  | CMD_GET_CONFIG
  | CMD_HELP
  | CMD_PING
  | CMD_EXIT
  | CMD_INVALID

definition ARGS_LEN :: nat where "ARGS_LEN = 256"

record s5admin_cmd_parsed =
  cmd :: s5admin_command
  arg1 :: "byte list"
  arg2 :: "byte list"

text \<open>The table of commands: name, number of arguments, and the value its index has.\<close>

definition commands :: "(byte list \<times> nat \<times> s5admin_command) list" where
  "commands =
     [(lit ''ADD_USER'', 2, CMD_ADD_USER),
      (lit ''REMOVE_USER'', 1, CMD_REMOVE_USER),
      (lit ''LIST_USERS'', 0, CMD_LIST_USERS),
      (lit ''GET_METRICS'', 0, CMD_GET_METRICS),
      (lit ''GET_ACCESS_REGISTER'', 0, CMD_GET_ACCESS_REGISTER),
      (lit ''SET_LOGLEVEL'', 1, CMD_SET_LOGLEVEL),
      (lit ''SET_MAX_CONN'', 1, CMD_SET_MAX_CONN),
      (lit ''SET_BUFF'', 1, CMD_SET_BUFF),
      (lit ''GET_CONFIG'', 0, CMD_GET_CONFIG),
      (lit ''HELP'', 0, CMD_HELP),
      (lit ''PING'', 0, CMD_PING),
      (lit ''EXIT'', 0, CMD_EXIT)]"

text \<open>\<open>strcpy\<close> of a message over the front of the first argument.\<close>

definition invalid :: "s5admin_cmd_parsed \<Rightarrow> byte list \<Rightarrow> s5admin_cmd_parsed res" where
  "invalid p msg =
     bind_res (strcpy_to (arg1 p) 0 msg) (\<lambda>a. Inr (p\<lparr>cmd := CMD_INVALID, arg1 := a\<rparr>))"

definition missing_args :: "s5admin_cmd_parsed \<Rightarrow> s5admin_cmd_parsed res" where
  "missing_args p = invalid p (lit ''missing argument'')"

definition too_many_args :: "s5admin_cmd_parsed \<Rightarrow> s5admin_cmd_parsed res" where
  "too_many_args p = invalid p (lit ''too many arguments'')"

definition invalid_argument :: "s5admin_cmd_parsed \<Rightarrow> s5admin_cmd_parsed res" where
  "invalid_argument p = invalid p (lit ''argument too long'')"

text \<open>
  The end of every case: there must be no further word.  The branches for one and for two
  arguments share the code that takes a word; \<open>put\<close> stores it.
\<close>

definition no_more_args ::
    "s5admin_cmd_parsed \<Rightarrow> byte list \<Rightarrow> nat \<Rightarrow> (s5admin_cmd_parsed \<times> byte list) res" where
  "no_more_args p mem pos =
     bind_res (strtok_r mem pos) (\<lambda>(t, mem, pos).
       if t \<noteq> None then bind_res (too_many_args p) (\<lambda>p. Inr (p, mem)) else Inr (p, mem))"

definition take_arg ::
    "(byte list \<Rightarrow> s5admin_cmd_parsed \<Rightarrow> s5admin_cmd_parsed) \<Rightarrow>
     (s5admin_cmd_parsed \<Rightarrow> byte list \<Rightarrow> nat \<Rightarrow> (s5admin_cmd_parsed \<times> byte list) res) \<Rightarrow>
     s5admin_cmd_parsed \<Rightarrow> byte list \<Rightarrow> nat \<Rightarrow> (s5admin_cmd_parsed \<times> byte list) res" where
  "take_arg put next p mem pos =
     bind_res (strtok_r mem pos) (\<lambda>(t, mem, pos).
       case t of
         None \<Rightarrow> bind_res (missing_args p) (\<lambda>p. Inr (p, mem))
       | Some token \<Rightarrow>
           if length token > ARGS_LEN
           then bind_res (strtok_rest mem pos) (\<lambda>mem. bind_res (invalid_argument p) (\<lambda>p. Inr (p, mem)))
           else next (put (strncpy token ARGS_LEN) p) mem pos)"

definition s5admin_parse_command_args ::
    "s5admin_cmd_parsed \<Rightarrow> byte list \<Rightarrow> nat \<Rightarrow> nat \<Rightarrow> (s5admin_cmd_parsed \<times> byte list) res" where
  "s5admin_parse_command_args p mem pos expected_args =
     (if expected_args = 0 then no_more_args p mem pos
      else if expected_args = 1 then take_arg (\<lambda>a p. p\<lparr>arg1 := a\<rparr>) no_more_args p mem pos
      else if expected_args = 2
      then take_arg (\<lambda>a p. p\<lparr>arg1 := a\<rparr>) (take_arg (\<lambda>a p. p\<lparr>arg2 := a\<rparr>) no_more_args) p mem pos
      else Inr (p\<lparr>cmd := CMD_INVALID\<rparr>, mem))"

definition find_command :: "byte list \<Rightarrow> (nat \<times> s5admin_command) option" where
  "find_command token = map_of commands token"

text \<open>\<open>mem\<close> is the block \<open>cmd\<close> points to; a line without a word makes \<open>token\<close> null, which
  \<open>strcmp\<close> then reads.\<close>

definition s5admin_parse_command ::
    "s5admin_cmd_parsed \<Rightarrow> byte list \<Rightarrow> (s5admin_cmd_parsed \<times> byte list) res" where
  "s5admin_parse_command parsed mem =
     bind_res (invalid parsed (lit ''invalid command'')) (\<lambda>p.
     bind_res (strtok_r mem 0) (\<lambda>(token, mem, pos).
       case token of
         None \<Rightarrow> Inl Null_Deref
       | Some token \<Rightarrow>
           (case find_command token of
              Some (expected_args, c) \<Rightarrow> s5admin_parse_command_args (p\<lparr>cmd := c\<rparr>) mem pos expected_args
            | None \<Rightarrow> Inr (p\<lparr>cmd := CMD_INVALID\<rparr>, mem))))"

section \<open>The parser over words\<close>

function words :: "byte list \<Rightarrow> byte list list" where
  "words s =
     (let s1 = dropWhile is_delim s
      in if s1 = [] then []
         else takeWhile (\<lambda>b. \<not> is_delim b) s1 # words (dropWhile (\<lambda>b. \<not> is_delim b) s1))"
  by pat_completeness auto
termination
proof (relation "measure length", simp)
  fix s s1 :: "byte list"
  assume s1: "s1 = dropWhile is_delim s" "s1 \<noteq> []"
  then have "\<not> is_delim (hd s1)" using hd_dropWhile by blast
  with s1(2) have "length (dropWhile (\<lambda>b. \<not> is_delim b) s1) < length s1"
    by (cases s1) (auto simp: length_dropWhile_le le_imp_less_Suc)
  also have "\<dots> \<le> length s" by (simp add: s1(1) length_dropWhile_le)
  finally show "(dropWhile (\<lambda>b. \<not> is_delim b) s1, s) \<in> measure length" by simp
qed

declare words.simps [simp del]

lemma words_skip: "\<forall>b \<in> set bs. is_delim b \<Longrightarrow> words (bs @ s) = words s"
  by (simp add: words.simps [of "bs @ s"] words.simps [of s] dropWhile_append)

lemma words_blank: "\<forall>b \<in> set bs. is_delim b \<Longrightarrow> words bs = []"
  using words_skip [of bs "[]"] by (simp add: words.simps)

lemma words_Cons:
  assumes "\<forall>b \<in> set w. \<not> is_delim b" "w \<noteq> []" "r = [] \<or> is_delim (hd r)"
  shows "words (w @ r) = w # words r"
proof -
  have "dropWhile is_delim (w @ r) = w @ r" using assms by (cases w) simp_all
  moreover have "takeWhile (\<lambda>b. \<not> is_delim b) (w @ r) = w"
    "dropWhile (\<lambda>b. \<not> is_delim b) (w @ r) = r"
    using assms by (cases r; simp add: takeWhile_append dropWhile_append)+
  ultimately show ?thesis using assms(2) by (simp add: words.simps [of "w @ r"])
qed

lemma words_single: "\<forall>b \<in> set w. \<not> is_delim b \<Longrightarrow> w \<noteq> [] \<Longrightarrow> words w = [w]"
  using words_Cons [of w "[]"] by (simp add: words.simps [of "[]"])

lemma c_str_split:
  "c_str m = Inr s \<Longrightarrow> \<exists>rest. m = s @ 0 # rest"
proof -
  assume "c_str m = Inr s"
  then have s: "s = takeWhile (\<lambda>b. b \<noteq> 0) m" "0 \<in> set m"
    by (auto simp: c_str_def guard_def split: if_splits)
  then obtain y ys where "dropWhile (\<lambda>b. b \<noteq> 0) m = y # ys"
    by (cases "dropWhile (\<lambda>b. b \<noteq> 0) m") (auto simp: dropWhile_eq_Nil_conv)
  moreover from this have "y = 0" using hd_dropWhile [of "\<lambda>b. b \<noteq> 0" m] by simp
  ultimately have "m = s @ 0 # ys" using takeWhile_dropWhile_id [of "\<lambda>b. b \<noteq> 0" m] s(1) by simp
  then show ?thesis by blast
qed

lemma c_str_is_text: "c_str m = Inr s \<Longrightarrow> is_text s"
  by (auto simp: c_str_def guard_def is_text_def split: if_splits dest: set_takeWhileD)

lemma c_str_drop:
  assumes "c_str (drop pos m) = Inr (s @ t)"
  shows "c_str (drop (pos + length s) m) = Inr t"
proof -
  from c_str_split [OF assms] obtain rest where "drop pos m = (s @ t) @ 0 # rest" by blast
  then have "drop (pos + length s) m = t @ 0 # rest"
    using drop_drop [of "length s" pos m] by (simp add: add.commute)
  then show ?thesis using c_str_is_text [OF assms] by (simp add: c_str_text)
qed

text \<open>What \<open>strtok_r\<close> does to the words of the string.\<close>

lemma strtok_no_word:
  "c_str (drop pos mem) = Inr s \<Longrightarrow> words s = [] \<Longrightarrow> \<exists>p. strtok_r mem pos = Inr (None, mem, p)"
  by (elim strtok_cases) (auto simp: words_skip words_Cons words_single)

lemma strtok_word:
  assumes s: "c_str (drop pos mem) = Inr s" and w: "words s = w # ws"
  shows "\<exists>mem' p s'. strtok_r mem pos = Inr (Some w, mem', p) \<and> length mem' = length mem \<and>
    c_str (drop p mem') = Inr s' \<and> words s' = ws"
  using s
proof (cases rule: strtok_cases)
  case no_word
  with w show ?thesis by (simp add: words_blank)
next
  case (last_word bs v)
  with w have "v = w" "ws = []"
    using words_Cons [of v "[]"] by (simp_all add: words_skip words.simps [of "[]"])
  moreover have "c_str (drop (pos + length s) mem) = Inr []" using c_str_drop [of pos mem s "[]"] s by simp
  ultimately show ?thesis using last_word(5) by (auto simp: words.simps)
next
  case (word bs v d r)
  let ?p = "pos + length bs + length v"
  from word w have "v = w" "ws = words (d # r)" by (simp_all add: words_skip words_Cons)
  moreover have "words (d # r) = words r" using words_skip [of "[d]" r] word(5) by simp
  moreover have "c_str (drop (?p + 1) (mem[?p := 0])) = Inr r"
    using c_str_drop [of pos mem "bs @ v @ [d]" r] s word(1) by (simp add: add.assoc)
  ultimately show ?thesis using word(6) by auto
qed

lemma strtok_rest_ok:
  "c_str (drop pos mem) = Inr s \<Longrightarrow> \<exists>mem'. strtok_rest mem pos = Inr mem' \<and> length mem' = length mem"
proof (induction "words s" arbitrary: mem pos s)
  case Nil
  then show ?case using strtok_no_word [of pos mem s] by (auto simp: strtok_rest.simps)
next
  case (Cons w ws)
  from strtok_word [OF Cons.prems Cons.hyps(2) [symmetric]] obtain mem' p s' where
    1: "strtok_r mem pos = Inr (Some w, mem', p)" "length mem' = length mem"
       "c_str (drop p mem') = Inr s'" "words s' = ws" by blast
  from Cons.hyps(1) [OF 1(4) [symmetric] 1(3)] 1 show ?case
    by (auto simp: strtok_rest.simps [of mem pos])
qed

text \<open>The abstract parser: a command with its arguments, or the message of the error.\<close>

fun args_of :: "nat \<Rightarrow> byte list list \<Rightarrow> byte list + byte list list" where
  "args_of 0 [] = Inr []"
| "args_of 0 (a # as) = Inl (lit ''too many arguments'')"
| "args_of (Suc n) [] = Inl (lit ''missing argument'')"
| "args_of (Suc n) (a # as) =
     (if length a > ARGS_LEN then Inl (lit ''argument too long'')
      else case args_of n as of Inl m \<Rightarrow> Inl m | Inr as \<Rightarrow> Inr (a # as))"

definition parse_line :: "byte list list \<Rightarrow> byte list + (s5admin_command \<times> byte list list)" where
  "parse_line ws =
     (case find_command (hd ws) of
        None \<Rightarrow> Inl (lit ''invalid command'')
      | Some (n, c) \<Rightarrow> (case args_of n (tl ws) of Inl m \<Rightarrow> Inl m | Inr as \<Rightarrow> Inr (c, as)))"

lemma args_length: "args_of n ws = Inr as \<Longrightarrow> length as = n \<and> (\<forall>a \<in> set as. length a \<le> ARGS_LEN)"
  by (induction n ws arbitrary: as rule: args_of.induct) (auto split: if_splits sum.splits)

text \<open>What the parser leaves in its result for an outcome of the abstract parser.\<close>

definition outcome_ok ::
    "s5admin_cmd_parsed \<Rightarrow> s5admin_command \<Rightarrow> byte list + byte list list \<Rightarrow> bool" where
  "outcome_ok p c out \<longleftrightarrow> length (arg1 p) = ARGS_LEN \<and>
     (case out of
        Inl m \<Rightarrow> cmd p = CMD_INVALID \<and> c_str (arg1 p) = Inr m
      | Inr as \<Rightarrow> cmd p = c \<and> (as \<noteq> [] \<longrightarrow> arg1 p = strncpy (hd as) ARGS_LEN) \<and>
          (tl as \<noteq> [] \<longrightarrow> arg2 p = strncpy (hd (tl as)) ARGS_LEN))"

lemma invalid_ok:
  "length (arg1 p) = ARGS_LEN \<Longrightarrow> is_text m \<Longrightarrow> length m < ARGS_LEN \<Longrightarrow>
     \<exists>q. invalid p m = Inr q \<and> outcome_ok q c (Inl m)"
  by (simp add: invalid_def strcpy_to_def outcome_ok_def c_str_text)

lemma messages_ok:
  "is_text (lit ''too many arguments'')" "length (lit ''too many arguments'') < ARGS_LEN"
  "is_text (lit ''missing argument'')" "length (lit ''missing argument'') < ARGS_LEN"
  "is_text (lit ''argument too long'')" "length (lit ''argument too long'') < ARGS_LEN"
  "is_text (lit ''invalid command'')" "length (lit ''invalid command'') < ARGS_LEN"
  by (simp_all add: lit_def ARGS_LEN_def)

lemma no_more_args_ok:
  assumes "length (arg1 p) = ARGS_LEN" "c_str (drop pos mem) = Inr s"
  shows "\<exists>q mem'. no_more_args p mem pos = Inr (q, mem') \<and> length mem' = length mem \<and>
    (case args_of 0 (words s) of Inl m \<Rightarrow> outcome_ok q c (Inl m) | Inr as \<Rightarrow> q = p)"
proof (cases "words s")
  case Nil
  with strtok_no_word [OF assms(2)] show ?thesis by (auto simp: no_more_args_def)
next
  case (Cons w ws)
  with strtok_word [OF assms(2)] invalid_ok [OF assms(1) messages_ok(1,2), of c] show ?thesis
    by (fastforce simp: no_more_args_def too_many_args_def)
qed

lemma take_arg_ok:
  assumes len: "length (arg1 p) = ARGS_LEN" and s: "c_str (drop pos mem) = Inr s"
    and len_put: "\<And>a. length a = ARGS_LEN \<Longrightarrow> length (arg1 (put a p)) = ARGS_LEN"
    and cont: "\<And>a mem pos s. length (arg1 (put (strncpy a ARGS_LEN) p)) = ARGS_LEN \<Longrightarrow>
      c_str (drop pos mem) = Inr s \<Longrightarrow>
      \<exists>q mem'. next (put (strncpy a ARGS_LEN) p) mem pos = Inr (q, mem') \<and> length mem' = length mem \<and>
        (case args_of n (words s) of Inl m \<Rightarrow> outcome_ok q c (Inl m) | Inr as \<Rightarrow> P a as q)"
  shows "\<exists>q mem'. take_arg put next p mem pos = Inr (q, mem') \<and> length mem' = length mem \<and>
    (case args_of (Suc n) (words s) of Inl m \<Rightarrow> outcome_ok q c (Inl m)
     | Inr as \<Rightarrow> P (hd as) (tl as) q)"
proof (cases "words s")
  case Nil
  with strtok_no_word [OF s] invalid_ok [OF len messages_ok(3,4), of c] show ?thesis
    by (fastforce simp: take_arg_def missing_args_def)
next
  case (Cons w ws)
  from strtok_word [OF s Cons] obtain mem' p' s' where
    1: "strtok_r mem pos = Inr (Some w, mem', p')" "length mem' = length mem"
       "c_str (drop p' mem') = Inr s'" "words s' = ws" by blast
  show ?thesis
  proof (cases "length w > ARGS_LEN")
    case True
    with 1 Cons strtok_rest_ok [OF 1(3)] invalid_ok [OF len messages_ok(5,6), of c] show ?thesis
      by (fastforce simp: take_arg_def invalid_argument_def)
  next
    case False
    have "length (strncpy w ARGS_LEN) = ARGS_LEN" by (simp add: strncpy_def)
    from cont [OF len_put [OF this] 1(3)] 1 Cons False show ?thesis
      by (fastforce simp: take_arg_def split: sum.splits)
  qed
qed

text \<open>
  The arguments are parsed as the abstract parser does; the case of two arguments nests the
  case of one.
\<close>

lemma parse_command_args_ok:
  assumes "length (arg1 p) = ARGS_LEN" "c_str (drop pos mem) = Inr s" "n \<le> 2" "cmd p = c"
  shows "\<exists>q mem'. s5admin_parse_command_args p mem pos n = Inr (q, mem') \<and>
    length mem' = length mem \<and> outcome_ok q c (args_of n (words s))"
proof -
  let ?put1 = "\<lambda>a (p :: s5admin_cmd_parsed). p\<lparr>arg1 := a\<rparr>"
  let ?put2 = "\<lambda>a (p :: s5admin_cmd_parsed). p\<lparr>arg2 := a\<rparr>"
  have len1: "length (arg1 (?put1 a p)) = ARGS_LEN" if "length a = ARGS_LEN" for a
    using that by simp
  have one: "\<exists>q mem'. take_arg ?put1 no_more_args p mem pos = Inr (q, mem') \<and>
      length mem' = length mem \<and>
      (case args_of (Suc 0) (words s) of Inl m \<Rightarrow> outcome_ok q c (Inl m)
       | Inr as \<Rightarrow> q = ?put1 (strncpy (hd as) ARGS_LEN) p)"
    by (rule take_arg_ok [where put = ?put1, OF assms(1,2) len1, where P = "\<lambda>a as q. q = ?put1 (strncpy a ARGS_LEN) p"])
      (use no_more_args_ok in auto)
  have second: "\<exists>q mem'. take_arg ?put2 no_more_args p' mem pos = Inr (q, mem') \<and>
      length mem' = length mem \<and>
      (case args_of (Suc 0) (words s) of Inl m \<Rightarrow> outcome_ok q c (Inl m)
       | Inr as \<Rightarrow> q = ?put2 (strncpy (hd as) ARGS_LEN) p')"
    if "length (arg1 p') = ARGS_LEN" "c_str (drop pos mem) = Inr s" for p' mem pos s
    by (rule take_arg_ok [where put = ?put2, OF that, where P = "\<lambda>a as q. q = ?put2 (strncpy a ARGS_LEN) p'"])
      (use no_more_args_ok that in auto)
  have two: "\<exists>q mem'. take_arg ?put1 (take_arg ?put2 no_more_args) p mem pos = Inr (q, mem') \<and>
      length mem' = length mem \<and>
      (case args_of (Suc (Suc 0)) (words s) of Inl m \<Rightarrow> outcome_ok q c (Inl m)
       | Inr as \<Rightarrow> q = ?put2 (strncpy (hd (tl as)) ARGS_LEN) (?put1 (strncpy (hd as) ARGS_LEN) p))"
    by (rule take_arg_ok [where put = ?put1, OF assms(1,2) len1, where P = "\<lambda>a as q. q = ?put2 (strncpy (hd as) ARGS_LEN)
          (?put1 (strncpy a ARGS_LEN) p)"]) (use second in auto)
  have len: "length (strncpy a ARGS_LEN) = ARGS_LEN" for a by (simp add: strncpy_def)
  from assms(3) consider "n = 0" | "n = Suc 0" | "n = Suc (Suc 0)" by linarith
  then show ?thesis
  proof cases
    case 1
    with no_more_args_ok [OF assms(1,2), of c] assms(1,4) show ?thesis
      by (cases "words s") (auto simp: s5admin_parse_command_args_def outcome_ok_def)
  next
    case 2
    from one obtain q mem' where
      q: "take_arg ?put1 no_more_args p mem pos = Inr (q, mem')" "length mem' = length mem"
        "case args_of (Suc 0) (words s) of Inl m \<Rightarrow> outcome_ok q c (Inl m)
         | Inr as \<Rightarrow> q = ?put1 (strncpy (hd as) ARGS_LEN) p" by blast
    have "outcome_ok q c (args_of (Suc 0) (words s))"
      using q(3) args_length [of "Suc 0" "words s"] len assms(4)
      by (cases "args_of (Suc 0) (words s)") (auto simp: outcome_ok_def length_Suc_conv)
    with q 2 show ?thesis by (auto simp: s5admin_parse_command_args_def)
  next
    case 3
    from two obtain q mem' where
      q: "take_arg ?put1 (take_arg ?put2 no_more_args) p mem pos = Inr (q, mem')"
        "length mem' = length mem"
        "case args_of (Suc (Suc 0)) (words s) of Inl m \<Rightarrow> outcome_ok q c (Inl m)
         | Inr as \<Rightarrow> q = ?put2 (strncpy (hd (tl as)) ARGS_LEN) (?put1 (strncpy (hd as) ARGS_LEN) p)"
      by blast
    have "outcome_ok q c (args_of (Suc (Suc 0)) (words s))"
      using q(3) args_length [of "Suc (Suc 0)" "words s"] len assms(4)
      by (cases "args_of (Suc (Suc 0)) (words s)") (auto simp: outcome_ok_def length_Suc_conv)
    with q 3 show ?thesis by (auto simp: s5admin_parse_command_args_def)
  qed
qed

lemma find_command_args: "find_command w = Some (n, c) \<Longrightarrow> n \<le> 2 \<and> c \<noteq> CMD_INVALID"
proof -
  have "\<forall>(w, n, c) \<in> set commands. n \<le> 2 \<and> c \<noteq> CMD_INVALID" by (simp add: commands_def)
  moreover assume "find_command w = Some (n, c)"
  then have "(w, n, c) \<in> set commands" unfolding find_command_def by (rule map_of_SomeD)
  ultimately show ?thesis by fastforce
qed

lemma parse_command_ok:
  assumes len: "length (arg1 parsed) = ARGS_LEN" and s: "c_str mem = Inr s" and w: "words s \<noteq> []"
  shows "\<exists>q mem'. s5admin_parse_command parsed mem = Inr (q, mem') \<and> length mem' = length mem \<and>
    (case parse_line (words s) of
       Inl m \<Rightarrow> outcome_ok q CMD_INVALID (Inl m)
     | Inr (c, as) \<Rightarrow> outcome_ok q c (Inr as))"
proof -
  from w obtain v vs where ws: "words s = v # vs" by (cases "words s") auto
  from s have s0: "c_str (drop 0 mem) = Inr s" by simp
  from strtok_word [OF s0 ws] obtain mem' p s' where
    1: "strtok_r mem 0 = Inr (Some v, mem', p)" "length mem' = length mem"
       "c_str (drop p mem') = Inr s'" "words s' = vs" by blast
  from invalid_ok [OF len messages_ok(7,8), of CMD_INVALID] obtain q where
    q: "invalid parsed (lit ''invalid command'') = Inr q"
       "outcome_ok q CMD_INVALID (Inl (lit ''invalid command''))" by blast
  show ?thesis
  proof (cases "find_command v")
    case None
    with 1 q ws show ?thesis
      by (auto simp: s5admin_parse_command_def parse_line_def outcome_ok_def)
  next
    case (Some nc)
    obtain n c where nc: "nc = (n, c)" by (cases nc)
    with Some find_command_args have n: "n \<le> 2" by blast
    have "length (arg1 (q\<lparr>cmd := c\<rparr>)) = ARGS_LEN" using q(2) by (simp add: outcome_ok_def)
    from parse_command_args_ok [OF this 1(3) n, of c] obtain r mem'' where
      "s5admin_parse_command_args (q\<lparr>cmd := c\<rparr>) mem' p n = Inr (r, mem'')"
      "length mem'' = length mem'" "outcome_ok r c (args_of n vs)"
      using 1(4) by auto
    with 1 q Some nc ws show ?thesis
      by (auto simp: s5admin_parse_command_def parse_line_def outcome_ok_def split: sum.splits)
  qed
qed

section \<open>Properties\<close>

text \<open>C35: On any line with a word in it the parser returns without a fault, and with the outcome
  of the abstract parser: the command and its arguments, each in its array, or the message
  of the first error.\<close>

theorem admin_parser_refines:
  assumes "length (arg1 parsed) = ARGS_LEN" "c_str mem = Inr s" "words s \<noteq> []"
  shows "\<exists>q mem'. s5admin_parse_command parsed mem = Inr (q, mem') \<and> length mem' = length mem \<and>
    (case parse_line (words s) of
       Inl m \<Rightarrow> cmd q = CMD_INVALID \<and> c_str (arg1 q) = Inr m
     | Inr (c, as) \<Rightarrow> cmd q = c \<and> (as \<noteq> [] \<longrightarrow> arg1 q = strncpy (hd as) ARGS_LEN) \<and>
         (tl as \<noteq> [] \<longrightarrow> arg2 q = strncpy (hd (tl as)) ARGS_LEN))"
proof -
  from parse_command_ok [OF assms] obtain q mem' where
    "s5admin_parse_command parsed mem = Inr (q, mem')" "length mem' = length mem"
    "case parse_line (words s) of
       Inl m \<Rightarrow> outcome_ok q CMD_INVALID (Inl m)
     | Inr (c, as) \<Rightarrow> outcome_ok q c (Inr as)" by blast
  then show ?thesis
    by (intro exI [of _ q] exI [of _ mem']) (simp add: outcome_ok_def split: sum.splits prod.splits)
qed

theorem admin_parser_refines_witness:
  "\<exists>q mem'. s5admin_parse_command
       \<lparr>cmd = CMD_INVALID, arg1 = replicate 256 0, arg2 = replicate 256 0\<rparr>
       (lit ''ADD_USER  bob s3cret'' @ [13, 0, 7]) = Inr (q, mem') \<and>
     cmd q = CMD_ADD_USER \<and> arg1 q = strncpy (lit ''bob'') 256 \<and> arg2 q = strncpy (lit ''s3cret'') 256"
proof -
  let ?s = "lit ''ADD_USER  bob s3cret'' @ [13]"
  have s: "c_str (lit ''ADD_USER  bob s3cret'' @ [13, 0, 7]) = Inr ?s"
    by (simp add: c_str_def lit_def)
  have w: "words ?s = [lit ''ADD_USER'', lit ''bob'', lit ''s3cret'']"
    by (simp add: words.simps lit_def is_delim_def)
  have "parse_line (words ?s) = Inr (CMD_ADD_USER, [lit ''bob'', lit ''s3cret''])"
    unfolding w
    by (simp add: parse_line_def find_command_def commands_def lit_def ARGS_LEN_def
        numeral_2_eq_2)
  with admin_parser_refines [OF _ s, of
      "\<lparr>cmd = CMD_INVALID, arg1 = replicate 256 0, arg2 = replicate 256 0\<rparr>"] w
  show ?thesis by (auto simp: ARGS_LEN_def)
qed

lemma parse_blank:
  assumes "length (arg1 parsed) = ARGS_LEN" "c_str mem = Inr s" "\<forall>b \<in> set s. is_delim b"
  shows "s5admin_parse_command parsed mem = Inl Null_Deref"
proof -
  from invalid_ok [OF assms(1) messages_ok(7,8)] obtain q where
    "invalid parsed (lit ''invalid command'') = Inr q" by blast
  moreover from strtok_no_word [of 0 mem s] words_blank [OF assms(3)] assms(2) obtain p where
    "strtok_r mem 0 = Inr (None, mem, p)" by auto
  ultimately show ?thesis by (simp add: s5admin_parse_command_def)
qed

text \<open>A line of nothing but blanks and line ends makes the parser compare a null pointer with
  the command names: any administration client can crash the server with a blank and a
  newline.\<close>

theorem blank_command_null:
  assumes "length (arg1 parsed) = ARGS_LEN" "c_str mem = Inr s" "\<forall>b \<in> set s. is_delim b"
  shows "s5admin_parse_command parsed mem = Inl Null_Deref"
  by (rule parse_blank [OF assms])

theorem blank_command_null_witness:
  "s5admin_parse_command \<lparr>cmd = CMD_INVALID, arg1 = replicate 256 0, arg2 = replicate 256 0\<rparr> [32, 0, 0]
     = Inl Null_Deref"
  by (rule blank_command_null [where s = "[32]"]) (simp_all add: ARGS_LEN_def c_str_def is_delim_def)

end
