(* ===== verification/Config.thy ===== *)
theory Config
  imports Admin_Parser Auth_Table Server_Data
begin

text \<open>
  The handlers of the administration commands, \<open>src/src/server/s5admin/config.c\<close>: the line is
  parsed into a static structure, the handler at the index of the command writes the response
  into the block it is given, and the length of the response is returned.
\<close>

section \<open>State\<close>

record config_state =
  parsed_cmd :: s5admin_cmd_parsed
  user_map :: hashmap
  data :: server_data
  log :: logger

text \<open>The state of the process the handlers start from.\<close>

definition fresh_parsed :: s5admin_cmd_parsed where
  "fresh_parsed = \<lparr>cmd = CMD_ADD_USER, arg1 = replicate ARGS_LEN 0, arg2 = replicate ARGS_LEN 0\<rparr>"

section \<open>Handlers\<close>

text \<open>Each handler gets the state and the response block, and returns both.\<close>

type_synonym handler = "config_state \<Rightarrow> byte list \<Rightarrow> (config_state \<times> byte list) res"

definition respond :: "config_state \<Rightarrow> byte list \<Rightarrow> byte list \<Rightarrow> (config_state \<times> byte list) res" where
  "respond st resp text = bind_res (snprintf_to resp 0 (length resp) text) (\<lambda>resp. Inr (st, resp))"

definition handle_add_user :: "bool \<Rightarrow> handler" where
  "handle_add_user alloc st resp =
     bind_res (c_str (arg1 (parsed_cmd st))) (\<lambda>user.
     bind_res (c_str (arg2 (parsed_cmd st))) (\<lambda>pass.
       let (added, m) = auth_add_user alloc (user_map st) user pass
       in if added then respond (st\<lparr>user_map := m\<rparr>) resp (lit ''OK\<newline>'')
          else respond st resp (lit ''ERROR: '' @ user @ lit '' already exists\<newline>'')))"

definition handle_remove_user :: handler where
  "handle_remove_user st resp =
     bind_res (c_str (arg1 (parsed_cmd st))) (\<lambda>user.
       let (removed, m) = auth_remove_user (user_map st) user
       in if removed then respond (st\<lparr>user_map := m\<rparr>) resp (lit ''OK\<newline>'')
          else respond st resp (lit ''ERROR: '' @ user @ lit '' not found\<newline>''))"

definition handle_list_users :: handler where
  "handle_list_users st resp =
     bind_res (auth_list_users (user_map st) resp (length resp)) (\<lambda>(resp, written). Inr (st, resp))"

definition handle_get_metrics :: handler where
  "handle_get_metrics st resp =
     (case metrics (data st) of
        None \<Rightarrow> Inl Null_Deref
      | Some m \<Rightarrow> bind_res (metrics_print m resp (length resp)) (\<lambda>resp. Inr (st, resp)))"

definition handle_get_access_register :: handler where
  "handle_get_access_register st resp =
     bind_res (access_register_print (access_reg (data st)) resp (length resp)) (\<lambda>(resp, written).
       Inr (st, resp))"

definition handle_set_loglevel :: handler where
  "handle_set_loglevel st resp =
     bind_res (c_str (arg1 (parsed_cmd st))) (\<lambda>a.
       let set = (\<lambda>l. respond (st\<lparr>log := set_log_level (log st) l\<rparr>) resp (lit ''OK\<newline>''))
       in if a = lit ''DEBUG'' then set DEBUG
          else if a = lit ''INFO'' then set INFO
          else if a = lit ''WARNING'' then set WARNING
          else if a = lit ''ERROR'' then set ERROR
          else respond st resp (lit ''ERROR: invalid log level\<newline>''))"

definition handle_set_max_conn :: handler where
  "handle_set_max_conn st resp =
     bind_res (c_str (arg1 (parsed_cmd st))) (\<lambda>a.
       let (r, d) = set_max_conn (data st) (atoi a)
       in if r = 0 then respond (st\<lparr>data := d\<rparr>) resp (lit ''OK\<newline>'')
          else respond st resp (lit ''ERROR: max connections must be at least 1\<newline>''))"

definition handle_set_buff :: handler where
  "handle_set_buff st resp =
     bind_res (c_str (arg1 (parsed_cmd st))) (\<lambda>a.
       let (r, d) = set_buffer_size (data st) (atoi a)
       in if r = 0 then respond (st\<lparr>data := d\<rparr>) resp (lit ''OK\<newline>'')
          else respond st resp
            (lit ''ERROR: buffer size must be at least '' @ decimal_int BUFF_MIN_LEN @ lit '' bytes\<newline>''))"

text \<open>The settings are unsigned and printed as signed numbers.\<close>

definition handle_get_config :: handler where
  "handle_get_config st resp =
     respond st resp
       (lit ''LOG_LEVEL: '' @ get_log_level_string (log st) @
        lit ''\<newline>'' @ lit ''BUFFER_SIZE: '' @ decimal_int (sint (buffer_size (data st))) @ lit ''B\<newline>'' @
        lit ''MAX_CONN: '' @ decimal_int (sint (max_conn (data st))) @ lit ''\<newline>'' @ lit ''END\<newline>'')"

definition help_text :: "byte list" where
  "help_text =
     lit ''ADD_USER <username> <password>\<newline>'' @ lit ''REMOVE_USER <username>\<newline>'' @
     lit ''LIST_USERS\<newline>'' @ lit ''GET_METRICS\<newline>'' @ lit ''GET_ACCESS_REGISTER\<newline>'' @
     lit ''SET_LOGLEVEL <DEBUG|INFO|WARNING|ERROR>\<newline>'' @ lit ''SET_MAX_CONN <quantity>\<newline>'' @
     lit ''SET_BUFF <bytes>\<newline>'' @ lit ''GET_CONFIG\<newline>'' @ lit ''HELP\<newline>'' @ lit ''PING\<newline>'' @
     lit ''EXIT\<newline>'' @ lit ''END\<newline>''"

definition handle_help :: handler where
  "handle_help st resp = respond st resp help_text"

definition handle_ping :: handler where
  "handle_ping st resp = respond st resp (lit ''PONG\<newline>'')"

definition handle_exit :: handler where
  "handle_exit st resp = respond st resp (lit ''BYE\<newline>'')"

text \<open>The table of handlers; \<open>CMD_INVALID\<close> is past its end.\<close>

fun command_handler :: "bool \<Rightarrow> s5admin_command \<Rightarrow> handler" where
  "command_handler alloc CMD_ADD_USER = handle_add_user alloc"
| "command_handler alloc CMD_REMOVE_USER = handle_remove_user"
| "command_handler alloc CMD_LIST_USERS = handle_list_users"
| "command_handler alloc CMD_GET_METRICS = handle_get_metrics"
| "command_handler alloc CMD_GET_ACCESS_REGISTER = handle_get_access_register"
| "command_handler alloc CMD_SET_LOGLEVEL = handle_set_loglevel"
| "command_handler alloc CMD_SET_MAX_CONN = handle_set_max_conn"
| "command_handler alloc CMD_SET_BUFF = handle_set_buff"
| "command_handler alloc CMD_GET_CONFIG = handle_get_config"
| "command_handler alloc CMD_HELP = handle_help"
| "command_handler alloc CMD_PING = handle_ping"
| "command_handler alloc CMD_EXIT = handle_exit"
| "command_handler alloc CMD_INVALID = (\<lambda>st resp. Inl Out_Of_Bounds)"

text \<open>
  \<open>line\<close> is the block with the command, which parsing changes; the result has the length of
  the response, the state, the line and the response block.
\<close>

definition config_handler ::
    "bool \<Rightarrow> config_state \<Rightarrow> byte list \<Rightarrow> byte list \<Rightarrow> (nat \<times> config_state \<times> byte list \<times> byte list) res" where
  "config_handler alloc st line resp =
     bind_res (s5admin_parse_command (parsed_cmd st) line) (\<lambda>(p, line).
     let st = st\<lparr>parsed_cmd := p\<rparr> in
     bind_res
       (if cmd p = CMD_INVALID
        then bind_res (c_str (arg1 p)) (\<lambda>m. respond st resp (lit ''ERROR: '' @ m @ lit ''\<newline>''))
        else command_handler alloc (cmd p) st resp) (\<lambda>(st, resp).
     bind_res (c_str resp) (\<lambda>s. Inr (length s, st, line, resp))))"

section \<open>Responses\<close>

lemma c_str_snprintf:
  assumes "is_text t" "0 < length resp"
  shows "\<exists>r. snprintf_to resp 0 (length resp) t = Inr r \<and> c_str r = Inr (take (length resp - 1) t) \<and>
    length r = length resp"
proof (cases "length t < length resp")
  case True
  with snprintf_whole [of t "length resp" 0 resp] assms(1) show ?thesis
    by (simp add: c_str_text)
next
  case False
  with assms(2) have "length (take (length resp - 1) t) = length resp - 1" by (cases resp) auto
  with assms show ?thesis
    by (simp add: snprintf_to_def c_str_text)
qed

lemma respond_ok:
  assumes "is_text t" "0 < length resp"
  shows "\<exists>r. respond st resp t = Inr (st, r) \<and> c_str r = Inr (take (length resp - 1) t) \<and>
    length r = length resp"
  using c_str_snprintf [OF assms] by (auto simp: respond_def)

lemma snprintf_total:
  assumes "at < length resp"
  shows "\<exists>r. snprintf_to resp at (length resp - at) t = Inr r \<and> length r = length resp \<and> 0 \<in> set r"
  using assms by (auto simp: snprintf_to_def mem_write_def guard_def min_def)

lemma append_lines_total:
  assumes "written < length resp" "0 \<in> set resp"
  shows "\<exists>r w full. append_lines ss resp (length resp) written = Inr (r, w, full) \<and>
    length r = length resp \<and> 0 \<in> set r \<and> (\<not> full \<longrightarrow> w < length resp)"
  using assms
proof (induction ss arbitrary: resp written)
  case (Cons s ss)
  from snprintf_total [OF Cons.prems(1), of s] obtain r where
    r: "snprintf_to resp written (length resp - written) s = Inr r" "length r = length resp"
       "0 \<in> set r" by blast
  show ?case
  proof (cases "length resp - written \<le> length s")
    case True
    with r show ?thesis by auto
  next
    case False
    with Cons.IH [of "written + length s" r] r show ?thesis by auto
  qed
qed auto

lemma auth_list_users_total:
  assumes "0 < length resp" "0 \<in> set resp"
  shows "\<exists>r w. auth_list_users m resp (length resp) = Inr (r, w) \<and> length r = length resp \<and> 0 \<in> set r"
proof -
  from append_lines_total [OF assms, of "map user_line (concat m)"] obtain r w full where
    1: "append_lines (map user_line (concat m)) resp (length resp) 0 = Inr (r, w, full)"
       "length r = length resp" "0 \<in> set r" "\<not> full \<longrightarrow> w < length resp" by blast
  show ?thesis
  proof (cases full)
    case True
    with 1 show ?thesis by (simp add: auth_list_users_def)
  next
    case False
    with 1 snprintf_total [of w r "lit ''END\<newline>''"] show ?thesis
      by (auto simp: auth_list_users_def)
  qed
qed

lemma access_register_print_total:
  assumes "0 < length resp" "0 \<in> set resp" "\<forall>r. reg = Some r \<longrightarrow> reg_inv r"
  shows "\<exists>r w. access_register_print reg resp (length resp) = Inr (r, w) \<and> length r = length resp \<and>
    0 \<in> set r"
proof (cases reg)
  case None
  with assms show ?thesis by (simp add: access_register_print_def)
next
  case (Some g)
  with assms(3) have ring: "ring_from (entries g) (head g) (count g) = Inr (logged g)"
    by (simp add: ring_from_logged reg_inv_def logged_def)
  from snprintf_total [OF assms(1), of header_row] obtain r0 where
    0: "snprintf_to resp 0 (length resp) header_row = Inr r0" "length r0 = length resp" "0 \<in> set r0"
    by auto
  show ?thesis
  proof (cases "length resp \<le> length header_row")
    case True
    with 0 Some show ?thesis by (simp add: access_register_print_def)
  next
    case False
    with append_lines_total [of "length header_row" r0 "map entry_row (logged g)"] 0 obtain r w full where
      1: "append_lines (map entry_row (logged g)) r0 (length resp) (length header_row) = Inr (r, w, full)"
         "length r = length resp" "0 \<in> set r" by auto
    show ?thesis
    proof (cases "w < length resp")
      case True
      with snprintf_total [of w r "lit ''END\<newline>''"] 0 1 Some ring False show ?thesis
        by (auto simp: access_register_print_def)
    next
      case False
      with 0 1 Some ring \<open>\<not> length resp \<le> length header_row\<close> show ?thesis
        by (simp add: access_register_print_def)
    qed
  qed
qed

text \<open>What a handler has to do: return, keep the invariant and leave a string in the block.\<close>

definition config_inv :: "config_state \<Rightarrow> bool" where
  "config_inv st \<longleftrightarrow> length (arg1 (parsed_cmd st)) = ARGS_LEN \<and> settings_ok (data st) \<and>
     metrics (data st) \<noteq> None \<and> (\<forall>r. access_reg (data st) = Some r \<longrightarrow> reg_inv r)"

definition handled :: "byte list \<Rightarrow> (config_state \<times> byte list) res \<Rightarrow> bool" where
  "handled resp out \<longleftrightarrow> (\<exists>st' r. out = Inr (st', r) \<and> config_inv st' \<and> length r = length resp \<and> 0 \<in> set r)"

lemma handled_respond:
  "config_inv st \<Longrightarrow> 0 < length resp \<Longrightarrow> handled resp (respond st resp t)"
  using snprintf_total [of 0 resp t] by (auto simp: handled_def respond_def)

lemma config_inv_user_map [simp]: "config_inv (st\<lparr>user_map := m\<rparr>) = config_inv st"
  and config_inv_log [simp]: "config_inv (st\<lparr>log := l\<rparr>) = config_inv st"
  by (simp_all add: config_inv_def)

lemma set_max_conn_inv:
  "config_inv st \<Longrightarrow> n < 2 ^ 31 \<Longrightarrow> config_inv (st\<lparr>data := snd (set_max_conn (data st) n)\<rparr>)"
  using set_max_conn_ok [of "data st" n] by (auto simp: config_inv_def set_max_conn_def)

lemma set_buffer_size_inv:
  "config_inv st \<Longrightarrow> n < 2 ^ 31 \<Longrightarrow> config_inv (st\<lparr>data := snd (set_buffer_size (data st) n)\<rparr>)"
  using set_buffer_size_ok [of "data st" n] by (auto simp: config_inv_def set_buffer_size_def)

lemma atoi_less: "atoi s < 2 ^ 31"
  using signed_take_bit_int_less_exp [of 31 "strtol s"] by (simp add: atoi_def)

lemma command_handler_total:
  assumes inv: "config_inv st" and resp: "0 < length resp" "0 \<in> set resp" and c: "c \<noteq> CMD_INVALID"
    and a1: "c \<in> {CMD_ADD_USER, CMD_REMOVE_USER, CMD_SET_LOGLEVEL, CMD_SET_MAX_CONN, CMD_SET_BUFF} \<longrightarrow>
      (\<exists>a. c_str (arg1 (parsed_cmd st)) = Inr a)"
    and a2: "c = CMD_ADD_USER \<longrightarrow> (\<exists>b. c_str (arg2 (parsed_cmd st)) = Inr b)"
  shows "handled resp (command_handler alloc c st resp)"
proof (cases c)
  case CMD_ADD_USER
  with a1 a2 obtain a b where "c_str (arg1 (parsed_cmd st)) = Inr a" "c_str (arg2 (parsed_cmd st)) = Inr b"
    by auto
  with CMD_ADD_USER inv resp show ?thesis
    by (simp add: handle_add_user_def handled_respond split: prod.split)
next
  case CMD_REMOVE_USER
  with a1 obtain a where "c_str (arg1 (parsed_cmd st)) = Inr a" by auto
  with CMD_REMOVE_USER inv resp show ?thesis
    by (simp add: handle_remove_user_def handled_respond split: prod.split)
next
  case CMD_LIST_USERS
  with auth_list_users_total [OF resp, of "user_map st"] inv show ?thesis
    by (auto simp: handle_list_users_def handled_def)
next
  case CMD_GET_METRICS
  from inv obtain m where "metrics (data st) = Some m" by (auto simp: config_inv_def)
  with CMD_GET_METRICS snprintf_total [of 0 resp "metrics_text m"] inv resp show ?thesis
    by (auto simp: handle_get_metrics_def metrics_print_def handled_def)
next
  case CMD_GET_ACCESS_REGISTER
  from inv have "\<forall>r. access_reg (data st) = Some r \<longrightarrow> reg_inv r" by (simp add: config_inv_def)
  from access_register_print_total [OF resp this] CMD_GET_ACCESS_REGISTER inv show ?thesis
    by (auto simp: handle_get_access_register_def handled_def)
next
  case CMD_SET_LOGLEVEL
  with a1 obtain a where "c_str (arg1 (parsed_cmd st)) = Inr a" by auto
  with CMD_SET_LOGLEVEL inv resp show ?thesis
    by (simp add: handle_set_loglevel_def handled_respond Let_def)
next
  case CMD_SET_MAX_CONN
  with a1 obtain a where "c_str (arg1 (parsed_cmd st)) = Inr a" by auto
  with CMD_SET_MAX_CONN inv resp set_max_conn_inv [OF inv atoi_less [of a]] show ?thesis
    by (cases "set_max_conn (data st) (atoi a)") (simp add: handle_set_max_conn_def handled_respond)
next
  case CMD_SET_BUFF
  with a1 obtain a where "c_str (arg1 (parsed_cmd st)) = Inr a" by auto
  with CMD_SET_BUFF inv resp set_buffer_size_inv [OF inv atoi_less [of a]] show ?thesis
    by (cases "set_buffer_size (data st) (atoi a)") (simp add: handle_set_buff_def handled_respond)
next
  case CMD_INVALID
  with c show ?thesis by simp
qed (use inv resp in \<open>simp_all add: handle_get_config_def handle_help_def handle_ping_def
    handle_exit_def handled_respond\<close>)

lemma strncpy_readable:
  "is_text a \<Longrightarrow> length a < ARGS_LEN \<Longrightarrow> c_str (strncpy a ARGS_LEN) = Inr a"
  by (simp add: c_str_strncpy)

lemma words_text: "is_text s \<Longrightarrow> \<forall>w \<in> set (words s). is_text w"
proof (induction s rule: words.induct)
  case (1 s)
  let ?s1 = "dropWhile is_delim s"
  let ?w = "takeWhile (\<lambda>b. \<not> is_delim b) ?s1" and ?r = "dropWhile (\<lambda>b. \<not> is_delim b) ?s1"
  have parts: "is_text ?w" "is_text ?r"
    using 1(2) unfolding is_text_def by (auto dest!: set_takeWhileD set_dropWhileD)
  show ?case
  proof (cases "?s1 = []")
    case True
    then have "words s = []" by (subst words.simps) simp
    then show ?thesis by simp
  next
    case False
    from 1(1) [OF refl False parts(2)] have "\<forall>w \<in> set (words ?r). is_text w" .
    moreover from False have "words s = ?w # words ?r" by (subst words.simps) (simp only: Let_def if_False)
    ultimately show ?thesis using parts(1) by simp
  qed
qed

text \<open>The number of arguments the table gives to the commands that read one.\<close>

lemma command_arity:
  assumes "find_command w = Some (n, c)"
  shows "c \<in> {CMD_REMOVE_USER, CMD_SET_LOGLEVEL, CMD_SET_MAX_CONN, CMD_SET_BUFF} \<longrightarrow> n = 1"
    and "c = CMD_ADD_USER \<longrightarrow> n = 2"
proof -
  have "(w, n, c) \<in> set commands" using assms unfolding find_command_def by (rule map_of_SomeD)
  then show "c \<in> {CMD_REMOVE_USER, CMD_SET_LOGLEVEL, CMD_SET_MAX_CONN, CMD_SET_BUFF} \<longrightarrow> n = 1"
    and "c = CMD_ADD_USER \<longrightarrow> n = 2"
    by (auto simp: commands_def)
qed

lemma args_subset: "args_of n ws = Inr as \<Longrightarrow> set as \<subseteq> set ws"
proof (induction ws arbitrary: n as)
  case Nil
  then show ?case by (cases n) simp_all
next
  case (Cons a ws)
  then obtain k where k: "n = Suc k" by (cases n) simp_all
  show ?case
  proof (cases "args_of k ws")
    case (Inr bs)
    with Cons.prems k have "as = a # bs" by (simp split: if_splits)
    with Cons.IH [OF Inr] show ?thesis by auto
  qed (use Cons.prems k in \<open>simp split: if_splits\<close>)
qed

lemma words_readable:
  assumes s: "c_str line = Inr s" and len: "\<forall>w \<in> set (words s). length w \<noteq> ARGS_LEN"
    and as: "args_of n (tl (words s)) = Inr as"
  shows "\<forall>a \<in> set as. c_str (strncpy a ARGS_LEN) = Inr a"
proof
  fix a assume a: "a \<in> set as"
  with args_subset [OF as] have "a \<in> set (tl (words s))" by auto
  then have "a \<in> set (words s)" by (cases "words s") simp_all
  with words_text [OF c_str_is_text [OF s]] len have "is_text a" "length a \<noteq> ARGS_LEN" by simp_all
  moreover have "length a \<le> ARGS_LEN" using args_length [OF as] a by simp
  ultimately show "c_str (strncpy a ARGS_LEN) = Inr a" by (intro strncpy_readable) simp_all
qed

lemma arguments_readable:
  assumes out: "outcome_ok q c (Inr as)" and n: "find_command w = Some (n, c)" "args_of n ws = Inr as"
    and fit: "\<forall>a \<in> set as. c_str (strncpy a ARGS_LEN) = Inr a"
  shows "c \<in> {CMD_ADD_USER, CMD_REMOVE_USER, CMD_SET_LOGLEVEL, CMD_SET_MAX_CONN, CMD_SET_BUFF} \<longrightarrow>
      (\<exists>a. c_str (arg1 q) = Inr a)"
    and "c = CMD_ADD_USER \<longrightarrow> (\<exists>b. c_str (arg2 q) = Inr b)"
proof -
  have l: "length as = n" using args_length [OF n(2)] by simp
  show "c \<in> {CMD_ADD_USER, CMD_REMOVE_USER, CMD_SET_LOGLEVEL, CMD_SET_MAX_CONN, CMD_SET_BUFF} \<longrightarrow>
      (\<exists>a. c_str (arg1 q) = Inr a)"
  proof
    assume "c \<in> {CMD_ADD_USER, CMD_REMOVE_USER, CMD_SET_LOGLEVEL, CMD_SET_MAX_CONN, CMD_SET_BUFF}"
    with command_arity [OF n(1)] l have "as \<noteq> []" by auto
    with out fit show "\<exists>a. c_str (arg1 q) = Inr a" by (cases as) (simp_all add: outcome_ok_def)
  qed
  show "c = CMD_ADD_USER \<longrightarrow> (\<exists>b. c_str (arg2 q) = Inr b)"
  proof
    assume "c = CMD_ADD_USER"
    with command_arity(2) [OF n(1)] l obtain a b where "as = [a, b]"
      by (auto simp: numeral_2_eq_2 length_Suc_conv)
    with out fit show "\<exists>b. c_str (arg2 q) = Inr b" by (simp add: outcome_ok_def)
  qed
qed

text \<open>The branch of \<open>config_handler\<close> between the parser and the length of the response.\<close>

lemma parsed_handled:
  assumes inv: "config_inv st" and s: "c_str line = Inr s"
    and len: "\<forall>w \<in> set (words s). length w \<noteq> ARGS_LEN" and resp: "0 < length resp" "0 \<in> set resp"
    and q: "case parse_line (words s) of Inl m \<Rightarrow> outcome_ok (parsed_cmd st) CMD_INVALID (Inl m)
       | Inr (c, as) \<Rightarrow> outcome_ok (parsed_cmd st) c (Inr as)"
  shows "handled resp (if cmd (parsed_cmd st) = CMD_INVALID
     then bind_res (c_str (arg1 (parsed_cmd st))) (\<lambda>m. respond st resp (lit ''ERROR: '' @ m @ lit ''\<newline>''))
     else command_handler alloc (cmd (parsed_cmd st)) st resp)"
proof (cases "parse_line (words s)")
  case (Inl m)
  with q inv resp show ?thesis by (simp add: outcome_ok_def handled_respond)
next
  case (Inr ca)
  then obtain c as where ca: "parse_line (words s) = Inr (c, as)" by (cases ca) simp
  with q have out: "outcome_ok (parsed_cmd st) c (Inr as)" by simp
  obtain n where n: "find_command (hd (words s)) = Some (n, c)" "args_of n (tl (words s)) = Inr as"
    using ca unfolding parse_line_def by (auto split: option.splits sum.splits)
  from find_command_args [OF n(1)] have c: "c \<noteq> CMD_INVALID" by simp
  note arguments_readable [OF out n words_readable [OF s len n(2)]]
  from command_handler_total [OF inv resp c this] out c show ?thesis by (simp add: outcome_ok_def)
qed

text \<open>A line with a word in it is handled and leaves the state legal.\<close>

lemma config_handler_total:
  assumes inv: "config_inv st" and s: "c_str line = Inr s" and w: "words s \<noteq> []"
    and len: "\<forall>w \<in> set (words s). length w \<noteq> ARGS_LEN" and resp: "0 < length resp" "0 \<in> set resp"
  shows "\<exists>n st' line' resp'. config_handler alloc st line resp = Inr (n, st', line', resp') \<and>
    config_inv st' \<and> length resp' = length resp \<and> length line' = length line \<and> n < length resp'"
proof -
  from inv have "length (arg1 (parsed_cmd st)) = ARGS_LEN" by (simp add: config_inv_def)
  from parse_command_ok [OF this s w] obtain q line' where
    q: "s5admin_parse_command (parsed_cmd st) line = Inr (q, line')" "length line' = length line"
      "case parse_line (words s) of Inl m \<Rightarrow> outcome_ok q CMD_INVALID (Inl m)
       | Inr (c, as) \<Rightarrow> outcome_ok q c (Inr as)" by blast
  let ?st = "st\<lparr>parsed_cmd := q\<rparr>"
  have "length (arg1 q) = ARGS_LEN"
    using q(3) by (simp add: outcome_ok_def split: sum.splits prod.splits)
  with inv have inv': "config_inv ?st" by (simp add: config_inv_def)
  have st: "parsed_cmd ?st = q" by simp
  have q': "case parse_line (words s) of Inl m \<Rightarrow> outcome_ok (parsed_cmd ?st) CMD_INVALID (Inl m)
       | Inr (c, as) \<Rightarrow> outcome_ok (parsed_cmd ?st) c (Inr as)" unfolding st by (rule q(3))
  from parsed_handled [OF inv' s len resp q', of alloc] obtain st' r where
    1: "(if cmd q = CMD_INVALID
         then bind_res (c_str (arg1 q)) (\<lambda>m. respond ?st resp (lit ''ERROR: '' @ m @ lit ''\<newline>''))
         else command_handler alloc (cmd q) ?st resp) = Inr (st', r)"
      "config_inv st'" "length r = length resp" "0 \<in> set r"
    unfolding handled_def st by blast
  obtain t where t: "c_str r = Inr t" using 1(4) by (simp add: c_str_def)
  have "config_handler alloc st line resp = Inr (length t, st', line', r)"
    unfolding config_handler_def q(1) bind_res_Inr prod.case Let_def 1(1) t by (rule refl)
  with c_str_length [OF t] 1(2,3) q(2) show ?thesis by blast
qed

section \<open>Properties\<close>

text \<open>C32: A line with a word in it, none of its words exactly 256 bytes long, is handled without a
  fault: whatever the command and however small the response block, the handler returns, the
  response is a string inside the block, and the settings stay legal.\<close>

theorem config_handler_safe:
  assumes inv: "config_inv st" and s: "c_str line = Inr s" and w: "words s \<noteq> []"
    and len: "\<forall>w \<in> set (words s). length w \<noteq> ARGS_LEN" and resp: "0 < length resp" "0 \<in> set resp"
  shows "\<exists>n st' line' resp'. config_handler alloc st line resp = Inr (n, st', line', resp') \<and>
    config_inv st' \<and> length resp' = length resp \<and> length line' = length line \<and> n < length resp'"
  by (rule config_handler_total [OF assms])

theorem config_handler_safe_witness:
  "\<exists>n st' line' resp'. config_handler True
       \<lparr>parsed_cmd = fresh_parsed, user_map = auth_init,
        data = \<lparr>metrics = Some metrics_init, access_reg = None, buffer_size = 4096, max_conn = 1\<rparr>,
        log = log_start\<rparr>
       (lit ''FOO BAR'' @ [0]) (replicate 64 0) = Inr (n, st', line', resp') \<and> n < 64"
proof -
  let ?st = "\<lparr>parsed_cmd = fresh_parsed, user_map = auth_init,
        data = \<lparr>metrics = Some metrics_init, access_reg = None, buffer_size = 4096, max_conn = 1\<rparr>,
        log = log_start\<rparr>"
  have inv: "config_inv ?st" by (simp add: config_inv_def fresh_parsed_def settings_ok_def)
  have s: "c_str (lit ''FOO BAR'' @ [0]) = Inr (lit ''FOO BAR'')" by (simp add: c_str_def lit_def)
  have w: "words (lit ''FOO BAR'') = [lit ''FOO'', lit ''BAR'']"
    by (simp add: words.simps lit_def is_delim_def)
  show ?thesis
    using config_handler_safe [OF inv s, of "replicate 64 0" True] unfolding w
    by (auto simp: ARGS_LEN_def lit_def)
qed

text \<open>A parsed command, with its handler and the response.\<close>

lemma config_handler_runs:
  assumes len: "length (arg1 (parsed_cmd st)) = ARGS_LEN" and s: "c_str line = Inr s"
    and w: "words s = w # as" "find_command w = Some (n, c)" "args_of n as = Inr as"
    and run: "\<And>q. outcome_ok q c (Inr as) \<Longrightarrow> command_handler alloc c (st\<lparr>parsed_cmd := q\<rparr>) resp = out q"
  shows "\<exists>q line'. outcome_ok q c (Inr as) \<and> config_handler alloc st line resp =
    bind_res (out q) (\<lambda>(st, resp). bind_res (c_str resp) (\<lambda>s. Inr (length s, st, line', resp)))"
proof -
  have p: "parse_line (words s) = Inr (c, as)" using w by (simp add: parse_line_def)
  have "words s \<noteq> []" using w(1) by simp
  from parse_command_ok [OF len s this] obtain q line' where
    q: "s5admin_parse_command (parsed_cmd st) line = Inr (q, line')" "outcome_ok q c (Inr as)"
    unfolding p by auto
  have c: "cmd q = c" "c \<noteq> CMD_INVALID"
    using q(2) find_command_args [OF w(2)] by (simp_all add: outcome_ok_def)
  have "config_handler alloc st line resp =
      bind_res (out q) (\<lambda>(st, resp). bind_res (c_str resp) (\<lambda>s. Inr (length s, st, line', resp)))"
    unfolding config_handler_def q(1) bind_res_Inr prod.case Let_def c(1) if_not_P [OF c(2)] run [OF q(2)]
    by (rule refl)
  with q(2) show ?thesis by blast
qed

lemma command_table:
  "find_command (lit ''ADD_USER'') = Some (2, CMD_ADD_USER)"
  "find_command (lit ''SET_BUFF'') = Some (1, CMD_SET_BUFF)"
  by (simp_all add: find_command_def commands_def lit_def)

lemma two_args: "length a \<le> ARGS_LEN \<Longrightarrow> length b \<le> ARGS_LEN \<Longrightarrow> args_of 2 [a, b] = Inr [a, b]"
  and one_arg: "length a \<le> ARGS_LEN \<Longrightarrow> args_of 1 [a] = Inr [a]"
  by (simp_all add: numeral_2_eq_2)

text \<open>What the command \<open>ADD_USER\<close> changes: the table of users, and the record of the last parsed command.\<close>

lemma add_user_runs:
  assumes inv: "length (arg1 (parsed_cmd st)) = ARGS_LEN" "table_inv (user_map st)"
    and s: "c_str line = Inr s" and w: "words s = [lit ''ADD_USER'', u, p]"
    and len: "length u < 256" "length p < 256" and room: "300 \<le> length resp"
  shows "\<exists>n q m line' resp'. config_handler True st line resp = Inr (n, st\<lparr>parsed_cmd := q, user_map := m\<rparr>, line', resp') \<and>
    c_str resp' = Inr (if users (user_map st) u = None then lit ''OK\<newline>''
                       else lit ''ERROR: '' @ u @ lit '' already exists\<newline>'') \<and> table_inv m \<and>
    users m = (if users (user_map st) u = None then (users (user_map st))(u \<mapsto> p) else users (user_map st))"
proof -
  have wt: "is_text u" "is_text p"
    using words_text [OF c_str_is_text [OF s]] w by simp_all
  have args: "args_of 2 [u, p] = Inr [u, p]" by (rule two_args) (use len in \<open>simp_all add: ARGS_LEN_def\<close>)
  have cs: "c_str (strncpy u ARGS_LEN) = Inr u" "c_str (strncpy p ARGS_LEN) = Inr p"
    using wt len by (simp_all add: c_str_strncpy ARGS_LEN_def)
  obtain b m where add: "auth_add_user True (user_map st) u p = (b, m)" by fastforce
  let ?out = "\<lambda>q. if b then respond (st\<lparr>parsed_cmd := q, user_map := m\<rparr>) resp (lit ''OK\<newline>'')
    else respond (st\<lparr>parsed_cmd := q\<rparr>) resp (lit ''ERROR: '' @ u @ lit '' already exists\<newline>'')"
  have run: "command_handler True CMD_ADD_USER (st\<lparr>parsed_cmd := q\<rparr>) resp = ?out q"
    if "outcome_ok q CMD_ADD_USER (Inr [u, p])" for q
    using that add cs by (simp add: outcome_ok_def handle_add_user_def)
  from config_handler_runs [OF inv(1) s w command_table(1) args run] obtain q line' where
    h: "config_handler True st line resp =
      bind_res (?out q) (\<lambda>(st, resp). bind_res (c_str resp) (\<lambda>s. Inr (length s, st, line', resp)))"
    by blast
  have r: "0 < length resp" using room by linarith
  have texts: "is_text (lit ''OK\<newline>'')" "is_text (lit ''ERROR: '' @ u @ lit '' already exists\<newline>'')"
    using wt(1) by (simp_all add: lit_def)
  have cuts: "take (length resp - 1) (lit ''OK\<newline>'') = lit ''OK\<newline>''"
    "take (length resp - 1) (lit ''ERROR: '' @ u @ lit '' already exists\<newline>'') =
      lit ''ERROR: '' @ u @ lit '' already exists\<newline>''"
    using room len(1) by (simp_all add: lit_def)
  note ok = respond_ok [OF texts(1) r, unfolded cuts] and err = respond_ok [OF texts(2) r, unfolded cuts]
  show ?thesis
  proof (cases "users (user_map st) u")
    case None
    from auth_add_new [OF inv(2) None, of p] add len have b: "b"
      and m: "table_inv m" "users m = (users (user_map st))(u \<mapsto> p)"
      by (simp_all add: MAX_USERNAME_LEN_def MAX_PASSWORD_LEN_def)
    from ok [of "st\<lparr>parsed_cmd := q, user_map := m\<rparr>"] obtain r where
      "respond (st\<lparr>parsed_cmd := q, user_map := m\<rparr>) resp (lit ''OK\<newline>'') = Inr (st\<lparr>parsed_cmd := q, user_map := m\<rparr>, r)"
      "c_str r = Inr (lit ''OK\<newline>'')" by blast
    with b m None h show ?thesis
      by - (rule exI [of _ "length (lit ''OK\<newline>'')"], rule exI [of _ q], rule exI [of _ m], rule exI [of _ line'], rule exI [of _ r], simp)
  next
    case (Some x)
    with auth_add_known [of "user_map st" u True p] add have b: "\<not> b" by simp
    let ?t = "lit ''ERROR: '' @ u @ lit '' already exists\<newline>''"
    from err [of "st\<lparr>parsed_cmd := q\<rparr>"] obtain r where
      "respond (st\<lparr>parsed_cmd := q\<rparr>) resp ?t = Inr (st\<lparr>parsed_cmd := q\<rparr>, r)" "c_str r = Inr ?t" by blast
    with b Some h inv(2) show ?thesis
      by - (rule exI [of _ "length ?t"], rule exI [of _ q], rule exI [of _ "user_map st"], rule exI [of _ line'], rule exI [of _ r], simp)
  qed
qed

text \<open>The command \<open>ADD_USER\<close> with a name and a password of less than 256 bytes adds the user
  with that password and answers \<open>OK\<close> if the name is free, and otherwise answers with the
  error and changes no user.\<close>

theorem add_user_command:
  assumes inv: "length (arg1 (parsed_cmd st)) = ARGS_LEN" "table_inv (user_map st)"
    and s: "c_str line = Inr s" and w: "words s = [lit ''ADD_USER'', u, p]"
    and len: "length u < 256" "length p < 256" and room: "300 \<le> length resp"
  shows "\<exists>n st' line' resp'. config_handler True st line resp = Inr (n, st', line', resp') \<and>
    c_str resp' = Inr (if users (user_map st) u = None then lit ''OK\<newline>''
                       else lit ''ERROR: '' @ u @ lit '' already exists\<newline>'') \<and>
    users (user_map st') = (if users (user_map st) u = None then (users (user_map st))(u \<mapsto> p)
                            else users (user_map st))"
  using add_user_runs [OF assms] by auto

text \<open>A name of exactly 256 bytes passes the check of the parser and fills its array without a
  terminating zero, so that \<open>ADD_USER\<close> reads past the array.\<close>

theorem add_user_256_out_of_bounds:
  assumes inv: "length (arg1 (parsed_cmd st)) = ARGS_LEN" and s: "c_str line = Inr s"
    and w: "words s = [lit ''ADD_USER'', u, p]" and len: "length u = 256" "length p \<le> 256"
  shows "config_handler alloc st line resp = Inl Out_Of_Bounds"
proof -
  have wt: "is_text u" using words_text [OF c_str_is_text [OF s]] w by simp
  have args: "args_of 2 [u, p] = Inr [u, p]" by (rule two_args) (use len in \<open>simp_all add: ARGS_LEN_def\<close>)
  have "c_str (strncpy u ARGS_LEN) = Inl Out_Of_Bounds"
    using c_str_unterminated [OF wt, of ARGS_LEN] len(1) by (simp add: ARGS_LEN_def)
  then have run: "command_handler alloc CMD_ADD_USER (st\<lparr>parsed_cmd := q\<rparr>) resp = Inl Out_Of_Bounds"
    if "outcome_ok q CMD_ADD_USER (Inr [u, p])" for q
    using that by (simp add: outcome_ok_def handle_add_user_def)
  from config_handler_runs [OF inv s w command_table(1) args run] show ?thesis by auto
qed

text \<open>\<open>SET_BUFF\<close> with a number in decimal sets the buffer size to exactly that number if it is
  legal, and \<open>GET_CONFIG\<close> then prints it; a number below 256 is refused and changes nothing.\<close>

theorem set_buff_command:
  assumes inv: "length (arg1 (parsed_cmd st)) = ARGS_LEN" and s: "c_str line = Inr s"
    and w: "words s = [lit ''SET_BUFF'', decimal n]" and n: "n < 2 ^ 31" and room: "64 \<le> length resp"
  shows "\<exists>k st' line' resp'. config_handler True st line resp = Inr (k, st', line', resp') \<and>
    c_str resp' = Inr (if n < 256 then lit ''ERROR: buffer size must be at least 256 bytes\<newline>''
                       else lit ''OK\<newline>'') \<and>
    data st' = (data st)\<lparr>buffer_size := if n < 256 then buffer_size (data st) else of_nat n\<rparr> \<and>
    (256 \<le> n \<longrightarrow> handle_get_config st' resp = respond st' resp
       (lit ''LOG_LEVEL: '' @ level_string (current_log_level (log st)) @
        lit ''\<newline>'' @ lit ''BUFFER_SIZE: '' @ decimal n @ lit ''B\<newline>'' @
        lit ''MAX_CONN: '' @ decimal_int (sint (max_conn (data st))) @ lit ''\<newline>'' @ lit ''END\<newline>''))"
proof -
  have "length (decimal n) \<le> 10" by (rule length_decimal) (use n in simp_all)
  then have len: "length (decimal n) < ARGS_LEN" by (simp add: ARGS_LEN_def)
  have args: "args_of 1 [decimal n] = Inr [decimal n]" by (rule one_arg) (use len in simp)
  have cs: "c_str (strncpy (decimal n) ARGS_LEN) = Inr (decimal n)" by (rule strncpy_readable) (simp_all add: len)
  let ?err = "lit ''ERROR: buffer size must be at least 256 bytes\<newline>''"
  let ?st = "\<lambda>q. st\<lparr>parsed_cmd := q, data := (data st)\<lparr>buffer_size := of_nat n\<rparr>\<rparr>"
  let ?out = "\<lambda>q. if n < 256 then respond (st\<lparr>parsed_cmd := q\<rparr>) resp ?err
    else respond (?st q) resp (lit ''OK\<newline>'')"
  have err_text: "lit ''ERROR: buffer size must be at least '' @ decimal_int BUFF_MIN_LEN @ lit '' bytes\<newline>'' = ?err"
    by (simp add: BUFF_MIN_LEN_def decimal_int_def decimal.simps lit_def)
  have run: "command_handler True CMD_SET_BUFF (st\<lparr>parsed_cmd := q\<rparr>) resp = ?out q"
    if "outcome_ok q CMD_SET_BUFF (Inr [decimal n])" for q
    using that cs n err_text
    by (simp add: outcome_ok_def handle_set_buff_def atoi_decimal set_buffer_size_def BUFF_MIN_LEN_def)
  from config_handler_runs [OF inv s w command_table(2) args run] obtain q line' where
    h: "config_handler True st line resp =
      bind_res (?out q) (\<lambda>(st, resp). bind_res (c_str resp) (\<lambda>s. Inr (length s, st, line', resp)))"
    by blast
  have r: "0 < length resp" using room by linarith
  have texts: "is_text (lit ''OK\<newline>'')" "is_text ?err" by (simp_all add: lit_def)
  have cuts: "take (length resp - 1) (lit ''OK\<newline>'') = lit ''OK\<newline>''" "take (length resp - 1) ?err = ?err"
    using room by (simp_all add: lit_def)
  note ok = respond_ok [OF texts(1) r, unfolded cuts] and err = respond_ok [OF texts(2) r, unfolded cuts]
  show ?thesis
  proof (cases "n < 256")
    case True
    from err [of "st\<lparr>parsed_cmd := q\<rparr>"] True show ?thesis unfolding h by auto
  next
    case False
    have "sint (of_nat n :: 32 word) = int n" using n by (simp add: signed_of_nat signed_take_bit_int_eq_self)
    then have "handle_get_config (?st q) resp = respond (?st q) resp
       (lit ''LOG_LEVEL: '' @ level_string (current_log_level (log st)) @
        lit ''\<newline>'' @ lit ''BUFFER_SIZE: '' @ decimal n @ lit ''B\<newline>'' @
        lit ''MAX_CONN: '' @ decimal_int (sint (max_conn (data st))) @ lit ''\<newline>'' @ lit ''END\<newline>'')"
      by (simp add: handle_get_config_def get_log_level_string_def decimal_int_def)
    with ok [of "?st q"] False show ?thesis unfolding h by auto
  qed
qed


text \<open>Inputs for which the hypotheses of the three theorems hold.\<close>

lemma witness_words:
  "c_str (lit ''ADD_USER bob pw'' @ [0]) = Inr (lit ''ADD_USER bob pw'')"
  "words (lit ''ADD_USER bob pw'') = [lit ''ADD_USER'', lit ''bob'', lit ''pw'']"
  "c_str (lit ''SET_BUFF 4096'' @ [0]) = Inr (lit ''SET_BUFF 4096'')"
  "words (lit ''SET_BUFF 4096'') = [lit ''SET_BUFF'', decimal 4096]"
  by (simp_all add: c_str_def words.simps decimal.simps lit_def is_delim_def)

definition witness_state :: config_state where
  "witness_state = \<lparr>parsed_cmd = fresh_parsed, user_map = auth_init,
     data = \<lparr>metrics = Some metrics_init, access_reg = None, buffer_size = 512, max_conn = 1\<rparr>,
     log = log_start\<rparr>"

lemma witness_state_facts:
  "length (arg1 (parsed_cmd witness_state)) = ARGS_LEN" "user_map witness_state = auth_init"
  "data witness_state = \<lparr>metrics = Some metrics_init, access_reg = None, buffer_size = 512, max_conn = 1\<rparr>"
  by (simp_all add: witness_state_def fresh_parsed_def)

theorem add_user_command_witness:
  "\<exists>n st' line' resp'. config_handler True witness_state (lit ''ADD_USER bob pw'' @ [0])
       (replicate 300 0) = Inr (n, st', line', resp') \<and>
     c_str resp' = Inr (lit ''OK\<newline>'') \<and> users (user_map st') = [lit ''bob'' \<mapsto> lit ''pw'']"
  using add_user_command [OF witness_state_facts(1) _ witness_words(1,2), of "replicate 300 0"]
  by (simp add: witness_state_facts auth_init_ok) (simp add: lit_def)

theorem add_user_256_out_of_bounds_witness:
  "config_handler True witness_state (lit ''ADD_USER '' @ replicate 256 97 @ lit '' x'' @ [0])
     (replicate 300 0) = Inl Out_Of_Bounds"
proof -
  let ?s = "lit ''ADD_USER '' @ replicate 256 97 @ lit '' x''"
  have t: "is_text ?s" by (simp add: lit_def is_text_def)
  have s: "c_str (?s @ [0]) = Inr ?s" using c_str_text [OF t, of "[]"] by simp
  have "words ?s = words (lit ''ADD_USER'' @ [32] @ replicate 256 97 @ [32] @ lit ''x'')"
    by (simp add: lit_def)
  also have "\<dots> = [lit ''ADD_USER'', replicate 256 97, lit ''x'']"
  proof -
    have "words (replicate 256 97 @ [32] @ lit ''x'') = [replicate 256 97, lit ''x'']"
      using words_Cons [of "replicate 256 97" "[32] @ lit ''x''"] words_skip [of "[32]" "lit ''x''"]
        words_single [of "lit ''x''"] by (simp add: is_delim_def lit_def)
    moreover have "words (lit ''ADD_USER'' @ [32] @ r) = lit ''ADD_USER'' # words r" for r
      using words_Cons [of "lit ''ADD_USER''" "[32] @ r"] words_skip [of "[32]" r]
      by (simp add: is_delim_def lit_def)
    ultimately show ?thesis by metis
  qed
  finally have w: "words ?s = [lit ''ADD_USER'', replicate 256 97, lit ''x'']" .
  from add_user_256_out_of_bounds [OF witness_state_facts(1) s w, of True "replicate 300 0"]
  show ?thesis by (simp add: lit_def)
qed

theorem set_buff_command_witness:
  "\<exists>k st' line' resp'. config_handler True witness_state (lit ''SET_BUFF 4096'' @ [0])
       (replicate 64 0) = Inr (k, st', line', resp') \<and>
     c_str resp' = Inr (lit ''OK\<newline>'') \<and> buffer_size (data st') = 4096"
  using set_buff_command [OF witness_state_facts(1) witness_words(3,4), of "replicate 64 0"]
  by auto

end
