(* ===== verification/Stm.thy ===== *)
theory Stm
  imports Prelude
begin

text \<open>
  The state machine engine of \<open>src/src/server/utils/stm.c\<close>: a table of states with optional
  callbacks, run by the events of the selector.  The callbacks act on a state \<open>'w\<close> that also
  holds the machine itself, which they may free; \<open>get\<close> and \<open>put\<close> read and write it there,
  and fault where it is gone.
\<close>

section \<open>Machines\<close>

text \<open>What the selector passes to a handler: the descriptor and the data it was registered with.\<close>

record 'd selector_key =
  k_fd :: int
  k_data :: "'d option"

record ('d, 'w) state_definition =
  sd_state :: nat
  on_arrival :: "(nat \<Rightarrow> 'd selector_key \<Rightarrow> 'w \<Rightarrow> 'w res) option"
  on_departure :: "(nat \<Rightarrow> 'd selector_key \<Rightarrow> 'w \<Rightarrow> 'w res) option"
  on_read_ready :: "('d selector_key \<Rightarrow> 'w \<Rightarrow> (nat \<times> 'w) res) option"
  on_write_ready :: "('d selector_key \<Rightarrow> 'w \<Rightarrow> (nat \<times> 'w) res) option"
  on_block_ready :: "('d selector_key \<Rightarrow> 'w \<Rightarrow> (nat \<times> 'w) res) option"

text \<open>The pointer to the current state is the index of the state in the table.\<close>

record state_machine =
  initial :: nat
  max_state :: nat
  current :: "nat option"

text \<open>The check of the table runs over the indices \<open>0..max_state\<close>.\<close>

fun check_states :: "('d, 'w) state_definition list \<Rightarrow> nat \<Rightarrow> nat \<Rightarrow> unit res" where
  "check_states sts i 0 = Inr ()"
| "check_states sts i (Suc n) =
     bind_res (mem_get sts i) (\<lambda>d.
       if i \<noteq> sd_state d then Inl Aborted else check_states sts (Suc i) n)"

definition stm_init :: "('d, 'w) state_definition list \<Rightarrow> state_machine \<Rightarrow> state_machine res" where
  "stm_init sts m =
     bind_res (check_states sts 0 (Suc (max_state m))) (\<lambda>_.
       if initial m < max_state m then Inr (m\<lparr>current := None\<rparr>) else Inl Aborted)"

type_synonym 'w stm_get = "'w \<Rightarrow> state_machine res"
type_synonym 'w stm_put = "state_machine \<Rightarrow> 'w \<Rightarrow> 'w res"

definition arrive ::
    "('d, 'w) state_definition list \<Rightarrow> nat \<Rightarrow> 'd selector_key \<Rightarrow> 'w \<Rightarrow> 'w res" where
  "arrive sts i key w =
     bind_res (mem_get sts i) (\<lambda>d.
       case on_arrival d of None \<Rightarrow> Inr w | Some f \<Rightarrow> f (sd_state d) key w)"

definition depart ::
    "('d, 'w) state_definition list \<Rightarrow> nat option \<Rightarrow> 'd selector_key \<Rightarrow> 'w \<Rightarrow> 'w res" where
  "depart sts c key w =
     (case c of
        None \<Rightarrow> Inr w
      | Some i \<Rightarrow>
          bind_res (mem_get sts i) (\<lambda>d.
            case on_departure d of None \<Rightarrow> Inr w | Some f \<Rightarrow> f (sd_state d) key w))"

definition handle_first ::
    "('d, 'w) state_definition list \<Rightarrow> 'w stm_get \<Rightarrow> 'w stm_put \<Rightarrow> 'd selector_key \<Rightarrow> 'w \<Rightarrow> 'w res" where
  "handle_first sts get put key w =
     bind_res (get w) (\<lambda>m.
       if current m = None
       then bind_res (put (m\<lparr>current := Some (initial m)\<rparr>) w) (arrive sts (initial m) key)
       else Inr w)"

definition jump ::
    "('d, 'w) state_definition list \<Rightarrow> 'w stm_get \<Rightarrow> 'w stm_put \<Rightarrow> nat \<Rightarrow> 'd selector_key \<Rightarrow> 'w \<Rightarrow> 'w res" where
  "jump sts get put nxt key w =
     bind_res (get w) (\<lambda>m.
       if nxt > max_state m then Inl Aborted
       else if current m = Some nxt then Inr w
       else bind_res (depart sts (current m) key w) (\<lambda>w.
            bind_res (get w) (\<lambda>m.
            bind_res (put (m\<lparr>current := Some nxt\<rparr>) w) (arrive sts nxt key))))"

text \<open>The three handlers differ in the callback they run; a state without it aborts.\<close>

definition stm_handler ::
    "(('d, 'w) state_definition \<Rightarrow> ('d selector_key \<Rightarrow> 'w \<Rightarrow> (nat \<times> 'w) res) option) \<Rightarrow>
     ('d, 'w) state_definition list \<Rightarrow> 'w stm_get \<Rightarrow> 'w stm_put \<Rightarrow> 'd selector_key \<Rightarrow> 'w \<Rightarrow> (nat \<times> 'w) res" where
  "stm_handler ev sts get put key w =
     bind_res (handle_first sts get put key w) (\<lambda>w.
     bind_res (get w) (\<lambda>m.
       case current m of
         None \<Rightarrow> Inl Null_Deref
       | Some i \<Rightarrow>
           bind_res (mem_get sts i) (\<lambda>d.
             case ev d of
               None \<Rightarrow> Inl Aborted
             | Some f \<Rightarrow>
                 bind_res (f key w) (\<lambda>(ret, w).
                 bind_res (jump sts get put ret key w) (\<lambda>w. Inr (ret, w))))))"

definition stm_handler_read where "stm_handler_read = stm_handler on_read_ready"
definition stm_handler_write where "stm_handler_write = stm_handler on_write_ready"
definition stm_handler_block where "stm_handler_block = stm_handler on_block_ready"

lemmas stm_handler_defs =
  stm_handler_read_def stm_handler_write_def stm_handler_block_def stm_handler_def

definition stm_handler_close ::
    "('d, 'w) state_definition list \<Rightarrow> 'w stm_get \<Rightarrow> 'd selector_key \<Rightarrow> 'w \<Rightarrow> 'w res" where
  "stm_handler_close sts get key w = bind_res (get w) (\<lambda>m. depart sts (current m) key w)"

definition stm_state :: "('d, 'w) state_definition list \<Rightarrow> state_machine \<Rightarrow> nat res" where
  "stm_state sts m =
     (case current m of None \<Rightarrow> Inr (initial m)
      | Some i \<Rightarrow> bind_res (mem_get sts i) (\<lambda>d. Inr (sd_state d)))"

section \<open>Tables\<close>

text \<open>A table whose entries carry their own index, as the engine wants it.\<close>

definition stm_table :: "('d, 'w) state_definition list \<Rightarrow> bool" where
  "stm_table sts \<longleftrightarrow> (\<forall>i < length sts. sd_state (sts ! i) = i)"

lemma check_states_ok:
  "stm_table sts \<Longrightarrow> i + n \<le> length sts \<Longrightarrow> check_states sts i n = Inr ()"
  by (induction n arbitrary: i) (auto simp: stm_table_def)

lemma check_states_past:
  "stm_table sts \<Longrightarrow> i \<le> length sts \<Longrightarrow> length sts < i + n \<Longrightarrow>
     check_states sts i n = Inl Out_Of_Bounds"
proof (induction n arbitrary: i)
  case (Suc n)
  show ?case
  proof (cases "i < length sts")
    case True
    with Suc show ?thesis by (simp add: stm_table_def)
  next
    case False
    then show ?thesis by (simp add: mem_get_def)
  qed
qed simp

text \<open>
  The engine runs the check with \<open>max_state\<close> included, so \<open>max_state\<close> has to be the last
  state; the number of states is one too many.
\<close>

lemma stm_init_last:
  "stm_table sts \<Longrightarrow> max_state m + 1 = length sts \<Longrightarrow> initial m < max_state m \<Longrightarrow>
     stm_init sts m = Inr (m\<lparr>current := None\<rparr>)"
  by (simp add: stm_init_def check_states_ok del: check_states.simps)

lemma stm_init_count:
  "stm_table sts \<Longrightarrow> max_state m = length sts \<Longrightarrow> stm_init sts m = Inl Out_Of_Bounds"
  using check_states_past [of sts 0 "Suc (max_state m)"]
  by (simp add: stm_init_def del: check_states.simps)

lemma stm_state_index:
  "stm_table sts \<Longrightarrow> current m = Some i \<Longrightarrow> i < length sts \<Longrightarrow> stm_state sts m = Inr i"
  by (simp add: stm_state_def stm_table_def)

section \<open>The steps of an event\<close>

lemma handle_first_started [simp]:
  "get w = Inr m \<Longrightarrow> current m = Some i \<Longrightarrow> handle_first sts get put key w = Inr w"
  by (simp add: handle_first_def)

lemma jump_self [simp]:
  "get w = Inr m \<Longrightarrow> current m = Some i \<Longrightarrow> i \<le> max_state m \<Longrightarrow> jump sts get put i key w = Inr w"
  by (simp add: jump_def)

lemma jump_far:
  "get w = Inr m \<Longrightarrow> max_state m < i \<Longrightarrow> jump sts get put i key w = Inl Aborted"
  by (simp add: jump_def)

lemma stm_handler_no_callback:
  "get w = Inr m \<Longrightarrow> current m = Some i \<Longrightarrow> i < length sts \<Longrightarrow> ev (sts ! i) = None \<Longrightarrow>
     stm_handler ev sts get put key w = Inl Aborted"
  by (simp add: stm_handler_def)

lemma stm_handler_started:
  "get w = Inr m \<Longrightarrow> current m = Some i \<Longrightarrow> i < length sts \<Longrightarrow> ev (sts ! i) = Some f \<Longrightarrow>
     stm_handler ev sts get put key w =
       bind_res (f key w) (\<lambda>(ret, w). bind_res (jump sts get put ret key w) (\<lambda>w. Inr (ret, w)))"
  by (simp add: stm_handler_def)

text \<open>A callback that freed the machine: the engine reads it once more.\<close>

lemma stm_handler_freed:
  assumes "get w = Inr m" "current m = Some i" "i < length sts" "ev (sts ! i) = Some f"
    and "f key w = Inr (ret, w')" "get w' = Inl e"
  shows "stm_handler ev sts get put key w = Inl e"
  using stm_handler_started [where get = get and ev = ev and put = put and key = key, OF assms(1-4)]
    assms(5,6) by (simp add: jump_def)

end
