(* ===== verification/World.thy ===== *)
theory World
  imports Buffer Handshake_Parser Auth_Parser Conn_Req_Parser Responses Selector Stm Config
begin

text \<open>
  The state the event handlers of the server share: the selector, the connections on the
  heap, the administration state, and the operating system.  A connection is reached through
  a pointer, an index into the heap, and freeing it leaves a hole there, so that a later
  access is a fault.  The kernel answers each kind of call from a queue of outcomes the
  environment chose; an empty queue answers as a call that would block or fails.  The calls that reach
  a peer are recorded with their arguments in a trace, so that it shows what was asked of the kernel: for which name, at
  which address, on which descriptor.
\<close>

section \<open>The operating system\<close>

datatype recv_result = Recv "byte list" | Recv_Closed | Recv_Error int
datatype send_result = Sent nat | Send_Error int
datatype accept_result = Accepted int sockaddr | Accept_Error

text \<open>An address that a name resolves to, with its family, and what the hints of \<open>getaddrinfo\<close> ask for.\<close>

type_synonym addrinfo = sockaddr

datatype addr_family = AF_UNSPEC | AF_INET | AF_INET6
datatype ai_flag = AI_NONE | AI_NUMERICHOST | AI_PASSIVE

fun ai_family :: "addrinfo \<Rightarrow> addr_family" where
  "ai_family (Sock_In a port) = AF_INET"
| "ai_family (Sock_In6 a port) = AF_INET6"
| "ai_family Sock_Other = AF_UNSPEC"

text \<open>The calls with their arguments: \<open>getaddrinfo\<close> has the name, the service, the family and the flag.\<close>

datatype os_event =
    Ev_Recv int "byte list"
  | Ev_Send int "byte list"
  | Ev_Close int
  | Ev_Accept int
  | Ev_Resolve "byte list" "byte list" addr_family ai_flag
  | Ev_Socket addr_family
  | Ev_Connect int addrinfo
  | Ev_Bind int addrinfo
  | Ev_Listen int nat

record os =
  os_recv :: "recv_result list"
  os_send :: "send_result list"
  os_accept :: "accept_result list"
  os_alloc :: "bool list"
  os_socket :: "int list"
  os_nonblock :: "bool list"
  os_bind :: "bool list"
  os_listen :: "bool list"
  os_connect :: "int list"
  os_sockopt :: "(bool \<times> int) list"
  os_resolve :: "addrinfo list option list"
  os_thread :: "bool list"
  os_errno :: int
  os_clock :: nat
  os_junk :: "byte list"
  os_sockname :: "int \<Rightarrow> sockaddr"
  os_ntop6 :: "byte list \<Rightarrow> byte list option"
  os_trace :: "os_event list"

definition EAGAIN :: int where "EAGAIN = 11"
definition EINPROGRESS :: int where "EINPROGRESS = 115"
definition EMFILE :: int where "EMFILE = 24"

section \<open>Connections\<close>

record socks5_conn =
  c_client_fd :: int
  c_origin_fd :: int
  c_stm :: "state_machine option"
  c_handshake :: "handshake_parser option"
  c_auth :: "auth_parser option"
  c_req :: "conn_req_parser option"
  c_in :: buffer
  c_out :: buffer
  c_src_address :: "byte list"
  c_src_port :: "16 word"
  c_username :: "byte list"
  c_dst_address :: "byte list"
  c_dst_port :: "16 word"
  c_a_type :: byte
  c_addr_info :: "addrinfo list"
  c_is_error_response :: bool

text \<open>A connection of cleared memory; the empty list of addresses is the null pointer.\<close>

definition null_buffer :: buffer where
  "null_buffer = \<lparr>buf_data = [], buf_limit = 0, buf_read = 0, buf_write = 0\<rparr>"

definition zero_conn :: socks5_conn where
  "zero_conn =
     \<lparr>c_client_fd = 0, c_origin_fd = 0, c_stm = None, c_handshake = None, c_auth = None,
      c_req = None, c_in = null_buffer, c_out = null_buffer, c_src_address = [], c_src_port = 0,
      c_username = [], c_dst_address = [], c_dst_port = 0, c_a_type = 0, c_addr_info = [],
      c_is_error_response = False\<rparr>"

text \<open>A connection of the administration protocol, with its two arrays.\<close>

record admin_conn =
  ac_fd :: int
  ac_in :: buffer
  ac_out :: buffer

text \<open>The tables of handlers that are registered, by name.\<close>

datatype handler = H_Passive | H_Socks5 | H_Connecting | H_Copy | H_Admin_Passive | H_Admin

text \<open>
  The data of a registration is the index of a connection: in \<open>w_admin\<close> for \<open>H_Admin\<close>, in \<open>w_heap\<close> for the
  others.
\<close>

record world =
  w_sel :: "(handler, nat) fdselector"
  w_heap :: "socks5_conn option list"
  w_admin :: "admin_conn option list"
  w_cfg :: config_state
  w_os :: os
  w_resolving :: "nat list"

type_synonym key = "nat selector_key"
type_synonym step = "world \<Rightarrow> world res"

definition conn_get :: "nat \<Rightarrow> world \<Rightarrow> socks5_conn res" where
  "conn_get p w =
     (if p < length (w_heap w)
      then case w_heap w ! p of None \<Rightarrow> Inl Use_After_Free | Some c \<Rightarrow> Inr c
      else Inl Out_Of_Bounds)"

definition conn_upd :: "nat \<Rightarrow> (socks5_conn \<Rightarrow> socks5_conn) \<Rightarrow> step" where
  "conn_upd p f w =
     bind_res (conn_get p w) (\<lambda>c. Inr (w\<lparr>w_heap := (w_heap w)[p := Some (f c)]\<rparr>))"

definition conn_free :: "nat \<Rightarrow> step" where
  "conn_free p w = bind_res (conn_get p w) (\<lambda>c. Inr (w\<lparr>w_heap := (w_heap w)[p := None]\<rparr>))"

definition key_conn :: "key \<Rightarrow> world \<Rightarrow> (nat \<times> socks5_conn) res" where
  "key_conn key w =
     (case k_data key of None \<Rightarrow> Inl Null_Deref
      | Some p \<Rightarrow> bind_res (conn_get p w) (\<lambda>c. Inr (p, c)))"

text \<open>The same for the connections of the administration protocol.\<close>

definition admin_get :: "nat \<Rightarrow> world \<Rightarrow> admin_conn res" where
  "admin_get p w =
     (if p < length (w_admin w)
      then case w_admin w ! p of None \<Rightarrow> Inl Use_After_Free | Some c \<Rightarrow> Inr c
      else Inl Out_Of_Bounds)"

definition admin_upd :: "nat \<Rightarrow> (admin_conn \<Rightarrow> admin_conn) \<Rightarrow> step" where
  "admin_upd p f w =
     bind_res (admin_get p w) (\<lambda>c. Inr (w\<lparr>w_admin := (w_admin w)[p := Some (f c)]\<rparr>))"

definition admin_free :: "nat \<Rightarrow> step" where
  "admin_free p w = bind_res (admin_get p w) (\<lambda>c. Inr (w\<lparr>w_admin := (w_admin w)[p := None]\<rparr>))"

definition key_admin :: "key \<Rightarrow> world \<Rightarrow> (nat \<times> admin_conn) res" where
  "key_admin key w =
     (case k_data key of None \<Rightarrow> Inl Null_Deref
      | Some p \<Rightarrow> bind_res (admin_get p w) (\<lambda>c. Inr (p, c)))"

section \<open>System calls\<close>

definition pop :: "'a \<Rightarrow> 'a list \<Rightarrow> 'a \<times> 'a list" where
  "pop d q = (case q of [] \<Rightarrow> (d, []) | x # xs \<Rightarrow> (x, xs))"

definition os_upd :: "(os \<Rightarrow> os) \<Rightarrow> world \<Rightarrow> world" where
  "os_upd f w = w\<lparr>w_os := f (w_os w)\<rparr>"

definition set_errno :: "int \<Rightarrow> world \<Rightarrow> world" where
  "set_errno e = os_upd (\<lambda>s. s\<lparr>os_errno := e\<rparr>)"

definition emit :: "os_event \<Rightarrow> world \<Rightarrow> world" where
  "emit e = os_upd (\<lambda>s. s\<lparr>os_trace := os_trace s @ [e]\<rparr>)"

definition sys_close :: "int \<Rightarrow> world \<Rightarrow> world" where
  "sys_close fd = emit (Ev_Close fd)"

text \<open>\<open>recv\<close> with room for \<open>n\<close> bytes: at least one byte, the end of the stream, or an error.\<close>

definition sys_recv :: "int \<Rightarrow> nat \<Rightarrow> world \<Rightarrow> recv_result \<times> world" where
  "sys_recv fd n w =
     (let (r, q) = pop (Recv_Error EAGAIN) (os_recv (w_os w));
          w = os_upd (\<lambda>s. s\<lparr>os_recv := q\<rparr>) w
      in case r of
           Recv bs \<Rightarrow> if take n bs = [] then (Recv_Closed, w)
                      else (Recv (take n bs), emit (Ev_Recv fd (take n bs)) w)
         | Recv_Closed \<Rightarrow> (Recv_Closed, w)
         | Recv_Error e \<Rightarrow> (Recv_Error e, set_errno e w))"

text \<open>
  \<open>send\<close> takes a prefix of the bytes, as long as the kernel likes, or fails.  It is called without \<open>MSG_NOSIGNAL\<close>
  and \<open>SIGPIPE\<close> is not ignored, so \<open>EPIPE\<close> is never seen as an error here: the signal ends the process first.
\<close>

definition sys_send :: "int \<Rightarrow> byte list \<Rightarrow> world \<Rightarrow> send_result \<times> world" where
  "sys_send fd bs w =
     (let (r, q) = pop (Send_Error EAGAIN) (os_send (w_os w));
          w = os_upd (\<lambda>s. s\<lparr>os_send := q\<rparr>) w
      in case r of
           Sent k \<Rightarrow> (Sent (min k (length bs)), emit (Ev_Send fd (take k bs)) w)
         | Send_Error e \<Rightarrow> (Send_Error e, set_errno e w))"

definition sys_alloc :: "world \<Rightarrow> bool \<times> world" where
  "sys_alloc w = (let (r, q) = pop True (os_alloc (w_os w)) in (r, os_upd (\<lambda>s. s\<lparr>os_alloc := q\<rparr>) w))"

definition sys_accept :: "int \<Rightarrow> world \<Rightarrow> accept_result \<times> world" where
  "sys_accept listener w =
     (let (r, q) = pop Accept_Error (os_accept (w_os w))
      in (r, emit (Ev_Accept listener) (os_upd (\<lambda>s. s\<lparr>os_accept := q\<rparr>) w)))"

text \<open>\<open>None\<close> where the name has no address.\<close>

definition sys_getaddrinfo ::
    "byte list \<Rightarrow> byte list \<Rightarrow> addr_family \<Rightarrow> ai_flag \<Rightarrow> world \<Rightarrow> addrinfo list option \<times> world" where
  "sys_getaddrinfo name service family flag w =
     (let (r, q) = pop None (os_resolve (w_os w))
      in (r, emit (Ev_Resolve name service family flag) (os_upd (\<lambda>s. s\<lparr>os_resolve := q\<rparr>) w)))"

definition sys_socket :: "addr_family \<Rightarrow> world \<Rightarrow> int \<times> world" where
  "sys_socket family w =
     (let (r, q) = pop (-1) (os_socket (w_os w)); w = emit (Ev_Socket family) (os_upd (\<lambda>s. s\<lparr>os_socket := q\<rparr>) w)
      in (r, if r < 0 then set_errno EMFILE w else w))"

text \<open>\<open>True\<close> where both \<open>fcntl\<close> calls succeed.\<close>

definition set_non_blocking_fd :: "world \<Rightarrow> bool \<times> world" where
  "set_non_blocking_fd w =
     (let (r, q) = pop True (os_nonblock (w_os w)) in (r, os_upd (\<lambda>s. s\<lparr>os_nonblock := q\<rparr>) w))"

definition sys_bind :: "int \<Rightarrow> addrinfo \<Rightarrow> world \<Rightarrow> bool \<times> world" where
  "sys_bind fd a w =
     (let (r, q) = pop True (os_bind (w_os w)) in (r, emit (Ev_Bind fd a) (os_upd (\<lambda>s. s\<lparr>os_bind := q\<rparr>) w)))"

definition sys_listen :: "int \<Rightarrow> nat \<Rightarrow> world \<Rightarrow> bool \<times> world" where
  "sys_listen fd backlog w =
     (let (r, q) = pop True (os_listen (w_os w)) in (r, emit (Ev_Listen fd backlog) (os_upd (\<lambda>s. s\<lparr>os_listen := q\<rparr>) w)))"

text \<open>0, or the error number.\<close>

definition sys_connect :: "int \<Rightarrow> addrinfo \<Rightarrow> world \<Rightarrow> int \<times> world" where
  "sys_connect fd a w =
     (let (r, q) = pop EINPROGRESS (os_connect (w_os w)); w = emit (Ev_Connect fd a) (os_upd (\<lambda>s. s\<lparr>os_connect := q\<rparr>) w)
      in (r, if r = 0 then w else set_errno r w))"

text \<open>\<open>snprintf (port_str, 6, "%hu", port)\<close>, for both lookups of the program; no port has more than five digits.\<close>

definition port_str :: "16 word \<Rightarrow> byte list" where
  "port_str port = take 5 (decimal (unat port))"

section \<open>Selector, metrics and register from a handler\<close>

text \<open>\<open>metrics\<close> is a null pointer where its allocation failed.\<close>

definition metrics_upd :: "(server_metrics \<Rightarrow> server_metrics) \<Rightarrow> step" where
  "metrics_upd f w =
     (case metrics (data (w_cfg w)) of
        None \<Rightarrow> Inl Null_Deref
      | Some m \<Rightarrow> Inr (w\<lparr>w_cfg := (w_cfg w)\<lparr>data := (data (w_cfg w))\<lparr>metrics := Some (f m)\<rparr>\<rparr>\<rparr>))"

definition add_access :: "nat \<Rightarrow> socks5_reply_status \<Rightarrow> step" where
  "add_access p status w =
     bind_res (conn_get p w) (\<lambda>c.
     bind_res (access_register_add_entry (access_reg (data (w_cfg w)))
         (make_entry (c_username c) (c_src_address c) (c_src_port c) (c_dst_address c) (c_dst_port c)
            (uint (reply_code status)) (os_clock (w_os w)))) (\<lambda>(r, row).
     Inr (w\<lparr>w_cfg := (w_cfg w)\<lparr>data := (data (w_cfg w))\<lparr>access_reg := r\<rparr>\<rparr>\<rparr>)))"

definition set_interest_status :: "int \<Rightarrow> fd_interest \<Rightarrow> world \<Rightarrow> (selector_status \<times> world) res" where
  "set_interest_status fd i w =
     bind_res (selector_set_interest (w_sel w) fd i) (\<lambda>(st, s). Inr (st, w\<lparr>w_sel := s\<rparr>))"

definition set_interest :: "int \<Rightarrow> fd_interest \<Rightarrow> step" where
  "set_interest fd i w = bind_res (set_interest_status fd i w) (\<lambda>(st, w). Inr w)"

text \<open>
  The close handler: it closes both descriptors and frees the parsers, the machine, the
  buffers and the connection, which are one cell of the heap here.
\<close>

definition socksv5_close :: "int \<Rightarrow> nat option \<Rightarrow> step" where
  "socksv5_close fd d w =
     bind_res (key_conn \<lparr>k_fd = fd, k_data = d\<rparr> w) (\<lambda>(p, c).
     let w = (if c_client_fd c > 0 then sys_close (c_client_fd c) w else w);
         w = (if c_origin_fd c > 0 then sys_close (c_origin_fd c) w else w)
     in bind_res (metrics_upd metrics_dec_curr_conn w) (conn_free p))"

text \<open>The close handler of the administration protocol.\<close>

definition admin_close :: "int \<Rightarrow> nat option \<Rightarrow> step" where
  "admin_close fd d w =
     bind_res (key_admin \<lparr>k_fd = fd, k_data = d\<rparr> w) (\<lambda>(p, a). admin_free p (sys_close (ac_fd a) w))"

fun handler_close :: "handler \<Rightarrow> (int \<Rightarrow> nat option \<Rightarrow> step) option" where
  "handler_close H_Socks5 = Some socksv5_close"
| "handler_close H_Admin = Some admin_close"
| "handler_close H_Passive = None"
| "handler_close H_Admin_Passive = None"
| "handler_close H_Connecting = None"
| "handler_close H_Copy = None"

definition unregister :: "int \<Rightarrow> world \<Rightarrow> (selector_status \<times> world) res" where
  "unregister fd w =
     bind_res (selector_unregister_fd handler_close (w_sel w) fd w) (\<lambda>(st, s, w).
     Inr (st, w\<lparr>w_sel := s\<rparr>))"

definition unregister_fd :: "int \<Rightarrow> step" where
  "unregister_fd fd w = bind_res (unregister fd w) (\<lambda>(st, w). Inr w)"

definition register_fd :: "int \<Rightarrow> handler \<Rightarrow> fd_interest \<Rightarrow> nat option \<Rightarrow> world \<Rightarrow> (selector_status \<times> world) res" where
  "register_fd fd h i d w =
     (let (ok, w) = (if nat fd > fd_size (w_sel w) then sys_alloc w else (True, w))
      in bind_res (selector_register ok (w_sel w) fd (Some h) i d) (\<lambda>(st, s).
         Inr (st, w\<lparr>w_sel := s\<rparr>)))"

section \<open>Facts\<close>

lemma conn_get_upd:
  "conn_get p w = Inr c \<Longrightarrow> conn_upd p f w = Inr (w\<lparr>w_heap := (w_heap w)[p := Some (f c)]\<rparr>)"
  by (simp add: conn_upd_def)

lemma conn_get_Inr: "conn_get p w = Inr c \<longleftrightarrow> p < length (w_heap w) \<and> w_heap w ! p = Some c"
  by (auto simp: conn_get_def split: option.splits)

lemma conn_get_heap [simp]:
  "conn_get p (w\<lparr>w_heap := h\<rparr>) =
     (if p < length h then case h ! p of None \<Rightarrow> Inl Use_After_Free | Some c \<Rightarrow> Inr c
      else Inl Out_Of_Bounds)"
  "conn_get p (w\<lparr>w_sel := s\<rparr>) = conn_get p w"
  "conn_get p (w\<lparr>w_cfg := g\<rparr>) = conn_get p w"
  "conn_get p (w\<lparr>w_os := u\<rparr>) = conn_get p w"
  "conn_get p (w\<lparr>w_resolving := l\<rparr>) = conn_get p w"
  by (simp_all add: conn_get_def)

lemma os_upd_sel [simp]:
  "w_sel (os_upd f w) = w_sel w" "w_heap (os_upd f w) = w_heap w" "w_cfg (os_upd f w) = w_cfg w"
  "w_os (os_upd f w) = f (w_os w)" "w_resolving (os_upd f w) = w_resolving w"
  "conn_get p (os_upd f w) = conn_get p w"
  by (simp_all add: os_upd_def conn_get_def)

lemma conn_freed: "conn_free p w = Inr w' \<Longrightarrow> conn_get p w' = Inl Use_After_Free"
  by (auto simp: conn_free_def conn_get_def bind_res_eq_Inr split: option.splits if_splits)

section \<open>Traces\<close>

text \<open>The bytes a descriptor received and was sent.\<close>

fun recvs :: "int \<Rightarrow> os_event list \<Rightarrow> byte list" where
  "recvs fd [] = []"
| "recvs fd (Ev_Recv f bs # t) = (if f = fd then bs else []) @ recvs fd t"
| "recvs fd (e # t) = recvs fd t"

fun sends :: "int \<Rightarrow> os_event list \<Rightarrow> byte list" where
  "sends fd [] = []"
| "sends fd (Ev_Send f bs # t) = (if f = fd then bs else []) @ sends fd t"
| "sends fd (e # t) = sends fd t"

lemma recvs_append [simp]: "recvs fd (t @ t') = recvs fd t @ recvs fd t'"
  by (induction fd t rule: recvs.induct) simp_all

lemma sends_append [simp]: "sends fd (t @ t') = sends fd t @ sends fd t'"
  by (induction fd t rule: sends.induct) simp_all

end
