(* ===== verification/Net_Utils.thy ===== *)
theory Net_Utils
  imports World
begin

text \<open>
  The network helpers: \<open>src/src/server/utils/netutils.c\<close>, but for the resolver, which is with
  the states it serves, and \<open>src/src/server/connection_helper.c\<close>, which makes the listening
  sockets and accepts.
\<close>

section \<open>Addresses as text\<close>

definition dotted :: "byte list \<Rightarrow> byte list" where
  "dotted a = decimal (unat (a ! 0)) @ [46] @ decimal (unat (a ! 1)) @ [46] @
     decimal (unat (a ! 2)) @ [46] @ decimal (unat (a ! 3))"

text \<open>
  \<open>sockaddr_to_human\<close>, writing to the block \<open>mem\<close> of \<open>buffsize\<close> bytes; \<open>None\<close> is the null pointer.
  \<open>inet_ntop\<close> writes the text and its zero if both fit.  \<open>strncat\<close> looks for the end of what is there
  and appends; its bound is on what it appends.
\<close>

definition inet_ntop_to :: "byte list option \<Rightarrow> byte list \<Rightarrow> byte list option res" where
  "inet_ntop_to text mem =
     (case text of None \<Rightarrow> Inr None
      | Some s \<Rightarrow> if length s < length mem then bind_res (strcpy_to mem 0 s) (\<lambda>m. Inr (Some m)) else Inr None)"

definition put_last_zero :: "byte list \<Rightarrow> byte list res" where
  "put_last_zero mem = mem_put mem (length mem - 1) 0"

definition sockaddr_to_human :: "(byte list \<Rightarrow> byte list option) \<Rightarrow> byte list \<Rightarrow> sockaddr option \<Rightarrow> byte list res" where
  "sockaddr_to_human ntop6 mem addr =
     (case addr of
        None \<Rightarrow> Inr (strncpy (lit ''null'') (length mem))
      | Some a \<Rightarrow>
          bind_res
            (case a of
               Sock_Other \<Rightarrow> Inr (strncpy (lit ''unknown'') (length mem))
             | _ \<Rightarrow>
                 bind_res (inet_ntop_to (case a of Sock_In i p \<Rightarrow> Some (dotted i) | Sock_In6 i p \<Rightarrow> ntop6 i | Sock_Other \<Rightarrow> None) mem) (\<lambda>r.
                   case r of Some m \<Rightarrow> Inr m
                   | None \<Rightarrow> put_last_zero (strncpy (lit ''unknown ip'') (length mem)))) (\<lambda>mem.
          bind_res (c_str mem) (\<lambda>s.
          bind_res (strcpy_to mem (length s) [58]) (\<lambda>mem.
          bind_res (put_last_zero mem) (\<lambda>mem.
          bind_res (c_str mem) (\<lambda>s.
          bind_res
            (case a of
               Sock_Other \<Rightarrow> Inr mem
             | Sock_In i p \<Rightarrow> snprintf_to mem (length s) (length mem - length s) (decimal (unat (htons p)))
             | Sock_In6 i p \<Rightarrow> snprintf_to mem (length s) (length mem - length s) (decimal (unat (htons p))))
            put_last_zero))))))"

section \<open>Blocking copies\<close>

text \<open>
  \<open>sock_blocking_write\<close>: \<open>send\<close> until the buffer is empty or \<open>send\<close> does not take a byte; then the
  result is \<open>errno\<close>, which a \<open>send\<close> of no bytes leaves as it was.
\<close>

function sock_blocking_write :: "int \<Rightarrow> buffer \<Rightarrow> world \<Rightarrow> (int \<times> buffer \<times> world) res" where
  "sock_blocking_write fd b w =
     bind_res (buffer_read_ptr b) (\<lambda>(at, n).
     let (r, w) = sys_send fd (take n (drop at (buf_data b))) w
     in case r of
          Sent k \<Rightarrow>
            if k > 0
            then bind_res (buffer_read_adv b (int k)) (\<lambda>b.
                 if buffer_can_read b then sock_blocking_write fd b w else Inr (0, b, w))
            else Inr (os_errno (w_os w), b, w)
        | Send_Error e \<Rightarrow> Inr (os_errno (w_os w), b, w))"
  by pat_completeness auto

termination
  by (relation "measure (\<lambda>(fd, b, w). buf_write b - buf_read b)")
    (auto simp: buffer_read_adv_def buffer_compact_def buffer_can_read_def guard_def Let_def split: if_splits)

declare sock_blocking_write.simps [simp del]

text \<open>The inner loop of \<open>sock_blocking_copy\<close>: \<open>Some\<close> is the way out with an error.\<close>

function copy_chunk :: "int \<Rightarrow> byte list \<Rightarrow> world \<Rightarrow> int option \<times> world" where
  "copy_chunk dest bs w =
     (let (r, w) = sys_send dest bs w
      in case r of
           Sent k \<Rightarrow> if k > 0 then (if drop k bs \<noteq> [] then copy_chunk dest (drop k bs) w else (None, w))
                     else (Some (os_errno (w_os w)), w)
         | Send_Error e \<Rightarrow> (Some (os_errno (w_os w)), w))"
  by pat_completeness auto

termination
  by (relation "measure (\<lambda>(d, bs, w). length bs)") auto

declare copy_chunk.simps [simp del]

lemma sys_send_recv [simp]: "os_recv (w_os (snd (sys_send fd bs w))) = os_recv (w_os w)"
  by (auto simp: sys_send_def Let_def emit_def set_errno_def split: prod.splits send_result.splits)

lemma sys_recv_pops: "os_recv (w_os (snd (sys_recv fd n w))) = tl (os_recv (w_os w))"
  by (cases "os_recv (w_os w)")
    (auto simp: sys_recv_def pop_def Let_def emit_def set_errno_def split: recv_result.splits)

lemma copy_chunk_recv [simp]: "os_recv (w_os (snd (copy_chunk dest bs w))) = os_recv (w_os w)"
proof (induction dest bs w rule: copy_chunk.induct)
  case (1 dest bs w)
  have "os_recv (w_os v) = os_recv (w_os w)" if "sys_send dest bs w = (r, v)" for r v
    using sys_send_recv [of dest bs w] that by simp
  with 1 show ?case
    by (subst copy_chunk.simps) (auto simp: Let_def split: prod.splits send_result.splits)
qed

lemma copy_round:
  assumes "os_recv (w_os w) = x # xs" "(r, w1) = sys_recv source n w" "(e, w2) = copy_chunk dest bs w1"
  shows "os_recv (w_os w2) = xs"
  using copy_chunk_recv [of dest bs w1] sys_recv_pops [of source n w] assms(1)
  by (simp flip: assms(2,3))

text \<open>The outer loop ends with the stream, whose events are the measure.\<close>

function sock_blocking_copy :: "int \<Rightarrow> int \<Rightarrow> world \<Rightarrow> int \<times> world" where
  "sock_blocking_copy source dest w =
     (case os_recv (w_os w) of
        [] \<Rightarrow> (0, snd (sys_recv source 4096 w))
      | _ # _ \<Rightarrow>
          (let (r, w) = sys_recv source 4096 w
           in case r of
                Recv bs \<Rightarrow> (let (e, w) = copy_chunk dest bs w
                            in case e of None \<Rightarrow> sock_blocking_copy source dest w | Some e \<Rightarrow> (e, w))
              | Recv_Closed \<Rightarrow> (0, w)
              | Recv_Error e \<Rightarrow> (0, w)))"
  by pat_completeness auto

termination
  by (relation "measure (\<lambda>(s, d, w). length (os_recv (w_os w)))") (auto dest: copy_round)

declare sock_blocking_copy.simps [simp del]

section \<open>Connecting\<close>

definition CONNECTION_SUCCESS :: int where "CONNECTION_SUCCESS = 0"
definition CONNECTION_IN_PROGRESS :: int where "CONNECTION_IN_PROGRESS = -1"
definition CONNECTION_FAILED :: int where "CONNECTION_FAILED = -2"

text \<open>
  \<open>connect_to_host\<close>: \<open>res\<close> is the list behind the pointer, \<open>rp\<close> the rest to try, \<open>sock_fd\<close> the
  descriptor behind the other pointer; the result has the return value and both.  A socket
  that cannot be made or set up returns -1, which is \<open>CONNECTION_IN_PROGRESS\<close>.
\<close>

fun connect_loop ::
    "addrinfo list \<Rightarrow> addrinfo list \<Rightarrow> int \<Rightarrow> world \<Rightarrow> int \<times> addrinfo list \<times> int \<times> world" where
  "connect_loop res [] sock_fd w = (CONNECTION_FAILED, [], sock_fd, w)"
| "connect_loop res (a # rp) sock_fd w =
     (let (fd, w) = sys_socket (ai_family a) w
      in if fd < 0 then (-1, res, fd, w)
         else let (ok, w) = set_non_blocking_fd w
         in if \<not> ok then (-1, res, fd, sys_close fd w)
            else let (r, w) = sys_connect fd a w
            in if r = 0 then (CONNECTION_SUCCESS, [], fd, w)
               else if r = EINPROGRESS then (CONNECTION_IN_PROGRESS, rp, fd, w)
               else connect_loop res rp fd (sys_close fd w))"

definition connect_to_host :: "addrinfo list \<Rightarrow> int \<Rightarrow> world \<Rightarrow> int \<times> addrinfo list \<times> int \<times> world" where
  "connect_to_host res sock_fd w = connect_loop res res sock_fd w"

section \<open>Listening\<close>

text \<open>
  \<open>create_and_register_passive_socket\<close>: a socket for every address the name resolves to.  The result
  has the return value, what is stored through \<open>ss\<close> as a number, and the message stored through
  \<open>error_msg\<close>, if one is.  A socket made in an earlier round stays when a later round fails.
\<close>

fun status_code :: "selector_status \<Rightarrow> int" where
  "status_code SELECTOR_SUCCESS = 0"
| "status_code SELECTOR_ENOMEM = 1"
| "status_code SELECTOR_MAXFD = 2"
| "status_code SELECTOR_IARGS = 3"
| "status_code SELECTOR_FDINUSE = 4"
| "status_code SELECTOR_IO = 5"

definition MAX_PENDING_CONNECTIONS :: nat where "MAX_PENDING_CONNECTIONS = 128"

fun listen_loop :: "handler \<Rightarrow> addrinfo list \<Rightarrow> int \<Rightarrow> world \<Rightarrow> (int \<times> int \<times> string option \<times> world) res" where
  "listen_loop h [] ss w = Inr (0, ss, None, w)"
| "listen_loop h (p # ps) ss w =
     (let (fd, w) = sys_socket (ai_family p) w
      in if fd < 0 then Inr (-1, ss, Some ''Error creating socket'', w)
         else let (ok, w) = sys_bind fd p w
         in if \<not> ok then Inr (-1, ss, Some ''Error binding socket'', sys_close fd w)
            else let (ok, w) = sys_listen fd MAX_PENDING_CONNECTIONS w
            in if \<not> ok then Inr (-1, ss, Some ''Error listening on socket'', sys_close fd w)
               else let (ok, w) = set_non_blocking_fd w
               in if \<not> ok then Inr (-1, -1, Some ''Error setting socket to non-blocking'', sys_close fd w)
                  else bind_res (register_fd fd h OP_READ None w) (\<lambda>(st, w).
                       if st \<noteq> SELECTOR_SUCCESS
                       then Inr (-1, status_code st, Some ''Error registering socket with selector'', sys_close fd w)
                       else listen_loop h ps 0 w))"

definition create_and_register_passive_socket ::
    "byte list \<Rightarrow> 16 word \<Rightarrow> handler \<Rightarrow> int \<Rightarrow> world \<Rightarrow> (int \<times> int \<times> string option \<times> world) res" where
  "create_and_register_passive_socket address port h ss w =
     (let (r, w) = sys_getaddrinfo address (port_str port) AF_UNSPEC AI_PASSIVE w
      in case r of
           None \<Rightarrow> Inr (-1, ss, Some ''Invalid address format'', w)
         | Some res \<Rightarrow> listen_loop h res ss w)"

section \<open>Accepting\<close>

text \<open>
  \<open>passive_accept\<close> for a connection \<open>p\<close>: the descriptor, or -1.  The code writes the address and the
  port of the client through the data pointer taken as a \<open>socks5_conn_t\<close>; \<open>store\<close> is that write, for the
  object \<open>p\<close> really is, with \<open>None\<close> where \<open>inet_ntop\<close> failed and wrote nothing.
\<close>

definition store_source :: "nat \<Rightarrow> byte list option \<Rightarrow> 16 word \<Rightarrow> step" where
  "store_source p a port =
     conn_upd p (\<lambda>c. c\<lparr>c_src_address := (case a of None \<Rightarrow> c_src_address c | Some s \<Rightarrow> s), c_src_port := port\<rparr>)"

definition passive_accept ::
    "(byte list option \<Rightarrow> 16 word \<Rightarrow> step) \<Rightarrow> key \<Rightarrow> nat \<Rightarrow> handler \<Rightarrow> world \<Rightarrow> (int \<times> world) res" where
  "passive_accept store key p h w =
     (let (r, w) = sys_accept (k_fd key) w
      in case r of
           Accept_Error \<Rightarrow> Inr (-1, w)
         | Accepted client addr \<Rightarrow>
             (let (ok, w) = set_non_blocking_fd w
              in if \<not> ok then Inr (-1, sys_close client w)
                 else bind_res (register_fd client h OP_READ (Some p) w) (\<lambda>(st, w).
                      if st \<noteq> SELECTOR_SUCCESS then Inr (-1, sys_close client w)
                      else bind_res (case addr of
                               Sock_In a port \<Rightarrow> store (Some (dotted a)) (htons port) w
                             | Sock_In6 a port \<Rightarrow> store (os_ntop6 (w_os w) a) (htons port) w
                             | Sock_Other \<Rightarrow> Inr w) (\<lambda>w. Inr (client, w)))))"

section \<open>Facts\<close>

text \<open>A kernel that takes at least one byte of each of the next \<open>n\<close> calls.\<close>

definition taking :: "nat \<Rightarrow> world \<Rightarrow> bool" where
  "taking n w \<longleftrightarrow> n \<le> length (os_send (w_os w)) \<and> (\<forall>r \<in> set (take n (os_send (w_os w))). \<exists>k. r = Sent k \<and> 0 < k)"

lemma taking_send:
  assumes "taking (Suc n) w" "bs \<noteq> []"
  obtains k w' where "sys_send fd bs w = (Sent k, w')" "0 < k" "k \<le> length bs" "taking n w'"
    "os_trace (w_os w') = os_trace (w_os w) @ [Ev_Send fd (take k bs)]" "os_recv (w_os w') = os_recv (w_os w)"
proof -
  from assms(1) obtain r q where q: "os_send (w_os w) = r # q"
    by (cases "os_send (w_os w)") (auto simp: taking_def)
  with assms(1) obtain k where k: "r = Sent k" "0 < k" by (auto simp: taking_def)
  let ?w = "emit (Ev_Send fd (take k bs)) (os_upd (\<lambda>s. s\<lparr>os_send := q\<rparr>) w)"
  have "sys_send fd bs w = (Sent (min k (length bs)), ?w)" using q k by (simp add: sys_send_def pop_def)
  moreover have "take (min k (length bs)) bs = take k bs" by (simp add: min_def)
  moreover have "taking n ?w" using assms(1) q by (auto simp: taking_def emit_def)
  ultimately show thesis using k assms(2) by (intro that [of "min k (length bs)" ?w]) (simp_all add: emit_def)
qed

lemma taking_less: "taking n w \<Longrightarrow> m \<le> n \<Longrightarrow> taking m w"
  unfolding taking_def using set_take_subset_set_take [of m n "os_send (w_os w)"] by auto

lemma blocking_write_all:
  "buffer_inv b \<Longrightarrow> pending b \<noteq> [] \<Longrightarrow> taking (length (pending b)) w \<Longrightarrow>
     \<exists>b' w' t. sock_blocking_write fd b w = Inr (0, b', w') \<and> same_block b b' \<and> pending b' = [] \<and>
       os_trace (w_os w') = os_trace (w_os w) @ t \<and> sends fd t = pending b"
proof (induction "length (pending b)" arbitrary: b w rule: less_induct)
  case less
  have "0 < length (pending b)" using less.prems(2) by simp
  then obtain n where n: "length (pending b) = Suc n" using gr0_implies_Suc by blast
  with less.prems(3) have "taking (Suc n) w" by simp
  then obtain k w1 where s: "sys_send fd (pending b) w = (Sent k, w1)" "0 < k" "k \<le> length (pending b)" "taking n w1"
    "os_trace (w_os w1) = os_trace (w_os w) @ [Ev_Send fd (take k (pending b))]"
    using taking_send [OF _ less.prems(2), of n w fd] by blast
  obtain b1 where b1: "buffer_read_adv b (int k) = Inr b1" "same_block b b1" "pending b1 = drop k (pending b)"
    using buffer_read_adv_ok [OF less.prems(1) s(3)] by blast
  have inv: "buffer_inv b1" using b1(2) by (rule same_block_inv)
  have unf: "sock_blocking_write fd b w =
      (if buffer_can_read b1 then sock_blocking_write fd b1 w1 else Inr (0, b1, w1))"
    using less.prems(1) s(1,2) b1(1)
    by (subst sock_blocking_write.simps) (simp add: buffer_read_ptr_def buffer_inv_def pending_def [symmetric])
  show ?case
  proof (cases "pending b1 = []")
    case True
    with unf s b1 inv show ?thesis
      by (intro exI [of _ b1] exI [of _ w1] exI [of _ "[Ev_Send fd (take k (pending b))]"])
        (simp add: can_read_pending)
  next
    case False
    have "length (pending b1) < length (pending b)" "taking (length (pending b1)) w1"
      using b1(3) s(2) n less.prems(2) taking_less [OF s(4)] by auto
    from less.hyps [OF this(1) inv False this(2)] obtain b' w' t where
      "sock_blocking_write fd b1 w1 = Inr (0, b', w')" "same_block b1 b'" "pending b' = []"
      "os_trace (w_os w') = os_trace (w_os w1) @ t" "sends fd t = pending b1" by blast
    with unf s b1 inv False show ?thesis
      by (intro exI [of _ b'] exI [of _ w'] exI [of _ "Ev_Send fd (take k (pending b)) # t"])
        (auto simp: can_read_pending intro: same_block_trans)
  qed
qed

text \<open>The chunk goes out whole.\<close>

lemma copy_chunk_all:
  "bs \<noteq> [] \<Longrightarrow> taking (length bs + n) w \<Longrightarrow>
     \<exists>w' t. copy_chunk dest bs w = (None, w') \<and> os_trace (w_os w') = os_trace (w_os w) @ t \<and>
       sends dest t = bs \<and> (\<forall>f. recvs f t = []) \<and> taking n w' \<and> os_recv (w_os w') = os_recv (w_os w)"
proof (induction "length bs" arbitrary: bs w rule: less_induct)
  case less
  from less.prems obtain m where m: "length bs = Suc m" by (cases bs) auto
  with less.prems(2) have "taking (Suc (m + n)) w" by simp
  then obtain k w1 where s: "sys_send dest bs w = (Sent k, w1)" "0 < k" "k \<le> length bs" "taking (m + n) w1"
    "os_trace (w_os w1) = os_trace (w_os w) @ [Ev_Send dest (take k bs)]" "os_recv (w_os w1) = os_recv (w_os w)"
    using taking_send [OF _ less.prems(1), of "m + n" w dest] by blast
  have unf: "copy_chunk dest bs w = (if drop k bs \<noteq> [] then copy_chunk dest (drop k bs) w1 else (None, w1))"
    using s(1,2) by (subst copy_chunk.simps) simp
  show ?case
  proof (cases "drop k bs = []")
    case True
    with s have "sends dest [Ev_Send dest (take k bs)] = bs" by simp
    moreover have "taking n w1" using s(4) by (rule taking_less) simp
    ultimately show ?thesis using unf s True
      by (intro exI [of _ w1] exI [of _ "[Ev_Send dest (take k bs)]"]) simp
  next
    case False
    have "length (drop k bs) < length bs" "taking (length (drop k bs) + n) w1"
      using s(2) m less.prems(1) taking_less [OF s(4)] by auto
    from less.hyps [OF this(1) False this(2)] obtain w' t where
      "copy_chunk dest (drop k bs) w1 = (None, w')" "os_trace (w_os w') = os_trace (w_os w1) @ t"
      "sends dest t = drop k bs" "\<forall>f. recvs f t = []" "taking n w'" "os_recv (w_os w') = os_recv (w_os w1)" by blast
    with unf s False show ?thesis
      by (intro exI [of _ w'] exI [of _ "Ev_Send dest (take k bs) # t"]) simp
  qed
qed

lemma blocking_copy_all:
  "os_recv (w_os w) = map Recv bss @ [Recv_Closed] \<Longrightarrow> \<forall>bs \<in> set bss. bs \<noteq> [] \<and> length bs \<le> 4096 \<Longrightarrow>
   taking (length (concat bss)) w \<Longrightarrow>
     \<exists>w' t. sock_blocking_copy source dest w = (0, w') \<and> os_trace (w_os w') = os_trace (w_os w) @ t \<and>
       recvs source t = concat bss \<and> sends dest t = concat bss"
proof (induction bss arbitrary: w)
  case Nil
  then show ?case
    by (subst sock_blocking_copy.simps) (simp add: sys_recv_def pop_def)
next
  case (Cons bs bss)
  let ?w = "emit (Ev_Recv source bs) (os_upd (\<lambda>s. s\<lparr>os_recv := map Recv bss @ [Recv_Closed]\<rparr>) w)"
  have r: "sys_recv source 4096 w = (Recv bs, ?w)"
    using Cons.prems(1,2) by (simp add: sys_recv_def pop_def)
  have "bs \<noteq> []" "taking (length bs + length (concat bss)) ?w"
    using Cons.prems(2,3) by (simp_all add: taking_def emit_def)
  from copy_chunk_all [OF this, of dest] obtain w1 t1 where c: "copy_chunk dest bs ?w = (None, w1)"
    "os_trace (w_os w1) = os_trace (w_os ?w) @ t1" "sends dest t1 = bs" "\<forall>f. recvs f t1 = []"
    "taking (length (concat bss)) w1" "os_recv (w_os w1) = os_recv (w_os ?w)" by blast
  have "os_recv (w_os w1) = map Recv bss @ [Recv_Closed]" using c(6) by (simp add: emit_def)
  from Cons.IH [OF this _ c(5)] Cons.prems(2) obtain w' t where
    n: "sock_blocking_copy source dest w1 = (0, w')" "os_trace (w_os w') = os_trace (w_os w1) @ t"
    "recvs source t = concat bss" "sends dest t = concat bss" by auto
  have "sock_blocking_copy source dest w = (0, w')"
    using Cons.prems(1) r c(1) n(1) by (subst sock_blocking_copy.simps) simp
  with n c show ?case
    by (intro exI [of _ w'] exI [of _ "Ev_Recv source bs # t1 @ t"]) (simp add: emit_def)
qed

text \<open>An IPv4 address and its port in a block of the size the header asks for.\<close>

definition SOCKADDR_TO_HUMAN_MIN :: nat where "SOCKADDR_TO_HUMAN_MIN = 52"

lemma dotted_text: "is_text (dotted a) \<and> length (dotted a) \<le> 15"
proof -
  have "length (decimal (unat (b :: byte))) \<le> 3" for b
    using unsigned_less [where 'a = nat, of b] by (intro length_decimal) simp_all
  from add_mono [OF add_mono [OF this [of "a ! 0"] this [of "a ! 1"]] add_mono [OF this [of "a ! 2"] this [of "a ! 3"]]]
  show ?thesis by (simp add: dotted_def)
qed

lemma put_last_zero_text:
  "r \<noteq> [] \<Longrightarrow> \<exists>r'. put_last_zero (s @ 0 # r) = Inr (s @ 0 # r') \<and> length r' = length r"
  by (cases r rule: rev_cases) (auto simp: put_last_zero_def list_update_append nth_append)

lemma sockaddr_to_human_ipv4:
  assumes "SOCKADDR_TO_HUMAN_MIN \<le> length mem"
  shows "\<exists>mem'. sockaddr_to_human ntop6 mem (Some (Sock_In a p)) = Inr mem' \<and>
    c_str mem' = Inr (dotted a @ [58] @ decimal (unat (htons p)))"
proof -
  let ?t = "dotted a" and ?d = "decimal (unat (htons p))"
  have d: "length ?d \<le> 5" using unsigned_less [where 'a = nat, of "htons p"] by (intro length_decimal) simp_all
  have n: "52 \<le> length mem" using assms by (simp add: SOCKADDR_TO_HUMAN_MIN_def)
  note t = dotted_text [of a]
  obtain c r where r: "drop (length ?t + 1) mem = c # r" "length r = length mem - length ?t - 2"
    using n t by (cases "drop (length ?t + 1) mem") (auto dest: arg_cong [of _ _ length])
  have m1: "strcpy_to mem 0 ?t = Inr (?t @ 0 # c # r)" using t n r(1) by (simp add: strcpy_to_def)
  have m2: "strcpy_to (?t @ 0 # c # r) (length ?t) [58] = Inr ((?t @ [58]) @ 0 # r)"
    by (simp add: strcpy_to_def)
  obtain r3 where m3: "put_last_zero ((?t @ [58]) @ 0 # r) = Inr ((?t @ [58]) @ 0 # r3)" "length r3 = length r"
    using put_last_zero_text [of r "?t @ [58]"] r(2) t n by force
  let ?m = "(?t @ [58]) @ 0 # r3" and ?s = "length ?t + 1"
  have len: "length ?m = length mem" using r(2) m3(2) t n by simp
  have m4: "snprintf_to ?m ?s (length mem - ?s) ?d = Inr ((?t @ [58] @ ?d) @ 0 # drop (?s + length ?d + 1) ?m)"
  proof -
    have "length ?d < length mem - ?s" "?s + (length mem - ?s) \<le> length ?m" using d t n len by linarith+
    from snprintf_whole [OF this] show ?thesis by simp
  qed
  have "drop (?s + length ?d + 1) ?m \<noteq> []" using len d t n by (simp del: append_assoc)
  then obtain r5 where m5: "put_last_zero ((?t @ [58] @ ?d) @ 0 # drop (?s + length ?d + 1) ?m) = Inr ((?t @ [58] @ ?d) @ 0 # r5)"
    using put_last_zero_text [of "drop (?s + length ?d + 1) ?m" "?t @ [58] @ ?d"] by blast
  have "is_text (?t @ [58])" "is_text (?t @ [58] @ ?d)" using t by simp_all
  note strs = c_str_text [OF this(1)] c_str_text [OF this(2)] c_str_text [of ?t]
  have "sockaddr_to_human ntop6 mem (Some (Sock_In a p)) = Inr ((?t @ [58] @ ?d) @ 0 # r5)"
    using t n len m1 m2 m3(1) m4 m5 strs
    by (simp add: sockaddr_to_human_def inet_ntop_to_def)
  then show ?thesis using strs(2) by blast
qed

end
