(* ===== verification/Admin_Conn.thy ===== *)
theory Admin_Conn
  imports Net_Utils
begin

text \<open>
  The connections of the administration protocol, \<open>src/src/server/s5admin/s5admin.c\<close>: accepting
  them, reading a command and answering it into the output array, and sending the answer.
\<close>

section \<open>The connection\<close>

definition MAX_CMD_LEN :: nat where "MAX_CMD_LEN = 1024"
definition MAX_RESPONSE_LEN :: nat where "MAX_RESPONSE_LEN = 1024 * 100"

text \<open>Cleared memory: the arrays are part of the structure, the buffers do not point to them yet.\<close>

definition zero_admin :: admin_conn where
  "zero_admin =
     \<lparr>ac_fd = 0,
      ac_in = \<lparr>buf_data = replicate MAX_CMD_LEN 0, buf_limit = 0, buf_read = 0, buf_write = 0\<rparr>,
      ac_out = \<lparr>buf_data = replicate MAX_RESPONSE_LEN 0, buf_limit = 0, buf_read = 0, buf_write = 0\<rparr>\<rparr>"

text \<open>
  \<open>passive_accept\<close> writes the address and the port of the client as if the object were a
  \<open>socks5_conn_t\<close>.  With 64-bit pointers and 8-byte alignment \<open>src_address\<close> is at byte 128 and \<open>src_port\<close> at byte
  174 of that structure, and \<open>in_data\<close> at byte 72 of \<open>admin_conn_t\<close>: the text with its zero and the port
  land in the input array.
\<close>

definition SRC_ADDRESS_IN_DATA :: nat where "SRC_ADDRESS_IN_DATA = 56"
definition SRC_PORT_IN_DATA :: nat where "SRC_PORT_IN_DATA = 102"

definition port_bytes :: "16 word \<Rightarrow> byte list" where
  "port_bytes p = [ucast p, ucast (drop_bit 8 p)]"

definition admin_store_source :: "nat \<Rightarrow> byte list option \<Rightarrow> 16 word \<Rightarrow> step" where
  "admin_store_source p a port w =
     bind_res (admin_get p w) (\<lambda>c.
     bind_res (case a of None \<Rightarrow> Inr (buf_data (ac_in c))
               | Some s \<Rightarrow> strcpy_to (buf_data (ac_in c)) SRC_ADDRESS_IN_DATA s) (\<lambda>d.
     bind_res (mem_write d SRC_PORT_IN_DATA (port_bytes port)) (\<lambda>d.
     admin_upd p (\<lambda>c. c\<lparr>ac_in := (ac_in c)\<lparr>buf_data := d\<rparr>\<rparr>) w)))"

definition s5admin_passive_accept :: "key \<Rightarrow> step" where
  "s5admin_passive_accept key w =
     (let (ok, w) = sys_alloc w
      in if \<not> ok then Inr w
         else let p = length (w_admin w); w = w\<lparr>w_admin := w_admin w @ [Some zero_admin]\<rparr>
         in bind_res (passive_accept (admin_store_source p) key p H_Admin w) (\<lambda>(fd, w).
            if fd < 0 then admin_free p w
            else admin_upd p (\<lambda>a. a
                   \<lparr>ac_fd := fd, ac_in := buffer_init MAX_CMD_LEN (buf_data (ac_in a)),
                    ac_out := buffer_init MAX_RESPONSE_LEN (buf_data (ac_out a))\<rparr>) w))"

section \<open>Reading a command\<close>

text \<open>
  \<open>strchr (s, '\n')\<close> on the rest of the input array: the index of the first newline before the first
  zero; \<open>None\<close> where a zero comes first.  Without either it runs past the array.
\<close>

fun find_newline :: "byte list \<Rightarrow> nat option res" where
  "find_newline [] = Inl Out_Of_Bounds"
| "find_newline (b # bs) =
     (if b = 10 then Inr (Some 0)
      else if b = 0 then Inr None
      else bind_res (find_newline bs) (\<lambda>r. Inr (map_option Suc r)))"

text \<open>The command ends at \<open>n\<close>, counted from the read position \<open>at\<close>: it is run and its answer stored.\<close>

definition set_interest_key :: "key \<Rightarrow> fd_interest \<Rightarrow> step" where
  "set_interest_key key i = set_interest (k_fd key) i"

definition admin_command :: "key \<Rightarrow> nat \<Rightarrow> admin_conn \<Rightarrow> nat \<Rightarrow> nat \<Rightarrow> step" where
  "admin_command key p a at n w =
     bind_res (mem_put (buf_data (ac_in a)) (at + n) 0) (\<lambda>d.
     let ib = (ac_in a)\<lparr>buf_data := d\<rparr>
     in if \<not> buffer_can_write (ac_out a) then admin_upd p (\<lambda>a. a\<lparr>ac_in := ib\<rparr>) w
        else bind_res (buffer_write_ptr (ac_out a)) (\<lambda>(wat, n_response).
             bind_res (mem_get d at) (\<lambda>first.
             bind_res
               (if first = 0
                then bind_res (strcpy_to (buf_data (ac_out a)) wat []) (\<lambda>out. Inr (1, d, out, w))
                else let (ok, w) = sys_alloc w
                     in bind_res (config_handler ok (w_cfg w) (drop at d) (take n_response (drop wat (buf_data (ac_out a)))))
                        (\<lambda>(k, cfg, line, resp).
                        Inr (k, take at d @ line,
                             take wat (buf_data (ac_out a)) @ resp @ drop (wat + n_response) (buf_data (ac_out a)),
                             w\<lparr>w_cfg := cfg\<rparr>))) (\<lambda>(k, d, out, w).
             bind_res (buffer_read_adv (ib\<lparr>buf_data := d\<rparr>) (int (n + 1))) (\<lambda>ib.
             bind_res (buffer_write_adv ((ac_out a)\<lparr>buf_data := out\<rparr>) (int k)) (\<lambda>ob.
             bind_res (admin_upd p (\<lambda>a. a\<lparr>ac_in := ib, ac_out := ob\<rparr>) w)
               (set_interest_key key OP_WRITE)))))))"

definition too_long :: "byte list" where
  "too_long = lit ''ERROR: command too long\<newline>''"

text \<open>No newline: the code answers that the command is too long and forgets what it read.\<close>

definition admin_no_newline :: "key \<Rightarrow> nat \<Rightarrow> admin_conn \<Rightarrow> step" where
  "admin_no_newline key p a w =
     bind_res
       (if buffer_can_write (ac_out a)
        then bind_res (buffer_write_ptr (ac_out a)) (\<lambda>(wat, n).
             bind_res (snprintf_to (buf_data (ac_out a)) wat n too_long) (\<lambda>out.
             bind_res (c_str (drop wat out)) (\<lambda>s.
             bind_res (buffer_write_adv ((ac_out a)\<lparr>buf_data := out\<rparr>) (int (length s))) (\<lambda>ob.
             bind_res (admin_upd p (\<lambda>a. a\<lparr>ac_out := ob\<rparr>) w) (set_interest_key key OP_WRITE)))))
        else Inr w)
       (admin_upd p (\<lambda>a. a\<lparr>ac_in := buffer_reset (ac_in a)\<rparr>))"

definition admin_read :: "key \<Rightarrow> step" where
  "admin_read key w =
     bind_res (key_admin key w) (\<lambda>(p, a).
       if \<not> buffer_can_write (ac_in a) then unregister_fd (ac_fd a) w
       else bind_res (buffer_write_ptr (ac_in a)) (\<lambda>(at, n).
            let (r, w) = sys_recv (k_fd key) n w
            in case r of
                 Recv bs \<Rightarrow>
                   bind_res (buffer_recv (ac_in a) bs) (\<lambda>ib.
                   let a = a\<lparr>ac_in := ib\<rparr>
                   in bind_res (admin_upd p (\<lambda>_. a) w) (\<lambda>w.
                      bind_res (buffer_read_ptr ib) (\<lambda>(at, n_parse).
                      bind_res (find_newline (drop at (buf_data ib))) (\<lambda>newline.
                      case newline of
                        Some n \<Rightarrow> admin_command key p a at n w
                      | None \<Rightarrow> admin_no_newline key p a w))))
               | Recv_Closed \<Rightarrow> unregister_fd (ac_fd a) w
               | Recv_Error e \<Rightarrow> unregister_fd (ac_fd a) w))"

section \<open>Sending the answer\<close>

text \<open>
  After an error the connection is unregistered, which closes the descriptor and frees the
  connection; the descriptor is read from it once more.
\<close>

definition admin_write :: "key \<Rightarrow> step" where
  "admin_write key w =
     bind_res (key_admin key w) (\<lambda>(p, a).
       if \<not> buffer_can_read (ac_out a) then Inr w
       else bind_res (buffer_read_ptr (ac_out a)) (\<lambda>(at, n).
            let (r, w) = sys_send (k_fd key) (take n (drop at (buf_data (ac_out a)))) w
            in case r of
                 Sent k \<Rightarrow>
                   bind_res (buffer_read_adv (ac_out a) (int k)) (\<lambda>ob.
                   bind_res (buffer_compact ob) (\<lambda>ob.
                   bind_res (admin_upd p (\<lambda>a. a\<lparr>ac_out := ob\<rparr>) w) (set_interest_key key OP_READ)))
               | Send_Error e \<Rightarrow>
                   if e = EAGAIN then Inr w
                   else bind_res (unregister_fd (ac_fd a) w) (\<lambda>w.
                        bind_res (admin_get p w) (\<lambda>a. admin_free p (sys_close (ac_fd a) w)))))"

end
