(* ===== verification/Socks5.thy ===== *)
theory Socks5
  imports Admin_Conn
begin

text \<open>
  The proxy's connections: \<open>src/src/server/socks5/socks5.c\<close> and \<open>socks5_stm.c\<close>, the handlers of
  the states under \<open>states_handlers\<close>, and the part of \<open>netutils.c\<close> and
  \<open>connection_helper.c\<close> they call.  Writing to the client runs the write handler of the
  machine and may change its state, and no write handler, arrival or departure writes again,
  so the write side is defined first; the read handlers call it.
\<close>

section \<open>States\<close>

datatype socks5_state =
    SOCKS5_HANDSHAKE
  | SOCKS5_AUTH
  | SOCKS5_CONNECTION_REQ
  | SOCKS5_CONNECTING
  | SOCKS5_COPY
  | SOCKS5_DONE
  | SOCKS5_ERROR

fun code :: "socks5_state \<Rightarrow> nat" where
  "code SOCKS5_HANDSHAKE = 0"
| "code SOCKS5_AUTH = 1"
| "code SOCKS5_CONNECTION_REQ = 2"
| "code SOCKS5_CONNECTING = 3"
| "code SOCKS5_COPY = 4"
| "code SOCKS5_DONE = 5"
| "code SOCKS5_ERROR = 6"

definition has_write_handler :: "nat \<Rightarrow> bool" where
  "has_write_handler s \<longleftrightarrow>
     s = code SOCKS5_HANDSHAKE \<or> s = code SOCKS5_AUTH \<or> s = code SOCKS5_CONNECTION_REQ \<or>
     s = code SOCKS5_CONNECTING"

text \<open>\<open>max_state\<close> is the number of states.\<close>

definition socks5_stm_init :: "bool \<Rightarrow> state_machine option" where
  "socks5_stm_init alloc =
     (if alloc then Some \<lparr>initial = code SOCKS5_HANDSHAKE, max_state = 7, current = None\<rparr> else None)"

text \<open>The machine of the connection of a key, where the engine reads and writes it.\<close>

definition stm_get :: "key \<Rightarrow> world \<Rightarrow> state_machine res" where
  "stm_get key w =
     bind_res (key_conn key w) (\<lambda>(p, c). case c_stm c of None \<Rightarrow> Inl Null_Deref | Some m \<Rightarrow> Inr m)"

definition stm_put :: "key \<Rightarrow> state_machine \<Rightarrow> step" where
  "stm_put key m w = bind_res (key_conn key w) (\<lambda>(p, c). conn_upd p (\<lambda>c. c\<lparr>c_stm := Some m\<rparr>) w)"

definition current_state :: "key \<Rightarrow> world \<Rightarrow> nat res" where
  "current_state key w =
     bind_res (stm_get key w) (\<lambda>m. case current m of None \<Rightarrow> Inl Null_Deref | Some i \<Rightarrow> Inr i)"

section \<open>Arrivals and departures\<close>

definition handshake_on_arrival :: "nat \<Rightarrow> key \<Rightarrow> step" where
  "handshake_on_arrival s key w =
     bind_res (key_conn key w) (\<lambda>(p, c).
     let (a1, w) = sys_alloc w; (a2, w) = (if a1 then sys_alloc w else (False, w))
     in conn_upd p (\<lambda>c. c\<lparr>c_handshake := handshake_parser_init a1 a2\<rparr>) w)"

definition handshake_on_departure :: "nat \<Rightarrow> key \<Rightarrow> step" where
  "handshake_on_departure s key w =
     bind_res (key_conn key w) (\<lambda>(p, c).
     bind_res (handshake_parser_close (c_handshake c)) (\<lambda>_. conn_upd p (\<lambda>c. c\<lparr>c_handshake := None\<rparr>) w))"

definition auth_on_arrival :: "nat \<Rightarrow> key \<Rightarrow> step" where
  "auth_on_arrival s key w =
     bind_res (key_conn key w) (\<lambda>(p, c).
     let (a1, w) = sys_alloc w; (a2, w) = (if a1 then sys_alloc w else (False, w));
         junk = os_junk (w_os w)
     in conn_upd p (\<lambda>c. c\<lparr>c_auth := auth_parser_init a1 a2 junk junk\<rparr>) w)"

definition auth_on_departure :: "nat \<Rightarrow> key \<Rightarrow> step" where
  "auth_on_departure s key w =
     bind_res (key_conn key w) (\<lambda>(p, c).
     bind_res (auth_parser_close (c_auth c)) (\<lambda>_. conn_upd p (\<lambda>c. c\<lparr>c_auth := None\<rparr>) w))"

definition connection_req_on_arrival :: "nat \<Rightarrow> key \<Rightarrow> step" where
  "connection_req_on_arrival s key w =
     bind_res (key_conn key w) (\<lambda>(p, c).
     let (a1, w) = sys_alloc w; (a2, w) = (if a1 then sys_alloc w else (False, w))
     in conn_upd p (\<lambda>c. c\<lparr>c_req := conn_req_parser_init a1 a2 (os_junk (w_os w))\<rparr>) w)"

definition connection_req_on_departure :: "nat \<Rightarrow> key \<Rightarrow> step" where
  "connection_req_on_departure s key w =
     bind_res (key_conn key w) (\<lambda>(p, c).
     bind_res (conn_req_parser_close (c_req c)) (\<lambda>_. conn_upd p (\<lambda>c. c\<lparr>c_req := None\<rparr>) w))"

definition copy_on_arrival :: "nat \<Rightarrow> key \<Rightarrow> step" where
  "copy_on_arrival s key w =
     bind_res (key_conn key w) (\<lambda>(p, c).
     bind_res (register_fd (c_origin_fd c) H_Copy OP_NOOP (k_data key) w) (\<lambda>(st, w). Inr w))"

definition copy_on_departure :: "nat \<Rightarrow> key \<Rightarrow> step" where
  "copy_on_departure s key w =
     bind_res (key_conn key w) (\<lambda>(p, c). unregister_fd (c_origin_fd c) w)"

text \<open>
  The two final states have the same arrival: the origin and then the client are
  unregistered, where the close handler of the client frees the connection, whose
  client descriptor the second test reads before.
\<close>

definition close_both :: "key \<Rightarrow> step" where
  "close_both key w =
     (case k_data key of
        None \<Rightarrow> Inr w
      | Some p \<Rightarrow>
          bind_res (conn_get p w) (\<lambda>c.
          bind_res (if c_origin_fd c > 0 then unregister_fd (c_origin_fd c) w else Inr w) (\<lambda>w.
          bind_res (conn_get p w) (\<lambda>c.
          if c_client_fd c > 0 then unregister_fd (c_client_fd c) w else Inr w))))"

definition handle_done :: "nat \<Rightarrow> key \<Rightarrow> step" where
  "handle_done s key w = close_both key w"

definition handle_error :: "nat \<Rightarrow> key \<Rightarrow> step" where
  "handle_error s key w = close_both key w"

section \<open>Write handlers\<close>

definition handshake_write :: "key \<Rightarrow> world \<Rightarrow> (nat \<times> world) res" where
  "handshake_write key w =
     bind_res (key_conn key w) (\<lambda>(p, c).
       if c_is_error_response c then Inr (code SOCKS5_ERROR, w)
       else case c_handshake c of None \<Rightarrow> Inl Null_Deref
            | Some h \<Rightarrow> Inr (if user_pass_auth h then code SOCKS5_AUTH else code SOCKS5_CONNECTION_REQ, w))"

definition auth_write :: "key \<Rightarrow> world \<Rightarrow> (nat \<times> world) res" where
  "auth_write key w =
     bind_res (key_conn key w) (\<lambda>(p, c).
       Inr (if c_is_error_response c then code SOCKS5_ERROR else code SOCKS5_CONNECTION_REQ, w))"

definition connection_req_write :: "key \<Rightarrow> world \<Rightarrow> (nat \<times> world) res" where
  "connection_req_write key w =
     bind_res (key_conn key w) (\<lambda>(p, c).
       Inr (if c_is_error_response c then code SOCKS5_ERROR else code SOCKS5_COPY, w))"

definition connecting_write :: "key \<Rightarrow> world \<Rightarrow> (nat \<times> world) res" where
  "connecting_write key w =
     bind_res (key_conn key w) (\<lambda>(p, c).
       Inr (if c_is_error_response c then code SOCKS5_ERROR else code SOCKS5_COPY, w))"

text \<open>
  The table of states; the read and block handlers are arguments here, since they call the
  write side.
\<close>

definition state_row ::
    "nat \<Rightarrow> (nat \<Rightarrow> key \<Rightarrow> step) option \<Rightarrow> (nat \<Rightarrow> key \<Rightarrow> step) option \<Rightarrow>
     (key \<Rightarrow> world \<Rightarrow> (nat \<times> world) res) option \<Rightarrow> (key \<Rightarrow> world \<Rightarrow> (nat \<times> world) res) option \<Rightarrow>
     (key \<Rightarrow> world \<Rightarrow> (nat \<times> world) res) option \<Rightarrow> (nat, world) state_definition" where
  "state_row s arr dep rd wr bl =
     \<lparr>sd_state = s, on_arrival = arr, on_departure = dep, on_read_ready = rd, on_write_ready = wr,
      on_block_ready = bl\<rparr>"

type_synonym event_handler = "key \<Rightarrow> world \<Rightarrow> (nat \<times> world) res"

definition states_with ::
    "event_handler option \<Rightarrow> event_handler option \<Rightarrow> event_handler option \<Rightarrow> event_handler option \<Rightarrow>
     event_handler option \<Rightarrow> event_handler option \<Rightarrow> (nat, world) state_definition list" where
  "states_with hr ar rr cr xr bl =
     [state_row (code SOCKS5_HANDSHAKE) (Some handshake_on_arrival) (Some handshake_on_departure)
        hr (Some handshake_write) None,
      state_row (code SOCKS5_AUTH) (Some auth_on_arrival) (Some auth_on_departure)
        ar (Some auth_write) None,
      state_row (code SOCKS5_CONNECTION_REQ) (Some connection_req_on_arrival)
        (Some connection_req_on_departure) rr (Some connection_req_write) None,
      state_row (code SOCKS5_CONNECTING) None None cr (Some connecting_write) bl,
      state_row (code SOCKS5_COPY) (Some copy_on_arrival) (Some copy_on_departure) xr None None,
      state_row (code SOCKS5_DONE) (Some handle_done) None None None None,
      state_row (code SOCKS5_ERROR) (Some handle_error) None None None None]"

definition write_states :: "(nat, world) state_definition list" where
  "write_states = states_with None None None None None None"

section \<open>Writing to the client\<close>

definition socksv5_send_done :: "key \<Rightarrow> nat \<Rightarrow> bool \<Rightarrow> step" where
  "socksv5_send_done key n full_buffer w =
     bind_res (metrics_upd (\<lambda>m. metrics_add_bytes m (of_nat n)) w) (\<lambda>w.
     bind_res (key_conn key w) (\<lambda>(p, c).
     bind_res (buffer_read_adv (c_out c) (int n)) (\<lambda>b.
     bind_res (conn_upd p (\<lambda>c. c\<lparr>c_out := b\<rparr>) w) (\<lambda>w.
     bind_res (set_interest (c_client_fd c) (if buffer_can_read b then OP_WRITE else OP_READ) w) (\<lambda>w.
     bind_res (if buffer_can_read (c_in c) then set_interest (c_origin_fd c) OP_WRITE w else Inr w) (\<lambda>w.
     bind_res (if full_buffer then set_interest (c_origin_fd c) OP_READ w else Inr w) (\<lambda>w.
     bind_res (buffer_compact b) (\<lambda>b.
     bind_res (conn_upd p (\<lambda>c. c\<lparr>c_out := b\<rparr>) w) (\<lambda>w.
     bind_res (current_state key w) (\<lambda>s.
       if has_write_handler s
       then bind_res (stm_handler_write write_states (stm_get key) (stm_put key) key w) (\<lambda>(ret, w). Inr w)
       else Inr w))))))))))"

text \<open>Errors other than a call that would block end the connection.\<close>

definition drop_both :: "key \<Rightarrow> step" where
  "drop_both key w =
     bind_res (key_conn key w) (\<lambda>(p, c).
     bind_res (if c_origin_fd c > 0 then unregister_fd (c_origin_fd c) w else Inr w) (\<lambda>w.
     bind_res (conn_get p w) (\<lambda>c. unregister_fd (c_client_fd c) w)))"

definition socksv5_write :: "key \<Rightarrow> step" where
  "socksv5_write key w =
     bind_res (key_conn key w) (\<lambda>(p, c).
       if \<not> buffer_can_read (c_out c) then set_interest (c_client_fd c) OP_NOOP w
       else let full_buffer = (c_origin_fd c > 0 \<and> \<not> buffer_can_write (c_out c)) in
            bind_res (buffer_read_ptr (c_out c)) (\<lambda>(at, n).
            let (r, w) = sys_send (c_client_fd c) (take n (drop at (buf_data (c_out c)))) w
            in case r of
                 Sent k \<Rightarrow> if k > 0 then socksv5_send_done key k full_buffer w else Inr w
               | Send_Error e \<Rightarrow>
                   if e \<noteq> EAGAIN
                   then bind_res (metrics_upd metrics_inc_errors w) (drop_both key)
                   else Inr w))"

section \<open>Reading a greeting and a login\<close>

text \<open>
  The read handlers loop while the input buffer holds bytes, one byte an iteration.  The
  loops are given as many iterations as the buffer holds bytes at the start; that is enough,
  as the section on the loops shows.  What an iteration reads from the connection after
  writing to the client is read again from the heap.
\<close>

definition buffered :: "key \<Rightarrow> world \<Rightarrow> nat" where
  "buffered key w =
     (case key_conn key w of Inl e \<Rightarrow> 0 | Inr (p, c) \<Rightarrow> buf_write (c_in c) - buf_read (c_in c))"

definition next_in :: "key \<Rightarrow> world \<Rightarrow> (byte \<times> nat \<times> world) res" where
  "next_in key w =
     bind_res (key_conn key w) (\<lambda>(p, c).
     bind_res (buffer_read (c_in c)) (\<lambda>(b, buf).
     bind_res (conn_upd p (\<lambda>c. c\<lparr>c_in := buf\<rparr>) w) (\<lambda>w. Inr (b, p, w))))"

text \<open>The outcome of one iteration: go on, or return the state.\<close>

datatype loop_step = Continue world | Return nat world

definition greeting_answer :: "key \<Rightarrow> nat \<Rightarrow> handshake_parser \<Rightarrow> step" where
  "greeting_answer key p h w =
     (let response = create_handshake_response (no_auth h) (user_pass_auth h)
      in bind_res (conn_get p w) (\<lambda>c.
         bind_res (buffer_write_struct (c_out c) (handshake_response_bytes response) HANDSHAKE_RESPONSE_SIZE) (\<lambda>b.
         bind_res (conn_upd p (\<lambda>c. c\<lparr>c_out := b\<rparr>) w) (\<lambda>w.
         bind_res (set_interest (k_fd key) OP_WRITE w) (\<lambda>w.
         bind_res (conn_upd p (\<lambda>c. c\<lparr>c_is_error_response := \<not> (no_auth h \<or> user_pass_auth h)\<rparr>) w)
           (socksv5_write key))))))"

definition handshake_byte :: "key \<Rightarrow> world \<Rightarrow> loop_step res" where
  "handshake_byte key w =
     bind_res (next_in key w) (\<lambda>(byte, p, w).
     bind_res (conn_get p w) (\<lambda>c.
     case c_handshake c of
       None \<Rightarrow> Inl Null_Deref
     | Some h \<Rightarrow>
         bind_res (handshake_parser_feed h byte) (\<lambda>(h, st).
         bind_res (conn_upd p (\<lambda>c. c\<lparr>c_handshake := Some h\<rparr>) w) (\<lambda>w.
           if st = HANDSHAKE_DONE
           then bind_res (greeting_answer key p h w) (\<lambda>w. Inr (Continue w))
           else if st = HANDSHAKE_ERROR then Inr (Return (code SOCKS5_ERROR) w)
           else Inr (Continue w)))))"

fun read_loop :: "(key \<Rightarrow> world \<Rightarrow> loop_step res) \<Rightarrow> (key \<Rightarrow> world \<Rightarrow> (nat \<times> world) res) \<Rightarrow> nat \<Rightarrow> key \<Rightarrow> world \<Rightarrow> (nat \<times> world) res" where
  "read_loop body fin 0 key w = fin key w"
| "read_loop body fin (Suc n) key w =
     bind_res (key_conn key w) (\<lambda>(p, c).
       if buffer_can_read (c_in c)
       then bind_res (body key w) (\<lambda>s.
            case s of Continue w \<Rightarrow> read_loop body fin n key w | Return st w \<Rightarrow> Inr (st, w))
       else fin key w)"

definition return_current :: "key \<Rightarrow> world \<Rightarrow> (nat \<times> world) res" where
  "return_current key w = bind_res (current_state key w) (\<lambda>s. Inr (s, w))"

definition handshake_read :: event_handler where
  "handshake_read key w = read_loop handshake_byte return_current (Suc (buffered key w)) key w"

text \<open>
  The user and the password go to the table as strings: up to their first zero byte.
\<close>

definition login_answer :: "key \<Rightarrow> nat \<Rightarrow> auth_parser \<Rightarrow> step" where
  "login_answer key p a w =
     bind_res (c_str (auth_parser.username a)) (\<lambda>user.
     bind_res (c_str (auth_parser.password a)) (\<lambda>pass.
     let auth_ok = auth_check_credentials (user_map (w_cfg w)) user pass
     in bind_res (conn_get p w) (\<lambda>c.
        bind_res (buffer_write_struct (c_out c) (auth_response_bytes (create_auth_response auth_ok))
                    AUTH_RESPONSE_SIZE) (\<lambda>b.
        bind_res (conn_upd p (\<lambda>c. c\<lparr>c_out := b, c_in := buffer_reset (c_in c),
                    c_is_error_response := \<not> auth_ok\<rparr>) w) (\<lambda>w.
        bind_res (set_interest (k_fd key) OP_WRITE w) (\<lambda>w.
        bind_res (if auth_ok then conn_upd p (\<lambda>c. c\<lparr>c_username := user\<rparr>) w else Inr w)
          (socksv5_write key)))))))"

definition auth_byte :: "key \<Rightarrow> world \<Rightarrow> loop_step res" where
  "auth_byte key w =
     bind_res (next_in key w) (\<lambda>(byte, p, w).
     bind_res (conn_get p w) (\<lambda>c.
     case c_auth c of
       None \<Rightarrow> Inl Null_Deref
     | Some a \<Rightarrow>
         bind_res (auth_parser_feed a byte) (\<lambda>(a, st).
         bind_res (conn_upd p (\<lambda>c. c\<lparr>c_auth := Some a\<rparr>) w) (\<lambda>w.
           if st = AUTH_DONE then bind_res (login_answer key p a w) (\<lambda>w. Inr (Continue w))
           else if st = AUTH_ERROR then Inr (Return (code SOCKS5_ERROR) w)
           else Inr (Continue w)))))"

definition auth_read :: event_handler where
  "auth_read key w = read_loop auth_byte return_current (Suc (buffered key w)) key w"

section \<open>Resolving\<close>

text \<open>
  \<open>resolve_host_name\<close>, in the event loop for an address and in a thread for a name: the text of the target is looked
  up, as a number where the request had an address.
\<close>

definition resolve_hints :: "byte \<Rightarrow> addr_family \<times> ai_flag" where
  "resolve_hints a_type =
     (if a_type = SOCKS5_CONN_REQ_ATYP_IPV4 then (AF_INET, AI_NUMERICHOST)
      else if a_type = SOCKS5_CONN_REQ_ATYP_IPV6 then (AF_INET6, AI_NUMERICHOST)
      else (AF_UNSPEC, AI_NONE))"

definition resolve_host_name :: "nat \<Rightarrow> step" where
  "resolve_host_name p w =
     bind_res (conn_get p w) (\<lambda>c.
     let (family, flag) = resolve_hints (c_a_type c);
         (r, w) = sys_getaddrinfo (c_dst_address c) (port_str (c_dst_port c)) family flag w
     in bind_res (case r of None \<Rightarrow> Inr w | Some res \<Rightarrow> conn_upd p (\<lambda>c. c\<lparr>c_addr_info := res\<rparr>) w) (\<lambda>w.
        let (ok, w) = sys_alloc w; (st, s) = selector_notify_block ok (w_sel w) (c_client_fd c)
        in Inr (w\<lparr>w_sel := s\<rparr>)))"

section \<open>Reading a request\<close>

definition DOMAIN_NAME_MAX_LENGTH :: nat where "DOMAIN_NAME_MAX_LENGTH = 254"

text \<open>
  \<open>set_dst_address\<close>: the text of an address, or the name, cut to 253 bytes and read as a
  string.  \<open>old\<close> is what the array holds, for a type that is none of the three.
\<close>

definition set_dst_address ::
    "(byte list \<Rightarrow> byte list option) \<Rightarrow> byte list \<Rightarrow> byte list \<Rightarrow> nat \<Rightarrow> byte \<Rightarrow> byte list" where
  "set_dst_address ntop6 old addr addr_len a_type =
     (if a_type = SOCKS5_CONN_REQ_ATYP_IPV4 then dotted addr
      else if a_type = SOCKS5_CONN_REQ_ATYP_IPV6
      then (case ntop6 (take 16 addr) of None \<Rightarrow> lit ''<invalid IPv6>'' | Some s \<Rightarrow> s)
      else if a_type = SOCKS5_CONN_REQ_ATYP_DOMAIN_NAME
      then let max_copy = (if addr_len < DOMAIN_NAME_MAX_LENGTH - 1 then addr_len
                           else DOMAIN_NAME_MAX_LENGTH - 1)
           in takeWhile (\<lambda>b. b \<noteq> 0) (take max_copy addr)
      else old)"

text \<open>The failure reply of all handlers: ten bytes of the structure.\<close>

definition send_failure :: "nat \<Rightarrow> socks5_reply_status \<Rightarrow> step" where
  "send_failure p status w =
     bind_res (conn_get p w) (\<lambda>c.
     bind_res (buffer_write_struct (c_out c)
         (conn_req_response_bytes (create_conn_req_error_response status (take 16 (os_junk (w_os w)))))
         (SOCKS5_CONN_REQ_RESPONSE_BASE_SIZE + IPV4_ADDR_SIZE)) (\<lambda>b.
     conn_upd p (\<lambda>c. c\<lparr>c_out := b, c_is_error_response := True\<rparr>) w))"

definition request_received :: "key \<Rightarrow> nat \<Rightarrow> conn_req_parser \<Rightarrow> world \<Rightarrow> loop_step res" where
  "request_received key p r w =
     (if cp_cmd r \<noteq> SOCKS5_CONN_REQ_CMD_CONNECT
      then bind_res (send_failure p SOCKS5_REP_COMMAND_NOT_SUPPORTED w) (\<lambda>w.
           bind_res (conn_get p w) (\<lambda>c.
           bind_res (set_interest (c_client_fd c) OP_WRITE w) (\<lambda>w.
           Inr (Return (code SOCKS5_CONNECTION_REQ) w))))
      else bind_res (set_interest (k_fd key) OP_NOOP w) (\<lambda>w.
           bind_res (conn_upd p (\<lambda>c. c\<lparr>c_dst_port := dst_port r, c_a_type := cp_atyp r,
               c_dst_address := set_dst_address (os_ntop6 (w_os w)) (c_dst_address c) (dst_addr r)
                 (unat (dst_addr_len r)) (cp_atyp r)\<rparr>) w) (\<lambda>w.
           if cp_atyp r = SOCKS5_CONN_REQ_ATYP_DOMAIN_NAME
           then let (ok, q) = pop True (os_thread (w_os w)); w = os_upd (\<lambda>s. s\<lparr>os_thread := q\<rparr>) w
                in if ok
                   then Inr (Return (code SOCKS5_CONNECTING) (w\<lparr>w_resolving := w_resolving w @ [p]\<rparr>))
                   else Inr (Return (code SOCKS5_ERROR) w)
           else bind_res (resolve_host_name p w) (\<lambda>w. Inr (Return (code SOCKS5_CONNECTING) w)))))"

definition conn_req_byte :: "key \<Rightarrow> world \<Rightarrow> loop_step res" where
  "conn_req_byte key w =
     bind_res (next_in key w) (\<lambda>(byte, p, w).
     bind_res (conn_get p w) (\<lambda>c.
     case c_req c of
       None \<Rightarrow> Inl Null_Deref
     | Some r \<Rightarrow>
         bind_res (conn_req_parser_feed r byte) (\<lambda>(r, st).
         bind_res (conn_upd p (\<lambda>c. c\<lparr>c_req := Some r\<rparr>) w) (\<lambda>w.
           if st = CONN_REQ_DONE then request_received key p r w
           else if st = CONN_REQ_ERROR then Inr (Return (code SOCKS5_ERROR) w)
           else Inr (Continue w)))))"

definition connection_req_read :: event_handler where
  "connection_req_read key w =
     read_loop conn_req_byte (\<lambda>key w. Inr (code SOCKS5_CONNECTION_REQ, w)) (Suc (buffered key w)) key w"

text \<open>A resolver thread finishes, in the order the environment chooses.\<close>

definition resolver_done :: "nat \<Rightarrow> step" where
  "resolver_done p w =
     bind_res (resolve_host_name p w) (\<lambda>w. Inr (w\<lparr>w_resolving := remove1 p (w_resolving w)\<rparr>))"

section \<open>Connecting to the origin\<close>

definition send_success :: "nat \<Rightarrow> step" where
  "send_success p w =
     bind_res (conn_get p w) (\<lambda>c.
     let junk = os_junk (w_os w);
         response = create_conn_req_response SOCKS5_REP_SUCCEEDED (os_sockname (w_os w) (c_origin_fd c))
           (junk ! 0, take 46 junk, ucast (junk ! 1)) (take 16 junk)
     in bind_res (buffer_write_struct (c_out c) (conn_req_response_bytes response)
            (conn_req_response_size response)) (\<lambda>b.
        conn_upd p (\<lambda>c. c\<lparr>c_out := b\<rparr>) w))"

definition connecting_on_block_ready :: event_handler where
  "connecting_on_block_ready key w =
     bind_res (key_conn key w) (\<lambda>(p, c).
       if c_addr_info c = []
       then bind_res (add_access p SOCKS5_REP_HOST_UNREACHABLE w) (\<lambda>w.
            bind_res (send_failure p SOCKS5_REP_HOST_UNREACHABLE w) (\<lambda>w.
            bind_res (set_interest (c_client_fd c) OP_WRITE w) (\<lambda>w.
            Inr (code SOCKS5_CONNECTION_REQ, w))))
       else let (result, res, fd, w) = connect_to_host (c_addr_info c) (c_origin_fd c) w in
            bind_res (conn_upd p (\<lambda>c. c\<lparr>c_addr_info := res, c_origin_fd := fd\<rparr>) w) (\<lambda>w.
            if result = CONNECTION_IN_PROGRESS
            then bind_res (set_interest (c_client_fd c) OP_NOOP w) (\<lambda>w.
                 bind_res (register_fd fd H_Connecting OP_WRITE (k_data key) w) (\<lambda>(st, w).
                 if st \<noteq> SELECTOR_SUCCESS
                 then bind_res (add_access p SOCKS5_REP_GENERAL_FAILURE w) (\<lambda>w.
                      Inr (code SOCKS5_ERROR, w))
                 else Inr (code SOCKS5_CONNECTING, w)))
            else if result = CONNECTION_SUCCESS
            then bind_res (add_access p SOCKS5_REP_SUCCEEDED w) (\<lambda>w.
                 bind_res (send_success p w) (\<lambda>w.
                 bind_res (set_interest (k_fd key) OP_WRITE w) (\<lambda>w.
                 bind_res (conn_upd p (\<lambda>c. c\<lparr>c_in := buffer_reset (c_in c)\<rparr>) w) (\<lambda>w.
                 bind_res (socksv5_write key w) (\<lambda>w. Inr (code SOCKS5_COPY, w))))))
            else Inr (code SOCKS5_ERROR, w)))"

definition connecting_read :: event_handler where
  "connecting_read key w = Inr (code SOCKS5_COPY, w)"

section \<open>Copying\<close>

text \<open>\<open>copy_write_handler\<close> sends the input buffer to the origin.\<close>

definition copy_write_handler :: "key \<Rightarrow> step" where
  "copy_write_handler key w =
     bind_res (key_conn key w) (\<lambda>(p, c).
       if \<not> buffer_can_read (c_in c) then set_interest (c_origin_fd c) OP_NOOP w
       else let full_buffer = (\<not> buffer_can_write (c_in c)) in
            bind_res (buffer_read_ptr (c_in c)) (\<lambda>(at, n).
            let (r, w) = sys_send (c_origin_fd c) (take n (drop at (buf_data (c_in c)))) w
            in case r of
                 Sent k \<Rightarrow>
                   if k > 0
                   then bind_res (buffer_read_adv (c_in c) (int k)) (\<lambda>b.
                        bind_res (buffer_compact b) (\<lambda>b.
                        bind_res (conn_upd p (\<lambda>c. c\<lparr>c_in := b\<rparr>) w) (\<lambda>w.
                        bind_res (if buffer_can_read b then Inr w
                                  else set_interest (c_origin_fd c) OP_READ w) (\<lambda>w.
                        if full_buffer then set_interest (c_client_fd c) OP_READ w else Inr w))))
                   else bind_res (unregister_fd (c_origin_fd c) w) (\<lambda>w.
                        bind_res (conn_get p w) (\<lambda>c. unregister_fd (c_client_fd c) w))
               | Send_Error e \<Rightarrow>
                   if e \<noteq> EAGAIN
                   then bind_res (unregister_fd (c_origin_fd c) w) (\<lambda>w.
                        bind_res (conn_get p w) (\<lambda>c. unregister_fd (c_client_fd c) w))
                   else Inr w))"

text \<open>\<open>copy_read_handler\<close> fills the output buffer from the origin.\<close>

definition copy_read_handler :: "key \<Rightarrow> step" where
  "copy_read_handler key w =
     bind_res (key_conn key w) (\<lambda>(p, c).
       if \<not> buffer_can_write (c_out c)
       then bind_res (set_interest (c_origin_fd c) OP_NOOP w) (set_interest (c_client_fd c) OP_WRITE)
       else bind_res (buffer_write_ptr (c_out c)) (\<lambda>(at, n).
            let (r, w) = sys_recv (c_origin_fd c) n w
            in case r of
                 Recv bs \<Rightarrow>
                   bind_res (buffer_recv (c_out c) bs) (\<lambda>b.
                   bind_res (conn_upd p (\<lambda>c. c\<lparr>c_out := b\<rparr>) w) (\<lambda>w.
                   bind_res (set_interest (c_client_fd c) OP_WRITE w) (socksv5_write key)))
               | Recv_Closed \<Rightarrow> unregister_fd (c_origin_fd c) w
               | Recv_Error e \<Rightarrow>
                   if e \<noteq> EAGAIN
                   then bind_res (unregister_fd (c_origin_fd c) w) (\<lambda>w.
                        bind_res (conn_get p w) (\<lambda>c. unregister_fd (c_client_fd c) w))
                   else Inr w))"

definition copy_read :: event_handler where
  "copy_read key w =
     bind_res (key_conn key w) (\<lambda>(p, c).
     bind_res (set_interest_status (c_origin_fd c) OP_WRITE w) (\<lambda>(st, w).
       if st \<noteq> SELECTOR_SUCCESS then Inr (code SOCKS5_ERROR, w)
       else bind_res (copy_write_handler key w) (\<lambda>w. Inr (code SOCKS5_COPY, w))))"

section \<open>The table and the handlers\<close>

definition socks5_states :: "(nat, world) state_definition list" where
  "socks5_states = states_with (Some handshake_read) (Some auth_read) (Some connection_req_read)
     (Some connecting_read) (Some copy_read) (Some connecting_on_block_ready)"

definition run_read :: event_handler where
  "run_read key w = stm_handler_read socks5_states (stm_get key) (stm_put key) key w"

definition run_block :: event_handler where
  "run_block key w = stm_handler_block socks5_states (stm_get key) (stm_put key) key w"

text \<open>
  The connection attempt of a handler is over.  \<open>SO_ERROR\<close> gives \<open>err\<close>; the reply code comes
  from \<open>errno\<close>.
\<close>

definition handle_write_connecting :: "key \<Rightarrow> step" where
  "handle_write_connecting key w =
     bind_res (key_conn key w) (\<lambda>(p, c).
     let ((ok, err), q) = pop (True, 0) (os_sockopt (w_os w)); w = os_upd (\<lambda>s. s\<lparr>os_sockopt := q\<rparr>) w;
         w = (if ok then w else sys_close (c_origin_fd c) (set_errno err w));
         err = (if ok then err else 0);
         response_code = get_code (os_errno (w_os w))
     in if err \<noteq> 0
        then let w = sys_close (c_origin_fd c) w;
                 (result, res, fd, w) = (if c_addr_info c = [] then (CONNECTION_FAILED, [], c_origin_fd c, w)
                                         else connect_to_host (c_addr_info c) (c_origin_fd c) w)
             in bind_res (conn_upd p (\<lambda>c. c\<lparr>c_addr_info := res, c_origin_fd := fd\<rparr>) w) (\<lambda>w.
                if c_addr_info c \<noteq> [] \<and> result = CONNECTION_IN_PROGRESS then Inr w
                else let response_code = (if c_addr_info c \<noteq> [] \<and> result = CONNECTION_FAILED
                                          then get_code (os_errno (w_os w)) else response_code)
                     in bind_res (add_access p response_code w) (\<lambda>w.
                        bind_res (send_failure p response_code w) (\<lambda>w.
                        bind_res (unregister_fd fd w) (\<lambda>w.
                        bind_res (conn_upd p (\<lambda>c. c\<lparr>c_origin_fd := -1\<rparr>) (sys_close fd w))
                          (set_interest (c_client_fd c) OP_WRITE)))))
        else bind_res (conn_upd p (\<lambda>c. c\<lparr>c_addr_info := []\<rparr>) w) (\<lambda>w.
             bind_res (unregister_fd (c_origin_fd c) w) (\<lambda>w.
             bind_res (run_read key w) (\<lambda>(ret, w).
             bind_res (add_access p SOCKS5_REP_SUCCEEDED w) (\<lambda>w.
             bind_res (send_success p w) (\<lambda>w.
             bind_res (conn_get p w) (\<lambda>c.
             bind_res (set_interest (c_client_fd c) OP_WRITE w) (\<lambda>w.
             bind_res (conn_upd p (\<lambda>c. c\<lparr>c_in := buffer_reset (c_in c)\<rparr>) w)
               (socksv5_write key)))))))))"

definition socksv5_read :: "key \<Rightarrow> step" where
  "socksv5_read key w =
     bind_res (key_conn key w) (\<lambda>(p, c).
       if \<not> buffer_can_write (c_in c)
       then bind_res (set_interest (k_fd key) OP_NOOP w) (\<lambda>w.
            if c_origin_fd c \<noteq> 0 then set_interest (c_origin_fd c) OP_WRITE w else Inr w)
       else bind_res (buffer_write_ptr (c_in c)) (\<lambda>(at, n).
            let (r, w) = sys_recv (k_fd key) n w
            in case r of
                 Recv bs \<Rightarrow>
                   bind_res (buffer_recv (c_in c) bs) (\<lambda>b.
                   bind_res (conn_upd p (\<lambda>c. c\<lparr>c_in := b\<rparr>) w) (\<lambda>w.
                   bind_res (run_read key w) (\<lambda>(state, w).
                   if state = code SOCKS5_ERROR then metrics_upd metrics_inc_errors w else Inr w)))
               | Recv_Closed \<Rightarrow> drop_both key w
               | Recv_Error e \<Rightarrow>
                   if e \<noteq> EAGAIN then bind_res (metrics_upd metrics_inc_errors w) (drop_both key)
                   else Inr w))"

definition socksv5_block :: "key \<Rightarrow> step" where
  "socksv5_block key w =
     bind_res (run_block key w) (\<lambda>(state, w).
       if state = code SOCKS5_ERROR
       then bind_res (metrics_upd metrics_inc_errors w) (\<lambda>w.
            case k_data key of None \<Rightarrow> Inr w
            | Some p \<Rightarrow> bind_res (conn_get p w) (\<lambda>c. unregister_fd (c_client_fd c) w))
       else Inr w)"

section \<open>Accepting\<close>

definition socksv5_passive_accept :: "key \<Rightarrow> step" where
  "socksv5_passive_accept key w =
     (case metrics (data (w_cfg w)) of
        None \<Rightarrow> Inl Null_Deref
      | Some m \<Rightarrow>
          if uint (current_connections m) \<ge> uint (max_conn (data (w_cfg w)))
          then let (r, w) = sys_accept (k_fd key) w
               in Inr (case r of Accept_Error \<Rightarrow> w | Accepted fd a \<Rightarrow> sys_close fd w)
          else let (a0, w) = sys_alloc w
               in if \<not> a0 then Inr w
                  else let p = length (w_heap w); w = w\<lparr>w_heap := w_heap w @ [Some zero_conn]\<rparr>
                  in bind_res (passive_accept (store_source p) key p H_Socks5 w) (\<lambda>(fd, w).
                     if fd = -1 then conn_free p w
                     else bind_res (conn_upd p (\<lambda>c. c\<lparr>c_client_fd := fd\<rparr>) w) (\<lambda>w.
                     let sz = unat (buffer_size (data (w_cfg w))); (a1, w) = sys_alloc w
                     in if \<not> a1 then unregister_fd fd w
                        else let (a2, w) = sys_alloc w
                        in if \<not> a2 then unregister_fd fd w
                           else bind_res (conn_upd p (\<lambda>c. c
                                  \<lparr>c_in := buffer_init sz (replicate sz 0), c_out := buffer_init sz (replicate sz 0)\<rparr>) w) (\<lambda>w.
                           let (a3, w) = sys_alloc w
                           in bind_res (conn_upd p (\<lambda>c. c\<lparr>c_stm := socks5_stm_init a3\<rparr>) w) (\<lambda>w.
                              if \<not> a3 then unregister_fd fd w
                              else bind_res (metrics_upd metrics_inc_curr_conn w)
                                     (metrics_upd metrics_inc_total_conn))))))"

section \<open>The handlers of the selector\<close>

definition as_callback :: "(key \<Rightarrow> step) \<Rightarrow> int \<Rightarrow> nat option \<Rightarrow> step" where
  "as_callback f fd d = f \<lparr>k_fd = fd, k_data = d\<rparr>"

fun read_handler :: "handler \<Rightarrow> (int \<Rightarrow> nat option \<Rightarrow> step) option" where
  "read_handler H_Passive = Some (as_callback socksv5_passive_accept)"
| "read_handler H_Socks5 = Some (as_callback socksv5_read)"
| "read_handler H_Connecting = None"
| "read_handler H_Copy = Some (as_callback copy_read_handler)"
| "read_handler H_Admin_Passive = Some (as_callback s5admin_passive_accept)"
| "read_handler H_Admin = Some (as_callback admin_read)"

fun write_handler :: "handler \<Rightarrow> (int \<Rightarrow> nat option \<Rightarrow> step) option" where
  "write_handler H_Passive = None"
| "write_handler H_Socks5 = Some (as_callback socksv5_write)"
| "write_handler H_Connecting = Some (as_callback handle_write_connecting)"
| "write_handler H_Copy = Some (as_callback copy_write_handler)"
| "write_handler H_Admin_Passive = None"
| "write_handler H_Admin = Some (as_callback admin_write)"

fun block_handler :: "handler \<Rightarrow> (int \<Rightarrow> nat option \<Rightarrow> step) option" where
  "block_handler H_Passive = None"
| "block_handler H_Socks5 = Some (as_callback socksv5_block)"
| "block_handler H_Connecting = None"
| "block_handler H_Copy = None"
| "block_handler H_Admin_Passive = None"
| "block_handler H_Admin = None"

definition proxy_handlers :: "(handler, nat, world) fd_handlers" where
  "proxy_handlers =
     \<lparr>handle_read = read_handler, handle_write = write_handler, handle_block = block_handler,
      handle_close = handler_close\<rparr>"

text \<open>One turn of the main loop of the proxy.\<close>

definition proxy_select :: "pselect_result \<Rightarrow> world \<Rightarrow> (selector_status \<times> world) res" where
  "proxy_select = selector_select proxy_handlers w_sel (\<lambda>s w. w\<lparr>w_sel := s\<rparr>)"

end
