(* ===== verification/Handler_Facts.thy ===== *)
theory Handler_Facts
  imports Socks5
begin

text \<open>
  What the handlers of a connection do to the world, step by step, as equations: a world in
  which the connection \<open>p\<close> is live is written \<open>conn_put p c w\<close>, every operation of a handler
  then gives such a world again, and the selector's table tells the registrations.
\<close>

section \<open>A live connection\<close>

named_theorems live \<open>steps on a world with a live connection\<close>

definition conn_put :: "nat \<Rightarrow> socks5_conn \<Rightarrow> world \<Rightarrow> world" where
  "conn_put p c w = w\<lparr>w_heap := (w_heap w)[p := Some c]\<rparr>"

lemma conn_put_self: "conn_get p w = Inr c \<Longrightarrow> conn_put p c w = w"
  by (simp add: conn_put_def conn_get_Inr list_update_same_conv)

lemma conn_put_sel [simp, live]:
  "w_sel (conn_put p c w) = w_sel w" "w_cfg (conn_put p c w) = w_cfg w"
  "w_os (conn_put p c w) = w_os w" "w_admin (conn_put p c w) = w_admin w" "w_resolving (conn_put p c w) = w_resolving w"
  "length (w_heap (conn_put p c w)) = length (w_heap w)"
  by (simp_all add: conn_put_def)

lemma conn_put_push [simp, live]:
  "(conn_put p c w)\<lparr>w_sel := s\<rparr> = conn_put p c (w\<lparr>w_sel := s\<rparr>)"
  "(conn_put p c w)\<lparr>w_cfg := g\<rparr> = conn_put p c (w\<lparr>w_cfg := g\<rparr>)"
  "(conn_put p c w)\<lparr>w_os := u\<rparr> = conn_put p c (w\<lparr>w_os := u\<rparr>)"
  "(conn_put p c w)\<lparr>w_resolving := l\<rparr> = conn_put p c (w\<lparr>w_resolving := l\<rparr>)"
  "(conn_put p c w)\<lparr>w_admin := al\<rparr> = conn_put p c (w\<lparr>w_admin := al\<rparr>)"
  "os_upd f (conn_put p c w) = conn_put p c (os_upd f w)"
  "conn_put p a (conn_put p b w) = conn_put p a w"
  by (simp_all add: conn_put_def os_upd_def)

lemma conn_get_put [simp, live]: "p < length (w_heap w) \<Longrightarrow> conn_get p (conn_put p c w) = Inr c"
  by (simp add: conn_put_def conn_get_def)

lemma conn_upd_put [live]:
  "p < length (w_heap w) \<Longrightarrow> conn_upd p f (conn_put p c w) = Inr (conn_put p (f c) w)"
  by (simp add: conn_upd_def) (simp add: conn_put_def)

lemma key_conn_put [live]:
  "k_data key = Some p \<Longrightarrow> p < length (w_heap w) \<Longrightarrow> key_conn key (conn_put p c w) = Inr (p, c)"
  by (simp add: key_conn_def)

lemma stm_get_put [live]:
  "k_data key = Some p \<Longrightarrow> p < length (w_heap w) \<Longrightarrow>
     stm_get key (conn_put p c w) = (case c_stm c of None \<Rightarrow> Inl Null_Deref | Some m \<Rightarrow> Inr m)"
  by (simp add: stm_get_def live)

lemma stm_put_put [live]:
  "k_data key = Some p \<Longrightarrow> p < length (w_heap w) \<Longrightarrow>
     stm_put key m (conn_put p c w) = Inr (conn_put p (c\<lparr>c_stm := Some m\<rparr>) w)"
  by (simp add: stm_put_def live)

lemma current_state_put [live]:
  "k_data key = Some p \<Longrightarrow> p < length (w_heap w) \<Longrightarrow> c_stm c = Some m \<Longrightarrow> current m = Some i \<Longrightarrow>
     current_state key (conn_put p c w) = Inr i"
  by (simp add: current_state_def live)

lemma conn_free_put [live]:
  "p < length (w_heap w) \<Longrightarrow> conn_free p (conn_put p c w) = Inr (w\<lparr>w_heap := (w_heap w)[p := None]\<rparr>)"
  by (simp add: conn_free_def) (simp add: conn_put_def)

section \<open>The table of states\<close>

lemma states_get [live]:
  "i < 7 \<Longrightarrow> mem_get (states_with hr ar rr cr xr bl) i = Inr (states_with hr ar rr cr xr bl ! i)"
  by (simp add: states_with_def)

lemma states_nth [live]:
  "states_with hr ar rr cr xr bl ! 0 =
     state_row 0 (Some handshake_on_arrival) (Some handshake_on_departure) hr (Some handshake_write) None"
  "states_with hr ar rr cr xr bl ! Suc 0 =
     state_row 1 (Some auth_on_arrival) (Some auth_on_departure) ar (Some auth_write) None"
  "states_with hr ar rr cr xr bl ! 2 =
     state_row 2 (Some connection_req_on_arrival) (Some connection_req_on_departure) rr
       (Some connection_req_write) None"
  "states_with hr ar rr cr xr bl ! 3 = state_row 3 None None cr (Some connecting_write) bl"
  "states_with hr ar rr cr xr bl ! 4 =
     state_row 4 (Some copy_on_arrival) (Some copy_on_departure) xr None None"
  "states_with hr ar rr cr xr bl ! 6 = state_row 6 (Some handle_error) None None None None"
  by (simp_all add: states_with_def numeral_eq_Suc)

lemma states_table: "stm_table (states_with hr ar rr cr xr bl)"
  by (simp add: stm_table_def states_with_def state_row_def All_less_Suc numeral_eq_Suc)

lemma row_sel [simp, live]:
  "sd_state (state_row s a d rd wr bl) = s" "on_arrival (state_row s a d rd wr bl) = a"
  "on_departure (state_row s a d rd wr bl) = d" "on_read_ready (state_row s a d rd wr bl) = rd"
  "on_write_ready (state_row s a d rd wr bl) = wr" "on_block_ready (state_row s a d rd wr bl) = bl"
  by (simp_all add: state_row_def)

lemma sys_alloc_free [live]: "os_alloc (w_os w) = [] \<Longrightarrow> sys_alloc w = (True, w)"
  by (simp add: sys_alloc_def pop_def os_upd_def)

section \<open>Registrations\<close>

text \<open>The selector after a change of interest, and after a registration.\<close>

type_synonym sel = "(handler, nat) fdselector"

definition sel_set :: "int \<Rightarrow> fd_interest \<Rightarrow> sel \<Rightarrow> sel" where
  "sel_set fd i s = (case selector_set_interest s fd i of Inr (st, s) \<Rightarrow> s | Inl e \<Rightarrow> s)"

definition interest_of :: "sel \<Rightarrow> int \<Rightarrow> fd_interest option" where
  "interest_of s fd = map_option it_interest (sel_table s fd)"

text \<open>Who is registered for a descriptor: the handlers and the connection.\<close>

definition owner_of :: "sel \<Rightarrow> int \<Rightarrow> (handler \<times> nat) option" where
  "owner_of s fd =
     (case sel_table s fd of None \<Rightarrow> None
      | Some e \<Rightarrow> (case (it_handler e, it_data e) of (Some h, Some p) \<Rightarrow> Some (h, p) | _ \<Rightarrow> None))"

lemma sel_set_cases:
  assumes "sel_inv s"
  shows "selector_set_interest s fd i =
      Inr (if \<not> invalid_fd fd \<and> sel_table s fd \<noteq> None then SELECTOR_SUCCESS else SELECTOR_IARGS, sel_set fd i s) \<and>
    sel_inv (sel_set fd i s) \<and>
    sel_table (sel_set fd i s) =
      (case sel_table s fd of
         None \<Rightarrow> sel_table s
       | Some e \<Rightarrow> if invalid_fd fd then sel_table s else (sel_table s)(fd \<mapsto> e\<lparr>it_interest := i\<rparr>))"
proof -
  consider "invalid_fd fd" | "\<not> invalid_fd fd" "sel_table s fd = None"
    | e where "\<not> invalid_fd fd" "sel_table s fd = Some e" by fastforce
  then show ?thesis
  proof cases
    case 1 then show ?thesis
      using assms by (simp add: sel_set_def selector_set_interest_def split: option.splits)
  next
    case 2 then show ?thesis
      using assms set_interest_free [OF assms 2(2)] by (simp add: sel_set_def)
  next
    case 3 then show ?thesis
      using set_interest_used [OF assms 3, of i] by (simp add: sel_set_def)
  qed
qed

lemma sel_set_inv [simp, live]: "sel_inv s \<Longrightarrow> sel_inv (sel_set fd i s)"
  by (simp add: sel_set_cases)

lemma interest_sel_set [simp]:
  "sel_inv s \<Longrightarrow> interest_of (sel_set fd i s) =
     (if invalid_fd fd \<or> interest_of s fd = None then interest_of s else (interest_of s)(fd \<mapsto> i))"
  by (auto simp: sel_set_cases interest_of_def fun_eq_iff split: option.splits)

lemma owner_sel_set [simp]: "sel_inv s \<Longrightarrow> owner_of (sel_set fd i s) = owner_of s"
  by (auto simp: sel_set_cases owner_of_def fun_eq_iff split: option.splits)

lemma owner_interest: "owner_of s fd = Some x \<Longrightarrow> \<exists>i. interest_of s fd = Some i"
  by (auto simp: owner_of_def interest_of_def split: option.splits)

lemma set_interest_live [live]:
  "sel_inv (w_sel w) \<Longrightarrow> set_interest fd i w = Inr (w\<lparr>w_sel := sel_set fd i (w_sel w)\<rparr>)"
  by (simp add: set_interest_def set_interest_status_def sel_set_cases)

lemma set_interest_status_live [live]:
  "sel_inv (w_sel w) \<Longrightarrow> set_interest_status fd i w =
     Inr (if \<not> invalid_fd fd \<and> interest_of (w_sel w) fd \<noteq> None then SELECTOR_SUCCESS else SELECTOR_IARGS,
       w\<lparr>w_sel := sel_set fd i (w_sel w)\<rparr>)"
  by (simp add: set_interest_status_def sel_set_cases interest_of_def)

definition sel_reg :: "int \<Rightarrow> handler \<Rightarrow> fd_interest \<Rightarrow> nat \<Rightarrow> sel \<Rightarrow> sel" where
  "sel_reg fd h i p s =
     (case selector_register True s fd (Some h) i (Some p) of Inr (st, s) \<Rightarrow> s | Inl e \<Rightarrow> s)"

lemma sel_reg_free:
  assumes "sel_inv s" "\<not> invalid_fd fd" "interest_of s fd = None"
  shows "selector_register alloc s fd (Some h) i (Some p) = Inr (SELECTOR_SUCCESS, sel_reg fd h i p s) \<and>
    sel_inv (sel_reg fd h i p s) \<and>
    interest_of (sel_reg fd h i p s) = (interest_of s)(fd \<mapsto> i) \<and>
    owner_of (sel_reg fd h i p s) = (owner_of s)(fd \<mapsto> (h, p))"
proof -
  from assms(3) have free: "sel_table s fd = None" by (simp add: interest_of_def)
  from register_free(1) [OF assms(1,2) free, where alloc = alloc and h = h and interest = i and d = "Some p"]
    register_free(1) [OF assms(1,2) free, where alloc = True and h = h and interest = i and d = "Some p"]
    register_free(2,3) [OF assms(1,2) free, where h = h and interest = i and d = "Some p"] show ?thesis
    by (auto simp: sel_reg_def interest_of_def owner_of_def fun_eq_iff)
qed

lemma register_live [live]:
  assumes "sel_inv (w_sel w)" "\<not> invalid_fd fd" "interest_of (w_sel w) fd = None"
  shows "register_fd fd h i (Some p) w =
    Inr (SELECTOR_SUCCESS, w\<lparr>w_sel := sel_reg fd h i p (w_sel w)\<rparr>)"
proof -
  from assms(1,2) have "\<not> nat fd > fd_size (w_sel w)" by (auto simp: sel_inv_def invalid_fd_def)
  then show ?thesis using sel_reg_free [OF assms] by (simp add: register_fd_def)
qed

text \<open>A descriptor whose handler has no close operation leaves the table and nothing else.\<close>

definition sel_drop :: "int \<Rightarrow> sel \<Rightarrow> sel" where
  "sel_drop fd s =
     (case selector_unregister_fd (\<lambda>_. None) s fd () of Inr (st, s, u) \<Rightarrow> s | Inl e \<Rightarrow> s)"

lemma unregister_close:
  assumes inv: "sel_inv s" and fd: "\<not> invalid_fd fd" and own: "owner_of s fd = Some (h, p)"
    and close: "(case close h of None \<Rightarrow> Inr w | Some f \<Rightarrow> f fd (Some p) w) = Inr w'"
  shows "selector_unregister_fd close s fd w = Inr (SELECTOR_SUCCESS, sel_drop fd s, w')"
    and "sel_inv (sel_drop fd s)" and "sel_table (sel_drop fd s) = (sel_table s)(fd := None)"
proof -
  from own obtain e where e: "sel_table s fd = Some e" "it_handler e = Some h" "it_data e = Some p"
    by (auto simp: owner_of_def split: option.splits)
  obtain s' where s': "selector_unregister_fd (\<lambda>_. None) s fd () = Inr (SELECTOR_SUCCESS, s', ())"
      "sel_inv s'" "sel_table s' = (sel_table s)(fd := None)"
    using unregister_used [OF inv fd e(1,2), where close = "\<lambda>_. None" and w = "()" and w' = "()"] by auto
  then have d: "sel_drop fd s = s'" by (simp add: sel_drop_def)
  with s' show "sel_inv (sel_drop fd s)" "sel_table (sel_drop fd s) = (sel_table s)(fd := None)"
    by simp_all
  have at: "item_used e" "mem_get (fds s) (nat fd) = Inr e" "it_fd e = fd"
    using e(1) table_item [OF inv e(1)] by (auto simp: sel_table_def used_at_def split: if_splits)
  have c: "(case close h of None \<Rightarrow> Inr w | Some f \<Rightarrow> f (it_fd e) (it_data e) w) = Inr w'"
    using close e at(3) by (cases "close h") simp_all
  show "selector_unregister_fd close s fd w = Inr (SELECTOR_SUCCESS, sel_drop fd s, w')"
    using s'(1) c e(2) unfolding d selector_unregister_fd_def if_not_P [OF fd] at(2)
    by (auto simp: at(1) Let_def bind_res_eq_Inr)
qed

lemma sel_drop_tables:
  assumes "sel_inv s" "\<not> invalid_fd fd" "owner_of s fd = Some (h, p)"
  shows "interest_of (sel_drop fd s) = (interest_of s)(fd := None)"
    "owner_of (sel_drop fd s) = (owner_of s)(fd := None)" "sel_inv (sel_drop fd s)"
  using unregister_close [OF assms, where close = "\<lambda>_. None" and w = "()" and w' = "()"]
  by (auto simp: interest_of_def owner_of_def fun_eq_iff)

lemma unregister_origin [live]:
  assumes "sel_inv (w_sel w)" "\<not> invalid_fd fd" "owner_of (w_sel w) fd = Some (h, p)"
    "handler_close h = None"
  shows "unregister_fd fd w = Inr (w\<lparr>w_sel := sel_drop fd (w_sel w)\<rparr>)"
  using unregister_close(1) [OF assms(1-3), where close = handler_close and w = w and w' = w] assms(4)
  by (simp add: unregister_fd_def unregister_def)

lemma unregister_none [live]:
  assumes "sel_inv (w_sel w)" "interest_of (w_sel w) fd = None"
  shows "unregister_fd fd w = Inr w"
  using assms unregister_free [of "w_sel w" fd handler_close w]
  by (simp add: unregister_fd_def unregister_def interest_of_def)

section \<open>Counting and closing\<close>

definition count :: "(server_metrics \<Rightarrow> server_metrics) \<Rightarrow> world \<Rightarrow> world" where
  "count f w = w\<lparr>w_cfg := (w_cfg w)\<lparr>data := (data (w_cfg w))\<lparr>metrics :=
     map_option f (metrics (data (w_cfg w)))\<rparr>\<rparr>\<rparr>"

lemma count_sel [simp, live]:
  "w_sel (count f w) = w_sel w" "w_os (count f w) = w_os w" "w_heap (count f w) = w_heap w"
  "w_resolving (count f w) = w_resolving w" "count f (conn_put p c w) = conn_put p c (count f w)"
  "user_map (w_cfg (count f w)) = user_map (w_cfg w)"
  "metrics (data (w_cfg (count f w))) = map_option f (metrics (data (w_cfg w)))"
  by (simp_all add: count_def conn_put_def)

lemma metrics_upd_live [live]:
  "metrics (data (w_cfg w)) \<noteq> None \<Longrightarrow> metrics_upd f w = Inr (count f w)"
  by (auto simp: metrics_upd_def count_def)

text \<open>What closing the client's descriptor leaves: nobody holds the connection.\<close>

definition closed :: "nat \<Rightarrow> socks5_conn \<Rightarrow> world \<Rightarrow> world" where
  "closed p c w =
     (let w = (if c_client_fd c > 0 then sys_close (c_client_fd c) w else w);
          w = count metrics_dec_curr_conn (if c_origin_fd c > 0 then sys_close (c_origin_fd c) w else w)
      in w\<lparr>w_sel := sel_drop (c_client_fd c) (w_sel w), w_heap := (w_heap w)[p := None]\<rparr>)"

lemma conn_get_closed: "p < length (w_heap w) \<Longrightarrow> conn_get p (closed p c w) = Inl Use_After_Free"
  by (simp add: closed_def conn_get_def Let_def sys_close_def emit_def)

lemma unregister_client [live]:
  assumes "sel_inv (w_sel w)" "\<not> invalid_fd (c_client_fd c)" "p < length (w_heap w)"
    "owner_of (w_sel w) (c_client_fd c) = Some (H_Socks5, p)" "metrics (data (w_cfg w)) \<noteq> None"
  shows "unregister_fd (c_client_fd c) (conn_put p c w) = Inr (closed p c w)"
proof -
  let ?w1 = "if c_client_fd c > 0 then sys_close (c_client_fd c) w else w"
  let ?w2 = "count metrics_dec_curr_conn (if c_origin_fd c > 0 then sys_close (c_origin_fd c) ?w1 else ?w1)"
  have "socksv5_close (c_client_fd c) (Some p) (conn_put p c w) = Inr (?w2\<lparr>w_heap := (w_heap w)[p := None]\<rparr>)"
    using assms(3,5) by (simp add: socksv5_close_def live sys_close_def emit_def Let_def)
  then have "unregister (c_client_fd c) (conn_put p c w) =
      Inr (SELECTOR_SUCCESS, ?w2\<lparr>w_heap := (w_heap w)[p := None], w_sel := sel_drop (c_client_fd c) (w_sel w)\<rparr>)"
    using unregister_close(1) [OF assms(1,2,4), where close = handler_close and w = "conn_put p c w"
        and w' = "?w2\<lparr>w_heap := (w_heap w)[p := None]\<rparr>"]
    by (simp add: unregister_def)
  then show ?thesis
    by (simp add: unregister_fd_def closed_def Let_def sys_close_def emit_def)
qed

section \<open>Writing to the client\<close>

text \<open>The world after the kernel took \<open>k\<close> of the bytes \<open>bs\<close> for \<open>fd\<close>, leaving \<open>q\<close> to come.\<close>

definition sent :: "int \<Rightarrow> byte list \<Rightarrow> send_result list \<Rightarrow> world \<Rightarrow> world" where
  "sent fd bs q w = w\<lparr>w_os := (w_os w)\<lparr>os_send := q, os_trace := os_trace (w_os w) @ [Ev_Send fd bs]\<rparr>\<rparr>"

lemma sent_sel [simp, live]:
  "w_sel (sent fd bs q w) = w_sel w" "w_cfg (sent fd bs q w) = w_cfg w" "w_heap (sent fd bs q w) = w_heap w"
  "w_resolving (sent fd bs q w) = w_resolving w" "sent fd bs q (conn_put p c w) = conn_put p c (sent fd bs q w)"
  "os_alloc (w_os (sent fd bs q w)) = os_alloc (w_os w)" "os_junk (w_os (sent fd bs q w)) = os_junk (w_os w)"
  "os_send (w_os (sent fd bs q w)) = q" "os_recv (w_os (sent fd bs q w)) = os_recv (w_os w)"
  "os_trace (w_os (sent fd bs q w)) = os_trace (w_os w) @ [Ev_Send fd bs]"
  by (simp_all add: sent_def conn_put_def)

lemma sys_send_sent [live]:
  "os_send (w_os w) = Sent k # q \<Longrightarrow> k \<le> length bs \<Longrightarrow>
     sys_send fd bs w = (Sent k, sent fd (take k bs) q w)"
  by (simp add: sys_send_def pop_def emit_def sent_def os_upd_def)

text \<open>The three changes of interest after a send: what is left in the buffers decides.\<close>

definition sel_after_send :: "socks5_conn \<Rightarrow> nat \<Rightarrow> bool \<Rightarrow> sel \<Rightarrow> sel" where
  "sel_after_send c k full s =
     (let s = sel_set (c_client_fd c) (if k < length (pending (c_out c)) then OP_WRITE else OP_READ) s;
          s = (if pending (c_in c) \<noteq> [] then sel_set (c_origin_fd c) OP_WRITE s else s)
      in if full then sel_set (c_origin_fd c) OP_READ s else s)"

lemma sel_after_send_inv [simp, live]: "sel_inv s \<Longrightarrow> sel_inv (sel_after_send c k full s)"
  by (simp add: sel_after_send_def Let_def)

definition run_write :: "key \<Rightarrow> nat \<Rightarrow> step" where
  "run_write key s w =
     (if has_write_handler s
      then bind_res (stm_handler_write write_states (stm_get key) (stm_put key) key w) (\<lambda>(ret, w). Inr w)
      else Inr w)"

definition served :: "socks5_conn \<Rightarrow> nat \<Rightarrow> bool \<Rightarrow> world \<Rightarrow> world" where
  "served c k full w =
     (count (\<lambda>m. metrics_add_bytes m (of_nat k)) w)\<lparr>w_sel := sel_after_send c k full (w_sel w)\<rparr>"

lemma served_sel [simp, live]:
  "w_sel (served c k full w) = sel_after_send c k full (w_sel w)" "w_os (served c k full w) = w_os w"
  "w_heap (served c k full w) = w_heap w" "w_resolving (served c k full w) = w_resolving w"
  "user_map (w_cfg (served c k full w)) = user_map (w_cfg w)"
  "metrics (data (w_cfg (served c k full w))) =
     map_option (\<lambda>m. metrics_add_bytes m (of_nat k)) (metrics (data (w_cfg w)))"
  by (simp_all add: served_def)

lemma send_done_live:
  assumes key: "k_data key = Some p" and p: "p < length (w_heap w)" and sel: "sel_inv (w_sel w)"
    and m: "metrics (data (w_cfg w)) \<noteq> None"
    and out: "buffer_inv (c_out c)" "k \<le> length (pending (c_out c))" and inb: "buffer_inv (c_in c)"
    and st: "c_stm c = Some m'" "current m' = Some s"
  shows "\<exists>b. same_block (c_out c) b \<and> pending b = drop k (pending (c_out c)) \<and> buf_read b = 0 \<and>
    socksv5_send_done key k full (conn_put p c w) =
      run_write key s (conn_put p (c\<lparr>c_out := b\<rparr>) (served c k full w))"
proof -
  obtain b0 where b0: "buffer_read_adv (c_out c) (int k) = Inr b0" "same_block (c_out c) b0"
      "pending b0 = drop k (pending (c_out c))"
    using buffer_read_adv_ok [OF out] by blast
  obtain b where b: "buffer_compact b0 = Inr b" "same_block b0 b" "pending b = pending b0" "buf_read b = 0"
    using buffer_compact_ok [OF same_block_inv [OF b0(2)]] by blast
  have more: "buffer_can_read b0 \<longleftrightarrow> k < length (pending (c_out c))"
    using can_read_pending [OF same_block_inv [OF b0(2)]] b0(3) by auto
  have "socksv5_send_done key k full (conn_put p c w) =
      run_write key s (conn_put p (c\<lparr>c_out := b\<rparr>) (served c k full w))"
    using key p sel m b0(1) b(1) more can_read_pending [OF inb] st
    by (simp add: socksv5_send_done_def live run_write_def served_def sel_after_send_def Let_def)
  with b0 b show ?thesis by (metis same_block_trans)
qed

lemma write_live:
  assumes key: "k_data key = Some p" and p: "p < length (w_heap w)" and sel: "sel_inv (w_sel w)"
    and m: "metrics (data (w_cfg w)) \<noteq> None"
    and out: "buffer_inv (c_out c)" "k \<le> length (pending (c_out c))" and inb: "buffer_inv (c_in c)"
    and st: "c_stm c = Some m'" "current m' = Some s"
    and send: "os_send (w_os w) = Sent k # q" "0 < k"
  shows "\<exists>b. same_block (c_out c) b \<and> pending b = drop k (pending (c_out c)) \<and> buf_read b = 0 \<and>
    socksv5_write key (conn_put p c w) =
      run_write key s (conn_put p (c\<lparr>c_out := b\<rparr>)
        (served c k (c_origin_fd c > 0 \<and> room (c_out c) = 0)
          (sent (c_client_fd c) (take k (pending (c_out c))) q w)))"
proof -
  let ?w = "sent (c_client_fd c) (take k (pending (c_out c))) q w"
  let ?full = "c_origin_fd c > 0 \<and> room (c_out c) = 0"
  have ne: "buffer_can_read (c_out c)" using out send(2) can_read_pending [OF out(1)] by auto
  have "socksv5_write key (conn_put p c w) = socksv5_send_done key k ?full (conn_put p c ?w)"
    using key p ne send out(2) out(1)
    by (simp add: socksv5_write_def live buffer_read_ptr_def buffer_inv_def pending_def [symmetric]
        can_write_room Let_def)
  moreover obtain b where "same_block (c_out c) b" "pending b = drop k (pending (c_out c))" "buf_read b = 0"
      "socksv5_send_done key k ?full (conn_put p c ?w) =
        run_write key s (conn_put p (c\<lparr>c_out := b\<rparr>) (served c k ?full ?w))"
    using send_done_live [of key p ?w c k m' s ?full] key p sel m out inb st by auto
  ultimately show ?thesis by metis
qed

lemma write_nothing [live]:
  "k_data key = Some p \<Longrightarrow> p < length (w_heap w) \<Longrightarrow> sel_inv (w_sel w) \<Longrightarrow> buffer_inv (c_out c) \<Longrightarrow>
   pending (c_out c) = [] \<Longrightarrow>
     socksv5_write key (conn_put p c w) = Inr (conn_put p c (w\<lparr>w_sel := sel_set (c_client_fd c) OP_NOOP (w_sel w)\<rparr>))"
  by (simp add: socksv5_write_def live can_read_pending)

section \<open>The step after a write\<close>

definition machine :: "nat \<Rightarrow> state_machine" where
  "machine s = \<lparr>initial = 0, max_state = 7, current = Some s\<rparr>"

lemma machine_sel [simp, live]:
  "current (machine s) = Some s" "max_state (machine s) = 7" "(machine s)\<lparr>current := Some t\<rparr> = machine t"
  by (simp_all add: machine_def)

lemmas engine_defs = stm_handler_defs handle_first_def jump_def depart_def arrive_def

text \<open>The parsers of the next states, as their arrival makes them.\<close>

definition new_auth :: "world \<Rightarrow> auth_parser option" where
  "new_auth w = auth_parser_init True True (os_junk (w_os w)) (os_junk (w_os w))"

definition new_req :: "world \<Rightarrow> conn_req_parser option" where
  "new_req w = conn_req_parser_init True True (os_junk (w_os w))"

lemma write_after_greeting:
  assumes "k_data key = Some p" "p < length (w_heap w)" "os_alloc (w_os w) = []"
    and "c_stm c = Some (machine 0)" "c_handshake c = Some h" "\<not> c_is_error_response c"
  shows "run_write key 0 (conn_put p c w) = Inr (conn_put p
    (if user_pass_auth h then c\<lparr>c_handshake := None, c_stm := Some (machine 1), c_auth := new_auth w\<rparr>
     else c\<lparr>c_handshake := None, c_stm := Some (machine 2), c_req := new_req w\<rparr>) w)"
  using assms
  by (simp add: run_write_def has_write_handler_def engine_defs write_states_def live handshake_write_def
      handshake_on_departure_def auth_on_arrival_def connection_req_on_arrival_def new_auth_def new_req_def Let_def)

text \<open>With the error flag up, the write of a reply closes the connection, from every state that answers.\<close>

definition state_parser :: "nat \<Rightarrow> socks5_conn \<Rightarrow> bool" where
  "state_parser s c \<longleftrightarrow>
     s = 0 \<and> c_handshake c \<noteq> None \<or> s = 1 \<and> c_auth c \<noteq> None \<or> s = 2 \<and> c_req c \<noteq> None \<or> s = 3"

lemma closed_fds: "c_client_fd c = c_client_fd d \<Longrightarrow> c_origin_fd c = c_origin_fd d \<Longrightarrow> closed p c w = closed p d w"
  by (simp add: closed_def)

lemma write_after_error:
  assumes key: "k_data key = Some p" "p < length (w_heap w)" and sel: "sel_inv (w_sel w)"
    and m: "metrics (data (w_cfg w)) \<noteq> None"
    and fd: "0 < c_client_fd c" "\<not> invalid_fd (c_client_fd c)"
      "owner_of (w_sel w) (c_client_fd c) = Some (H_Socks5, p)" "c_origin_fd c \<le> 0"
    and st: "c_stm c = Some (machine s)" "state_parser s c" "c_is_error_response c"
  shows "run_write key s (conn_put p c w) = Inr (closed p c w)"
proof -
  have unreg: "unregister_fd (c_client_fd c) (conn_put p d w) = Inr (closed p c w)"
    if "c_client_fd d = c_client_fd c" "c_origin_fd d = c_origin_fd c" for d
    using unregister_client [of w d p] that sel fd key m closed_fds [of d c p w] by simp
  show ?thesis
    using st(2) unfolding state_parser_def
    by (elim disjE conjE exE)
       (use key fd st unreg in \<open>auto simp: run_write_def has_write_handler_def engine_defs write_states_def live
          handshake_write_def auth_write_def connection_req_write_def connecting_write_def
          handshake_on_departure_def auth_on_departure_def connection_req_on_departure_def
          handle_error_def close_both_def split: option.splits\<close>)
qed

lemma write_after_login:
  assumes "k_data key = Some p" "p < length (w_heap w)" "os_alloc (w_os w) = []"
    and "c_stm c = Some (machine 1)" "c_auth c \<noteq> None" "\<not> c_is_error_response c"
  shows "run_write key 1 (conn_put p c w) =
    Inr (conn_put p (c\<lparr>c_auth := None, c_stm := Some (machine 2), c_req := new_req w\<rparr>) w)"
  using assms
  by (auto simp: run_write_def has_write_handler_def engine_defs write_states_def live auth_write_def
      auth_on_departure_def connection_req_on_arrival_def new_req_def Let_def)

end
