(* ===== verification/Negotiation.thy ===== *)
theory Negotiation
  imports Handler_Facts
begin

text \<open>
  What the three stages of the negotiation share: the loops that feed the parsers from the
  input buffer, the connection between two messages, the world after a reply, and one
  read event.
\<close>

section \<open>The loops\<close>

text \<open>
  The three loops share a contract.  \<open>body\<close> takes the next byte of the input buffer, feeds it to
  the parser, and goes on where the status says neither that the message is complete nor
  that it is wrong; a wrong message ends the loop in the error state; a fault of the
  parser is a fault of the handler.
\<close>

locale byte_reader =
  fixes body :: "key \<Rightarrow> world \<Rightarrow> loop_step res"
    and parser :: "socks5_conn \<Rightarrow> 'p option"
    and store :: "'p \<Rightarrow> socks5_conn \<Rightarrow> socks5_conn"
    and feed :: "'p \<Rightarrow> byte \<Rightarrow> ('p \<times> 's) res"
    and finished :: "'s \<Rightarrow> bool"
    and wrong :: "'s \<Rightarrow> bool"
    and answer :: "key \<Rightarrow> nat \<Rightarrow> 'p \<Rightarrow> world \<Rightarrow> loop_step res"
  assumes next_byte:
      "k_data key = Some p \<Longrightarrow> p < length (w_heap w) \<Longrightarrow> parser c = Some h \<Longrightarrow>
       buffer_read (c_in c) = Inr (x, b) \<Longrightarrow> feed h x = Inr (h', st) \<Longrightarrow> \<not> finished st \<Longrightarrow>
       body key (conn_put p c w) =
         Inr (if wrong st then Return (code SOCKS5_ERROR) (conn_put p (store h' (c\<lparr>c_in := b\<rparr>)) w)
              else Continue (conn_put p (store h' (c\<lparr>c_in := b\<rparr>)) w))"
    and last_byte:
      "k_data key = Some p \<Longrightarrow> p < length (w_heap w) \<Longrightarrow> parser c = Some h \<Longrightarrow>
       buffer_read (c_in c) = Inr (x, b) \<Longrightarrow> feed h x = Inr (h', st) \<Longrightarrow> finished st \<Longrightarrow>
       body key (conn_put p c w) = answer key p h' (conn_put p (store h' (c\<lparr>c_in := b\<rparr>)) w)"
    and bad_byte:
      "k_data key = Some p \<Longrightarrow> p < length (w_heap w) \<Longrightarrow> parser c = Some h \<Longrightarrow>
       buffer_read (c_in c) = Inr (x, b) \<Longrightarrow> feed h x = Inl e \<Longrightarrow> body key (conn_put p c w) = Inl e"
    and no_parser:
      "k_data key = Some p \<Longrightarrow> p < length (w_heap w) \<Longrightarrow> parser c = None \<Longrightarrow>
       buffer_read (c_in c) = Inr (x, b) \<Longrightarrow> body key (conn_put p c w) = Inl Null_Deref"
    and parser_store: "parser (store h c) = Some h"
    and store_in: "c_in (store h c) = c_in c" "(store h c)\<lparr>c_in := b\<rparr> = store h (c\<lparr>c_in := b\<rparr>)"
    and store_store: "store h (store h' c) = store h c"
    and store_same: "parser c = Some h \<Longrightarrow> store h c = c"
begin

lemma loop_Cons:
  assumes "k_data key = Some p" "p < length (w_heap w)" "buffer_inv (c_in c)" "pending (c_in c) = x # xs"
  shows "\<exists>b. buffer_read (c_in c) = Inr (x, b) \<and> same_block (c_in c) b \<and> pending b = xs \<and>
    read_loop body fin (Suc n) key (conn_put p c w) =
      bind_res (body key (conn_put p c w))
        (\<lambda>s. case s of Continue w \<Rightarrow> read_loop body fin n key w | Return st w \<Rightarrow> Inr (st, w))"
proof -
  obtain b where "buffer_read (c_in c) = Inr (x, b)" "same_block (c_in c) b" "pending b = xs"
    using buffer_read_Cons [OF assms(3,4)] by blast
  then show ?thesis using assms by (simp add: live can_read_pending)
qed

lemma loop_empty:
  assumes "k_data key = Some p" "p < length (w_heap w)" "buffer_inv (c_in c)" "pending (c_in c) = []"
  shows "read_loop body fin n key (conn_put p c w) = fin key (conn_put p c w)"
  using assms by (cases n) (simp_all add: live can_read_pending)

text \<open>The part of a message before its last byte is consumed, whatever follows it.\<close>

lemma loop_prefix:
  "k_data key = Some p \<Longrightarrow> p < length (w_heap w) \<Longrightarrow> parser c = Some h \<Longrightarrow> buffer_inv (c_in c) \<Longrightarrow>
   pending (c_in c) = cs @ ys \<Longrightarrow> feeds feed h cs = Inr (h', sts) \<Longrightarrow>
   \<forall>st \<in> set sts. \<not> finished st \<and> \<not> wrong st \<Longrightarrow>
     \<exists>b. same_block (c_in c) b \<and> pending b = ys \<and>
       read_loop body fin (length cs + n) key (conn_put p c w) =
       read_loop body fin n key (conn_put p (store h' (c\<lparr>c_in := b\<rparr>)) w)"
proof (induction cs arbitrary: c h sts)
  case Nil
  then show ?case by (intro exI [of _ "c_in c"]) (simp add: store_same same_block_def)
next
  case (Cons x cs)
  obtain h1 st ss where f: "feed h x = Inr (h1, st)" "feeds feed h1 cs = Inr (h', ss)" "sts = st # ss"
    using Cons.prems(6) by (auto simp: bind_res_eq_Inr)
  obtain b where b: "buffer_read (c_in c) = Inr (x, b)" "same_block (c_in c) b" "pending b = cs @ ys"
      "read_loop body fin (Suc (length cs + n)) key (conn_put p c w) =
        bind_res (body key (conn_put p c w))
          (\<lambda>s. case s of Continue w \<Rightarrow> read_loop body fin (length cs + n) key w | Return st w \<Rightarrow> Inr (st, w))"
    using loop_Cons [OF Cons.prems(1,2,4), of x "cs @ ys" fin "length cs + n"] Cons.prems(5) by auto
  let ?c = "store h1 (c\<lparr>c_in := b\<rparr>)"
  have one: "read_loop body fin (length (x # cs) + n) key (conn_put p c w) =
      read_loop body fin (length cs + n) key (conn_put p ?c w)"
    using b(4) next_byte [OF Cons.prems(1-3) b(1) f(1)] Cons.prems(7) f(3) by simp
  have "parser ?c = Some h1" "buffer_inv (c_in ?c)" "pending (c_in ?c) = cs @ ys"
    using b by (simp_all add: parser_store store_in same_block_inv)
  from Cons.IH [OF Cons.prems(1,2) this f(2)] Cons.prems(7) f(3) obtain b' where
    "same_block (c_in ?c) b'" "pending b' = ys"
    "read_loop body fin (length cs + n) key (conn_put p ?c w) =
      read_loop body fin n key (conn_put p (store h' (?c\<lparr>c_in := b'\<rparr>)) w)" by auto
  with one b(2) show ?case
    by (intro exI [of _ b']) (auto simp: store_in store_store intro: same_block_trans)
qed

text \<open>A complete message is consumed to its last byte and answered.\<close>

lemma loop_message:
  assumes key: "k_data key = Some p" "p < length (w_heap w)" and h: "parser c = Some h"
    and inb: "buffer_inv (c_in c)" "pending (c_in c) = bs @ ys"
    and fed: "feeds feed h bs = Inr (h', sts @ [st])" "\<forall>st \<in> set sts. \<not> finished st \<and> \<not> wrong st" "finished st"
  shows "\<exists>b. same_block (c_in c) b \<and> pending b = ys \<and> (ys = [] \<longrightarrow> buf_write b = 0) \<and>
    read_loop body fin (length bs + n) key (conn_put p c w) =
      bind_res (answer key p h' (conn_put p (store h' (c\<lparr>c_in := b\<rparr>)) w))
        (\<lambda>s. case s of Continue w \<Rightarrow> read_loop body fin n key w | Return st w \<Rightarrow> Inr (st, w))"
proof -
  obtain cs x h1 where m: "bs = cs @ [x]" "feeds feed h cs = Inr (h1, sts)" "feed h1 x = Inr (h', st)"
    using feeds_snoc [OF fed(1)] by blast
  from inb(2) m(1) have in': "pending (c_in c) = cs @ x # ys" by simp
  obtain b where b: "same_block (c_in c) b" "pending b = x # ys"
    "read_loop body fin (length cs + Suc n) key (conn_put p c w) =
      read_loop body fin (Suc n) key (conn_put p (store h1 (c\<lparr>c_in := b\<rparr>)) w)"
    using loop_prefix [OF key h inb(1) in' m(2) fed(2), of fin "Suc n"] by blast
  let ?c = "store h1 (c\<lparr>c_in := b\<rparr>)"
  have c: "parser ?c = Some h1" "buffer_inv (c_in ?c)" "pending (c_in ?c) = x # ys"
    using b by (simp_all add: parser_store store_in same_block_inv)
  obtain b' where b': "buffer_read (c_in ?c) = Inr (x, b')" "same_block (c_in ?c) b'" "pending b' = ys"
      "read_loop body fin (Suc n) key (conn_put p ?c w) =
        bind_res (body key (conn_put p ?c w))
          (\<lambda>s. case s of Continue w \<Rightarrow> read_loop body fin n key w | Return st w \<Rightarrow> Inr (st, w))"
    using loop_Cons [OF key c(2,3), of fin n] by blast
  show ?thesis
    using b b' m(1) last_byte [OF key c(1) b'(1) m(3) fed(3)] buffer_read_last [OF c(2) _ b'(1)] c(3)
    by (intro exI [of _ b']) (auto simp: store_in store_store intro: same_block_trans)
qed

text \<open>A wrong byte after such a part ends the loop; a byte the parser cannot take is a fault.\<close>

lemma loop_wrong:
  assumes key: "k_data key = Some p" "p < length (w_heap w)" and h: "parser c = Some h"
    and inb: "buffer_inv (c_in c)" "pending (c_in c) = cs @ x # ys"
    and fed: "feeds feed h cs = Inr (h', sts)" "\<forall>st \<in> set sts. \<not> finished st \<and> \<not> wrong st"
    and x: "feed h' x = Inr (h'', st)" "\<not> finished st" "wrong st"
  shows "\<exists>b. same_block (c_in c) b \<and> pending b = ys \<and>
    read_loop body fin (length cs + Suc n) key (conn_put p c w) =
      Inr (code SOCKS5_ERROR, conn_put p (store h'' (c\<lparr>c_in := b\<rparr>)) w)"
proof -
  obtain b where b: "same_block (c_in c) b" "pending b = x # ys"
    "read_loop body fin (length cs + Suc n) key (conn_put p c w) =
      read_loop body fin (Suc n) key (conn_put p (store h' (c\<lparr>c_in := b\<rparr>)) w)"
    using loop_prefix [OF key h inb fed, of fin "Suc n"] by blast
  let ?c = "store h' (c\<lparr>c_in := b\<rparr>)"
  have c: "parser ?c = Some h'" "buffer_inv (c_in ?c)" "pending (c_in ?c) = x # ys"
    using b by (simp_all add: parser_store store_in same_block_inv)
  obtain b' where b': "buffer_read (c_in ?c) = Inr (x, b')" "same_block (c_in ?c) b'" "pending b' = ys"
      "read_loop body fin (Suc n) key (conn_put p ?c w) =
        bind_res (body key (conn_put p ?c w))
          (\<lambda>s. case s of Continue w \<Rightarrow> read_loop body fin n key w | Return st w \<Rightarrow> Inr (st, w))"
    using loop_Cons [OF key c(2,3), of fin n] by blast
  show ?thesis
    using b b' next_byte [OF key c(1) b'(1) x(1,2)] x(3)
    by (intro exI [of _ b']) (auto simp: store_in store_store intro: same_block_trans)
qed

lemma loop_bad:
  assumes key: "k_data key = Some p" "p < length (w_heap w)" and h: "parser c = Some h"
    and inb: "buffer_inv (c_in c)" "pending (c_in c) = cs @ x # ys"
    and fed: "feeds feed h cs = Inr (h', sts)" "\<forall>st \<in> set sts. \<not> finished st \<and> \<not> wrong st"
    and x: "feed h' x = Inl e"
  shows "read_loop body fin (length cs + Suc n) key (conn_put p c w) = Inl e"
proof -
  obtain b where b: "same_block (c_in c) b" "pending b = x # ys"
    "read_loop body fin (length cs + Suc n) key (conn_put p c w) =
      read_loop body fin (Suc n) key (conn_put p (store h' (c\<lparr>c_in := b\<rparr>)) w)"
    using loop_prefix [OF key h inb fed, of fin "Suc n"] by blast
  let ?c = "store h' (c\<lparr>c_in := b\<rparr>)"
  have c: "parser ?c = Some h'" "buffer_inv (c_in ?c)" "pending (c_in ?c) = x # ys"
    using b by (simp_all add: parser_store store_in same_block_inv)
  obtain b' where b': "buffer_read (c_in ?c) = Inr (x, b')"
      "read_loop body fin (Suc n) key (conn_put p ?c w) =
        bind_res (body key (conn_put p ?c w))
          (\<lambda>s. case s of Continue w \<Rightarrow> read_loop body fin n key w | Return st w \<Rightarrow> Inr (st, w))"
    using loop_Cons [OF key c(2,3), of fin n] by blast
  with b bad_byte [OF key c(1) b'(1) x] show ?thesis by simp
qed

end

interpretation greeting: byte_reader handshake_byte c_handshake "\<lambda>h c. c\<lparr>c_handshake := Some h\<rparr>"
  handshake_parser_feed "\<lambda>st. st = HANDSHAKE_DONE" "\<lambda>st. st = HANDSHAKE_ERROR"
  "\<lambda>key p h w. bind_res (greeting_answer key p h w) (\<lambda>w. Inr (Continue w))"
  by unfold_locales (auto simp: handshake_byte_def next_in_def live)

interpretation login: byte_reader auth_byte c_auth "\<lambda>h c. c\<lparr>c_auth := Some h\<rparr>"
  auth_parser_feed "\<lambda>st. st = AUTH_DONE" "\<lambda>st. st = AUTH_ERROR"
  "\<lambda>key p a w. bind_res (login_answer key p a w) (\<lambda>w. Inr (Continue w))"
  by unfold_locales (auto simp: auth_byte_def next_in_def live)

interpretation request: byte_reader conn_req_byte c_req "\<lambda>h c. c\<lparr>c_req := Some h\<rparr>"
  conn_req_parser_feed "\<lambda>st. st = CONN_REQ_DONE" "\<lambda>st. st = CONN_REQ_ERROR"
  request_received
  by unfold_locales (auto simp: conn_req_byte_def next_in_def live)

section \<open>A connection between two messages\<close>

text \<open>
  The connection \<open>p\<close> of the client behind \<open>key\<close>, with no origin yet, both buffers empty, and the
  client registered for it; the rest of the world is sound: the selector's invariant holds,
  the metrics exist, memory is there, and what \<open>malloc\<close> returns has the size asked for.
\<close>

definition idle :: "buffer \<Rightarrow> bool" where
  "idle b \<longleftrightarrow> buffer_inv b \<and> pending b = [] \<and> buf_write b = 0"

definition sound :: "world \<Rightarrow> bool" where
  "sound w \<longleftrightarrow> sel_inv (w_sel w) \<and> metrics (data (w_cfg w)) \<noteq> None \<and> os_alloc (w_os w) = [] \<and>
     256 \<le> length (os_junk (w_os w))"

definition connected :: "key \<Rightarrow> nat \<Rightarrow> socks5_conn \<Rightarrow> world \<Rightarrow> bool" where
  "connected key p c w \<longleftrightarrow>
     k_data key = Some p \<and> conn_get p w = Inr c \<and> c_client_fd c = k_fd key \<and> c_origin_fd c = 0 \<and>
     0 < k_fd key \<and> \<not> invalid_fd (k_fd key) \<and> owner_of (w_sel w) (k_fd key) = Some (H_Socks5, p) \<and>
     idle (c_in c) \<and> idle (c_out c) \<and> 2 \<le> buf_limit (c_out c) \<and> sound w"

definition accepted :: "key \<Rightarrow> nat \<Rightarrow> socks5_conn \<Rightarrow> world \<Rightarrow> bool" where
  "accepted key p c w \<longleftrightarrow> connected key p c w \<and> c_stm c = socks5_stm_init True"

text \<open>Waiting for a message of state \<open>s\<close>, the parser of that state being fresh.\<close>

definition awaiting :: "nat \<Rightarrow> key \<Rightarrow> nat \<Rightarrow> socks5_conn \<Rightarrow> world \<Rightarrow> bool" where
  "awaiting s key p c w \<longleftrightarrow> connected key p c w \<and> c_stm c = Some (machine s) \<and>
     (s = 0 \<longrightarrow> (\<exists>h. c_handshake c = Some h \<and> handshake_after [] h)) \<and>
     (s = 1 \<longrightarrow> (\<exists>h. c_auth c = Some h \<and> auth_rel AV_Start h)) \<and>
     (s = 2 \<longrightarrow> (\<exists>h. c_req c = Some h \<and> conn_rel CV_Start h))"

lemma idle_room: "idle b \<Longrightarrow> room b = buf_limit b"
  by (simp add: idle_def room_def)

lemma idle_block: "same_block b b' \<Longrightarrow> pending b' = [] \<Longrightarrow> buf_write b' = 0 \<Longrightarrow> idle b'"
  by (simp add: idle_def same_block_def)

lemma emptied: "buffer_inv b \<Longrightarrow> pending b = [] \<Longrightarrow> buf_read b = 0 \<Longrightarrow> buf_write b = 0"
  using length_pending [of b] by simp

lemma new_auth_start: "256 \<le> length (os_junk (w_os w)) \<Longrightarrow> \<exists>h. new_auth w = Some h \<and> auth_rel AV_Start h"
  using auth_rel_init [of "os_junk (w_os w)" "os_junk (w_os w)"]
  by (auto simp: new_auth_def auth_parser_init_def)

lemma new_req_start: "256 \<le> length (os_junk (w_os w)) \<Longrightarrow> \<exists>h. new_req w = Some h \<and> conn_rel CV_Start h"
  using conn_rel_init [of "os_junk (w_os w)"]
  by (auto simp: new_req_def conn_req_parser_init_def)

section \<open>A reply\<close>

text \<open>
  The world after a reply \<open>r\<close> was sent, the kernel having taken \<open>k\<close> bytes: \<open>left\<close> tells whether
  input is left, in which case the code wants to write to descriptor 0, the origin that is
  not there yet.
\<close>

definition replied :: "int \<Rightarrow> nat \<Rightarrow> byte list \<Rightarrow> bool \<Rightarrow> send_result list \<Rightarrow> world \<Rightarrow> world" where
  "replied fd k r left q w =
     (count (\<lambda>m. metrics_add_bytes m (of_nat k)) (sent fd (take k r) q w))
       \<lparr>w_sel := (let s = sel_set fd (if k < length r then OP_WRITE else OP_READ) (sel_set fd OP_WRITE (w_sel w))
                  in if left then sel_set 0 OP_WRITE s else s)\<rparr>"

lemma replied_sel [simp, live]:
  "w_os (replied fd k r left q w) = w_os (sent fd (take k r) q w)"
  "w_heap (replied fd k r left q w) = w_heap w" "w_resolving (replied fd k r left q w) = w_resolving w"
  "user_map (w_cfg (replied fd k r left q w)) = user_map (w_cfg w)"
  "metrics (data (w_cfg (replied fd k r left q w))) =
     map_option (\<lambda>m. metrics_add_bytes m (of_nat k)) (metrics (data (w_cfg w)))"
  by (simp_all add: replied_def)

lemma replied_selector:
  assumes "sel_inv (w_sel w)" "\<not> invalid_fd fd" "owner_of (w_sel w) fd = Some x"
  shows "sel_inv (w_sel (replied fd k r left q w))"
    "owner_of (w_sel (replied fd k r left q w)) = owner_of (w_sel w)"
    "fd \<noteq> 0 \<Longrightarrow> interest_of (w_sel (replied fd k r left q w)) fd = Some (if k < length r then OP_WRITE else OP_READ)"
  using assms owner_interest [OF assms(3)] by (auto simp: replied_def Let_def)

lemma replied_sound:
  "sound w \<Longrightarrow> \<not> invalid_fd fd \<Longrightarrow> owner_of (w_sel w) fd = Some x \<Longrightarrow> sound (replied fd k r left q w)"
  by (simp add: sound_def replied_selector)

lemma reply_sent:
  assumes key: "k_data key = Some p" "p < length (w_heap w)" and sound: "sound w"
    and fds: "c_client_fd c = fd" "c_origin_fd c = 0"
    and bufs: "buffer_inv (c_in c)" "buffer_inv (c_out c)" "pending (c_out c) = r"
    and st: "c_stm c = Some (machine s)"
    and send: "os_send (w_os w) = Sent k # q" "0 < k" "k \<le> length r"
  shows "\<exists>b. same_block (c_out c) b \<and> pending b = drop k r \<and> buf_read b = 0 \<and>
    socksv5_write key (conn_put p c (w\<lparr>w_sel := sel_set fd OP_WRITE (w_sel w)\<rparr>)) =
      run_write key s (conn_put p (c\<lparr>c_out := b\<rparr>) (replied fd k r (pending (c_in c) \<noteq> []) q w))"
proof -
  let ?w = "w\<lparr>w_sel := sel_set fd OP_WRITE (w_sel w)\<rparr>"
  obtain b where b: "same_block (c_out c) b" "pending b = drop k (pending (c_out c))" "buf_read b = 0"
      "socksv5_write key (conn_put p c ?w) = run_write key s (conn_put p (c\<lparr>c_out := b\<rparr>)
        (served c k (c_origin_fd c > 0 \<and> room (c_out c) = 0)
          (sent (c_client_fd c) (take k (pending (c_out c))) q ?w)))"
    using write_live [of key p ?w c k "machine s" s q] assms by (auto simp: sound_def)
  moreover have "served c k False (sent fd (take k r) q ?w) = replied fd k r (pending (c_in c) \<noteq> []) q w"
    using fds bufs(3) by (simp add: served_def replied_def sel_after_send_def count_def sent_def Let_def)
  ultimately show ?thesis using fds bufs by auto
qed

section \<open>One read event\<close>

text \<open>The world after the kernel delivered the next bytes to \<open>fd\<close>.\<close>

fun bytes_of :: "recv_result \<Rightarrow> byte list" where
  "bytes_of (Recv bs) = bs"
| "bytes_of Recv_Closed = []"
| "bytes_of (Recv_Error e) = []"

definition received :: "int \<Rightarrow> world \<Rightarrow> world" where
  "received fd w = w\<lparr>w_os := (w_os w)\<lparr>os_recv := tl (os_recv (w_os w)),
     os_trace := os_trace (w_os w) @ [Ev_Recv fd (bytes_of (hd (os_recv (w_os w))))]\<rparr>\<rparr>"

lemma received_sel [simp, live]:
  "w_sel (received fd w) = w_sel w" "w_cfg (received fd w) = w_cfg w" "w_heap (received fd w) = w_heap w"
  "w_resolving (received fd w) = w_resolving w" "received fd (conn_put p c w) = conn_put p c (received fd w)"
  "os_alloc (w_os (received fd w)) = os_alloc (w_os w)" "os_junk (w_os (received fd w)) = os_junk (w_os w)"
  "os_send (w_os (received fd w)) = os_send (w_os w)" "sound (received fd w) = sound w"
  "os_trace (w_os (received fd w)) = os_trace (w_os w) @ [Ev_Recv fd (bytes_of (hd (os_recv (w_os w))))]"
  by (simp_all add: received_def conn_put_def sound_def)

lemma sys_recv_bytes [live]:
  "os_recv (w_os w) = Recv bs # rs \<Longrightarrow> bs \<noteq> [] \<Longrightarrow> length bs \<le> n \<Longrightarrow>
     sys_recv fd n w = (Recv bs, received fd w)"
  by (auto simp: sys_recv_def pop_def received_def os_upd_def emit_def)

definition count_error :: "nat \<times> world \<Rightarrow> world res" where
  "count_error = (\<lambda>(state, w). if state = code SOCKS5_ERROR then metrics_upd metrics_inc_errors w else Inr w)"

lemma read_event:
  assumes key: "k_data key = Some p" "p < length (w_heap w)"
    and inb: "buffer_inv (c_in c)" "0 < length bs" "length bs \<le> room (c_in c)"
    and recv: "os_recv (w_os w) = Recv bs # rs"
  shows "\<exists>b. same_block (c_in c) b \<and> pending b = pending (c_in c) @ bs \<and>
    socksv5_read key (conn_put p c w) =
      bind_res (run_read key (conn_put p (c\<lparr>c_in := b\<rparr>) (received (k_fd key) w))) count_error"
proof -
  obtain b where b: "buffer_recv (c_in c) bs = Inr b" "same_block (c_in c) b" "pending b = pending (c_in c) @ bs"
    using buffer_recv_ok [OF inb(1,3)] by blast
  have "0 < room (c_in c)" using inb by linarith
  with inb(1) have can: "buffer_can_write (c_in c)" "buf_write (c_in c) \<le> buf_limit (c_in c)"
    by (simp_all add: can_write_room buffer_inv_def)
  have "sys_recv (k_fd key) (room (c_in c)) (conn_put p c w) = (Recv bs, conn_put p c (received (k_fd key) w))"
    using recv inb by (subst sys_recv_bytes) auto
  with can b(1) key have "socksv5_read key (conn_put p c w) =
      bind_res (run_read key (conn_put p (c\<lparr>c_in := b\<rparr>) (received (k_fd key) w))) count_error"
    by (simp add: socksv5_read_def live buffer_write_ptr_def room_def count_error_def)
  with b show ?thesis by blast
qed

lemma run_read_first:
  assumes "k_data key = Some p" "p < length (w_heap w)" "os_alloc (w_os w) = []" "c_stm c = socks5_stm_init True"
  shows "run_read key (conn_put p c w) =
    run_read key (conn_put p (c\<lparr>c_stm := Some (machine 0), c_handshake := handshake_parser_init True True\<rparr>) w)"
proof -
  have m: "\<lparr>initial = 0, max_state = 7, current = Some 0\<rparr> = machine 0" by (simp add: machine_def)
  show ?thesis
    using assms by (simp add: run_read_def engine_defs socks5_states_def socks5_stm_init_def live
        handshake_on_arrival_def m)
qed

lemma run_read_state:
  assumes "k_data key = Some p" "p < length (w_heap w)" "c_stm c = Some (machine s)" "s < 7"
    and "on_read_ready (socks5_states ! s) = Some f"
  shows "run_read key (conn_put p c w) =
    bind_res (f key (conn_put p c w)) (\<lambda>(ret, w).
      bind_res (jump socks5_states (stm_get key) (stm_put key) ret key w) (\<lambda>w. Inr (ret, w)))"
  using assms by (simp add: run_read_def engine_defs socks5_states_def live)

lemma jump_stay [live]:
  "k_data key = Some p \<Longrightarrow> p < length (w_heap w) \<Longrightarrow> c_stm c = Some (machine s) \<Longrightarrow> s < 7 \<Longrightarrow>
     jump sts (stm_get key) (stm_put key) s key (conn_put p c w) = Inr (conn_put p c w)"
  by (rule jump_self [where m = "machine s"]) (simp_all add: live)

lemma read_handlers [live]:
  "on_read_ready (socks5_states ! 0) = Some handshake_read"
  "on_read_ready (socks5_states ! Suc 0) = Some auth_read"
  "on_read_ready (socks5_states ! 2) = Some connection_req_read"
  "on_read_ready (socks5_states ! 3) = Some connecting_read"
  "on_read_ready (socks5_states ! 4) = Some copy_read"
  by (simp_all add: socks5_states_def live)

lemma buffered_live:
  "k_data key = Some p \<Longrightarrow> p < length (w_heap w) \<Longrightarrow> buffer_inv (c_in c) \<Longrightarrow>
     buffered key (conn_put p c w) = length (pending (c_in c))"
  by (simp add: buffered_def live length_pending)

text \<open>The end of a loop whose messages were answered and that has nothing left to read.\<close>

lemma loop_ends:
  assumes "k_data key = Some p" "p < length (w_heap w)" "buffer_inv (c_in c)" "pending (c_in c) = []"
    "c_stm c = Some (machine s)"
  shows "read_loop body return_current n key (conn_put p c w) = Inr (s, conn_put p c w)"
  using assms by (cases n) (simp_all add: live can_read_pending return_current_def)

lemma accepted_live:
  assumes "accepted key p c w"
  shows "k_data key = Some p" "p < length (w_heap w)" "conn_put p c w = w" "sound w"
    "c_client_fd c = k_fd key" "c_origin_fd c = 0" "idle (c_in c)" "idle (c_out c)" "2 \<le> buf_limit (c_out c)"
    "c_stm c = socks5_stm_init True" "\<not> invalid_fd (k_fd key)"
    "owner_of (w_sel w) (k_fd key) = Some (H_Socks5, p)" "0 < k_fd key"
  using assms by (simp_all add: accepted_def connected_def conn_put_self conn_get_Inr)

lemma awaiting_live:
  assumes "awaiting s key p c w"
  shows "k_data key = Some p" "p < length (w_heap w)" "conn_put p c w = w" "sound w"
    "c_client_fd c = k_fd key" "c_origin_fd c = 0" "idle (c_in c)" "idle (c_out c)" "2 \<le> buf_limit (c_out c)"
    "c_stm c = Some (machine s)" "\<not> invalid_fd (k_fd key)"
    "owner_of (w_sel w) (k_fd key) = Some (H_Socks5, p)" "0 < k_fd key"
  using assms by (simp_all add: awaiting_def connected_def conn_put_self conn_get_Inr)

lemma awaiting_next:
  assumes "sound w" "k_data key = Some p" "p < length (w_heap w)" "0 < k_fd key" "\<not> invalid_fd (k_fd key)"
    "owner_of (w_sel w) (k_fd key) = Some (H_Socks5, p)" "c_client_fd c = k_fd key" "c_origin_fd c = 0"
    "idle (c_in c)" "idle (c_out c)" "2 \<le> buf_limit (c_out c)" "c_stm c = Some (machine s)" "s \<noteq> 0"
    "s = 1 \<longrightarrow> (\<exists>h. c_auth c = Some h \<and> auth_rel AV_Start h)"
    "s = 2 \<longrightarrow> (\<exists>h. c_req c = Some h \<and> conn_rel CV_Start h)"
  shows "awaiting s key p c (conn_put p c w)"
  using assms by (simp add: awaiting_def connected_def sound_def)

section \<open>A sample world\<close>

text \<open>One connection at index 0 with its client on descriptor 5, the users \<open>u\<close>, and a scripted kernel.\<close>

definition sample_world :: "sel \<Rightarrow> socks5_conn \<Rightarrow> hashmap \<Rightarrow> recv_result list \<Rightarrow> send_result list \<Rightarrow> world" where
  "sample_world s c u rs ss =
     \<lparr>w_sel = s, w_heap = [Some c], w_admin = [],
      w_cfg = \<lparr>parsed_cmd = fresh_parsed, user_map = u,
        data = \<lparr>metrics = Some metrics_init,
                access_reg = Some (access_register_init (replicate REGISTER_MAX_ENTRIES (make_entry [] [] 0 [] 0 0 0))),
                buffer_size = 4096, max_conn = 500\<rparr>,
        log = log_start\<rparr>,
      w_os = \<lparr>os_recv = rs, os_send = ss, os_accept = [], os_alloc = [], os_socket = [], os_nonblock = [], os_bind = [], os_listen = [],
        os_connect = [], os_sockopt = [], os_resolve = [], os_thread = [], os_errno = 0, os_clock = 0,
        os_junk = replicate 256 0, os_sockname = (\<lambda>fd. Sock_Other), os_ntop6 = (\<lambda>a. None), os_trace = []\<rparr>,
      w_resolving = []\<rparr>"

definition sample_conn :: socks5_conn where
  "sample_conn = zero_conn\<lparr>c_client_fd := 5, c_in := buffer_init 64 (replicate 64 0),
     c_out := buffer_init 64 (replicate 64 0)\<rparr>"

definition sample_key :: key where "sample_key = \<lparr>k_fd = 5, k_data = Some 0\<rparr>"

lemma sample_key_sel [simp]: "k_fd sample_key = 5" "k_data sample_key = Some 0"
  by (simp_all add: sample_key_def)

lemma sample_world_sel [simp]:
  "w_sel (sample_world s c u rs ss) = s" "user_map (w_cfg (sample_world s c u rs ss)) = u"
  "os_recv (w_os (sample_world s c u rs ss)) = rs" "os_send (w_os (sample_world s c u rs ss)) = ss"
  "os_trace (w_os (sample_world s c u rs ss)) = []" "w_heap (sample_world s c u rs ss) = [Some c]"
  "metrics (data (w_cfg (sample_world s c u rs ss))) = Some metrics_init"
  "sound (sample_world s c u rs ss) = sel_inv s" "conn_get 0 (sample_world s c u rs ss) = Inr c"
  by (simp_all add: sample_world_def sound_def conn_get_def)

lemma sample_selector: "\<exists>s. sel_inv s \<and> owner_of s = [5 \<mapsto> (H_Socks5, 0)] \<and> interest_of s = [5 \<mapsto> OP_READ]"
proof -
  obtain s :: sel where s: "sel_inv s" "sel_table s = Map.empty" using selector_new_ok by blast
  then have "interest_of s = Map.empty" "owner_of s = Map.empty"
    by (simp_all add: interest_of_def owner_of_def fun_eq_iff)
  with sel_reg_free [OF s(1), of 5 True H_Socks5 OP_READ 0] show ?thesis
    by (auto simp: invalid_fd_def ITEMS_MAX_SIZE_def)
qed

lemma sample_idle: "idle (buffer_init 64 (replicate 64 0))" "buf_limit (buffer_init 64 (replicate 64 0)) = 64"
  by (simp_all add: idle_def buffer_init_inv) (simp_all add: buffer_op_defs)

lemma sample_connected:
  assumes "sel_inv s" "owner_of s = [5 \<mapsto> (H_Socks5, 0)]" "c_client_fd c = 5" "c_origin_fd c = 0"
    "c_in c = c_in sample_conn" "c_out c = c_out sample_conn"
  shows "connected sample_key 0 c (sample_world s c u rs ss)"
  using assms by (simp add: connected_def sample_key_def sample_conn_def sample_idle invalid_fd_def ITEMS_MAX_SIZE_def)

lemma sample_accepted:
  assumes "sel_inv s" "owner_of s = [5 \<mapsto> (H_Socks5, 0)]"
  shows "accepted sample_key 0 (sample_conn\<lparr>c_stm := socks5_stm_init True\<rparr>)
    (sample_world s (sample_conn\<lparr>c_stm := socks5_stm_init True\<rparr>) u rs ss)"
  using sample_connected [OF assms, of "sample_conn\<lparr>c_stm := socks5_stm_init True\<rparr>"]
  by (simp add: accepted_def) (simp add: sample_conn_def zero_conn_def)

text \<open>The sample connection waiting to log in, and a table of one user.\<close>

definition sample_login :: socks5_conn where
  "sample_login = sample_conn\<lparr>c_stm := Some (machine 1),
     c_auth := auth_parser_init True True (replicate 256 0) (replicate 256 0)\<rparr>"

lemma sample_awaiting:
  assumes "sel_inv s" "owner_of s = [5 \<mapsto> (H_Socks5, 0)]"
  shows "awaiting 1 sample_key 0 sample_login (sample_world s sample_login u rs ss)"
proof -
  have "\<exists>h. c_auth sample_login = Some h \<and> auth_rel AV_Start h"
    using auth_rel_init [of "replicate 256 0" "replicate 256 0"]
    by (auto simp: sample_login_def auth_parser_init_def)
  with sample_connected [OF assms, of sample_login] show ?thesis
    by (simp add: awaiting_def) (simp add: sample_login_def sample_conn_def zero_conn_def)
qed

lemma sample_limits [simp]:
  "buf_limit (c_in sample_login) = 64" "buf_limit (c_in sample_conn) = 64" "c_username sample_conn = []"
  by (simp_all add: sample_login_def sample_conn_def sample_idle zero_conn_def)

lemma sample_users: "\<exists>u. table_inv u \<and> users u = [[98] \<mapsto> [112]]"
proof -
  have "length ([98] :: byte list) < MAX_USERNAME_LEN" "length ([112] :: byte list) < MAX_PASSWORD_LEN"
    by (simp_all add: MAX_USERNAME_LEN_def MAX_PASSWORD_LEN_def)
  then show ?thesis
    using auth_add_new [OF auth_init_ok(1), of "[98]" "[112]"] auth_init_ok(2) by fastforce
qed

end
