(* ===== verification/Greeting.thy ===== *)
theory Greeting
  imports Negotiation
begin

text \<open>
  The greeting as the handlers of \<open>states_handlers/handshake.c\<close> run it, from the bytes the kernel
  delivers to the reply it takes and the state the machine is left in.
\<close>

section \<open>The reply\<close>

definition method_for :: "byte list \<Rightarrow> byte" where
  "method_for ms = (if 2 \<in> set ms then 2 else if 0 \<in> set ms then 0 else 0xFF)"

lemma greeting_answer_live:
  assumes key: "k_data key = Some p" "p < length (w_heap w)" "sel_inv (w_sel w)"
    and out: "buffer_inv (c_out c)" "2 \<le> room (c_out c)"
  shows "\<exists>bo. same_block (c_out c) bo \<and>
    pending bo = pending (c_out c) @ [5, if user_pass_auth h then 2 else if no_auth h then 0 else 0xFF] \<and>
    greeting_answer key p h (conn_put p c w) = socksv5_write key
      (conn_put p (c\<lparr>c_out := bo, c_is_error_response := \<not> (no_auth h \<or> user_pass_auth h)\<rparr>)
        (w\<lparr>w_sel := sel_set (k_fd key) OP_WRITE (w_sel w)\<rparr>))"
proof -
  let ?r = "[5, if user_pass_auth h then 2 else if no_auth h then 0 else 0xFF] :: byte list"
  have bytes: "handshake_response_bytes (create_handshake_response (no_auth h) (user_pass_auth h)) = ?r"
    by (simp add: handshake_response_bytes_def create_handshake_response_def socks5_method_defs)
  obtain bo where bo: "buffer_recv (c_out c) ?r = Inr bo" "same_block (c_out c) bo"
      "pending bo = pending (c_out c) @ ?r"
    using buffer_recv_ok [OF out(1), of ?r] out(2) by auto
  have "buffer_write_struct (c_out c) ?r HANDSHAKE_RESPONSE_SIZE = Inr bo"
    using bo(1) out(2) by (subst buffer_write_struct_is_recv) (auto simp: HANDSHAKE_RESPONSE_SIZE_def)
  with bo key show ?thesis
    by (intro exI [of _ bo]) (simp add: greeting_answer_def bytes live)
qed

lemma greeting_exchange:
  assumes key: "k_data key = Some p" "p < length (w_heap w)" and sound: "sound w"
    and fds: "c_client_fd c = k_fd key" "c_origin_fd c = 0"
    and st: "c_stm c = Some (machine 0)" "c_handshake c = Some h" "handshake_after [] h"
    and out: "idle (c_out c)" "2 \<le> buf_limit (c_out c)"
    and ms: "set ms \<subseteq> {0, 1, 2}" "ms \<noteq> []" "unat n = length ms" "n \<noteq> 255"
    and inb: "buffer_inv (c_in c)" "pending (c_in c) = 5 # n # ms @ rest"
    and send: "os_send (w_os w) = Sent k # q" "0 < k" "k \<le> 2"
  shows "\<exists>h' b bo. same_block (c_in c) b \<and> pending b = rest \<and> (rest = [] \<longrightarrow> buf_write b = 0) \<and>
    same_block (c_out c) bo \<and> pending bo = drop k [5, method_for ms] \<and> buf_read bo = 0 \<and>
    (user_pass_auth h' \<longleftrightarrow> 2 \<in> set ms) \<and>
    read_loop handshake_byte fin (length (5 # n # ms) + i) key (conn_put p c w) =
      bind_res (run_write key 0 (conn_put p
          (c\<lparr>c_in := b, c_handshake := Some h', c_is_error_response := method_for ms = 0xFF, c_out := bo\<rparr>)
          (replied (k_fd key) k [5, method_for ms] (rest \<noteq> []) q w)))
        (read_loop handshake_byte fin i key)"
proof -
  obtain h' where h': "feeds handshake_parser_feed h (5 # n # ms) =
      Inr (h', (HANDSHAKE_VERSION # HANDSHAKE_NMETHODS # replicate (length ms - 1) HANDSHAKE_METHODS) @ [HANDSHAKE_DONE])"
    "no_auth h' \<longleftrightarrow> 0 \<in> set ms" "user_pass_auth h' \<longleftrightarrow> 2 \<in> set ms"
    using greeting_feeds [OF st(3) ms] by auto
  obtain b where b: "same_block (c_in c) b" "pending b = rest" "rest = [] \<longrightarrow> buf_write b = 0"
    "read_loop handshake_byte fin (length (5 # n # ms) + i) key (conn_put p c w) =
      bind_res (bind_res (greeting_answer key p h' (conn_put p (c\<lparr>c_in := b, c_handshake := Some h'\<rparr>) w))
          (\<lambda>w. Inr (Continue w)))
        (\<lambda>s. case s of Continue w \<Rightarrow> read_loop handshake_byte fin i key w | Return st w \<Rightarrow> Inr (st, w))"
    using greeting.loop_message [OF key st(2) inb(1) _ h'(1), of rest fin i] inb(2) by auto
  let ?c = "c\<lparr>c_in := b, c_handshake := Some h'\<rparr>"
  from out have o: "buffer_inv (c_out ?c)" "2 \<le> room (c_out ?c)" "pending (c_out ?c) = []"
    by (simp_all add: idle_room) (simp_all add: idle_def)
  have sel: "sel_inv (w_sel w)" using sound by (simp add: sound_def)
  have m: "(if user_pass_auth h' then 2 else if no_auth h' then 0 else 0xFF) = method_for ms"
    "(\<not> (no_auth h' \<or> user_pass_auth h')) = (method_for ms = 0xFF)"
    using h' by (auto simp: method_for_def)
  obtain bo where bo: "same_block (c_out ?c) bo" "pending bo = [5, method_for ms]"
      "greeting_answer key p h' (conn_put p ?c w) = socksv5_write key
        (conn_put p (?c\<lparr>c_out := bo, c_is_error_response := method_for ms = 0xFF\<rparr>)
          (w\<lparr>w_sel := sel_set (k_fd key) OP_WRITE (w_sel w)\<rparr>))"
    using greeting_answer_live [OF key sel o(1,2), of h'] o(3) unfolding m by auto
  let ?d = "?c\<lparr>c_out := bo, c_is_error_response := method_for ms = 0xFF\<rparr>"
  obtain bo' where bo': "same_block bo bo'" "pending bo' = drop k [5, method_for ms]" "buf_read bo' = 0"
    "socksv5_write key (conn_put p ?d (w\<lparr>w_sel := sel_set (k_fd key) OP_WRITE (w_sel w)\<rparr>)) =
      run_write key 0 (conn_put p (?d\<lparr>c_out := bo'\<rparr>) (replied (k_fd key) k [5, method_for ms] (rest \<noteq> []) q w))"
    using reply_sent [OF key sound, of ?d "k_fd key" "[5, method_for ms]" 0 k q] fds b bo st(1) send
    by (auto simp: same_block_inv)
  show ?thesis
    using b bo bo' h'(3) same_block_trans [OF bo(1) bo'(1)]
    by - (rule exI [of _ h'], rule exI [of _ b], rule exI [of _ bo'],
       simp add: bind_res_assoc del: read_loop.simps)
qed

section \<open>The greeting\<close>

text \<open>
  A new connection whose client sends a greeting of known methods in one segment.  The read
  handler starts the machine, consumes the greeting and writes the reply, of which the
  kernel takes \<open>k\<close> bytes; an acceptable method leads to the next state.
\<close>

lemma greeting_read:
  assumes acc: "accepted key p c w"
    and ms: "set ms \<subseteq> {0, 1, 2}" "ms \<noteq> []" "unat n = length ms" "n \<noteq> 255"
    and fits: "length (5 # n # ms @ rest) \<le> buf_limit (c_in c)"
    and kernel: "os_recv (w_os w) = Recv (5 # n # ms @ rest) # rs"
      "os_send (w_os w) = Sent k # q" "0 < k" "k \<le> 2"
  shows "\<exists>h' b bo. same_block (c_in c) b \<and> pending b = rest \<and> (rest = [] \<longrightarrow> buf_write b = 0) \<and>
    same_block (c_out c) bo \<and> pending bo = drop k [5, method_for ms] \<and> buf_read bo = 0 \<and>
    (user_pass_auth h' \<longleftrightarrow> 2 \<in> set ms) \<and>
    socksv5_read key w =
      bind_res (bind_res (bind_res (run_write key 0 (conn_put p
          (c\<lparr>c_stm := Some (machine 0), c_in := b, c_handshake := Some h', c_is_error_response := method_for ms = 0xFF,
             c_out := bo\<rparr>)
          (replied (k_fd key) k [5, method_for ms] (rest \<noteq> []) q (received (k_fd key) w))))
        (read_loop handshake_byte return_current (Suc (length rest)) key)) (\<lambda>(ret, w).
      bind_res (jump socks5_states (stm_get key) (stm_put key) ret key w) (\<lambda>w. Inr (ret, w)))) count_error"
proof -
  note acc = accepted_live [OF acc]
  have i: "buffer_inv (c_in c)" "pending (c_in c) = []" "room (c_in c) = buf_limit (c_in c)"
    using acc(7) by (simp_all add: idle_room) (simp_all add: idle_def)
  obtain b0 where b0: "same_block (c_in c) b0" "pending b0 = 5 # n # ms @ rest"
      "socksv5_read key (conn_put p c w) =
        bind_res (run_read key (conn_put p (c\<lparr>c_in := b0\<rparr>) (received (k_fd key) w))) count_error"
    using read_event [OF acc(1,2) i(1) _ _ kernel(1)] i fits by auto
  obtain h where h: "handshake_parser_init True True = Some h" "handshake_after [] h"
    using handshake_after_init by (auto simp: handshake_parser_init_def)
  let ?c = "c\<lparr>c_in := b0, c_stm := Some (machine 0), c_handshake := Some h\<rparr>"
  have al: "os_alloc (w_os w) = []" using acc(4) by (simp add: sound_def)
  have run: "run_read key (conn_put p (c\<lparr>c_in := b0\<rparr>) (received (k_fd key) w)) =
      bind_res (handshake_read key (conn_put p ?c (received (k_fd key) w))) (\<lambda>(ret, w).
        bind_res (jump socks5_states (stm_get key) (stm_put key) ret key w) (\<lambda>w. Inr (ret, w)))"
    using run_read_first [of key p "received (k_fd key) w" "c\<lparr>c_in := b0\<rparr>"] acc(1,2,10) h(1) al
      run_read_state [of key p "received (k_fd key) w" ?c 0] by (simp add: live)
  have hr: "handshake_read key (conn_put p ?c (received (k_fd key) w)) =
      read_loop handshake_byte return_current (length (5 # n # ms) + Suc (length rest)) key (conn_put p ?c (received (k_fd key) w))"
    using buffered_live [of key p "received (k_fd key) w" ?c] acc(1,2) b0(1,2)
    by (simp add: handshake_read_def same_block_inv del: read_loop.simps)
  have p': "p < length (w_heap (received (k_fd key) w))" using acc(2) by simp
  obtain h' b bo where ex: "same_block (c_in ?c) b" "pending b = rest" "rest = [] \<longrightarrow> buf_write b = 0"
    "same_block (c_out ?c) bo" "pending bo = drop k [5, method_for ms]" "buf_read bo = 0"
    "user_pass_auth h' \<longleftrightarrow> 2 \<in> set ms"
    "read_loop handshake_byte return_current (length (5 # n # ms) + Suc (length rest)) key (conn_put p ?c (received (k_fd key) w)) =
      bind_res (run_write key 0 (conn_put p
          (?c\<lparr>c_in := b, c_handshake := Some h', c_is_error_response := method_for ms = 0xFF, c_out := bo\<rparr>)
          (replied (k_fd key) k [5, method_for ms] (rest \<noteq> []) q (received (k_fd key) w))))
        (read_loop handshake_byte return_current (Suc (length rest)) key)"
    using greeting_exchange [OF acc(1) p', of ?c h ms n rest k q return_current "Suc (length rest)"]
      acc h ms kernel b0 by (auto simp: same_block_inv)
  have rc: "?c\<lparr>c_in := b, c_handshake := Some h', c_is_error_response := method_for ms = 0xFF, c_out := bo\<rparr> =
      c\<lparr>c_stm := Some (machine 0), c_in := b, c_handshake := Some h', c_is_error_response := method_for ms = 0xFF,
        c_out := bo\<rparr>" by simp
  have "socksv5_read key w = bind_res (bind_res (bind_res (run_write key 0 (conn_put p
          (c\<lparr>c_stm := Some (machine 0), c_in := b, c_handshake := Some h', c_is_error_response := method_for ms = 0xFF,
             c_out := bo\<rparr>)
          (replied (k_fd key) k [5, method_for ms] (rest \<noteq> []) q (received (k_fd key) w))))
        (read_loop handshake_byte return_current (Suc (length rest)) key)) (\<lambda>(ret, w).
      bind_res (jump socks5_states (stm_get key) (stm_put key) ret key w) (\<lambda>w. Inr (ret, w)))) count_error"
    using b0(3) run hr ex(8) acc(3) unfolding rc by (simp only: )
  with ex b0(1) show ?thesis
    by - (rule exI [of _ h'], rule exI [of _ b], rule exI [of _ bo],
       auto simp del: read_loop.simps intro: same_block_trans)
qed

text \<open>The state that follows an acceptable greeting, and the connection in it.\<close>

definition next_state :: "byte list \<Rightarrow> nat" where
  "next_state ms = (if 2 \<in> set ms then 1 else 2)"

lemma greeting_left:
  assumes acc: "accepted key p c w"
    and ms: "set ms \<subseteq> {0, 1, 2}" "ms \<noteq> []" "unat n = length ms" "n \<noteq> 255" "method_for ms \<noteq> 0xFF"
    and fits: "length (5 # n # ms) \<le> buf_limit (c_in c)"
    and kernel: "os_recv (w_os w) = Recv (5 # n # ms) # rs" "os_send (w_os w) = Sent k # q" "0 < k" "k \<le> 2"
  shows "\<exists>c'. socksv5_read key w = Inr (conn_put p c' (replied (k_fd key) k [5, method_for ms] False q (received (k_fd key) w))) \<and>
    same_block (c_out c) (c_out c') \<and> pending (c_out c') = drop k [5, method_for ms] \<and> buf_read (c_out c') = 0 \<and>
    idle (c_in c') \<and> c_client_fd c' = k_fd key \<and> c_origin_fd c' = 0 \<and> \<not> c_is_error_response c' \<and>
    c_username c' = c_username c \<and> c_src_address c' = c_src_address c \<and> c_src_port c' = c_src_port c \<and>
    buf_limit (c_in c') = buf_limit (c_in c) \<and> c_stm c' = Some (machine (next_state ms)) \<and>
    (next_state ms = 1 \<longrightarrow> (\<exists>h. c_auth c' = Some h \<and> auth_rel AV_Start h)) \<and>
    (next_state ms = 2 \<longrightarrow> (\<exists>h. c_req c' = Some h \<and> conn_rel CV_Start h))"
proof -
  note accd = accepted_live [OF acc]
  let ?w = "replied (k_fd key) k [5, method_for ms] False q (received (k_fd key) w)"
  obtain h' b bo where ex: "same_block (c_in c) b" "pending b = []" "buf_write b = 0"
    "same_block (c_out c) bo" "pending bo = drop k [5, method_for ms]" "buf_read bo = 0"
    "user_pass_auth h' \<longleftrightarrow> 2 \<in> set ms"
    "socksv5_read key w = bind_res (bind_res (bind_res (run_write key 0 (conn_put p
          (c\<lparr>c_stm := Some (machine 0), c_in := b, c_handshake := Some h', c_is_error_response := method_for ms = 0xFF,
             c_out := bo\<rparr>) ?w))
        (read_loop handshake_byte return_current (Suc 0) key)) (\<lambda>(ret, w).
      bind_res (jump socks5_states (stm_get key) (stm_put key) ret key w) (\<lambda>w. Inr (ret, w)))) count_error"
    using greeting_read [OF acc ms(1-4), of "[]" rs k q] fits kernel by (auto simp del: read_loop.simps)
  let ?c = "c\<lparr>c_stm := Some (machine 0), c_in := b, c_handshake := Some h', c_is_error_response := False, c_out := bo\<rparr>"
  define c' where "c' = (if 2 \<in> set ms
      then ?c\<lparr>c_handshake := None, c_stm := Some (machine 1), c_auth := new_auth ?w\<rparr>
      else ?c\<lparr>c_handshake := None, c_stm := Some (machine 2), c_req := new_req ?w\<rparr>)"
  from accd have kw: "k_data key = Some p" "p < length (w_heap ?w)" "os_alloc (w_os ?w) = []"
    "256 \<le> length (os_junk (w_os ?w))" by (simp_all add: sound_def)
  have wr: "run_write key 0 (conn_put p ?c ?w) = Inr (conn_put p c' ?w)"
    using write_after_greeting [OF kw(1-3), of ?c h'] ex(7) by (simp add: c'_def)
  have c': "buffer_inv (c_in c')" "pending (c_in c') = []" "c_stm c' = Some (machine (next_state ms))" "next_state ms < 7"
    using ex(1,2) by (simp_all add: c'_def next_state_def same_block_inv)
  have "socksv5_read key w = Inr (conn_put p c' ?w)"
    using ex(8) ms(5) wr loop_ends [OF kw(1,2) c'(1-3), of handshake_byte "Suc 0"]
      jump_stay [OF kw(1,2) c'(3,4), of socks5_states] c'(4)
    by (simp add: count_error_def del: read_loop.simps) (simp add: next_state_def)
  moreover have "idle (c_in c')" using idle_block [OF ex(1-3)] by (simp add: c'_def)
  ultimately show ?thesis
    using ex accd(5,6) c'(3) new_auth_start [OF kw(4)] new_req_start [OF kw(4)]
    by (intro exI [of _ c']) (simp add: c'_def next_state_def same_block_def)
qed

text \<open>With the reply taken whole, the connection waits for the next message.\<close>

lemma greeting_done:
  assumes acc: "accepted key p c w"
    and ms: "set ms \<subseteq> {0, 1, 2}" "unat n = length ms" "n \<noteq> 255" "0 \<in> set ms \<or> 2 \<in> set ms"
    and fits: "length (5 # n # ms) \<le> buf_limit (c_in c)"
    and kernel: "os_recv (w_os w) = Recv (5 # n # ms) # rs" "os_send (w_os w) = Sent 2 # q"
  defines "w' \<equiv> replied (k_fd key) 2 [5, method_for ms] False q (received (k_fd key) w)"
  shows "\<exists>c'. socksv5_read key w = Inr (conn_put p c' w') \<and> awaiting (next_state ms) key p c' (conn_put p c' w') \<and>
    interest_of (w_sel w') (k_fd key) = Some OP_READ \<and> c_src_address c' = c_src_address c \<and> c_src_port c' = c_src_port c \<and>
    buf_limit (c_in c') = buf_limit (c_in c) \<and> buf_limit (c_out c') = buf_limit (c_out c)"
proof -
  note accd = accepted_live [OF acc]
  have m: "ms \<noteq> []" "method_for ms \<noteq> 0xFF" using ms(4) by (auto simp: method_for_def)
  obtain c' where c': "socksv5_read key w = Inr (conn_put p c' w')"
    "same_block (c_out c) (c_out c')" "pending (c_out c') = []" "buf_read (c_out c') = 0"
    "idle (c_in c')" "c_client_fd c' = k_fd key" "c_origin_fd c' = 0" "c_stm c' = Some (machine (next_state ms))"
    "next_state ms = 1 \<longrightarrow> (\<exists>h. c_auth c' = Some h \<and> auth_rel AV_Start h)"
    "next_state ms = 2 \<longrightarrow> (\<exists>h. c_req c' = Some h \<and> conn_rel CV_Start h)"
    "c_src_address c' = c_src_address c" "c_src_port c' = c_src_port c" "buf_limit (c_in c') = buf_limit (c_in c)"
    using greeting_left [OF acc ms(1) m(1) ms(2,3) m(2) fits kernel] unfolding w'_def by auto
  have sel: "sel_inv (w_sel (received (k_fd key) w))" "owner_of (w_sel (received (k_fd key) w)) (k_fd key) = Some (H_Socks5, p)"
    using accd by (simp_all add: sound_def)
  note rs = replied_selector [OF sel(1) accd(11) sel(2)]
  have "idle (c_out c')" using c' emptied by (auto intro: idle_block same_block_inv)
  then have "awaiting (next_state ms) key p c' (conn_put p c' w')"
    using c' accd sel rs replied_sound [of "received (k_fd key) w"] unfolding w'_def
    by (intro awaiting_next) (auto simp: next_state_def same_block_def)
  moreover have "interest_of (w_sel w') (k_fd key) = Some OP_READ" unfolding w'_def using rs(3) accd(13) by simp
  ultimately show ?thesis using c' by (auto simp: same_block_def)
qed

section \<open>Properties\<close>

text \<open>C6: The greeting is served end to end.  A new connection whose client sends, in one segment,
  a greeting that offers no method but the three the server knows, and at least one it can use, gets the
  two bytes of the reply with the method chosen, the machine is left in the state that follows, with its parser fresh and
  both buffers empty, and the server waits to read.  The method is 2, user and password, if it is offered, and the login
  follows.  If it is not, the server chooses 0 and goes on to the request: a client that does not offer method 2 needs no
  login.  This is what the code does and not what \<open>socks5_stm.h\<close> (lines 18 to 31) says, that only method 2 is accepted and
  a client without it is answered \<open>0xFF\<close>.\<close>

theorem greeting_served:
  assumes acc: "accepted key p c w"
    and ms: "set ms \<subseteq> {0, 1, 2}" "unat n = length ms" "n \<noteq> 255" "0 \<in> set ms \<or> 2 \<in> set ms"
    and fits: "length (5 # n # ms) \<le> buf_limit (c_in c)"
    and kernel: "os_recv (w_os w) = Recv (5 # n # ms) # rs" "os_send (w_os w) = Sent 2 # q"
  shows "\<exists>c' w'. socksv5_read key w = Inr w' \<and> awaiting (if 2 \<in> set ms then 1 else 2) key p c' w' \<and>
    os_trace (w_os w') = os_trace (w_os w) @
      [Ev_Recv (k_fd key) (5 # n # ms), Ev_Send (k_fd key) [5, if 2 \<in> set ms then 2 else 0]] \<and>
    interest_of (w_sel w') (k_fd key) = Some OP_READ"
proof -
  have m: "method_for ms = (if 2 \<in> set ms then 2 else 0)" using ms(4) by (auto simp: method_for_def)
  from greeting_done [OF assms] m kernel(1) show ?thesis by (auto simp: next_state_def)
qed

theorem greeting_served_witness:
  "\<exists>c w c' w'. accepted sample_key 0 c w \<and> os_recv (w_os w) = [Recv [5, 2, 1, 2]] \<and>
     socksv5_read sample_key w = Inr w' \<and> awaiting 1 sample_key 0 c' w' \<and>
     os_trace (w_os w') = [Ev_Recv 5 [5, 2, 1, 2], Ev_Send 5 [5, 2]] \<and> interest_of (w_sel w') 5 = Some OP_READ"
proof -
  obtain s where s: "sel_inv s" "owner_of s = [5 \<mapsto> (H_Socks5, 0)]" using sample_selector by blast
  let ?c = "sample_conn\<lparr>c_stm := socks5_stm_init True\<rparr>"
  let ?w = "sample_world s ?c auth_init [Recv [5, 2, 1, 2]] [Sent 2]"
  from greeting_served [OF sample_accepted [OF s, of auth_init "[Recv [5, 2, 1, 2]]" "[Sent 2]"], of "[1, 2]" 2 "[]" "[]"]
  have "\<exists>c' w'. socksv5_read sample_key ?w = Inr w' \<and> awaiting 1 sample_key 0 c' w' \<and>
      os_trace (w_os w') = [Ev_Recv 5 [5, 2, 1, 2], Ev_Send 5 [5, 2]] \<and> interest_of (w_sel w') 5 = Some OP_READ"
    by simp
  then show ?thesis
    using sample_accepted [OF s, of auth_init "[Recv [5, 2, 1, 2]]" "[Sent 2]"]
    by - (rule exI [of _ ?c], rule exI [of _ ?w], simp)
qed

text \<open>C15: A client that does not wait for the reply crashes the server.  When an acceptable greeting
  arrives with even one byte after it in the same segment, the handler answers, moves on to
  the next state, which discards the parser of the greeting, and then feeds the byte to
  that parser: a null pointer is dereferenced, however much of the reply the kernel took.\<close>

theorem pipelined_greeting_null_deref:
  assumes acc: "accepted key p c w"
    and ms: "set ms \<subseteq> {0, 1, 2}" "unat n = length ms" "n \<noteq> 255" "0 \<in> set ms \<or> 2 \<in> set ms"
    and fits: "length (5 # n # ms @ x # rest) \<le> buf_limit (c_in c)"
    and kernel: "os_recv (w_os w) = Recv (5 # n # ms @ x # rest) # rs"
      "os_send (w_os w) = Sent k # q" "0 < k" "k \<le> 2"
  shows "socksv5_read key w = Inl Null_Deref"
proof -
  note accd = accepted_live [OF acc]
  have m: "ms \<noteq> []" "method_for ms \<noteq> 0xFF" using ms(4) by (auto simp: method_for_def)
  let ?w = "replied (k_fd key) k [5, method_for ms] True q (received (k_fd key) w)"
  obtain h' b bo where ex: "same_block (c_in c) b" "pending b = x # rest"
    "socksv5_read key w = bind_res (bind_res (bind_res (run_write key 0 (conn_put p
          (c\<lparr>c_stm := Some (machine 0), c_in := b, c_handshake := Some h', c_is_error_response := method_for ms = 0xFF,
             c_out := bo\<rparr>) ?w))
        (read_loop handshake_byte return_current (Suc (length (x # rest))) key)) (\<lambda>(ret, w).
      bind_res (jump socks5_states (stm_get key) (stm_put key) ret key w) (\<lambda>w. Inr (ret, w)))) count_error"
    using greeting_read [OF acc ms(1) m(1) ms(2,3), of "x # rest" rs k q] fits kernel by (auto simp del: read_loop.simps)
  let ?c = "c\<lparr>c_stm := Some (machine 0), c_in := b, c_handshake := Some h', c_is_error_response := False, c_out := bo\<rparr>"
  define c' where "c' = (if user_pass_auth h'
      then ?c\<lparr>c_handshake := None, c_stm := Some (machine 1), c_auth := new_auth ?w\<rparr>
      else ?c\<lparr>c_handshake := None, c_stm := Some (machine 2), c_req := new_req ?w\<rparr>)"
  from accd have kw: "k_data key = Some p" "p < length (w_heap ?w)" "os_alloc (w_os ?w) = []"
    by (simp_all add: sound_def)
  have wr: "run_write key 0 (conn_put p ?c ?w) = Inr (conn_put p c' ?w)"
    using write_after_greeting [OF kw, of ?c h'] by (simp add: c'_def)
  have c': "c_handshake c' = None" "c_in c' = b" by (simp_all add: c'_def)
  have inv: "buffer_inv (c_in c')" "pending (c_in c') = x # rest" using c' ex by (simp_all add: same_block_inv)
  obtain b' where "buffer_read (c_in c') = Inr (x, b')"
    "read_loop handshake_byte return_current (Suc (length (x # rest))) key (conn_put p c' ?w) =
      bind_res (handshake_byte key (conn_put p c' ?w))
        (\<lambda>s. case s of Continue w \<Rightarrow> read_loop handshake_byte return_current (length (x # rest)) key w
                    | Return st w \<Rightarrow> Inr (st, w))"
    using greeting.loop_Cons [OF kw(1,2) inv] by blast
  then have "read_loop handshake_byte return_current (Suc (length (x # rest))) key (conn_put p c' ?w) = Inl Null_Deref"
    using greeting.no_parser [OF kw(1,2) c'(1)] by (simp del: read_loop.simps)
  with ex(3) m(2) wr show ?thesis by (simp del: read_loop.simps)
qed

theorem pipelined_greeting_null_deref_witness:
  "\<exists>c w. accepted sample_key 0 c w \<and> os_recv (w_os w) = [Recv [5, 1, 0, 5]] \<and>
     socksv5_read sample_key w = Inl Null_Deref"
proof -
  obtain s where s: "sel_inv s" "owner_of s = [5 \<mapsto> (H_Socks5, 0)]" using sample_selector by blast
  let ?c = "sample_conn\<lparr>c_stm := socks5_stm_init True\<rparr>"
  let ?w = "sample_world s ?c auth_init [Recv [5, 1, 0, 5]] [Sent 2]"
  note a = sample_accepted [OF s, of auth_init "[Recv [5, 1, 0, 5]]" "[Sent 2]"]
  have "length [5, 1, 0, 5 :: byte] \<le> buf_limit (c_in ?c)" by (simp add: sample_conn_def sample_idle)
  then have "socksv5_read sample_key ?w = Inl Null_Deref"
    using pipelined_greeting_null_deref [OF a, of "[0]" 1 5 "[]" "[]" 2 "[]"] by simp
  with a show ?thesis by - (rule exI [of _ ?c], rule exI [of _ ?w], simp)
qed

text \<open>A client that offers no usable method crashes the server.  The greeting is answered with
  0xFF as it should be; once the kernel has taken the reply (or its first byte) the connection is closed
  and its memory released, and the handler goes on reading it: a use after free.\<close>

theorem refused_greeting_use_after_free:
  assumes acc: "accepted key p c w"
    and ms: "set ms \<subseteq> {1}" "ms \<noteq> []" "unat n = length ms" "n \<noteq> 255"
    and fits: "length (5 # n # ms @ rest) \<le> buf_limit (c_in c)"
    and kernel: "os_recv (w_os w) = Recv (5 # n # ms @ rest) # rs"
      "os_send (w_os w) = Sent k # q" "0 < k" "k \<le> 2"
  shows "socksv5_read key w = Inl Use_After_Free"
proof -
  note accd = accepted_live [OF acc]
  have m: "set ms \<subseteq> {0, 1, 2}" "method_for ms = 0xFF" using ms(1) by (auto simp: method_for_def)
  let ?w = "replied (k_fd key) k [5, method_for ms] (rest \<noteq> []) q (received (k_fd key) w)"
  obtain h' b bo where ex: "same_block (c_in c) b"
    "socksv5_read key w = bind_res (bind_res (bind_res (run_write key 0 (conn_put p
          (c\<lparr>c_stm := Some (machine 0), c_in := b, c_handshake := Some h', c_is_error_response := method_for ms = 0xFF,
             c_out := bo\<rparr>) ?w))
        (read_loop handshake_byte return_current (Suc (length rest)) key)) (\<lambda>(ret, w).
      bind_res (jump socks5_states (stm_get key) (stm_put key) ret key w) (\<lambda>w. Inr (ret, w)))) count_error"
    using greeting_read [OF acc m(1) ms(2-4) fits kernel] by (auto simp del: read_loop.simps)
  let ?c = "c\<lparr>c_stm := Some (machine 0), c_in := b, c_handshake := Some h', c_is_error_response := True, c_out := bo\<rparr>"
  have sel: "sel_inv (w_sel (received (k_fd key) w))" "owner_of (w_sel (received (k_fd key) w)) (k_fd key) = Some (H_Socks5, p)"
    using accd by (simp_all add: sound_def)
  note rs = replied_selector [OF sel(1) accd(11) sel(2)]
  have "run_write key 0 (conn_put p ?c ?w) = Inr (closed p ?c ?w)"
    using accd rs sel by (intro write_after_error) (auto simp: sound_def state_parser_def)
  moreover have "conn_get p (closed p ?c ?w) = Inl Use_After_Free"
    using accd(2) by (simp add: conn_get_closed)
  ultimately show ?thesis
    using ex(2) m(2) accd(1) by (simp add: key_conn_def)
qed

theorem refused_greeting_use_after_free_witness:
  "\<exists>c w. accepted sample_key 0 c w \<and> os_recv (w_os w) = [Recv [5, 1, 1]] \<and>
     socksv5_read sample_key w = Inl Use_After_Free"
proof -
  obtain s where s: "sel_inv s" "owner_of s = [5 \<mapsto> (H_Socks5, 0)]" using sample_selector by blast
  let ?c = "sample_conn\<lparr>c_stm := socks5_stm_init True\<rparr>"
  let ?w = "sample_world s ?c auth_init [Recv [5, 1, 1]] [Sent 2]"
  note a = sample_accepted [OF s, of auth_init "[Recv [5, 1, 1]]" "[Sent 2]"]
  have "length [5, 1, 1 :: byte] \<le> buf_limit (c_in ?c)" by (simp add: sample_conn_def sample_idle)
  then have "socksv5_read sample_key ?w = Inl Use_After_Free"
    using refused_greeting_use_after_free [OF a, of "[1]" 1 "[]" "[]" 2 "[]"] by simp
  with a show ?thesis by - (rule exI [of _ ?c], rule exI [of _ ?w], simp)
qed

end
