(* ===== verification/Login.thy ===== *)
theory Login
  imports Greeting
begin

text \<open>
  The login of \<open>states_handlers/auth.c\<close>, from the bytes the kernel delivers to the answer of
  the table of users, the reply, and the state the machine is left in; and what a reply
  that the kernel takes only in part does to it.
\<close>

section \<open>The reply\<close>

lemma login_answer_live:
  assumes key: "k_data key = Some p" "p < length (w_heap w)" "sel_inv (w_sel w)"
    and out: "buffer_inv (c_out c)" "2 \<le> room (c_out c)"
    and fields: "c_str (auth_parser.username a) = Inr u" "c_str (auth_parser.password a) = Inr pw"
    and ok: "ok = auth_check_credentials (user_map (w_cfg w)) u pw"
  shows "\<exists>bo. same_block (c_out c) bo \<and> pending bo = pending (c_out c) @ [1, if ok then 0 else 1] \<and>
    login_answer key p a (conn_put p c w) = socksv5_write key
      (conn_put p (c\<lparr>c_out := bo, c_in := buffer_reset (c_in c), c_is_error_response := \<not> ok,
          c_username := (if ok then u else c_username c)\<rparr>)
        (w\<lparr>w_sel := sel_set (k_fd key) OP_WRITE (w_sel w)\<rparr>))"
proof -
  let ?r = "[1, if ok then 0 else 1] :: byte list"
  have bytes: "auth_response_bytes (create_auth_response ok) = ?r"
    by (simp add: auth_response_bytes_def create_auth_response_def SOCKS5_SUBNEGOTIATION_VERSION_def
        response_constants)
  obtain bo where bo: "buffer_recv (c_out c) ?r = Inr bo" "same_block (c_out c) bo"
      "pending bo = pending (c_out c) @ ?r"
    using buffer_recv_ok [OF out(1), of ?r] out(2) by auto
  have "buffer_write_struct (c_out c) ?r AUTH_RESPONSE_SIZE = Inr bo"
    using bo(1) out(2) by (subst buffer_write_struct_is_recv) (auto simp: AUTH_RESPONSE_SIZE_def)
  with bo key fields show ?thesis
    by (intro exI [of _ bo]) (auto simp: login_answer_def bytes live ok [symmetric] Let_def)
qed

section \<open>The login\<close>

lemma field_closed_str: "field_closed arr u \<Longrightarrow> 0 \<notin> set u \<Longrightarrow> c_str arr = Inr u"
proof -
  assume f: "field_closed arr u" and u: "0 \<notin> set u"
  then have "arr = u @ 0 # drop (Suc (length u)) arr"
    by (metis append_take_drop_id Cons_nth_drop_Suc field_closed_def field_in_def)
  moreover have "c_str (u @ 0 # drop (Suc (length u)) arr) = Inr u"
    by (rule c_str_text) (use u in \<open>simp add: is_text_def\<close>)
  ultimately show ?thesis by simp
qed

lemma login_statuses_split:
  "\<exists>sts. auth_statuses u pw = sts @ [AUTH_DONE] \<and> (\<forall>st \<in> set sts. st \<noteq> AUTH_DONE \<and> st \<noteq> AUTH_ERROR)"
  by (rule exI [of _ "AUTH_VERSION # AUTH_USERNAME_LEN # replicate (length u - 1) AUTH_USERNAME @
        [AUTH_PASSWORD_LEN, AUTH_PASSWORD_LEN] @ replicate (length pw - 1) AUTH_PASSWORD"])
     (auto simp: auth_statuses_def)

text \<open>
  The handler up to the step after the write: \<open>ok\<close> is the answer of the table, and whatever
  followed the message is gone.
\<close>

lemma login_read:
  assumes aw: "awaiting 1 key p c w"
    and fields: "auth_field_ok u" "auth_field_ok pw" "0 \<notin> set u" "0 \<notin> set pw"
    and fits: "length (encode_auth u pw @ rest) \<le> buf_limit (c_in c)"
    and kernel: "os_recv (w_os w) = Recv (encode_auth u pw @ rest) # rs" "os_send (w_os w) = Sent k # q" "0 < k" "k \<le> 2"
  defines "ok \<equiv> auth_check_credentials (user_map (w_cfg w)) u pw"
  shows "\<exists>c'. same_block (c_out c) (c_out c') \<and> pending (c_out c') = drop k [1, if ok then 0 else 1] \<and>
    buf_read (c_out c') = 0 \<and> idle (c_in c') \<and> c_stm c' = Some (machine 1) \<and> c_auth c' \<noteq> None \<and>
    c_is_error_response c' = (\<not> ok) \<and> c_username c' = (if ok then u else c_username c) \<and>
    c_client_fd c' = k_fd key \<and> c_origin_fd c' = 0 \<and> c_src_address c' = c_src_address c \<and> c_src_port c' = c_src_port c \<and>
    buf_limit (c_in c') = buf_limit (c_in c) \<and>
    socksv5_read key w =
      bind_res (bind_res (bind_res (run_write key 1 (conn_put p c'
          (replied (k_fd key) k [1, if ok then 0 else 1] False q (received (k_fd key) w))))
        (read_loop auth_byte return_current (Suc (length rest)) key)) (\<lambda>(ret, w).
      bind_res (jump socks5_states (stm_get key) (stm_put key) ret key w) (\<lambda>w. Inr (ret, w)))) count_error"
proof -
  note awl = awaiting_live [OF aw]
  let ?r = "[1, if ok then 0 else 1] :: byte list"
  let ?w = "received (k_fd key) w"
  have i: "buffer_inv (c_in c)" "pending (c_in c) = []" "room (c_in c) = buf_limit (c_in c)"
    using awl(7) by (simp_all add: idle_room) (simp_all add: idle_def)
  have w': "p < length (w_heap ?w)" "sound ?w" using awl(2,4) by simp_all
  obtain b0 where b0: "same_block (c_in c) b0" "pending b0 = encode_auth u pw @ rest"
      "socksv5_read key (conn_put p c w) = bind_res (run_read key (conn_put p (c\<lparr>c_in := b0\<rparr>) ?w)) count_error"
    using read_event [OF awl(1,2) i(1) _ _ kernel(1)] i fits by (auto simp: encode_auth_def)
  let ?c = "c\<lparr>c_in := b0\<rparr>"
  from aw obtain h where h: "c_auth ?c = Some h" "auth_rel AV_Start h" by (auto simp: awaiting_def)
  obtain h' where h': "feeds auth_parser_feed h (encode_auth u pw) = Inr (h', auth_statuses u pw)"
      "field_closed (auth_parser.username h') u" "field_closed (auth_parser.password h') pw"
    using login_feeds [OF h(2) fields(1,2)] by blast
  obtain sts where sts: "auth_statuses u pw = sts @ [AUTH_DONE]"
      "\<forall>st \<in> set sts. st \<noteq> AUTH_DONE \<and> st \<noteq> AUTH_ERROR"
    using login_statuses_split by blast
  obtain b where b: "same_block (c_in ?c) b" "pending b = rest"
    "read_loop auth_byte return_current (length (encode_auth u pw) + Suc (length rest)) key (conn_put p ?c ?w) =
      bind_res (bind_res (login_answer key p h' (conn_put p (?c\<lparr>c_in := b, c_auth := Some h'\<rparr>) ?w))
          (\<lambda>w. Inr (Continue w)))
        (\<lambda>s. case s of Continue w \<Rightarrow> read_loop auth_byte return_current (Suc (length rest)) key w | Return st w \<Rightarrow> Inr (st, w))"
    using login.loop_message [OF awl(1) w'(1) h(1) _ _ h'(1) [unfolded sts(1)], of rest return_current "Suc (length rest)"]
      b0(1,2) sts(2) by (auto simp: same_block_inv simp del: read_loop.simps)
  let ?d = "?c\<lparr>c_in := b, c_auth := Some h'\<rparr>"
  from awl have o: "buffer_inv (c_out ?d)" "2 \<le> room (c_out ?d)" "pending (c_out ?d) = []"
    by (simp_all add: idle_room) (simp_all add: idle_def)
  have sel: "sel_inv (w_sel ?w)" using awl(4) by (simp add: sound_def)
  obtain bo where bo: "same_block (c_out ?d) bo" "pending bo = ?r"
      "login_answer key p h' (conn_put p ?d ?w) = socksv5_write key
        (conn_put p (?d\<lparr>c_out := bo, c_in := buffer_reset b, c_is_error_response := \<not> ok,
            c_username := (if ok then u else c_username c)\<rparr>)
          (?w\<lparr>w_sel := sel_set (k_fd key) OP_WRITE (w_sel ?w)\<rparr>))"
    using login_answer_live [OF awl(1) w'(1) sel o(1,2) field_closed_str [OF h'(2) fields(3)]
        field_closed_str [OF h'(3) fields(4)], of ok] o(3) by (auto simp: ok_def)
  let ?e = "?d\<lparr>c_out := bo, c_in := buffer_reset b, c_is_error_response := \<not> ok,
      c_username := (if ok then u else c_username c)\<rparr>"
  have rb: "idle (buffer_reset b)"
    using buffer_reset_inv [OF same_block_inv [OF b(1)]] by (simp add: idle_def) (simp add: buffer_reset_def)
  obtain bo' where bo': "same_block bo bo'" "pending bo' = drop k ?r" "buf_read bo' = 0"
    "socksv5_write key (conn_put p ?e (?w\<lparr>w_sel := sel_set (k_fd key) OP_WRITE (w_sel ?w)\<rparr>)) =
      run_write key 1 (conn_put p (?e\<lparr>c_out := bo'\<rparr>) (replied (k_fd key) k ?r False q ?w))"
    using reply_sent [OF awl(1) w', of ?e "k_fd key" ?r 1 k q] awl rb bo kernel
    by (auto simp: same_block_inv idle_def)
  have run: "run_read key (conn_put p ?c ?w) = bind_res (auth_read key (conn_put p ?c ?w)) (\<lambda>(ret, w).
      bind_res (jump socks5_states (stm_get key) (stm_put key) ret key w) (\<lambda>w. Inr (ret, w)))"
    using run_read_state [of key p ?w ?c 1] awl by (simp add: live)
  have hr: "auth_read key (conn_put p ?c ?w) =
      read_loop auth_byte return_current (length (encode_auth u pw) + Suc (length rest)) key (conn_put p ?c ?w)"
    using buffered_live [of key p ?w ?c] awl(1,2) b0(1,2)
    by (simp add: auth_read_def same_block_inv del: read_loop.simps)
  let ?e' = "?e\<lparr>c_out := bo'\<rparr>"
  have "socksv5_read key w =
      bind_res (bind_res (bind_res (run_write key 1 (conn_put p ?e' (replied (k_fd key) k ?r False q ?w)))
        (read_loop auth_byte return_current (Suc (length rest)) key)) (\<lambda>(ret, w).
      bind_res (jump socks5_states (stm_get key) (stm_put key) ret key w) (\<lambda>w. Inr (ret, w)))) count_error"
    using b0(3) run hr b(3) bo(3) bo'(4) awl(3) by (simp add: bind_res_assoc del: read_loop.simps)
  moreover have "buf_limit (buffer_reset b) = buf_limit (c_in c)" using b(1) b0(1) by (simp add: buffer_reset_def same_block_def)
  ultimately show ?thesis
    using bo bo' rb awl h by - (rule exI [of _ ?e'], auto simp del: read_loop.simps intro: same_block_trans)
qed

text \<open>With the reply taken whole, the connection waits for its request.\<close>

lemma login_done:
  assumes aw: "awaiting 1 key p c w"
    and fields: "auth_field_ok u" "auth_field_ok pw" "0 \<notin> set u" "0 \<notin> set pw"
    and table: "table_inv (user_map (w_cfg w))" "users (user_map (w_cfg w)) u = Some pw"
    and fits: "length (encode_auth u pw @ rest) \<le> buf_limit (c_in c)"
    and kernel: "os_recv (w_os w) = Recv (encode_auth u pw @ rest) # rs" "os_send (w_os w) = Sent 2 # q"
  defines "w' \<equiv> replied (k_fd key) 2 [1, 0] False q (received (k_fd key) w)"
  shows "\<exists>c'. socksv5_read key w = Inr (conn_put p c' w') \<and> awaiting 2 key p c' (conn_put p c' w') \<and> c_username c' = u \<and>
    interest_of (w_sel w') (k_fd key) = Some OP_READ \<and> c_src_address c' = c_src_address c \<and> c_src_port c' = c_src_port c \<and>
    buf_limit (c_in c') = buf_limit (c_in c) \<and> buf_limit (c_out c') = buf_limit (c_out c)"
proof -
  note awl = awaiting_live [OF aw]
  have ok: "auth_check_credentials (user_map (w_cfg w)) u pw" using table by (simp add: auth_check_users)
  let ?w = w'
  obtain c1 where c1: "same_block (c_out c) (c_out c1)" "pending (c_out c1) = []" "buf_read (c_out c1) = 0"
    "idle (c_in c1)" "c_stm c1 = Some (machine 1)" "c_auth c1 \<noteq> None" "\<not> c_is_error_response c1" "c_username c1 = u"
    "c_client_fd c1 = k_fd key" "c_origin_fd c1 = 0"
    "c_src_address c1 = c_src_address c" "c_src_port c1 = c_src_port c" "buf_limit (c_in c1) = buf_limit (c_in c)"
    "socksv5_read key w = bind_res (bind_res (bind_res (run_write key 1 (conn_put p c1 ?w))
        (read_loop auth_byte return_current (Suc (length rest)) key)) (\<lambda>(ret, w).
      bind_res (jump socks5_states (stm_get key) (stm_put key) ret key w) (\<lambda>w. Inr (ret, w)))) count_error"
    using login_read [OF aw fields fits kernel] ok unfolding w'_def by (auto simp del: read_loop.simps)
  have kw: "k_data key = Some p" "p < length (w_heap ?w)" "os_alloc (w_os ?w) = []" "256 \<le> length (os_junk (w_os ?w))"
    using awl by (simp_all add: w'_def sound_def)
  let ?c = "c1\<lparr>c_auth := None, c_stm := Some (machine 2), c_req := new_req ?w\<rparr>"
  have wr: "run_write key 1 (conn_put p c1 ?w) = Inr (conn_put p ?c ?w)"
    by (rule write_after_login [OF kw(1-3) c1(5-7)])
  have ci: "buffer_inv (c_in ?c)" "pending (c_in ?c) = []" "c_stm ?c = Some (machine 2)"
    using c1(4) by (simp_all add: idle_def)
  have rd: "socksv5_read key w = Inr (conn_put p ?c ?w)"
    using c1(14) wr loop_ends [OF kw(1,2) ci, of auth_byte "Suc (length rest)"]
      jump_stay [OF kw(1,2) ci(3), of socks5_states] by (simp add: count_error_def del: read_loop.simps)
  have sel: "sel_inv (w_sel (received (k_fd key) w))" "owner_of (w_sel (received (k_fd key) w)) (k_fd key) = Some (H_Socks5, p)"
    using awl by (simp_all add: sound_def)
  note rs = replied_selector [OF sel(1) awl(11) sel(2)]
  have "idle (c_out c1)" using c1(1-3) emptied by (auto intro: idle_block same_block_inv)
  then have "awaiting 2 key p ?c (conn_put p ?c ?w)"
    using c1 awl sel rs replied_sound [of "received (k_fd key) w"] new_req_start [OF kw(4)] unfolding w'_def
    by (intro awaiting_next) (auto simp: same_block_def)
  moreover have "interest_of (w_sel w') (k_fd key) = Some OP_READ" unfolding w'_def using rs(3) awl(13) by simp
  ultimately show ?thesis using rd c1 by (intro exI [of _ ?c]) (auto simp: same_block_def)
qed

section \<open>Properties\<close>

text \<open>C7: The right password opens the way.  A client that waits to log in and sends the login of a user
  of the table in one segment gets the reply 0, its name is recorded in the connection, and the machine waits for the
  request with a fresh parser and empty buffers: whatever followed the login in that
  segment has been thrown away.\<close>

theorem login_accepted:
  assumes aw: "awaiting 1 key p c w"
    and fields: "auth_field_ok u" "auth_field_ok pw" "0 \<notin> set u" "0 \<notin> set pw"
    and table: "table_inv (user_map (w_cfg w))" "users (user_map (w_cfg w)) u = Some pw"
    and fits: "length (encode_auth u pw @ rest) \<le> buf_limit (c_in c)"
    and kernel: "os_recv (w_os w) = Recv (encode_auth u pw @ rest) # rs" "os_send (w_os w) = Sent 2 # q"
  shows "\<exists>c' w'. socksv5_read key w = Inr w' \<and> awaiting 2 key p c' w' \<and> c_username c' = u \<and>
    os_trace (w_os w') = os_trace (w_os w) @ [Ev_Recv (k_fd key) (encode_auth u pw @ rest), Ev_Send (k_fd key) [1, 0]] \<and>
    interest_of (w_sel w') (k_fd key) = Some OP_READ"
  using login_done [OF assms] kernel(1) by auto

theorem login_accepted_witness:
  "\<exists>w c' w'. awaiting 1 sample_key 0 sample_login w \<and> os_recv (w_os w) = [Recv [1, 1, 98, 1, 112]] \<and>
     socksv5_read sample_key w = Inr w' \<and> awaiting 2 sample_key 0 c' w' \<and> c_username c' = [98] \<and>
     os_trace (w_os w') = [Ev_Recv 5 [1, 1, 98, 1, 112], Ev_Send 5 [1, 0]]"
proof -
  obtain s where s: "sel_inv s" "owner_of s = [5 \<mapsto> (H_Socks5, 0)]" using sample_selector by blast
  obtain u where u: "table_inv u" "users u = [[98] \<mapsto> [112]]" using sample_users by blast
  let ?w = "sample_world s sample_login u [Recv [1, 1, 98, 1, 112]] [Sent 2]"
  note a = sample_awaiting [OF s, of u "[Recv [1, 1, 98, 1, 112]]" "[Sent 2]"]
  obtain c' w' where "socksv5_read sample_key ?w = Inr w'" "awaiting 2 sample_key 0 c' w'" "c_username c' = [98]"
      "os_trace (w_os w') = os_trace (w_os ?w) @ [Ev_Recv 5 [1, 1, 98, 1, 112], Ev_Send (k_fd sample_key) [1, 0]]"
    using login_accepted [OF a, where u = "[98]" and pw = "[112]" and rest = "[]" and rs = "[]" and q = "[]"]
    by (auto simp: auth_field_ok_def encode_auth_def u)
  with a show ?thesis by - (rule exI [of _ ?w], rule exI [of _ c'], rule exI [of _ w'], simp)
qed

text \<open>C14: A wrong password crashes the server.  The refusal is written as it should be; once the kernel has
  taken a byte of it the connection is closed and released inside the loop that reads the
  login, and the loop goes on reading the connection: a use after free.\<close>

theorem login_refused_use_after_free:
  assumes aw: "awaiting 1 key p c w"
    and fields: "auth_field_ok u" "auth_field_ok pw" "0 \<notin> set u" "0 \<notin> set pw"
    and table: "table_inv (user_map (w_cfg w))" "users (user_map (w_cfg w)) u \<noteq> Some pw"
    and fits: "length (encode_auth u pw @ rest) \<le> buf_limit (c_in c)"
    and kernel: "os_recv (w_os w) = Recv (encode_auth u pw @ rest) # rs" "os_send (w_os w) = Sent k # q" "0 < k" "k \<le> 2"
  shows "socksv5_read key w = Inl Use_After_Free"
proof -
  note awl = awaiting_live [OF aw]
  have ok: "\<not> auth_check_credentials (user_map (w_cfg w)) u pw" using table by (simp add: auth_check_users)
  let ?w = "replied (k_fd key) k [1, 1] False q (received (k_fd key) w)"
  obtain c1 where c1: "c_stm c1 = Some (machine 1)" "c_auth c1 \<noteq> None" "c_is_error_response c1"
    "c_client_fd c1 = k_fd key" "c_origin_fd c1 = 0"
    "socksv5_read key w = bind_res (bind_res (bind_res (run_write key 1 (conn_put p c1 ?w))
        (read_loop auth_byte return_current (Suc (length rest)) key)) (\<lambda>(ret, w).
      bind_res (jump socks5_states (stm_get key) (stm_put key) ret key w) (\<lambda>w. Inr (ret, w)))) count_error"
    using login_read [OF aw fields fits kernel] ok by (auto simp del: read_loop.simps)
  have sel: "sel_inv (w_sel (received (k_fd key) w))" "owner_of (w_sel (received (k_fd key) w)) (k_fd key) = Some (H_Socks5, p)"
    using awl by (simp_all add: sound_def)
  note rs = replied_selector [OF sel(1) awl(11) sel(2)]
  have "run_write key 1 (conn_put p c1 ?w) = Inr (closed p c1 ?w)"
    using awl rs sel c1 by (intro write_after_error) (auto simp: sound_def state_parser_def)
  moreover have "conn_get p (closed p c1 ?w) = Inl Use_After_Free"
    using awl(2) by (simp add: conn_get_closed)
  ultimately show ?thesis
    using c1(6) awl(1) by (simp add: key_conn_def)
qed

theorem login_refused_use_after_free_witness:
  "\<exists>w. awaiting 1 sample_key 0 sample_login w \<and> os_recv (w_os w) = [Recv [1, 1, 98, 1, 113]] \<and>
     users (user_map (w_cfg w)) = [[98] \<mapsto> [112]] \<and> socksv5_read sample_key w = Inl Use_After_Free"
proof -
  obtain s where s: "sel_inv s" "owner_of s = [5 \<mapsto> (H_Socks5, 0)]" using sample_selector by blast
  obtain u where u: "table_inv u" "users u = [[98] \<mapsto> [112]]" using sample_users by blast
  let ?w = "sample_world s sample_login u [Recv [1, 1, 98, 1, 113]] [Sent 2]"
  note a = sample_awaiting [OF s, of u "[Recv [1, 1, 98, 1, 113]]" "[Sent 2]"]
  have "socksv5_read sample_key ?w = Inl Use_After_Free"
    by (rule login_refused_use_after_free [OF a, where u = "[98]" and pw = "[113]" and rest = "[]" and rs = "[]" and q = "[]" and k = 2])
       (simp_all add: auth_field_ok_def encode_auth_def u)
  with a u show ?thesis by - (rule exI [of _ ?w], simp)
qed

text \<open>C13: A reply the kernel takes in two pieces lets a client in without a login.  The greeting asks for
  user and password and is answered so; after the first byte the machine is in the
  login state already, and the write of the second byte is taken for the write of a login reply: the
  machine waits for the request, no login having been read and no user recorded.\<close>

theorem split_reply_skips_login:
  assumes acc: "accepted key p c w"
    and ms: "set ms \<subseteq> {0, 1, 2}" "unat n = length ms" "n \<noteq> 255" "2 \<in> set ms"
    and fits: "length (5 # n # ms) \<le> buf_limit (c_in c)"
    and kernel: "os_recv (w_os w) = Recv (5 # n # ms) # rs" "os_send (w_os w) = Sent 1 # Sent 1 # q"
  shows "\<exists>w1 c2 w2. socksv5_read key w = Inr w1 \<and> interest_of (w_sel w1) (k_fd key) = Some OP_WRITE \<and>
    socksv5_write key w1 = Inr w2 \<and> awaiting 2 key p c2 w2 \<and> c_username c2 = c_username c \<and>
    os_trace (w_os w2) = os_trace (w_os w) @
      [Ev_Recv (k_fd key) (5 # n # ms), Ev_Send (k_fd key) [5], Ev_Send (k_fd key) [2]]"
proof -
  note accd = accepted_live [OF acc]
  have m: "ms \<noteq> []" "method_for ms = 2" "next_state ms = 1" using ms(4) by (auto simp: method_for_def next_state_def)
  let ?w = "replied (k_fd key) 1 [5, 2] False (Sent 1 # q) (received (k_fd key) w)"
  obtain c1 where c1: "socksv5_read key w = Inr (conn_put p c1 ?w)" "same_block (c_out c) (c_out c1)"
    "pending (c_out c1) = [2]" "buf_read (c_out c1) = 0" "idle (c_in c1)" "c_client_fd c1 = k_fd key"
    "c_origin_fd c1 = 0" "\<not> c_is_error_response c1" "c_username c1 = c_username c" "c_stm c1 = Some (machine 1)"
    "\<exists>h. c_auth c1 = Some h"
    using greeting_left [OF acc ms(1) m(1) ms(2,3) _ fits kernel] m by auto
  have sel: "sel_inv (w_sel (received (k_fd key) w))" "owner_of (w_sel (received (k_fd key) w)) (k_fd key) = Some (H_Socks5, p)"
    using accd by (simp_all add: sound_def)
  note rs = replied_selector [OF sel(1) accd(11) sel(2)]
  have snd: "sound ?w" using replied_sound [OF _ accd(11) sel(2)] accd(4) by simp
  have pw: "p < length (w_heap ?w)" using accd(2) by simp
  let ?v = "served c1 1 False (sent (k_fd key) [2] q ?w)"
  obtain b where b: "same_block (c_out c1) b" "pending b = []" "buf_read b = 0"
    "socksv5_write key (conn_put p c1 ?w) = run_write key 1 (conn_put p (c1\<lparr>c_out := b\<rparr>) ?v)"
    using write_live [OF accd(1) pw, of c1 1 "machine 1" 1 q] snd c1 by (auto simp: sound_def same_block_inv idle_def)
  let ?c = "c1\<lparr>c_out := b, c_auth := None, c_stm := Some (machine 2), c_req := new_req ?v\<rparr>"
  have kv: "p < length (w_heap ?v)" "os_alloc (w_os ?v) = []" "256 \<le> length (os_junk (w_os ?v))"
    using accd by (simp_all add: sound_def)
  have wr: "run_write key 1 (conn_put p (c1\<lparr>c_out := b\<rparr>) ?v) = Inr (conn_put p ?c ?v)"
    using write_after_login [OF accd(1) kv(1,2), of "c1\<lparr>c_out := b\<rparr>"] c1 by auto
  have own: "owner_of (w_sel ?v) (k_fd key) = Some (H_Socks5, p)" "sound ?v"
    using rs(1,2) sel(2) snd by (auto simp: sel_after_send_def Let_def sound_def)
  have "idle b" using b same_block_inv [OF b(1)] emptied [of b] by (auto intro: idle_block)
  then have "awaiting 2 key p ?c (conn_put p ?c ?v)"
    using own kv accd c1 b same_block_trans [OF c1(2) b(1)] new_req_start [OF kv(3)]
    by (intro awaiting_next) (auto simp: same_block_def)
  then show ?thesis
    using c1(1,9) rs(3) accd(13) b(4) wr kernel(1)
    by - (rule exI [of _ "conn_put p c1 ?w"], rule exI [of _ ?c], rule exI [of _ "conn_put p ?c ?v"], simp)
qed

theorem split_reply_skips_login_witness:
  "\<exists>c w w1 c2 w2. accepted sample_key 0 c w \<and> os_recv (w_os w) = [Recv [5, 1, 2]] \<and>
     socksv5_read sample_key w = Inr w1 \<and> socksv5_write sample_key w1 = Inr w2 \<and>
     awaiting 2 sample_key 0 c2 w2 \<and> c_username c2 = []"
proof -
  obtain s where s: "sel_inv s" "owner_of s = [5 \<mapsto> (H_Socks5, 0)]" using sample_selector by blast
  let ?c = "sample_conn\<lparr>c_stm := socks5_stm_init True\<rparr>"
  let ?w = "sample_world s ?c auth_init [Recv [5, 1, 2]] [Sent 1, Sent 1]"
  note a = sample_accepted [OF s, of auth_init "[Recv [5, 1, 2]]" "[Sent 1, Sent 1]"]
  have "\<exists>w1 c2 w2. socksv5_read sample_key ?w = Inr w1 \<and> interest_of (w_sel w1) (k_fd sample_key) = Some OP_WRITE \<and>
    socksv5_write sample_key w1 = Inr w2 \<and> awaiting 2 sample_key 0 c2 w2 \<and> c_username c2 = c_username ?c \<and>
    os_trace (w_os w2) = os_trace (w_os ?w) @
      [Ev_Recv (k_fd sample_key) (5 # 1 # [2]), Ev_Send (k_fd sample_key) [5], Ev_Send (k_fd sample_key) [2]]"
    by (rule split_reply_skips_login [OF a, where ms = "[2]" and n = 1 and rs = "[]" and q = "[]"]) simp_all
  then obtain w1 c2 w2 where r: "socksv5_read sample_key ?w = Inr w1" "socksv5_write sample_key w1 = Inr w2"
    "awaiting 2 sample_key 0 c2 w2" "c_username c2 = []" by auto
  show ?thesis
    using a r by - (rule exI [of _ ?c], rule exI [of _ ?w], rule exI [of _ w1], rule exI [of _ c2], rule exI [of _ w2], simp)
qed

end
