(* ===== verification/Turns.thy ===== *)
theory Turns
  imports Handler_Facts
begin

text \<open>
  One turn of the main loop in which one descriptor is ready: the selector calls the handler that is due and
  nothing else, then the handlers of the resolutions that have finished.
\<close>

section \<open>The operations of the selector leave what is ready\<close>

text \<open>What a turn still has to look at, and the resolutions to announce: no operation of a handler changes it.\<close>

definition agenda :: "sel \<Rightarrow> nat set \<times> nat set \<times> int list" where
  "agenda s = (slave_r s, slave_w s, resolution_jobs s)"

lemma agenda_update: "agenda (items_update_fdset_for_fd s i) = agenda s" "agenda (s\<lparr>fds := x\<rparr>) = agenda s"
  "agenda (s\<lparr>max_fd := m\<rparr>) = agenda s" "agenda (s\<lparr>fds := x, max_fd := m\<rparr>) = agenda s"
  by (simp_all add: agenda_def items_update_fdset_for_fd_def Let_def)

lemma agenda_sel_set [simp]: "agenda (sel_set fd i s) = agenda s"
  by (auto simp: sel_set_def selector_set_interest_def agenda_update Let_def bind_res_def split: sum.split)

lemma agenda_sel_reg [simp]: "agenda (sel_reg fd h i p s) = agenda s"
proof -
  have "agenda s' = agenda s" if "ensure_capacity a s n = Inr (st, s')" for a n st s'
    using that by (auto simp: ensure_capacity_def items_init_def guard_eq_Inr agenda_def bind_res_eq_Inr split: if_splits)
  then show ?thesis
    by (auto simp: sel_reg_def selector_register_def agenda_update Let_def bind_res_def split: sum.split)
qed

lemma agenda_sel_drop [simp]: "agenda (sel_drop fd s) = agenda s"
  by (auto simp: sel_drop_def selector_unregister_fd_def agenda_update Let_def bind_res_def split: sum.split option.split)

lemma agenda_of [simp]: "agenda (s\<lparr>slave_r := r, slave_w := w\<rparr>) = (r, w, resolution_jobs s)"
  "agenda (s\<lparr>resolution_jobs := l\<rparr>) = (slave_r s, slave_w s, l)"
  by (simp_all add: agenda_def)

section \<open>Items with nothing to do\<close>

lemma item_idle:
  assumes "sel_inv (w_sel w)" "i < length (fds (w_sel w))" "i \<notin> slave_r (w_sel w)" "i \<notin> slave_w (w_sel w)"
  shows "handle_item proxy_handlers w_sel i w = Inr w"
proof (cases "used_at (w_sel w) i")
  case True
  with assms(1) have "it_fd (fds (w_sel w) ! i) = int i" by (simp add: sel_inv_def)
  with assms(2-4) show ?thesis by (simp add: handle_item_def Let_def)
next
  case False
  with assms(2) show ?thesis by (simp add: handle_item_def used_at_def)
qed

lemma items_idle:
  "sel_inv (w_sel w) \<Longrightarrow> (\<And>i. i \<in> set is \<Longrightarrow> i < length (fds (w_sel w)) \<and> i \<notin> slave_r (w_sel w) \<and> i \<notin> slave_w (w_sel w)) \<Longrightarrow>
     iterate_items proxy_handlers w_sel is w = Inr w"
  by (induction "is") (simp_all add: item_idle)

lemma upt_at: "k < n \<Longrightarrow> [0..<n] = [0..<k] @ k # [Suc k..<n]"
  by (metis less_imp_add_positive upt_add_eq_append upt_conv_Cons le0 le_add1 le_less_trans)

lemma items_append:
  "iterate_items hs sel (is @ js) w = bind_res (iterate_items hs sel is w) (iterate_items hs sel js)"
proof (induction "is" arbitrary: w)
  case (Cons i "is")
  show ?case by (cases "handle_item hs sel i w") (simp_all add: Cons.IH)
qed simp

section \<open>The turn\<close>

text \<open>The world when the handlers of a turn are called.\<close>

definition woken :: "nat set \<Rightarrow> nat set \<Rightarrow> world \<Rightarrow> world" where
  "woken r wr w = w\<lparr>w_sel := (w_sel w)\<lparr>slave_r := r, slave_w := wr\<rparr>\<rparr>"

lemma woken_sel [simp]:
  "w_os (woken r wr w) = w_os w" "w_cfg (woken r wr w) = w_cfg w" "w_heap (woken r wr w) = w_heap w" "w_admin (woken r wr w) = w_admin w"
  "w_resolving (woken r wr w) = w_resolving w" "sel_table (w_sel (woken r wr w)) = sel_table (w_sel w)"
  "sel_inv (w_sel (woken r wr w)) = sel_inv (w_sel w)" "agenda (w_sel (woken r wr w)) = (r, wr, resolution_jobs (w_sel w))"
  "conn_get p (woken r wr w) = conn_get p w" "length (fds (w_sel (woken r wr w))) = length (fds (w_sel w))"
  "resolution_jobs (w_sel (woken r wr w)) = resolution_jobs (w_sel w)"
  "interest_of (w_sel (woken r wr w)) = interest_of (w_sel w)" "owner_of (w_sel (woken r wr w)) = owner_of (w_sel w)"
  by (simp_all add: woken_def interest_of_def [abs_def] owner_of_def [abs_def] conn_get_def)

lemma table_bounds:
  assumes inv: "sel_inv s" and e: "sel_table s fd = Some e"
  shows "fd = int (nat fd)" "nat fd < length (fds s)" "item_used (fds s ! nat fd)" "fds s ! nat fd = e" "it_fd e = fd"
    "nat fd < nat (max_fd s + 1)" "max_fd s < int (length (fds s))"
proof -
  from e have t: "0 \<le> fd" "used_at s (nat fd)" "e = fds s ! nat fd" by (auto simp: sel_table_def split: if_splits)
  then show "fd = int (nat fd)" "item_used (fds s ! nat fd)" "fds s ! nat fd = e" by (simp_all add: used_at_def)
  from t show n: "nat fd < length (fds s)" by (simp add: used_at_def)
  from t inv show "it_fd e = fd" by (simp add: sel_inv_def)
  from inv have m: "max_fd s = int (Max (insert 0 {i. used_at s i}))" by (simp add: sel_inv_def)
  have "nat fd \<le> Max (insert 0 {i. used_at s i})" using t(2) by (intro Max_ge) auto
  with m show "nat fd < nat (max_fd s + 1)" by simp
  from max_fd_bounds [OF inv] show "max_fd s < int (length (fds s))" by simp
qed

definition all_valid :: "sel \<Rightarrow> bool" where
  "all_valid s \<longleftrightarrow> (\<forall>fd. sel_table s fd \<noteq> None \<longrightarrow> \<not> invalid_fd fd)"

lemma max_fd_valid:
  assumes inv: "sel_inv s" and ok: "all_valid s"
  shows "nat (max_fd s + 1) \<le> ITEMS_MAX_SIZE"
proof -
  have "i < ITEMS_MAX_SIZE" if "used_at s i" for i
  proof -
    from that have "sel_table s (int i) \<noteq> None" by (simp add: sel_table_def)
    with ok have "\<not> invalid_fd (int i)" unfolding all_valid_def by blast
    then show ?thesis by (simp add: invalid_fd_def)
  qed
  moreover have "Max (insert 0 {i. used_at s i}) \<in> insert 0 {i. used_at s i}" by (rule Max_in) simp_all
  ultimately have "int (Max (insert 0 {i. used_at s i})) < int ITEMS_MAX_SIZE" by (auto simp: ITEMS_MAX_SIZE_def)
  moreover have "max_fd s = int (Max (insert 0 {i. used_at s i}))" using inv by (simp add: sel_inv_def)
  ultimately show ?thesis by linarith
qed

text \<open>The items are visited in order; the ones before and after the descriptor that is ready have nothing to do.\<close>

lemma one_item:
  assumes inv: "sel_inv (w_sel w)" and ok: "all_valid (w_sel w)" and e: "sel_table (w_sel w) fd = Some e"
    and only: "slave_r (w_sel w) \<subseteq> {nat fd}" "slave_w (w_sel w) \<subseteq> {nat fd}"
    and run: "handle_item proxy_handlers w_sel (nat fd) w = Inr w1"
    and w1: "sel_inv (w_sel w1)" "slave_r (w_sel w1) \<subseteq> {nat fd}" "slave_w (w_sel w1) \<subseteq> {nat fd}"
  shows "handle_iteration proxy_handlers w_sel w = Inr w1"
proof -
  let ?n = "nat (max_fd (w_sel w) + 1)" and ?k = "nat fd"
  have n: "?k < ?n" "?n \<le> ITEMS_MAX_SIZE" using table_bounds [OF inv e] max_fd_valid [OF inv ok] by simp_all
  note split = upt_at [OF n(1)]
  have len: "i < length (fds (w_sel v))" if "i < ?n" "sel_inv (w_sel v)" for i and v :: world
    using that n by (simp add: sel_inv_def)
  have "iterate_items proxy_handlers w_sel [0..<?k] w = Inr w"
    using n only by (intro items_idle inv conjI) (auto intro!: len inv)
  moreover have "iterate_items proxy_handlers w_sel [Suc ?k..<?n] w1 = Inr w1"
    using n w1 by (intro items_idle w1(1) conjI) (auto intro!: len)
  ultimately show ?thesis
    using run unfolding handle_iteration_def split by (simp add: items_append)
qed

abbreviation finish_turn :: "world \<Rightarrow> (selector_status \<times> world) res" where
  "finish_turn w \<equiv> bind_res (handle_block_notifications proxy_handlers w_sel (\<lambda>s w. w\<lparr>w_sel := s\<rparr>) w) (\<lambda>w. Inr (SELECTOR_SUCCESS, w))"

lemma turn_reads:
  assumes inv: "sel_inv (w_sel w)" and ok: "all_valid (w_sel w)" and e: "sel_table (w_sel w) fd = Some e" "it_handler e = Some h"
    and h: "wants (it_interest e) OP_READ" "read_handler h = Some f"
    and run: "f fd (it_data e) (woken {nat fd} {} w) = Inr w1"
    and w1: "sel_inv (w_sel w1)" "agenda (w_sel w1) = ({nat fd}, {}, l)"
  shows "proxy_select (PS_Ready {nat fd} {}) w = finish_turn w1"
proof -
  let ?w = "woken {nat fd} {} w"
  note t = table_bounds [OF inv e(1)]
  have s1: "slave_r (w_sel w1) = {nat fd}" "slave_w (w_sel w1) = {}" using w1(2) by (simp_all add: agenda_def)
  have m: "{nat fd} \<inter> master_r (w_sel w) = {nat fd}" using inv t(2-4) h(1) by (auto simp: sel_inv_def used_at_def)
  have k: "mem_get (fds (w_sel ?w)) (nat fd) = Inr e" using t by (simp add: woken_def mem_get_def)
  have "ITEMS_MAX_SIZE < length (fds (w_sel w1))" using w1(1) by (simp add: sel_inv_def)
  with t(6) max_fd_valid [OF inv ok] have "nat fd < length (fds (w_sel w1))" by linarith
  then have "handle_item proxy_handlers w_sel (nat fd) ?w = Inr w1"
    using k t(3-5) h e(2) run s1 by (simp add: handle_item_def Let_def run_handler_def proxy_handlers_def woken_def mem_get_def)
  then have "handle_iteration proxy_handlers w_sel ?w = Inr w1"
    by (intro one_item [where fd = fd and e = e]) (use inv ok e w1(1) s1 in \<open>simp_all add: all_valid_def woken_def\<close>)
  then show ?thesis
    by (simp add: proxy_select_def selector_select_def m woken_def Let_def)
qed

lemma turn_writes:
  assumes inv: "sel_inv (w_sel w)" and ok: "all_valid (w_sel w)" and e: "sel_table (w_sel w) fd = Some e" "it_handler e = Some h"
    and h: "wants (it_interest e) OP_WRITE" "write_handler h = Some f"
    and run: "f fd (it_data e) (woken {} {nat fd} w) = Inr w1"
    and w1: "sel_inv (w_sel w1)" "agenda (w_sel w1) = ({}, {nat fd}, l)"
  shows "proxy_select (PS_Ready {} {nat fd}) w = finish_turn w1"
proof -
  let ?w = "woken {} {nat fd} w"
  note t = table_bounds [OF inv e(1)]
  have s1: "slave_r (w_sel w1) = {}" "slave_w (w_sel w1) = {nat fd}" using w1(2) by (simp_all add: agenda_def)
  have m: "{nat fd} \<inter> master_w (w_sel w) = {nat fd}" using inv t(2-4) h(1) by (auto simp: sel_inv_def used_at_def)
  have k: "mem_get (fds (w_sel ?w)) (nat fd) = Inr e" using t by (simp add: woken_def mem_get_def)
  have "handle_item proxy_handlers w_sel (nat fd) ?w = Inr w1"
    using k t(3-5) h e(2) run by (simp add: handle_item_def Let_def run_handler_def proxy_handlers_def woken_def)
  then have "handle_iteration proxy_handlers w_sel ?w = Inr w1"
    by (intro one_item [where fd = fd and e = e]) (use inv ok e w1(1) s1 in \<open>simp_all add: all_valid_def woken_def\<close>)
  then show ?thesis
    by (simp add: proxy_select_def selector_select_def m woken_def Let_def)
qed

text \<open>A handler that dies takes the turn with it.\<close>

lemma turn_dies:
  assumes inv: "sel_inv (w_sel w)" and ok: "all_valid (w_sel w)" and e: "sel_table (w_sel w) fd = Some e" "it_handler e = Some h"
    and h: "wants (it_interest e) OP_READ" "read_handler h = Some f"
    and run: "f fd (it_data e) (woken {nat fd} {} w) = Inl x"
  shows "proxy_select (PS_Ready {nat fd} {}) w = Inl x"
proof -
  let ?w = "woken {nat fd} {} w" and ?n = "nat (max_fd (w_sel w) + 1)" and ?k = "nat fd"
  note t = table_bounds [OF inv e(1)]
  have before: "i < length (fds (w_sel w))" if "i < ?k" for i using that t(2) by linarith
  have m: "{?k} \<inter> master_r (w_sel w) = {?k}" using inv t(2-4) h(1) by (auto simp: sel_inv_def used_at_def)
  have k: "mem_get (fds (w_sel ?w)) ?k = Inr e" using t by (simp add: woken_def mem_get_def)
  note split = upt_at [OF t(6)]
  have "iterate_items proxy_handlers w_sel [0..<?k] ?w = Inr ?w"
    using inv before by (intro items_idle) (simp_all, simp_all add: woken_def)
  moreover have "handle_item proxy_handlers w_sel ?k ?w = Inl x"
    using k t(3-5) h e(2) run by (simp add: handle_item_def Let_def run_handler_def proxy_handlers_def woken_def)
  moreover have "max_fd (w_sel ?w) = max_fd (w_sel w)" by (simp add: woken_def)
  ultimately have "handle_iteration proxy_handlers w_sel ?w = Inl x"
    unfolding handle_iteration_def using split by (simp add: items_append)
  then show ?thesis by (simp add: proxy_select_def selector_select_def m woken_def Let_def)
qed

text \<open>Nobody is interested in the descriptors that are ready.\<close>

lemma idle_turn:
  assumes inv: "sel_inv (w_sel w)" and ok: "all_valid (w_sel w)"
    and none: "r \<inter> master_r (w_sel w) = {}" "wr \<inter> master_w (w_sel w) = {}"
  shows "proxy_select (PS_Ready r wr) w = finish_turn (woken {} {} w)"
proof -
  have n: "nat (max_fd (w_sel w) + 1) \<le> ITEMS_MAX_SIZE" by (rule max_fd_valid [OF inv ok])
  have len: "ITEMS_MAX_SIZE < length (fds (w_sel w))" using inv by (simp add: sel_inv_def)
  have "max_fd (w_sel (woken {} {} w)) = max_fd (w_sel w)" by (simp add: woken_def)
  then have "handle_iteration proxy_handlers w_sel (woken {} {} w) = Inr (woken {} {} w)"
    using inv n len unfolding handle_iteration_def by (intro items_idle) (simp_all, simp_all add: woken_def)
  then show ?thesis using none by (simp add: proxy_select_def selector_select_def woken_def Let_def)
qed

text \<open>The end of a turn, with no resolution to announce and with one.\<close>

lemma finish_none:
  assumes "resolution_jobs (w_sel w) = []"
  shows "finish_turn w = Inr (SELECTOR_SUCCESS, w)"
proof -
  have "w\<lparr>w_sel := (w_sel w)\<lparr>resolution_jobs := []\<rparr>\<rparr> = w" using assms by (simp flip: assms)
  then show ?thesis using assms by (simp add: handle_block_notifications_def)
qed

lemma finish_one:
  assumes inv: "sel_inv (w_sel w)" and e: "sel_table (w_sel w) fd = Some e" "it_handler e = Some h" "block_handler h = Some f"
    and l: "resolution_jobs (w_sel w) = [fd]" and run: "f fd (it_data e) w = Inr w1"
  shows "finish_turn w = Inr (SELECTOR_SUCCESS, w1\<lparr>w_sel := (w_sel w1)\<lparr>resolution_jobs := []\<rparr>\<rparr>)"
proof -
  note t = table_bounds [OF inv e(1)]
  have fd: "\<not> fd < 0" using t(1) by linarith
  show ?thesis
    using t(2-5) fd e(2,3) l run
    by (simp add: handle_block_notifications_def run_handler_def proxy_handlers_def mem_get_def)
qed

end
