(* ===== verification/Relay.thy ===== *)
theory Relay
  imports Negotiation Turns
begin

text \<open>
  The relay of \<open>states_handlers/socks5_copy.c\<close>: the four handlers of a connection in the copy
  state, as steps the selector takes where the interest asks for them, and what every run of these
  steps keeps while the kernel reports no error and no end of a stream: the bytes arrive in order and complete, and
  whoever holds bytes waits to write.
\<close>

section \<open>A kernel without errors\<close>

definition calm :: "os \<Rightarrow> bool" where
  "calm u \<longleftrightarrow>
     (\<forall>r \<in> set (os_recv u). (\<exists>bs. r = Recv bs \<and> bs \<noteq> []) \<or> r = Recv_Error EAGAIN) \<and>
     (\<forall>r \<in> set (os_send u). (\<exists>k. r = Sent k \<and> 0 < k) \<or> r = Send_Error EAGAIN)"

text \<open>\<open>w'\<close> comes after \<open>w\<close>, the events \<open>t\<close> having happened and nothing else but the selector.\<close>

definition follows :: "world \<Rightarrow> world \<Rightarrow> os_event list \<Rightarrow> bool" where
  "follows w w' t \<longleftrightarrow> w_heap w' = w_heap w \<and> (metrics (data (w_cfg w')) = None \<longleftrightarrow> metrics (data (w_cfg w)) = None) \<and>
     os_trace (w_os w') = os_trace (w_os w) @ t \<and> os_alloc (w_os w') = os_alloc (w_os w) \<and>
     os_junk (w_os w') = os_junk (w_os w) \<and> (calm (w_os w) \<longrightarrow> calm (w_os w'))"

lemma follows_refl: "follows w w []"
  by (simp add: follows_def)

lemma follows_sel [simp]: "follows w (w'\<lparr>w_sel := s\<rparr>) t = follows w w' t"
  by (simp add: follows_def)

lemma follows_trans: "follows w w1 t \<Longrightarrow> follows w1 w2 t' \<Longrightarrow> follows w w2 (t @ t')"
  by (auto simp: follows_def)

lemma follows_count [simp]: "follows w (count f w') t = follows w w' t"
  by (simp add: follows_def)

lemma sys_recv_put [live]: "sys_recv fd n (conn_put p c w) = (let (r, w) = sys_recv fd n w in (r, conn_put p c w))"
  by (auto simp: sys_recv_def Let_def emit_def set_errno_def split: prod.splits recv_result.splits)

lemma sys_send_put [live]: "sys_send fd bs (conn_put p c w) = (let (r, w) = sys_send fd bs w in (r, conn_put p c w))"
  by (auto simp: sys_send_def Let_def emit_def set_errno_def split: prod.splits send_result.splits)

lemma sys_recv_calm:
  assumes "calm (w_os w)" "0 < n"
  obtains bs w' where "sys_recv fd n w = (Recv bs, w')" "w_sel w' = w_sel w" "follows w w' [Ev_Recv fd bs]"
      "bs \<noteq> []" "length bs \<le> n"
    | w' where "sys_recv fd n w = (Recv_Error EAGAIN, w')" "w_sel w' = w_sel w" "follows w w' []"
proof (cases "os_recv (w_os w)")
  case Nil
  with assms(1) have "sys_recv fd n w = (Recv_Error EAGAIN, set_errno EAGAIN (os_upd (\<lambda>s. s\<lparr>os_recv := []\<rparr>) w))"
    by (simp add: sys_recv_def pop_def)
  then show ?thesis
    by (rule that(2)) (use Nil assms(1) in \<open>auto simp: follows_def set_errno_def calm_def\<close>)
next
  case (Cons r q)
  with assms(1) consider bs where "r = Recv bs" "bs \<noteq> []" | "r = Recv_Error EAGAIN"
    by (auto simp: calm_def)
  then show ?thesis
  proof cases
    case 1
    then have "take n bs \<noteq> []" using assms(2) by simp
    with Cons 1 have "sys_recv fd n w = (Recv (take n bs), emit (Ev_Recv fd (take n bs)) (os_upd (\<lambda>s. s\<lparr>os_recv := q\<rparr>) w))"
      by (simp add: sys_recv_def pop_def)
    then show ?thesis
      by (rule that(1)) (use Cons 1 assms in \<open>auto simp: follows_def emit_def calm_def\<close>)
  next
    case 2
    with Cons have "sys_recv fd n w = (Recv_Error EAGAIN, set_errno EAGAIN (os_upd (\<lambda>s. s\<lparr>os_recv := q\<rparr>) w))"
      by (simp add: sys_recv_def pop_def)
    then show ?thesis
      by (rule that(2)) (use Cons assms in \<open>auto simp: follows_def set_errno_def calm_def\<close>)
  qed
qed

lemma sys_send_calm:
  assumes "calm (w_os w)" "bs \<noteq> []"
  obtains k w' where "sys_send fd bs w = (Sent k, w')" "w_sel w' = w_sel w" "follows w w' [Ev_Send fd (take k bs)]"
      "0 < k" "k \<le> length bs" "os_send (w_os w') = tl (os_send (w_os w))"
    | w' where "sys_send fd bs w = (Send_Error EAGAIN, w')" "w_sel w' = w_sel w" "follows w w' []"
      "\<forall>k q. os_send (w_os w) \<noteq> Sent k # q"
proof (cases "os_send (w_os w)")
  case Nil
  then have "sys_send fd bs w = (Send_Error EAGAIN, set_errno EAGAIN (os_upd (\<lambda>s. s\<lparr>os_send := []\<rparr>) w))"
    by (simp add: sys_send_def pop_def)
  then show ?thesis
    by (rule that(2)) (use Nil assms(1) in \<open>auto simp: follows_def set_errno_def calm_def\<close>)
next
  case (Cons r q)
  with assms(1) consider k where "r = Sent k" "0 < k" | "r = Send_Error EAGAIN"
    by (auto simp: calm_def)
  then show ?thesis
  proof cases
    case 1
    let ?k = "min k (length bs)"
    have tk: "take k bs = take ?k bs" by (simp add: min_def)
    from 1 Cons have "sys_send fd bs w = (Sent ?k, emit (Ev_Send fd (take ?k bs)) (os_upd (\<lambda>s. s\<lparr>os_send := q\<rparr>) w))"
      unfolding tk [symmetric] by (simp add: sys_send_def pop_def)
    then show ?thesis
      by (rule that(1)) (use Cons 1 assms in \<open>auto simp: follows_def emit_def calm_def\<close>)
  next
    case 2
    with Cons have "sys_send fd bs w = (Send_Error EAGAIN, set_errno EAGAIN (os_upd (\<lambda>s. s\<lparr>os_send := q\<rparr>) w))"
      by (simp add: sys_send_def pop_def)
    then show ?thesis
      by (rule that(2)) (use Cons 2 assms in \<open>auto simp: follows_def set_errno_def calm_def\<close>)
  qed
qed

section \<open>A relaying connection\<close>

text \<open>A buffer that starts over where it is empty, as the operations of the relay leave it.\<close>

definition tidy :: "buffer \<Rightarrow> bool" where
  "tidy b \<longleftrightarrow> buffer_inv b \<and> 0 < buf_limit b \<and> (pending b = [] \<longrightarrow> buf_write b = 0)"

lemma tidy_full: "tidy b \<Longrightarrow> room b = 0 \<Longrightarrow> pending b \<noteq> []"
  by (auto simp: tidy_def room_def)

lemma tidy_compact:
  "buffer_inv b \<Longrightarrow> 0 < buf_limit b \<Longrightarrow> buf_read b = 0 \<Longrightarrow> tidy b"
  using emptied [of b] by (auto simp: tidy_def)

definition relaying :: "nat \<Rightarrow> int \<Rightarrow> int \<Rightarrow> socks5_conn \<Rightarrow> world \<Rightarrow> bool" where
  "relaying p fc fo c w \<longleftrightarrow>
     conn_get p w = Inr c \<and> c_client_fd c = fc \<and> c_origin_fd c = fo \<and> 0 < fc \<and> 0 < fo \<and> fc \<noteq> fo \<and>
     \<not> invalid_fd fc \<and> \<not> invalid_fd fo \<and> owner_of (w_sel w) fc = Some (H_Socks5, p) \<and>
     owner_of (w_sel w) fo = Some (H_Copy, p) \<and> c_stm c = Some (machine 4) \<and> tidy (c_in c) \<and> tidy (c_out c) \<and>
     sel_inv (w_sel w) \<and> metrics (data (w_cfg w)) \<noteq> None"

text \<open>
  Whoever holds bytes waits to write them, never do both directions hold bytes, and a client that is not
  listened to is one whose bytes fill the input buffer.
\<close>

definition wakeful :: "int \<Rightarrow> int \<Rightarrow> socks5_conn \<Rightarrow> sel \<Rightarrow> bool" where
  "wakeful fc fo c s \<longleftrightarrow>
     (pending (c_in c) \<noteq> [] \<longleftrightarrow> interest_of s fo = Some OP_WRITE) \<and>
     (pending (c_out c) \<noteq> [] \<longleftrightarrow> interest_of s fc = Some OP_WRITE) \<and>
     (pending (c_in c) = [] \<or> pending (c_out c) = []) \<and>
     interest_of s fc \<in> {Some OP_READ, Some OP_WRITE, Some OP_NOOP} \<and>
     interest_of s fo \<in> {Some OP_READ, Some OP_WRITE, Some OP_NOOP} \<and>
     (interest_of s fc = Some OP_NOOP \<longrightarrow> room (c_in c) = 0) \<and>
     (interest_of s fo = Some OP_NOOP \<longrightarrow> room (c_out c) = 0 \<or> pending (c_in c) = [])"

lemma interests_distinct [simp]:
  "OP_READ \<noteq> OP_WRITE" "OP_WRITE \<noteq> OP_READ" "OP_READ \<noteq> OP_NOOP" "OP_NOOP \<noteq> OP_READ"
  "OP_WRITE \<noteq> OP_NOOP" "OP_NOOP \<noteq> OP_WRITE"
  by (simp_all add: interest_defs)

section \<open>Writing in the copy state\<close>

lemma run_write_copy [simp]: "run_write key 4 w = Inr w"
  by (simp add: run_write_def has_write_handler_def)

lemma client_write_calm:
  assumes key: "k_data key = Some p" "p < length (w_heap w)" and sel: "sel_inv (w_sel w)"
    and m: "metrics (data (w_cfg w)) \<noteq> None" and calm: "calm (w_os w)"
    and st: "c_stm c = Some (machine 4)" and bufs: "tidy (c_in c)" "tidy (c_out c)" "pending (c_out c) \<noteq> []"
  obtains k b w' where "0 < k" "k \<le> length (pending (c_out c))" "tidy b" "pending b = drop k (pending (c_out c))"
      "follows w w' [Ev_Send (c_client_fd c) (take k (pending (c_out c)))]"
      "w_sel w' = sel_after_send c k (c_origin_fd c > 0 \<and> room (c_out c) = 0) (w_sel w)" "buf_limit b = buf_limit (c_out c)"
      "socksv5_write key (conn_put p c w) = Inr (conn_put p (c\<lparr>c_out := b\<rparr>) w')" "os_send (w_os w') = tl (os_send (w_os w))"
    | w' where "follows w w' []" "w_sel w' = w_sel w" "socksv5_write key (conn_put p c w) = Inr (conn_put p c w')"
      "\<forall>k q. os_send (w_os w) \<noteq> Sent k # q"
proof -
  let ?full = "c_origin_fd c > 0 \<and> room (c_out c) = 0"
  from bufs have inv: "buffer_inv (c_in c)" "buffer_inv (c_out c)" by (simp_all add: tidy_def)
  have wr: "socksv5_write key (conn_put p c w) =
      (let (r, w) = sys_send (c_client_fd c) (pending (c_out c)) w
       in case r of Sent k \<Rightarrow> if k > 0 then socksv5_send_done key k ?full (conn_put p c w) else Inr (conn_put p c w)
          | Send_Error e \<Rightarrow> if e \<noteq> EAGAIN then bind_res (metrics_upd metrics_inc_errors (conn_put p c w)) (drop_both key)
                          else Inr (conn_put p c w))"
    using key bufs(3) inv(2) can_read_pending [OF inv(2)]
    by (simp add: socksv5_write_def live buffer_read_ptr_def buffer_inv_def pending_def [symmetric] can_write_room
        split: prod.splits)
  show ?thesis
  proof (rule sys_send_calm [OF calm bufs(3), where fd = "c_client_fd c"])
    fix k w1 assume s: "sys_send (c_client_fd c) (pending (c_out c)) w = (Sent k, w1)" "w_sel w1 = w_sel w"
      "follows w w1 [Ev_Send (c_client_fd c) (take k (pending (c_out c)))]" "0 < k" "k \<le> length (pending (c_out c))"
      "os_send (w_os w1) = tl (os_send (w_os w))"
    have w1: "p < length (w_heap w1)" "sel_inv (w_sel w1)" "metrics (data (w_cfg w1)) \<noteq> None"
      using s(2,3) key sel m by (auto simp: follows_def)
    obtain b where b: "same_block (c_out c) b" "pending b = drop k (pending (c_out c))" "buf_read b = 0"
      "socksv5_send_done key k ?full (conn_put p c w1) = run_write key 4 (conn_put p (c\<lparr>c_out := b\<rparr>) (served c k ?full w1))"
      using send_done_live [OF key(1) w1 inv(2) s(5) inv(1) st] by auto
    have "tidy b" using b bufs(2) by (intro tidy_compact) (auto simp: same_block_def tidy_def)
    moreover have "follows w (served c k ?full w1) [Ev_Send (c_client_fd c) (take k (pending (c_out c)))]"
      using s(3) by (simp add: served_def)
    moreover have "os_send (w_os (served c k ?full w1)) = tl (os_send (w_os w))" using s(6) by (simp add: served_def)
    ultimately show thesis
      using b s wr by (intro that(1) [of k b "served c k ?full w1"]) (auto simp: same_block_def)
  next
    fix w1 assume "sys_send (c_client_fd c) (pending (c_out c)) w = (Send_Error EAGAIN, w1)" "w_sel w1 = w_sel w"
      "follows w w1 []" "\<forall>k q. os_send (w_os w) \<noteq> Sent k # q"
    with wr show thesis by (intro that(2) [of w1]) auto
  qed
qed

lemma origin_write_calm:
  assumes key: "k_data key = Some p" "p < length (w_heap w)" and sel: "sel_inv (w_sel w)" and calm: "calm (w_os w)"
    and bufs: "tidy (c_in c)" "pending (c_in c) \<noteq> []"
  obtains k b w' where "0 < k" "k \<le> length (pending (c_in c))" "tidy b" "pending b = drop k (pending (c_in c))" "buf_read b = 0"
      "follows w w' [Ev_Send (c_origin_fd c) (take k (pending (c_in c)))]"
      "w_sel w' = (let s = (if pending b = [] then sel_set (c_origin_fd c) OP_READ (w_sel w) else w_sel w)
                   in if room (c_in c) = 0 then sel_set (c_client_fd c) OP_READ s else s)"
      "buf_limit b = buf_limit (c_in c)"
      "copy_write_handler key (conn_put p c w) = Inr (conn_put p (c\<lparr>c_in := b\<rparr>) w')" "os_send (w_os w') = tl (os_send (w_os w))"
    | w' where "follows w w' []" "w_sel w' = w_sel w" "copy_write_handler key (conn_put p c w) = Inr (conn_put p c w')"
      "\<forall>k q. os_send (w_os w) \<noteq> Sent k # q"
proof -
  from bufs have inv: "buffer_inv (c_in c)" by (simp add: tidy_def)
  show ?thesis
  proof (rule sys_send_calm [OF calm bufs(2), where fd = "c_origin_fd c"])
    fix k w1 assume s: "sys_send (c_origin_fd c) (pending (c_in c)) w = (Sent k, w1)" "w_sel w1 = w_sel w"
      "follows w w1 [Ev_Send (c_origin_fd c) (take k (pending (c_in c)))]" "0 < k" "k \<le> length (pending (c_in c))"
      "os_send (w_os w1) = tl (os_send (w_os w))"
    have w1: "p < length (w_heap w1)" "sel_inv (w_sel w1)" using s(2,3) key sel by (auto simp: follows_def)
    obtain b0 where b0: "buffer_read_adv (c_in c) (int k) = Inr b0" "same_block (c_in c) b0" "pending b0 = drop k (pending (c_in c))"
      using buffer_read_adv_ok [OF inv s(5)] by blast
    obtain b where b: "buffer_compact b0 = Inr b" "same_block b0 b" "pending b = pending b0" "buf_read b = 0"
      using buffer_compact_ok [OF same_block_inv [OF b0(2)]] by blast
    let ?s = "let s = (if pending b = [] then sel_set (c_origin_fd c) OP_READ (w_sel w) else w_sel w)
                   in if room (c_in c) = 0 then sel_set (c_client_fd c) OP_READ s else s"
    have keep: "w1\<lparr>w_sel := w_sel w\<rparr> = w1" unfolding s(2) [symmetric] by simp
    have bi: "buffer_inv b" using b(2) by (rule same_block_inv)
    have "copy_write_handler key (conn_put p c w) = Inr (conn_put p (c\<lparr>c_in := b\<rparr>) (w1\<lparr>w_sel := ?s\<rparr>))"
      using key w1 s b0 b inv can_read_pending [OF inv] can_read_pending [OF bi] bufs(2)
      by (simp add: copy_write_handler_def live buffer_read_ptr_def buffer_inv_def pending_def [symmetric]
          can_write_room keep Let_def)
    moreover have "tidy b" using b b0 bufs(1) by (intro tidy_compact) (auto simp: same_block_def tidy_def)
    ultimately show thesis
      using b b0 s by (intro that(1) [of k b "w1\<lparr>w_sel := ?s\<rparr>"]) (auto simp: same_block_def)
  next
    fix w1 assume "sys_send (c_origin_fd c) (pending (c_in c)) w = (Send_Error EAGAIN, w1)" "w_sel w1 = w_sel w"
      "follows w w1 []" "\<forall>k q. os_send (w_os w) \<noteq> Sent k # q"
    with key inv can_read_pending [OF inv] bufs(2) show thesis
      by (intro that(2) [of w1])
        (simp_all add: copy_write_handler_def live buffer_read_ptr_def buffer_inv_def pending_def [symmetric] can_write_room)
  qed
qed

section \<open>Steps of the relay\<close>

datatype relay_event = Client_Readable | Client_Writable | Origin_Readable | Origin_Writable

fun relay_handler :: "nat \<Rightarrow> int \<Rightarrow> int \<Rightarrow> relay_event \<Rightarrow> step" where
  "relay_handler p fc fo Client_Readable = socksv5_read \<lparr>k_fd = fc, k_data = Some p\<rparr>"
| "relay_handler p fc fo Client_Writable = socksv5_write \<lparr>k_fd = fc, k_data = Some p\<rparr>"
| "relay_handler p fc fo Origin_Readable = copy_read_handler \<lparr>k_fd = fo, k_data = Some p\<rparr>"
| "relay_handler p fc fo Origin_Writable = copy_write_handler \<lparr>k_fd = fo, k_data = Some p\<rparr>"

text \<open>The selector calls a handler only where the interest asks for it at that moment.\<close>

fun relay_enabled :: "int \<Rightarrow> int \<Rightarrow> sel \<Rightarrow> relay_event \<Rightarrow> bool" where
  "relay_enabled fc fo s Client_Readable \<longleftrightarrow> (\<exists>i. interest_of s fc = Some i \<and> wants i OP_READ)"
| "relay_enabled fc fo s Client_Writable \<longleftrightarrow> (\<exists>i. interest_of s fc = Some i \<and> wants i OP_WRITE)"
| "relay_enabled fc fo s Origin_Readable \<longleftrightarrow> (\<exists>i. interest_of s fo = Some i \<and> wants i OP_READ)"
| "relay_enabled fc fo s Origin_Writable \<longleftrightarrow> (\<exists>i. interest_of s fo = Some i \<and> wants i OP_WRITE)"

inductive relays :: "nat \<Rightarrow> int \<Rightarrow> int \<Rightarrow> world \<Rightarrow> world \<Rightarrow> bool" for p fc fo where
  relays_start: "relays p fc fo w w"
| relays_event: "relays p fc fo w w1 \<Longrightarrow> relay_enabled fc fo (w_sel w1) ev \<Longrightarrow>
     relay_handler p fc fo ev w1 = Inr w2 \<Longrightarrow> relays p fc fo w w2"

text \<open>Both directions are first-in first-out: what was held and came in is what went out and is held.\<close>

definition flow :: "int \<Rightarrow> int \<Rightarrow> socks5_conn \<Rightarrow> socks5_conn \<Rightarrow> os_event list \<Rightarrow> bool" where
  "flow fc fo c c' t \<longleftrightarrow>
     pending (c_in c) @ recvs fc t = sends fo t @ pending (c_in c') \<and>
     pending (c_out c) @ recvs fo t = sends fc t @ pending (c_out c')"

lemma flow_trans: "flow fc fo c c1 t \<Longrightarrow> flow fc fo c1 c2 t' \<Longrightarrow> flow fc fo c c2 (t @ t')"
  unfolding flow_def by (metis append.assoc recvs_append sends_append)

definition relay_up :: "nat \<Rightarrow> int \<Rightarrow> int \<Rightarrow> socks5_conn \<Rightarrow> world \<Rightarrow> bool" where
  "relay_up p fc fo c w \<longleftrightarrow> relaying p fc fo c w \<and> wakeful fc fo c (w_sel w)"

definition relay_ok :: "nat \<Rightarrow> int \<Rightarrow> int \<Rightarrow> socks5_conn \<Rightarrow> world \<Rightarrow> bool" where
  "relay_ok p fc fo c w \<longleftrightarrow> relay_up p fc fo c w \<and> calm (w_os w)"

lemma relay_up_facts:
  assumes "relay_up p fc fo c w"
  shows "p < length (w_heap w)" "conn_put p c w = w" "sel_inv (w_sel w)" "metrics (data (w_cfg w)) \<noteq> None"
    "conn_get p w = Inr c" "c_stm c = Some (machine 4)" "tidy (c_in c)" "tidy (c_out c)" "c_client_fd c = fc"
    "c_origin_fd c = fo" "0 < fc" "0 < fo" "fc \<noteq> fo" "fo \<noteq> fc" "\<not> invalid_fd fc" "\<not> invalid_fd fo"
    "owner_of (w_sel w) fc = Some (H_Socks5, p)" "owner_of (w_sel w) fo = Some (H_Copy, p)"
    "wakeful fc fo c (w_sel w)" "\<exists>i. interest_of (w_sel w) fc = Some i" "\<exists>i. interest_of (w_sel w) fo = Some i"
  using assms owner_interest by (auto simp: relay_up_def relaying_def conn_put_self conn_get_Inr)

lemma relay_facts:
  assumes "relay_ok p fc fo c w"
  shows "p < length (w_heap w)" "conn_put p c w = w" "sel_inv (w_sel w)" "metrics (data (w_cfg w)) \<noteq> None"
    "calm (w_os w)" "c_stm c = Some (machine 4)" "tidy (c_in c)" "tidy (c_out c)" "c_client_fd c = fc"
    "c_origin_fd c = fo" "0 < fc" "0 < fo" "fc \<noteq> fo" "fo \<noteq> fc" "\<not> invalid_fd fc" "\<not> invalid_fd fo"
    "owner_of (w_sel w) fc = Some (H_Socks5, p)" "owner_of (w_sel w) fo = Some (H_Copy, p)"
    "wakeful fc fo c (w_sel w)" "\<exists>i. interest_of (w_sel w) fc = Some i" "\<exists>i. interest_of (w_sel w) fo = Some i"
  using assms relay_up_facts [of p fc fo c w] by (simp_all add: relay_ok_def)

lemma relay_okI:
  assumes ok: "relay_ok p fc fo c w" and w': "follows w w' t"
    and sel: "sel_inv (w_sel w')" "owner_of (w_sel w') = owner_of (w_sel w)" "wakeful fc fo c' (w_sel w')"
    and c': "tidy (c_in c')" "tidy (c_out c')" "c_stm c' = Some (machine 4)" "c_client_fd c' = fc" "c_origin_fd c' = fo"
  shows "relay_ok p fc fo c' (conn_put p c' w')"
  using relay_facts [OF ok] w' sel c' by (auto simp: relay_ok_def relay_up_def relaying_def follows_def)

text \<open>A write event delivers something whenever the kernel takes something.\<close>

definition held_bytes :: "socks5_conn \<Rightarrow> nat" where
  "held_bytes c = length (pending (c_in c)) + length (pending (c_out c))"

definition drains :: "int \<Rightarrow> int \<Rightarrow> socks5_conn \<Rightarrow> socks5_conn \<Rightarrow> os_event list \<Rightarrow> world \<Rightarrow> world \<Rightarrow> bool" where
  "drains fc fo c c' t w w' \<longleftrightarrow> recvs fc t = [] \<and> recvs fo t = [] \<and>
     (\<forall>k q. os_send (w_os w) = Sent k # q \<longrightarrow> os_send (w_os w') = q \<and> held_bytes c' < held_bytes c)"

lemma client_writable_ok:
  assumes ok: "relay_ok p fc fo c w" and en: "interest_of (w_sel w) fc = Some OP_WRITE"
  shows "\<exists>c' w' t. socksv5_write \<lparr>k_fd = fd, k_data = Some p\<rparr> w = Inr w' \<and> relay_ok p fc fo c' w' \<and>
    os_trace (w_os w') = os_trace (w_os w) @ t \<and> flow fc fo c c' t \<and> agenda (w_sel w') = agenda (w_sel w) \<and> drains fc fo c c' t w w'"
proof -
  note r = relay_facts [OF ok]
  have bytes: "pending (c_out c) \<noteq> []" "pending (c_in c) = []" using r(19) en by (auto simp: wakeful_def)
  show ?thesis
  proof (rule client_write_calm [of "\<lparr>k_fd = fd, k_data = Some p\<rparr>" p w c])
    fix k b w'
    assume a: "0 < k" "k \<le> length (pending (c_out c))" "tidy b" "pending b = drop k (pending (c_out c))"
      "follows w w' [Ev_Send (c_client_fd c) (take k (pending (c_out c)))]"
      "w_sel w' = sel_after_send c k (c_origin_fd c > 0 \<and> room (c_out c) = 0) (w_sel w)"
      "socksv5_write \<lparr>k_fd = fd, k_data = Some p\<rparr> (conn_put p c w) = Inr (conn_put p (c\<lparr>c_out := b\<rparr>) w')"
      "os_send (w_os w') = tl (os_send (w_os w))"
    have "wakeful fc fo (c\<lparr>c_out := b\<rparr>) (w_sel w')"
      using r a(2,4,6) bytes by (auto simp: wakeful_def sel_after_send_def Let_def)
    moreover have "sel_inv (w_sel w')" "owner_of (w_sel w') = owner_of (w_sel w)"
      using r a(6) by (simp_all add: sel_after_send_def Let_def)
    ultimately have "relay_ok p fc fo (c\<lparr>c_out := b\<rparr>) (conn_put p (c\<lparr>c_out := b\<rparr>) w')"
      using r a by (intro relay_okI [OF ok a(5)]) auto
    moreover have "flow fc fo c (c\<lparr>c_out := b\<rparr>) [Ev_Send fc (take k (pending (c_out c)))]"
      using r a by (simp add: flow_def)
    moreover have "agenda (w_sel w') = agenda (w_sel w)" using a(6) by (simp add: sel_after_send_def Let_def)
    moreover have "drains fc fo c (c\<lparr>c_out := b\<rparr>) [Ev_Send fc (take k (pending (c_out c)))] w (conn_put p (c\<lparr>c_out := b\<rparr>) w')"
      using a(1,2,4,8) by (auto simp: drains_def held_bytes_def)
    ultimately show ?thesis using a r by (auto simp: follows_def)
  next
    fix w' assume a: "follows w w' []" "w_sel w' = w_sel w"
      "socksv5_write \<lparr>k_fd = fd, k_data = Some p\<rparr> (conn_put p c w) = Inr (conn_put p c w')"
      "\<forall>k q. os_send (w_os w) \<noteq> Sent k # q"
    then have "relay_ok p fc fo c (conn_put p c w')" using r by (intro relay_okI [OF ok a(1)]) auto
    with a r show ?thesis by (auto simp: follows_def flow_def drains_def intro!: exI [of _ c])
  qed (use r bytes in auto)
qed

lemma origin_writable_ok:
  assumes ok: "relay_ok p fc fo c w" and en: "interest_of (w_sel w) fo = Some OP_WRITE"
  shows "\<exists>c' w' t. copy_write_handler \<lparr>k_fd = fd, k_data = Some p\<rparr> w = Inr w' \<and> relay_ok p fc fo c' w' \<and>
    os_trace (w_os w') = os_trace (w_os w) @ t \<and> flow fc fo c c' t \<and> agenda (w_sel w') = agenda (w_sel w) \<and> drains fc fo c c' t w w'"
proof -
  note r = relay_facts [OF ok]
  have bytes: "pending (c_in c) \<noteq> []" "pending (c_out c) = []" using r(19) en by (auto simp: wakeful_def)
  show ?thesis
  proof (rule origin_write_calm [of "\<lparr>k_fd = fd, k_data = Some p\<rparr>" p w c])
    fix k b w'
    assume a: "0 < k" "k \<le> length (pending (c_in c))" "tidy b" "pending b = drop k (pending (c_in c))" "buf_read b = 0"
      "follows w w' [Ev_Send (c_origin_fd c) (take k (pending (c_in c)))]"
      "w_sel w' = (let s = (if pending b = [] then sel_set (c_origin_fd c) OP_READ (w_sel w) else w_sel w)
                   in if room (c_in c) = 0 then sel_set (c_client_fd c) OP_READ s else s)"
      "copy_write_handler \<lparr>k_fd = fd, k_data = Some p\<rparr> (conn_put p c w) = Inr (conn_put p (c\<lparr>c_in := b\<rparr>) w')"
      "os_send (w_os w') = tl (os_send (w_os w))"
    have "wakeful fc fo (c\<lparr>c_in := b\<rparr>) (w_sel w')"
      using r a(2,4,7) bytes by (auto simp: wakeful_def Let_def)
    moreover have "sel_inv (w_sel w')" "owner_of (w_sel w') = owner_of (w_sel w)"
      using r a(7) by (simp_all add: Let_def)
    ultimately have "relay_ok p fc fo (c\<lparr>c_in := b\<rparr>) (conn_put p (c\<lparr>c_in := b\<rparr>) w')"
      using r a by (intro relay_okI [OF ok a(6)]) auto
    moreover have "flow fc fo c (c\<lparr>c_in := b\<rparr>) [Ev_Send fo (take k (pending (c_in c)))]"
      using r a by (simp add: flow_def)
    moreover have "agenda (w_sel w') = agenda (w_sel w)" using a(7) by (simp add: Let_def)
    moreover have "drains fc fo c (c\<lparr>c_in := b\<rparr>) [Ev_Send fo (take k (pending (c_in c)))] w (conn_put p (c\<lparr>c_in := b\<rparr>) w')"
      using a(1,2,4,9) by (auto simp: drains_def held_bytes_def)
    ultimately show ?thesis using a r by (auto simp: follows_def)
  next
    fix w' assume a: "follows w w' []" "w_sel w' = w_sel w"
      "copy_write_handler \<lparr>k_fd = fd, k_data = Some p\<rparr> (conn_put p c w) = Inr (conn_put p c w')"
      "\<forall>k q. os_send (w_os w) \<noteq> Sent k # q"
    then have "relay_ok p fc fo c (conn_put p c w')" using r by (intro relay_okI [OF ok a(1)]) auto
    with a r show ?thesis by (auto simp: follows_def flow_def drains_def intro!: exI [of _ c])
  qed (use r bytes in auto)
qed

lemma tidy_recv:
  assumes "tidy b" "length bs \<le> room b" "bs \<noteq> []"
  obtains b' where "buffer_recv b bs = Inr b'" "tidy b'" "pending b' = pending b @ bs" "buf_limit b' = buf_limit b"
  using buffer_recv_ok [of b bs] assms by (auto simp: tidy_def same_block_def)

lemma copy_read_live:
  assumes key: "k_data key = Some p" "p < length (w_heap w)" "sel_inv (w_sel w)" and inv: "buffer_inv (c_out c)"
  shows "room (c_out c) = 0 \<Longrightarrow> copy_read_handler key (conn_put p c w) =
      Inr (conn_put p c (w\<lparr>w_sel := sel_set (c_client_fd c) OP_WRITE (sel_set (c_origin_fd c) OP_NOOP (w_sel w))\<rparr>))"
    and "0 < room (c_out c) \<Longrightarrow> sys_recv (c_origin_fd c) (room (c_out c)) w = (Recv bs, w1) \<Longrightarrow>
      buffer_recv (c_out c) bs = Inr b \<Longrightarrow> p < length (w_heap w1) \<Longrightarrow> sel_inv (w_sel w1) \<Longrightarrow>
      copy_read_handler key (conn_put p c w) =
        socksv5_write key (conn_put p (c\<lparr>c_out := b\<rparr>) (w1\<lparr>w_sel := sel_set (c_client_fd c) OP_WRITE (w_sel w1)\<rparr>))"
    and "0 < room (c_out c) \<Longrightarrow> sys_recv (c_origin_fd c) (room (c_out c)) w = (Recv_Error EAGAIN, w1) \<Longrightarrow>
      copy_read_handler key (conn_put p c w) = Inr (conn_put p c w1)"
  using key inv
  by (simp_all add: copy_read_handler_def live can_write_room buffer_write_ptr_def buffer_inv_def room_def [symmetric])

lemma origin_readable_ok:
  assumes ok: "relay_ok p fc fo c w" and en: "interest_of (w_sel w) fo = Some OP_READ"
  shows "\<exists>c' w' t. copy_read_handler \<lparr>k_fd = fo, k_data = Some p\<rparr> w = Inr w' \<and> relay_ok p fc fo c' w' \<and>
    os_trace (w_os w') = os_trace (w_os w) @ t \<and> flow fc fo c c' t \<and> agenda (w_sel w') = agenda (w_sel w)"
proof -
  let ?key = "\<lparr>k_fd = fo, k_data = Some p\<rparr> :: key"
  note r = relay_facts [OF ok]
  have none: "pending (c_in c) = []" using r(19) en by (auto simp: wakeful_def)
  have inv: "buffer_inv (c_out c)" using r(8) by (simp add: tidy_def)
  note rd = copy_read_live [where key = ?key and p = p and w = w and c = c, OF _ r(1,3) inv]
  show ?thesis
  proof (cases "room (c_out c) = 0")
    case True
    let ?w = "w\<lparr>w_sel := sel_set fc OP_WRITE (sel_set fo OP_NOOP (w_sel w))\<rparr>"
    have "wakeful fc fo c (w_sel ?w)" using r none True tidy_full [OF r(8) True] by (auto simp: wakeful_def)
    then have "relay_ok p fc fo c (conn_put p c ?w)"
      using r by (intro relay_okI [OF ok, of ?w "[]"]) (auto simp: follows_refl)
    with True rd(1) r show ?thesis by (intro exI [of _ c]) (auto simp: flow_def)
  next
    case False
    then have "0 < room (c_out c)" by simp
    then show ?thesis
    proof (rule sys_recv_calm [OF r(5), where fd = fo])
      fix bs w1 assume a: "sys_recv fo (room (c_out c)) w = (Recv bs, w1)" "w_sel w1 = w_sel w"
        "follows w w1 [Ev_Recv fo bs]" "bs \<noteq> []" "length bs \<le> room (c_out c)"
      obtain b where b: "buffer_recv (c_out c) bs = Inr b" "tidy b" "pending b = pending (c_out c) @ bs"
        using tidy_recv [OF r(8) a(5,4)] by blast
      let ?c = "c\<lparr>c_out := b\<rparr>"
      let ?w = "w1\<lparr>w_sel := sel_set fc OP_WRITE (w_sel w)\<rparr>"
      have h: "p < length (w_heap w1)" using a(3) r(1) by (simp add: follows_def)
      have s: "copy_read_handler ?key w = socksv5_write ?key (conn_put p ?c ?w)"
        using rd(2) [of bs w1 b] False a b(1) r h by simp
      have "wakeful fc fo ?c (w_sel ?w)" using r none b(3) a(4) by (auto simp: wakeful_def)
      then have ok': "relay_ok p fc fo ?c (conn_put p ?c ?w)"
        using r a b by (intro relay_okI [OF ok, of ?w "[Ev_Recv fo bs]"]) auto
      have en': "interest_of (w_sel (conn_put p ?c ?w)) fc = Some OP_WRITE" using r by auto
      obtain c' w' t where n: "socksv5_write ?key (conn_put p ?c ?w) = Inr w'" "relay_ok p fc fo c' w'"
        "os_trace (w_os w') = os_trace (w_os (conn_put p ?c ?w)) @ t" "flow fc fo ?c c' t"
        "agenda (w_sel w') = agenda (w_sel w)"
        using client_writable_ok [OF ok' en', of fo] by auto
      have "flow fc fo c ?c [Ev_Recv fo bs]" using r b(3) by (simp add: flow_def)
      from flow_trans [OF this n(4)] n(1-3,5) s a(3) show ?thesis by (auto simp: follows_def)
    next
      fix w1 assume a: "sys_recv fo (room (c_out c)) w = (Recv_Error EAGAIN, w1)" "w_sel w1 = w_sel w" "follows w w1 []"
      then have "relay_ok p fc fo c (conn_put p c w1)" using r by (intro relay_okI [OF ok a(3)]) auto
      with a r rd(3) [of w1] False show ?thesis by (auto simp: follows_def flow_def intro!: exI [of _ c])
    qed
  qed
qed

lemma copy_read_relay:
  assumes key: "k_data key = Some p" "p < length (w_heap w)" and sel: "sel_inv (w_sel w)"
    and fo: "\<not> invalid_fd (c_origin_fd c)" "interest_of (w_sel w) (c_origin_fd c) \<noteq> None"
    and st: "c_stm c = Some (machine 4)"
    and wr: "copy_write_handler key (conn_put p c (w\<lparr>w_sel := sel_set (c_origin_fd c) OP_WRITE (w_sel w)\<rparr>)) =
        Inr (conn_put p c' w')" "c_stm c' = Some (machine 4)" "p < length (w_heap w')"
  shows "run_read key (conn_put p c w) = Inr (4, conn_put p c' w')"
proof -
  have "copy_read key (conn_put p c w) = Inr (4, conn_put p c' w')"
    using key sel fo wr(1) by (simp add: copy_read_def live)
  moreover have "jump socks5_states (stm_get key) (stm_put key) 4 key (conn_put p c' w') = Inr (conn_put p c' w')"
    using key(1) wr(2,3) by (intro jump_stay) simp_all
  ultimately show ?thesis
    using run_read_state [OF key st, of copy_read] by (simp add: read_handlers)
qed

lemma client_read_live:
  assumes key: "k_data key = Some p" "p < length (w_heap w)" "sel_inv (w_sel w)" and inv: "buffer_inv (c_in c)"
  shows "room (c_in c) = 0 \<Longrightarrow> c_origin_fd c \<noteq> 0 \<Longrightarrow> socksv5_read key (conn_put p c w) =
      Inr (conn_put p c (w\<lparr>w_sel := sel_set (c_origin_fd c) OP_WRITE (sel_set (k_fd key) OP_NOOP (w_sel w))\<rparr>))"
    and "0 < room (c_in c) \<Longrightarrow> sys_recv (k_fd key) (room (c_in c)) w = (Recv bs, w1) \<Longrightarrow>
      buffer_recv (c_in c) bs = Inr b \<Longrightarrow> p < length (w_heap w1) \<Longrightarrow>
      socksv5_read key (conn_put p c w) = bind_res (run_read key (conn_put p (c\<lparr>c_in := b\<rparr>) w1)) count_error"
    and "0 < room (c_in c) \<Longrightarrow> sys_recv (k_fd key) (room (c_in c)) w = (Recv_Error EAGAIN, w1) \<Longrightarrow>
      socksv5_read key (conn_put p c w) = Inr (conn_put p c w1)"
  using key inv
  by (simp_all add: socksv5_read_def live can_write_room buffer_write_ptr_def buffer_inv_def room_def [symmetric]
      count_error_def)

lemma client_readable_ok:
  assumes ok: "relay_ok p fc fo c w" and en: "interest_of (w_sel w) fc = Some OP_READ"
  shows "\<exists>c' w' t. socksv5_read \<lparr>k_fd = fc, k_data = Some p\<rparr> w = Inr w' \<and> relay_ok p fc fo c' w' \<and>
    os_trace (w_os w') = os_trace (w_os w) @ t \<and> flow fc fo c c' t \<and> agenda (w_sel w') = agenda (w_sel w)"
proof -
  let ?key = "\<lparr>k_fd = fc, k_data = Some p\<rparr> :: key"
  note r = relay_facts [OF ok]
  have none: "pending (c_out c) = []" using r(19) en by (auto simp: wakeful_def)
  have inv: "buffer_inv (c_in c)" using r(7) by (simp add: tidy_def)
  have put: "socksv5_read ?key w = socksv5_read ?key (conn_put p c w)" using r(2) by simp
  show ?thesis
  proof (cases "room (c_in c) = 0")
    case True
    let ?w = "w\<lparr>w_sel := sel_set fo OP_WRITE (sel_set fc OP_NOOP (w_sel w))\<rparr>"
    have "socksv5_read ?key (conn_put p c w) = Inr (conn_put p c ?w)"
      using client_read_live(1) [where key = ?key, OF _ r(1,3) inv True] r(10,12) by simp
    moreover have "wakeful fc fo c (w_sel ?w)" using r none True tidy_full [OF r(7) True] by (auto simp: wakeful_def)
    then have "relay_ok p fc fo c (conn_put p c ?w)"
      using r by (intro relay_okI [OF ok, of ?w "[]"]) (auto simp: follows_refl)
    ultimately show ?thesis using put by (intro exI [of _ c]) (auto simp: flow_def)
  next
    case False
    then have pos: "0 < room (c_in c)" by simp
    show ?thesis
    proof (rule sys_recv_calm [OF r(5) pos, where fd = fc])
      fix bs w1 assume a: "sys_recv fc (room (c_in c)) w = (Recv bs, w1)" "w_sel w1 = w_sel w"
        "follows w w1 [Ev_Recv fc bs]" "bs \<noteq> []" "length bs \<le> room (c_in c)"
      obtain b where b: "buffer_recv (c_in c) bs = Inr b" "tidy b" "pending b = pending (c_in c) @ bs"
        using tidy_recv [OF r(7) a(5,4)] by blast
      let ?c = "c\<lparr>c_in := b\<rparr>"
      let ?w = "w1\<lparr>w_sel := sel_set fo OP_WRITE (w_sel w)\<rparr>"
      have h: "length (w_heap w1) = length (w_heap w)" using a(3) by (simp add: follows_def)
      have "wakeful fc fo ?c (w_sel ?w)" using r none b(3) a(4) en by (auto simp: wakeful_def)
      then have ok': "relay_ok p fc fo ?c (conn_put p ?c ?w)"
        using r a b by (intro relay_okI [OF ok, of ?w "[Ev_Recv fc bs]"]) auto
      have en': "interest_of (w_sel (conn_put p ?c ?w)) fo = Some OP_WRITE" using r by auto
      obtain c' w' t where n: "copy_write_handler ?key (conn_put p ?c ?w) = Inr w'" "relay_ok p fc fo c' w'"
        "os_trace (w_os w') = os_trace (w_os (conn_put p ?c ?w)) @ t" "flow fc fo ?c c' t"
        "agenda (w_sel w') = agenda (w_sel w)"
        using origin_writable_ok [OF ok' en', of fc] by auto
      note n' = relay_facts [OF n(2)]
      have run: "run_read ?key (conn_put p ?c w1) = Inr (4, w')"
        using copy_read_relay [of ?key p w1 ?c c' w'] r n(1) n'(1,2,6) a(2) h by auto
      have "socksv5_read ?key (conn_put p c w) = Inr w'"
        using client_read_live(2) [where key = ?key and bs = bs, OF _ r(1,3) inv pos] a(1) b(1) h r(1) run
        by (simp add: count_error_def)
      moreover have "flow fc fo c ?c [Ev_Recv fc bs]" using r b(3) by (simp add: flow_def)
      from flow_trans [OF this n(4)] have "flow fc fo c c' ([Ev_Recv fc bs] @ t)" .
      ultimately show ?thesis using n(2,3,5) a(3) put by (auto simp: follows_def)
    next
      fix w1 assume a: "sys_recv fc (room (c_in c)) w = (Recv_Error EAGAIN, w1)" "w_sel w1 = w_sel w" "follows w w1 []"
      have h: "length (w_heap w1) = length (w_heap w)" using a(3) by (simp add: follows_def)
      from a have "relay_ok p fc fo c (conn_put p c w1)" using r by (intro relay_okI [OF ok a(3)]) auto
      moreover have "socksv5_read ?key (conn_put p c w) = Inr (conn_put p c w1)"
        using client_read_live(3) [where key = ?key, OF _ r(1,3) inv pos] a(1) by simp
      ultimately show ?thesis using a(2,3) put by (auto simp: follows_def flow_def intro!: exI [of _ c])
    qed
  qed
qed

section \<open>Runs of the relay\<close>

lemma relay_interests:
  assumes "relay_ok p fc fo c w"
  shows "relay_enabled fc fo (w_sel w) Client_Readable \<longleftrightarrow> interest_of (w_sel w) fc = Some OP_READ"
    "relay_enabled fc fo (w_sel w) Client_Writable \<longleftrightarrow> interest_of (w_sel w) fc = Some OP_WRITE"
    "relay_enabled fc fo (w_sel w) Origin_Readable \<longleftrightarrow> interest_of (w_sel w) fo = Some OP_READ"
    "relay_enabled fc fo (w_sel w) Origin_Writable \<longleftrightarrow> interest_of (w_sel w) fo = Some OP_WRITE"
  using relay_facts(19) [OF assms] by (auto simp: wakeful_def)

lemma relay_step_ok:
  assumes ok: "relay_ok p fc fo c w" and en: "relay_enabled fc fo (w_sel w) ev"
  shows "\<exists>c' w' t. relay_handler p fc fo ev w = Inr w' \<and> relay_ok p fc fo c' w' \<and>
    os_trace (w_os w') = os_trace (w_os w) @ t \<and> flow fc fo c c' t \<and> agenda (w_sel w') = agenda (w_sel w) \<and>
    (ev \<in> {Client_Writable, Origin_Writable} \<longrightarrow> drains fc fo c c' t w w')"
  using en relay_interests [OF ok] client_readable_ok [OF ok] client_writable_ok [OF ok, of fc]
    origin_readable_ok [OF ok] origin_writable_ok [OF ok, of fo]
  by (cases ev) simp_all

lemma relays_ok:
  assumes "relays p fc fo w w'" "relay_ok p fc fo c w"
  shows "\<exists>c' t. relay_ok p fc fo c' w' \<and> os_trace (w_os w') = os_trace (w_os w) @ t \<and> flow fc fo c c' t"
  using assms
proof induction
  case (relays_start w)
  then show ?case by (intro exI [of _ c] exI [of _ "[]"]) (simp add: flow_def)
next
  case (relays_event w w1 ev w2)
  from relays_event.IH [OF relays_event.prems] obtain c1 t where c1: "relay_ok p fc fo c1 w1" "os_trace (w_os w1) = os_trace (w_os w) @ t" "flow fc fo c c1 t"
    by blast
  obtain c2 w' t' where c2: "relay_handler p fc fo ev w1 = Inr w'" "relay_ok p fc fo c2 w'"
      "os_trace (w_os w') = os_trace (w_os w1) @ t'" "flow fc fo c1 c2 t'"
    using relay_step_ok [OF c1(1) relays_event.hyps(2)] by blast
  with c1 relays_event.hyps(3) flow_trans [OF c1(3) c2(4)] show ?case by fastforce
qed

text \<open>The waiting client, the origin \<open>6\<close>, and two bytes on their way.\<close>

definition sample_copy :: socks5_conn where
  "sample_copy = sample_conn\<lparr>c_stm := Some (machine 4), c_origin_fd := 6\<rparr>"

lemma sample_relay:
  assumes "calm (w_os (sample_world s0 c0 u rs ss))"
  obtains s where "relay_ok 0 5 6 sample_copy (sample_world s sample_copy u rs ss)"
    "interest_of s 5 = Some OP_READ" "interest_of s 6 = Some OP_NOOP"
proof -
  obtain s0 :: sel where s0: "sel_inv s0" "owner_of s0 = [5 \<mapsto> (H_Socks5, 0)]" "interest_of s0 = [5 \<mapsto> OP_READ]"
    using sample_selector by blast
  let ?s = "sel_reg 6 H_Copy OP_NOOP 0 s0"
  have s: "sel_inv ?s" "owner_of ?s = [5 \<mapsto> (H_Socks5, 0), 6 \<mapsto> (H_Copy, 0)]"
      "interest_of ?s = [5 \<mapsto> OP_READ, 6 \<mapsto> OP_NOOP]"
    using sel_reg_free [of s0 6 True H_Copy OP_NOOP 0] s0 by (auto simp: invalid_fd_def ITEMS_MAX_SIZE_def)
  have b: "tidy (buffer_init 64 (replicate 64 0))" "pending (buffer_init 64 (replicate 64 0)) = []"
    using sample_idle by (auto simp: idle_def tidy_def)
  have "calm (w_os (sample_world ?s sample_copy u rs ss))" using assms by (simp add: calm_def)
  with s b have "relay_ok 0 5 6 sample_copy (sample_world ?s sample_copy u rs ss)"
    by (simp add: relay_ok_def relay_up_def relaying_def wakeful_def)
      (simp add: sample_copy_def sample_conn_def invalid_fd_def ITEMS_MAX_SIZE_def)
  with s show ?thesis by (intro that) auto
qed

section \<open>Properties\<close>

text \<open>In the copy state every run of the handlers, while the kernel reports no error other than \<open>EAGAIN\<close> and no end of a
  stream, relays both directions in order and without loss, duplication or corruption: what was held and what a side
  received is, byte for byte, what the other side was sent and what is held still.\<close>

theorem relay_fifo:
  assumes "relay_ok p fc fo c w" "relays p fc fo w w'"
  shows "\<exists>c' t. relay_ok p fc fo c' w' \<and> os_trace (w_os w') = os_trace (w_os w) @ t \<and>
    pending (c_in c) @ recvs fc t = sends fo t @ pending (c_in c') \<and>
    pending (c_out c) @ recvs fo t = sends fc t @ pending (c_out c')"
  using relays_ok [OF assms(2,1)] by (simp add: flow_def)

text \<open>C12: The relay never stops while the kernel reports no error other than \<open>EAGAIN\<close> and no end of a stream: after any run
  of its handlers some handler is due, the side that bytes are held for is waiting to be written to, and whichever handler
  is due runs without a fault.  (With an error the handler that is due can fault, as \<open>relay_send_error_use_after_free\<close> shows.)\<close>

theorem relay_never_stuck:
  assumes relay: "relay_up p fc fo c w" "relays p fc fo w w'" and kernel: "calm (w_os w)"
  shows "\<exists>c'. conn_get p w' = Inr c' \<and> (\<exists>ev. relay_enabled fc fo (w_sel w') ev) \<and>
    (pending (c_in c') \<noteq> [] \<longrightarrow> relay_enabled fc fo (w_sel w') Origin_Writable) \<and>
    (pending (c_out c') \<noteq> [] \<longrightarrow> relay_enabled fc fo (w_sel w') Client_Writable) \<and>
    (\<forall>ev. relay_enabled fc fo (w_sel w') ev \<longrightarrow> (\<exists>w''. relay_handler p fc fo ev w' = Inr w''))"
proof -
  have "relay_ok p fc fo c w" using relay(1) kernel by (simp add: relay_ok_def)
  then obtain c' where ok: "relay_ok p fc fo c' w'" using relays_ok [OF relay(2)] by blast
  note r = relay_facts [OF ok] and i = relay_interests [OF ok]
  have "\<exists>ev. relay_enabled fc fo (w_sel w') ev"
  proof (cases "pending (c_in c') = []")
    case True
    then have "interest_of (w_sel w') fc \<noteq> Some OP_NOOP"
      using r(19) tidy_full [OF r(7)] by (auto simp: wakeful_def)
    then have "relay_enabled fc fo (w_sel w') Client_Readable \<or> relay_enabled fc fo (w_sel w') Client_Writable"
      using r(19) unfolding i by (auto simp: wakeful_def)
    then show ?thesis by blast
  next
    case False
    then have "relay_enabled fc fo (w_sel w') Origin_Writable" using r(19) unfolding i by (simp add: wakeful_def)
    then show ?thesis by blast
  qed
  moreover have "conn_get p w' = Inr c'" using ok by (simp add: relay_ok_def relay_up_def relaying_def)
  moreover have "pending (c_in c') \<noteq> [] \<longrightarrow> relay_enabled fc fo (w_sel w') Origin_Writable"
    "pending (c_out c') \<noteq> [] \<longrightarrow> relay_enabled fc fo (w_sel w') Client_Writable"
    using r(19) unfolding i by (simp_all add: wakeful_def)
  ultimately show ?thesis using relay_step_ok [OF ok] by blast
qed

text \<open>An origin that speaks first is not heard: on arrival in the copy state the origin is registered
  with no interest, and while the client sends nothing, reading from the client is the only event
  that is due.\<close>

theorem server_first_waits:
  assumes "relay_ok p fc fo c w" "interest_of (w_sel w) fo = Some OP_NOOP" "pending (c_out c) = []"
  shows "relay_enabled fc fo (w_sel w) ev \<longleftrightarrow> ev = Client_Readable"
proof -
  note r = relay_facts [OF assms(1)]
  have "pending (c_in c) = []" using r(19) assms(2) by (auto simp: wakeful_def)
  then have "interest_of (w_sel w) fc = Some OP_READ"
    using r(19) assms(2,3) tidy_full [OF r(7)] by (auto simp: wakeful_def)
  with assms(2) relay_interests [OF assms(1)] show ?thesis by (cases ev) simp_all
qed

section \<open>Witnesses\<close>

lemma sample_run:
  obtains s w' where "relay_ok 0 5 6 sample_copy (sample_world s sample_copy u [Recv [71, 72]] [Sent 1])"
    "relays 0 5 6 (sample_world s sample_copy u [Recv [71, 72]] [Sent 1]) w'"
    "relay_handler 0 5 6 Client_Readable (sample_world s sample_copy u [Recv [71, 72]] [Sent 1]) = Inr w'"
proof -
  have "calm (w_os (sample_world s0 c0 u [Recv [71, 72]] [Sent 1]))" for s0 c0 by (simp add: calm_def)
  then obtain s where s: "relay_ok 0 5 6 sample_copy (sample_world s sample_copy u [Recv [71, 72]] [Sent 1])"
      "interest_of s 5 = Some OP_READ" by (rule sample_relay)
  let ?w = "sample_world s sample_copy u [Recv [71, 72]] [Sent 1]"
  have en: "relay_enabled 5 6 (w_sel ?w) Client_Readable" using s(2) by simp
  then obtain w' where "relay_handler 0 5 6 Client_Readable ?w = Inr w'"
    using relay_step_ok [OF s(1)] by blast
  then show thesis using that [OF s(1) relays_event [OF relays_start en]] by blast
qed

lemma relay_fifo_witness:
  "\<exists>w w' c' t. relays 0 5 6 w w' \<and> relay_handler 0 5 6 Client_Readable w = Inr w' \<and> relay_ok 0 5 6 c' w' \<and>
     pending (c_in sample_copy) @ recvs 5 t = sends 6 t @ pending (c_in c')"
proof -
  obtain s w' where w: "relay_ok 0 5 6 sample_copy (sample_world s sample_copy [] [Recv [71, 72]] [Sent 1])"
    "relays 0 5 6 (sample_world s sample_copy [] [Recv [71, 72]] [Sent 1]) w'"
    "relay_handler 0 5 6 Client_Readable (sample_world s sample_copy [] [Recv [71, 72]] [Sent 1]) = Inr w'"
    by (rule sample_run)
  from relay_fifo [OF w(1,2)] w(2,3) show ?thesis by blast
qed

lemma relay_never_stuck_witness:
  "\<exists>w w'. relay_handler 0 5 6 Client_Readable w = Inr w' \<and> (\<exists>ev. relay_enabled 5 6 (w_sel w') ev)"
proof -
  obtain s w' where w: "relay_ok 0 5 6 sample_copy (sample_world s sample_copy [] [Recv [71, 72]] [Sent 1])"
    "relays 0 5 6 (sample_world s sample_copy [] [Recv [71, 72]] [Sent 1]) w'"
    "relay_handler 0 5 6 Client_Readable (sample_world s sample_copy [] [Recv [71, 72]] [Sent 1]) = Inr w'"
    by (rule sample_run)
  have "relay_up 0 5 6 sample_copy (sample_world s sample_copy [] [Recv [71, 72]] [Sent 1])"
    "calm (w_os (sample_world s sample_copy [] [Recv [71, 72]] [Sent 1]))"
    using w(1) by (simp_all add: relay_ok_def)
  from relay_never_stuck [OF this(1) w(2) this(2)] w(3) show ?thesis by blast
qed

lemma server_first_waits_witness: "\<exists>s. \<not> relay_enabled 5 6 s Origin_Readable \<and> relay_enabled 5 6 s Client_Readable"
proof -
  have "calm (w_os (sample_world s0 c0 [] [] []))" for s0 c0 by (simp add: calm_def)
  then obtain s where s: "relay_ok 0 5 6 sample_copy (sample_world s sample_copy [] [] [])"
      "interest_of s 6 = Some OP_NOOP" by (rule sample_relay)
  have "pending (c_out sample_copy) = []"
    using sample_idle by (simp add: sample_copy_def sample_conn_def idle_def)
  from server_first_waits [OF s(1) _ this] s(2) show ?thesis by (intro exI [of _ s]) (simp del: relay_enabled.simps)
qed

end
