(* ===== verification/Admin_Session.thy ===== *)
theory Admin_Session
  imports Negotiation
begin

text \<open>
  What a session of the administration protocol does: a command line in one segment is answered
  whole, a line in two segments is refused, and what the client leaves behind in the input array is
  read again.
\<close>

section \<open>A live connection\<close>

definition admin_put :: "nat \<Rightarrow> admin_conn \<Rightarrow> world \<Rightarrow> world" where
  "admin_put p a w = w\<lparr>w_admin := (w_admin w)[p := Some a]\<rparr>"

named_theorems admin_live \<open>steps on a world with a live administration connection\<close>

lemma admin_get_Inr: "admin_get p w = Inr a \<longleftrightarrow> p < length (w_admin w) \<and> w_admin w ! p = Some a"
  by (auto simp: admin_get_def split: option.splits)

lemma admin_put_self: "admin_get p w = Inr a \<Longrightarrow> admin_put p a w = w"
  by (auto simp: admin_put_def admin_get_def list_update_same_conv split: if_splits option.splits)

lemma admin_put_sel [simp, admin_live]:
  "w_sel (admin_put p a w) = w_sel w" "w_cfg (admin_put p a w) = w_cfg w" "w_heap (admin_put p a w) = w_heap w"
  "w_os (admin_put p a w) = w_os w" "length (w_admin (admin_put p a w)) = length (w_admin w)"
  "(admin_put p a w)\<lparr>w_sel := s\<rparr> = admin_put p a (w\<lparr>w_sel := s\<rparr>)"
  "(admin_put p a w)\<lparr>w_cfg := g\<rparr> = admin_put p a (w\<lparr>w_cfg := g\<rparr>)"
  "(admin_put p a w)\<lparr>w_os := u\<rparr> = admin_put p a (w\<lparr>w_os := u\<rparr>)"
  "os_upd f (admin_put p a w) = admin_put p a (os_upd f w)"
  "admin_put p a (admin_put p b w) = admin_put p a w"
  by (simp_all add: admin_put_def os_upd_def)

lemma admin_get_put [simp, admin_live]: "p < length (w_admin w) \<Longrightarrow> admin_get p (admin_put p a w) = Inr a"
  by (simp add: admin_get_def admin_put_def)

lemma admin_upd_put [admin_live]:
  "p < length (w_admin w) \<Longrightarrow> admin_upd p f (admin_put p a w) = Inr (admin_put p (f a) w)"
  by (simp add: admin_upd_def) (simp add: admin_put_def)

lemma key_admin_put [admin_live]:
  "k_data key = Some p \<Longrightarrow> p < length (w_admin w) \<Longrightarrow> key_admin key (admin_put p a w) = Inr (p, a)"
  by (simp add: key_admin_def)

lemma sys_recv_admin [admin_live]: "sys_recv fd n (admin_put p a w) = (let (r, w) = sys_recv fd n w in (r, admin_put p a w))"
  by (auto simp: sys_recv_def Let_def emit_def set_errno_def split: prod.splits recv_result.splits)

lemma sys_send_admin [admin_live]: "sys_send fd bs (admin_put p a w) = (let (r, w) = sys_send fd bs w in (r, admin_put p a w))"
  by (auto simp: sys_send_def Let_def emit_def set_errno_def split: prod.splits send_result.splits)

section \<open>A session between two commands\<close>

definition empty_of :: "nat \<Rightarrow> buffer \<Rightarrow> bool" where
  "empty_of n b \<longleftrightarrow> buf_read b = 0 \<and> buf_write b = 0 \<and> buf_limit b = n \<and> length (buf_data b) = n"

definition admin_ready :: "key \<Rightarrow> nat \<Rightarrow> admin_conn \<Rightarrow> world \<Rightarrow> bool" where
  "admin_ready key p a w \<longleftrightarrow>
     k_data key = Some p \<and> admin_get p w = Inr a \<and> ac_fd a = k_fd key \<and> \<not> invalid_fd (k_fd key) \<and>
     owner_of (w_sel w) (k_fd key) = Some (H_Admin, p) \<and> empty_of MAX_CMD_LEN (ac_in a) \<and>
     empty_of MAX_RESPONSE_LEN (ac_out a) \<and> 0 \<in> set (buf_data (ac_out a)) \<and> sel_inv (w_sel w) \<and>
     config_inv (w_cfg w) \<and> os_alloc (w_os w) = []"

lemma find_newline_at: "10 \<notin> set u \<Longrightarrow> 0 \<notin> set u \<Longrightarrow> find_newline (u @ 10 # r) = Inr (Some (length u))"
  by (induction u) auto

lemma find_newline_none: "10 \<notin> set u \<Longrightarrow> 0 \<notin> set u \<Longrightarrow> find_newline (u @ 0 # r) = Inr None"
  by (induction u) auto

lemma empty_recv:
  "empty_of n b \<Longrightarrow> length bs \<le> n \<Longrightarrow> buffer_recv b bs =
     Inr (b\<lparr>buf_data := bs @ drop (length bs) (buf_data b), buf_write := length bs\<rparr>)"
  by (simp add: empty_of_def buffer_recv_def buffer_write_adv_def)

text \<open>Reading into an empty input buffer: what follows depends on the bytes and on what was there.\<close>

lemma admin_read_bytes:
  assumes "k_data key = Some p" "p < length (w_admin w)" "empty_of MAX_CMD_LEN (ac_in a)"
    and "bs \<noteq> []" "length bs \<le> MAX_CMD_LEN" "os_recv (w_os w) = Recv bs # rs"
    and "find_newline (bs @ drop (length bs) (buf_data (ac_in a))) = Inr nl"
  shows "admin_read key (admin_put p a w) =
    (let a = a\<lparr>ac_in := (ac_in a)\<lparr>buf_data := bs @ drop (length bs) (buf_data (ac_in a)), buf_write := length bs\<rparr>\<rparr>;
         w = admin_put p a (received (k_fd key) w)
     in case nl of Some n \<Rightarrow> admin_command key p a 0 n w | None \<Rightarrow> admin_no_newline key p a w)"
proof -
  have b: "buf_read (ac_in a) = 0" "buf_write (ac_in a) = 0" "buf_limit (ac_in a) = MAX_CMD_LEN"
    using assms(3) by (simp_all add: empty_of_def)
  have can: "buffer_can_write (ac_in a)" "buffer_write_ptr (ac_in a) = Inr (0, MAX_CMD_LEN)"
    using b by (simp_all add: buffer_can_write_def buffer_write_ptr_def MAX_CMD_LEN_def)
  have r: "sys_recv (k_fd key) MAX_CMD_LEN w = (Recv bs, received (k_fd key) w)"
    by (rule sys_recv_bytes [OF assms(6,4,5)])
  show ?thesis
    using assms(1,2,7) can r empty_recv [OF assms(3,5)] b
    by (simp add: admin_read_def admin_live received_def buffer_read_ptr_def Let_def cong: option.case_cong)
qed

lemma c_str_take: "c_str m = Inr s \<Longrightarrow> take (length s) m = s \<and> 0 \<in> set m"
  using takeWhile_eq_take [of "\<lambda>b. b \<noteq> 0" m] by (auto simp: c_str_def guard_def split: if_splits)

lemma config_handler_response:
  "config_handler alloc st line resp = Inr (n, st', line', resp') \<Longrightarrow> \<exists>s. c_str resp' = Inr s \<and> n = length s"
  by (auto simp: config_handler_def Let_def bind_res_eq_Inr split: prod.splits)

section \<open>A whole command\<close>

lemma admin_ready_facts:
  assumes "admin_ready key p a w"
  shows "k_data key = Some p" "p < length (w_admin w)" "admin_put p a w = w" "ac_fd a = k_fd key"
    "\<not> invalid_fd (k_fd key)" "owner_of (w_sel w) (k_fd key) = Some (H_Admin, p)" "empty_of MAX_CMD_LEN (ac_in a)"
    "empty_of MAX_RESPONSE_LEN (ac_out a)" "0 \<in> set (buf_data (ac_out a))" "sel_inv (w_sel w)"
    "config_inv (w_cfg w)" "os_alloc (w_os w) = []"
  using assms by (auto simp: admin_ready_def admin_put_self admin_get_def split: if_splits)

lemma empty_facts:
  assumes "empty_of n b" "0 < n"
  shows "buf_read b = 0" "buf_write b = 0" "buf_limit b = n" "length (buf_data b) = n"
    "buffer_can_write b" "buffer_write_ptr b = Inr (0, n)"
  using assms by (simp_all add: empty_of_def buffer_can_write_def buffer_write_ptr_def)

lemma max_pos [simp]: "0 < MAX_CMD_LEN" "0 < MAX_RESPONSE_LEN"
  by (simp_all add: MAX_CMD_LEN_def MAX_RESPONSE_LEN_def)

text \<open>The command at the start of the input buffer, which holds nothing else, is run.\<close>

lemma admin_command_runs:
  assumes key: "k_data key = Some p" "p < length (w_admin w)" and sel: "sel_inv (w_sel w)" and al: "os_alloc (w_os w) = []"
    and inb: "buf_read (ac_in a) = 0" "buf_data (ac_in a) = u @ x # r" "u \<noteq> []" "hd u \<noteq> 0"
    and out: "empty_of MAX_RESPONSE_LEN (ac_out a)"
    and h: "config_handler True (w_cfg w) (u @ 0 # r) (buf_data (ac_out a)) = Inr (k, cfg, line, resp)"
      "length resp = MAX_RESPONSE_LEN" "k < MAX_RESPONSE_LEN"
  shows "admin_command key p a 0 (length u) (admin_put p a w) =
    bind_res (buffer_read_adv ((ac_in a)\<lparr>buf_data := line\<rparr>) (int (length u + 1))) (\<lambda>ib.
    Inr (admin_put p (a\<lparr>ac_in := ib, ac_out := (ac_out a)\<lparr>buf_data := resp, buf_write := k\<rparr>\<rparr>)
      (w\<lparr>w_cfg := cfg, w_sel := sel_set (k_fd key) OP_WRITE (w_sel w)\<rparr>)))"
proof -
  note o = empty_facts [OF out max_pos(2)]
  have put: "mem_put (buf_data (ac_in a)) (length u) 0 = Inr (u @ 0 # r)" using inb(2) by simp
  have get: "mem_get (u @ 0 # r) 0 = Inr (hd u)" using inb(3) by (simp add: nth_append hd_conv_nth)
  have adv: "buffer_write_adv ((ac_out a)\<lparr>buf_data := resp\<rparr>) (int k) = Inr ((ac_out a)\<lparr>buf_data := resp, buf_write := k\<rparr>)"
    using o h(3) by (simp add: buffer_write_adv_def)
  show ?thesis
    using key sel al put get adv o h inb(4) sys_alloc_free [of "admin_put p a w"]
    by (simp add: admin_command_def admin_live set_interest_key_def set_interest_live cong: option.case_cong)
qed

lemma read_adv_all:
  "buf_read b = 0 \<Longrightarrow> buf_write b = n \<Longrightarrow> buffer_read_adv b (int n) = Inr (b\<lparr>buf_read := 0, buf_write := 0\<rparr>)"
  by (cases b) (auto simp: buffer_read_adv_def buffer_compact_def Let_def)

lemma admin_write_all:
  assumes key: "k_data key = Some p" "p < length (w_admin w)" and sel: "sel_inv (w_sel w)"
    and out: "buf_read (ac_out a) = 0" "buf_write (ac_out a) = k" "0 < k" "k \<le> length (buf_data (ac_out a))"
    and send: "os_send (w_os w) = Sent m # q" "k \<le> m"
  shows "admin_write key (admin_put p a w) =
    Inr (admin_put p (a\<lparr>ac_out := (ac_out a)\<lparr>buf_read := 0, buf_write := 0\<rparr>\<rparr>)
      ((sent (k_fd key) (take k (buf_data (ac_out a))) q w)\<lparr>w_sel := sel_set (k_fd key) OP_READ (w_sel w)\<rparr>))"
proof -
  have s: "sys_send (k_fd key) (take k (buf_data (ac_out a))) w = (Sent k, sent (k_fd key) (take k (buf_data (ac_out a))) q w)"
    using send out(4) by (simp add: sys_send_def pop_def emit_def sent_def os_upd_def min_def)
  show ?thesis
    using key sel out s read_adv_all [OF out(1,2)]
    by (simp add: admin_write_def admin_live buffer_can_read_def buffer_read_ptr_def buffer_compact_def
        set_interest_key_def set_interest_live Let_def sent_def)
qed

text \<open>The bytes of a line and what is behind them in the array.\<close>

lemma admin_line_read:
  assumes rdy: "admin_ready key p a w" and recv: "os_recv (w_os w) = Recv (bs @ [10]) # rs"
    and bs: "10 \<notin> set bs" "0 \<notin> set bs" "bs \<noteq> []" "length bs < MAX_CMD_LEN"
    and h: "config_handler True (w_cfg w) (bs @ 0 # drop (length bs + 1) (buf_data (ac_in a))) (buf_data (ac_out a)) =
        Inr (k, cfg, line, resp)" "length resp = MAX_RESPONSE_LEN" "k < MAX_RESPONSE_LEN" "length line = MAX_CMD_LEN"
  shows "\<exists>a' w'. admin_read key w = Inr (admin_put p a' w') \<and> ac_fd a' = ac_fd a \<and> empty_of MAX_CMD_LEN (ac_in a') \<and>
    ac_out a' = (ac_out a)\<lparr>buf_data := resp, buf_write := k\<rparr> \<and>
    w' = (received (k_fd key) w)\<lparr>w_cfg := cfg, w_sel := sel_set (k_fd key) OP_WRITE (w_sel w)\<rparr>"
proof -
  note r = admin_ready_facts [OF rdy]
  note i = empty_facts [OF r(7) max_pos(1)]
  let ?r = "drop (length bs + 1) (buf_data (ac_in a))"
  let ?ib = "(ac_in a)\<lparr>buf_data := bs @ 10 # ?r, buf_write := length bs + 1\<rparr>"
  let ?w = "received (k_fd key) w"
  have nl: "find_newline ((bs @ [10]) @ drop (length (bs @ [10])) (buf_data (ac_in a))) = Inr (Some (length bs))"
    using find_newline_at [OF bs(1,2)] by simp
  have len: "length (bs @ [10]) \<le> MAX_CMD_LEN" using bs(4) by simp
  have "p < length (w_admin ?w)" using r(2) by (simp add: received_def)
  note cmd = admin_command_runs [OF r(1) this, where a = "a\<lparr>ac_in := ?ib\<rparr>" and u = bs and x = 10 and r = ?r
      and k = k and cfg = cfg and line = line and resp = resp]
  have hd: "hd bs \<noteq> 0" using bs(2,3) by (cases bs) auto
  have adv: "buffer_read_adv (?ib\<lparr>buf_data := line\<rparr>) (int (length bs + 1)) =
      Inr (?ib\<lparr>buf_data := line, buf_read := 0, buf_write := 0\<rparr>)"
    by (rule read_adv_all) (simp_all add: i)
  let ?a = "a\<lparr>ac_in := ?ib\<lparr>buf_data := line, buf_read := 0, buf_write := 0\<rparr>,
    ac_out := (ac_out a)\<lparr>buf_data := resp, buf_write := k\<rparr>\<rparr>"
  have "admin_read key (admin_put p a w) = Inr (admin_put p ?a
      (?w\<lparr>w_cfg := cfg, w_sel := sel_set (k_fd key) OP_WRITE (w_sel ?w)\<rparr>))"
    using admin_read_bytes [OF r(1,2,7) _ len recv nl] cmd r h hd bs(3) adv i by (simp add: received_def)
  with r(3) i(3) h(4) show ?thesis
    by - (rule exI [of _ ?a], simp add: empty_of_def)
qed

section \<open>A segment without a newline\<close>

lemma too_long_text: "is_text too_long" "length too_long = 24" "too_long \<noteq> []"
  by (simp_all add: too_long_def lit_def is_text_def)

lemma admin_no_newline_runs:
  assumes "k_data key = Some p" "p < length (w_admin w)" "sel_inv (w_sel w)" "empty_of MAX_RESPONSE_LEN (ac_out a)"
  shows "admin_no_newline key p a (admin_put p a w) =
    Inr (admin_put p (a\<lparr>ac_out := (ac_out a)\<lparr>buf_data := too_long @ 0 # drop 25 (buf_data (ac_out a)), buf_write := 24\<rparr>,
        ac_in := buffer_reset (ac_in a)\<rparr>)
      (w\<lparr>w_sel := sel_set (k_fd key) OP_WRITE (w_sel w)\<rparr>))"
proof -
  note o = empty_facts [OF assms(4) max_pos(2)]
  have "length too_long < MAX_RESPONSE_LEN" by (simp add: too_long_text MAX_RESPONSE_LEN_def)
  then have sn: "snprintf_to (buf_data (ac_out a)) 0 MAX_RESPONSE_LEN too_long = Inr (too_long @ 0 # drop 25 (buf_data (ac_out a)))"
    using snprintf_whole [of too_long MAX_RESPONSE_LEN 0 "buf_data (ac_out a)"] o(4) by (simp add: too_long_text)
  have "c_str (too_long @ 0 # drop 25 (buf_data (ac_out a))) = Inr too_long" by (rule c_str_text [OF too_long_text(1)])
  with assms o sn show ?thesis
    by (simp add: admin_no_newline_def admin_live set_interest_key_def set_interest_live buffer_write_adv_def
        too_long_text(2) MAX_RESPONSE_LEN_def)
qed

lemma admin_refused:
  assumes rdy: "admin_ready key p a w" and recv: "os_recv (w_os w) = Recv bs # rs" and send: "os_send (w_os w) = Sent m # q"
    and bs: "bs \<noteq> []" "length bs \<le> MAX_CMD_LEN" "24 \<le> m"
    and nl: "find_newline (bs @ drop (length bs) (buf_data (ac_in a))) = Inr None"
  shows "\<exists>w1 w2 a'. admin_read key w = Inr w1 \<and> admin_write key w1 = Inr w2 \<and> admin_ready key p a' w2 \<and>
    buf_data (ac_in a') = bs @ drop (length bs) (buf_data (ac_in a)) \<and> w_cfg w2 = w_cfg w \<and>
    os_recv (w_os w2) = rs \<and> os_send (w_os w2) = q \<and>
    os_trace (w_os w2) = os_trace (w_os w) @ [Ev_Recv (k_fd key) bs, Ev_Send (k_fd key) too_long]"
proof -
  note r = admin_ready_facts [OF rdy]
  note i = empty_facts [OF r(7) max_pos(1)] and o = empty_facts [OF r(8) max_pos(2)]
  let ?d = "bs @ drop (length bs) (buf_data (ac_in a))" and ?o = "too_long @ 0 # drop 25 (buf_data (ac_out a))"
  let ?w = "received (k_fd key) w"
  let ?a = "a\<lparr>ac_out := (ac_out a)\<lparr>buf_data := ?o, buf_write := 24\<rparr>,
    ac_in := buffer_reset ((ac_in a)\<lparr>buf_data := ?d, buf_write := length bs\<rparr>)\<rparr>"
  let ?w1 = "?w\<lparr>w_sel := sel_set (k_fd key) OP_WRITE (w_sel w)\<rparr>"
  have w: "p < length (w_admin ?w)" "sel_inv (w_sel ?w)" using r by (simp_all add: received_def)
  have out: "empty_of MAX_RESPONSE_LEN (ac_out (a\<lparr>ac_in := ib\<rparr>))" for ib using r(8) by simp
  have "admin_read key (admin_put p a w) = Inr (admin_put p ?a ?w1)"
    using admin_read_bytes [OF r(1,2,7) bs(1,2) recv nl] admin_no_newline_runs [OF r(1) w out] by simp
  then have rd: "admin_read key w = Inr (admin_put p ?a ?w1)" using r(3) by simp
  have w1: "p < length (w_admin ?w1)" "sel_inv (w_sel ?w1)" "os_send (w_os ?w1) = Sent m # q"
    using r send by (simp_all add: received_def)
  let ?a2 = "?a\<lparr>ac_out := (ac_out ?a)\<lparr>buf_read := 0, buf_write := 0\<rparr>\<rparr>"
  let ?w2 = "(sent (k_fd key) too_long q ?w1)\<lparr>w_sel := sel_set (k_fd key) OP_READ (w_sel ?w1)\<rparr>"
  have wr: "admin_write key (admin_put p ?a ?w1) = Inr (admin_put p ?a2 ?w2)"
    using admin_write_all [OF r(1) w1(1,2), of ?a 24 m q] w1(3) bs(3) o by (simp add: too_long_text(2))
  have "p < length (w_admin ?w2)" using w1(1) by (simp add: sent_def)
  then have "admin_get p (admin_put p ?a2 ?w2) = Inr ?a2" by (rule admin_get_put)
  moreover have "25 \<le> MAX_RESPONSE_LEN" by (simp add: MAX_RESPONSE_LEN_def)
  ultimately have "admin_ready key p ?a2 (admin_put p ?a2 ?w2)"
    using r(1,4,5,6,10,11,12) i o bs(2) too_long_text(2)
    by (simp add: admin_ready_def empty_of_def buffer_reset_def)
  moreover have "os_recv (w_os ?w2) = rs" using recv by (simp add: received_def)
  ultimately show ?thesis using rd wr recv
    by - (rule exI [of _ "admin_put p ?a ?w1"], rule exI [of _ "admin_put p ?a2 ?w2"], rule exI [of _ ?a2],
      simp add: buffer_reset_def)
qed

section \<open>Properties\<close>

text \<open>The response \<open>r\<close> waits in the output array, and \<open>send\<close> takes it whole; an empty one needs no \<open>send\<close>.\<close>

lemma admin_answers:
  assumes key: "k_data key = Some p" "p < length (w_admin w)" "ac_fd a = k_fd key" "\<not> invalid_fd (k_fd key)"
      "owner_of (w_sel w) (k_fd key) = Some (H_Admin, p)" "sel_inv (w_sel w)" "config_inv (w_cfg w)" "os_alloc (w_os w) = []"
    and a: "empty_of MAX_CMD_LEN (ac_in a)" "ac_out a = o0\<lparr>buf_data := resp, buf_write := length r\<rparr>" "empty_of MAX_RESPONSE_LEN o0"
    and resp: "length resp = MAX_RESPONSE_LEN" "0 \<in> set resp" "take (length r) resp = r"
    and send: "os_send (w_os w) = Sent m # q" "MAX_RESPONSE_LEN \<le> m"
  shows "\<exists>w'. admin_write key (admin_put p a w) = Inr w' \<and> w_cfg w' = w_cfg w \<and>
    os_trace (w_os w') = os_trace (w_os w) @ (if r = [] then [] else [Ev_Send (k_fd key) r]) \<and>
    (r \<noteq> [] \<longrightarrow> (\<exists>a'. admin_ready key p a' w'))"
proof (cases "r = []")
  case True
  then have "admin_write key (admin_put p a w) = Inr (admin_put p a w)"
    using key(1,2) a(2,3) by (simp add: admin_write_def admin_live buffer_can_read_def empty_of_def)
  with True show ?thesis by simp
next
  case False
  let ?a = "a\<lparr>ac_out := (ac_out a)\<lparr>buf_read := 0, buf_write := 0\<rparr>\<rparr>"
  let ?w = "(sent (k_fd key) r q w)\<lparr>w_sel := sel_set (k_fd key) OP_READ (w_sel w)\<rparr>"
  have "length r \<le> MAX_RESPONSE_LEN" using resp(1,3) by (metis length_take min.cobounded1 min.commute)
  then have "admin_write key (admin_put p a w) = Inr (admin_put p ?a ?w)"
    using admin_write_all [OF key(1,2,6), of a "length r" m q] a(2,3) resp(1,3) send False by (simp add: empty_of_def)
  moreover have "admin_get p (admin_put p ?a ?w) = Inr ?a" using key(2) by (simp add: sent_def)
  then have "admin_ready key p ?a (admin_put p ?a ?w)"
    using key a resp(1,2) by (simp add: admin_ready_def empty_of_def)
  ultimately show ?thesis using False by - (rule exI [of _ "admin_put p ?a ?w"], simp del: admin_put_sel(1), auto)
qed

text \<open>C25: A command line that arrives in one segment is answered: the handler of the command gets the line,
  the answer it leaves goes to the client as it is, and the session is ready for the next command,
  with the settings still legal.\<close>

theorem admin_round:
  assumes "admin_ready key p a w" "os_recv (w_os w) = Recv (bs @ [10]) # rs" "os_send (w_os w) = Sent m # q"
    and "10 \<notin> set bs" "0 \<notin> set bs" "length bs < MAX_CMD_LEN" "MAX_RESPONSE_LEN \<le> m"
    and "words bs \<noteq> []" "\<forall>v \<in> set (words bs). length v \<noteq> ARGS_LEN"
  shows "\<exists>s cfg line resp w1 w2.
    config_handler True (w_cfg w) (bs @ 0 # drop (length bs + 1) (buf_data (ac_in a))) (buf_data (ac_out a)) =
      Inr (length s, cfg, line, resp) \<and> c_str resp = Inr s \<and>
    admin_read key w = Inr w1 \<and> admin_write key w1 = Inr w2 \<and> w_cfg w2 = cfg \<and>
    os_trace (w_os w2) = os_trace (w_os w) @ Ev_Recv (k_fd key) (bs @ [10]) #
      (if s = [] then [] else [Ev_Send (k_fd key) s]) \<and>
    (s \<noteq> [] \<longrightarrow> (\<exists>a'. admin_ready key p a' w2))"
proof -
  note r = admin_ready_facts [OF assms(1)]
  note i = empty_facts [OF r(7) max_pos(1)] and o = empty_facts [OF r(8) max_pos(2)]
  let ?line = "bs @ 0 # drop (length bs + 1) (buf_data (ac_in a))"
  have str: "c_str ?line = Inr bs" using c_str_text assms(5) by (simp add: is_text_def)
  obtain k cfg line resp where h: "config_handler True (w_cfg w) ?line (buf_data (ac_out a)) = Inr (k, cfg, line, resp)"
    "config_inv cfg" "length resp = MAX_RESPONSE_LEN" "length line = MAX_CMD_LEN" "k < MAX_RESPONSE_LEN"
    using config_handler_total [OF r(11) str assms(8,9), of "buf_data (ac_out a)" True] o(4) r(9) i(4) assms(6) by auto
  obtain s where s: "c_str resp = Inr s" "k = length s" using config_handler_response [OF h(1)] by blast
  have tk: "take k resp = s" "0 \<in> set resp"
    using s c_str_take [OF s(1)] by simp_all
  have "words [] = []" by (subst words.simps) simp
  with assms(8) have "bs \<noteq> []" by auto
  then obtain a' w' where w1: "admin_read key w = Inr (admin_put p a' w')" "ac_fd a' = ac_fd a" "empty_of MAX_CMD_LEN (ac_in a')"
    "ac_out a' = (ac_out a)\<lparr>buf_data := resp, buf_write := k\<rparr>"
    "w' = (received (k_fd key) w)\<lparr>w_cfg := cfg, w_sel := sel_set (k_fd key) OP_WRITE (w_sel w)\<rparr>"
    using admin_line_read [OF assms(1,2,4,5) _ assms(6) h(1,3,5,4)] by blast
  have p': "p < length (w_admin w')" "sel_inv (w_sel w')" "owner_of (w_sel w') (k_fd key) = Some (H_Admin, p)"
    "config_inv (w_cfg w')" "os_alloc (w_os w') = []" "os_send (w_os w') = Sent m # q" "ac_fd a' = k_fd key"
    using r w1(2,5) h(2) assms(3) by (simp_all add: received_def)
  obtain w2 where w2: "admin_write key (admin_put p a' w') = Inr w2" "w_cfg w2 = w_cfg w'"
    "os_trace (w_os w2) = os_trace (w_os w') @ (if s = [] then [] else [Ev_Send (k_fd key) s])"
    "s \<noteq> [] \<longrightarrow> (\<exists>a'. admin_ready key p a' w2)"
    using admin_answers [OF r(1) p'(1,7) r(5) p'(3,2,4,5) w1(3) w1(4) [unfolded s(2)] r(8) h(3) tk(2) tk(1) [unfolded s(2)] p'(6) assms(7)]
    by blast
  have "os_trace (w_os w') = os_trace (w_os w) @ [Ev_Recv (k_fd key) (bs @ [10])]" "w_cfg w' = cfg" using w1(5) assms(2) by simp_all
  with w2 h(1) s w1(1) show ?thesis
    by - (rule exI [of _ s], rule exI [of _ cfg], rule exI [of _ line], rule exI [of _ resp], rule exI [of _ "admin_put p a' w'"],
        rule exI [of _ w2], simp)
qed

text \<open>A segment without a newline is refused and forgotten, even where it is only the first part of a
  command: the client is told the command is too long, and what comes next counts as a new line.\<close>

theorem admin_fragment_refused:
  assumes "admin_ready key p a w" "os_recv (w_os w) = Recv bs # rs" "os_send (w_os w) = Sent m # q"
    and "bs \<noteq> []" "10 \<notin> set bs" "0 \<notin> set bs" "length bs < MAX_CMD_LEN" "24 \<le> m"
    and "buf_data (ac_in a) ! length bs = 0"
  shows "\<exists>w1 w2 a'. admin_read key w = Inr w1 \<and> admin_write key w1 = Inr w2 \<and> admin_ready key p a' w2 \<and>
    w_cfg w2 = w_cfg w \<and>
    os_trace (w_os w2) = os_trace (w_os w) @
      [Ev_Recv (k_fd key) bs, Ev_Send (k_fd key) (lit ''ERROR: command too long\<newline>'')]"
proof -
  have "length (buf_data (ac_in a)) = MAX_CMD_LEN" using assms(1) by (simp add: admin_ready_def empty_of_def)
  with assms(7,9) have d: "drop (length bs) (buf_data (ac_in a)) = 0 # drop (length bs + 1) (buf_data (ac_in a))"
    using Cons_nth_drop_Suc [of "length bs" "buf_data (ac_in a)"] by simp
  have "find_newline (bs @ drop (length bs) (buf_data (ac_in a))) = Inr None"
    unfolding d by (rule find_newline_none [OF assms(5,6)])
  from admin_refused [OF assms(1-4) _ assms(8) this] assms(7) show ?thesis
    unfolding too_long_def by (metis less_imp_le)
qed

text \<open>C26: A refused segment stays in the input array.  A client that sends a line with a zero byte in it and
  then one byte less than up to the end of that line makes the server take the old newline for the
  end of a command it did not receive: it runs the command made of both and aborts where it advances
  past what was read.\<close>

theorem stale_line_aborts:
  assumes "admin_ready key p a w" "os_recv (w_os w) = Recv (u @ 0 # v @ [10]) # Recv bs # rs"
    and "os_send (w_os w) = Sent m # q" "24 \<le> m" "length bs = Suc (length u)"
    and "10 \<notin> set u" "0 \<notin> set u" "10 \<notin> set v" "0 \<notin> set v" "10 \<notin> set bs" "0 \<notin> set bs"
    and "length u + length v + 2 \<le> MAX_CMD_LEN"
    and "words (bs @ v) \<noteq> []" "\<forall>x \<in> set (words (bs @ v)). length x \<noteq> ARGS_LEN"
  shows "\<exists>w1 w2. admin_read key w = Inr w1 \<and> admin_write key w1 = Inr w2 \<and>
    admin_read key w2 = Inl Assert_Failed"
proof -
  let ?l = "u @ 0 # v @ [10]"
  have nl: "find_newline (?l @ drop (length ?l) (buf_data (ac_in a))) = Inr None"
    using find_newline_none [OF assms(6,7)] by simp
  have len: "length ?l \<le> MAX_CMD_LEN" "?l \<noteq> []" using assms(12) by simp_all
  obtain w1 w2 a2 where s: "admin_read key w = Inr w1" "admin_write key w1 = Inr w2" "admin_ready key p a2 w2"
    "buf_data (ac_in a2) = ?l @ drop (length ?l) (buf_data (ac_in a))" "os_recv (w_os w2) = Recv bs # rs"
    using admin_refused [OF assms(1-3) len(2,1) assms(4) nl] by blast
  note r = admin_ready_facts [OF s(3)]
  note i = empty_facts [OF r(7) max_pos(1)] and o = empty_facts [OF r(8) max_pos(2)]
  define rest where "rest = drop (length ?l) (buf_data (ac_in a))"
  have d: "bs @ drop (length bs) (buf_data (ac_in a2)) = (bs @ v) @ 10 # rest"
    using assms(5) by (simp add: s(4) rest_def)
  have bsv: "10 \<notin> set (bs @ v)" "0 \<notin> set (bs @ v)" "is_text (bs @ v)" "bs @ v \<noteq> []" "hd (bs @ v) \<noteq> 0"
    using assms(5,8-11) by (cases bs; auto simp: is_text_def)+
  have nl2: "find_newline (bs @ drop (length bs) (buf_data (ac_in a2))) = Inr (Some (length (bs @ v)))"
    unfolding d by (rule find_newline_at [OF bsv(1,2)])
  have str: "c_str ((bs @ v) @ 0 # rest) = Inr (bs @ v)" by (rule c_str_text [OF bsv(3)])
  have bs: "bs \<noteq> []" "length bs \<le> MAX_CMD_LEN" using assms(5,12) by (auto simp: Suc_le_eq)
  obtain k cfg line resp where h: "config_handler True (w_cfg w2) ((bs @ v) @ 0 # rest) (buf_data (ac_out a2)) = Inr (k, cfg, line, resp)"
    "length resp = MAX_RESPONSE_LEN" "k < MAX_RESPONSE_LEN"
    using config_handler_total [OF r(11) str assms(13,14), of "buf_data (ac_out a2)" True] o(4) r(9) by auto
  let ?w = "received (k_fd key) w2"
  let ?a = "a2\<lparr>ac_in := (ac_in a2)\<lparr>buf_data := (bs @ v) @ 10 # rest, buf_write := length bs\<rparr>\<rparr>"
  have w: "p < length (w_admin ?w)" "sel_inv (w_sel ?w)" "os_alloc (w_os ?w) = []" using r by (simp_all add: received_def)
  have over: "buffer_read_adv ((ac_in ?a)\<lparr>buf_data := line\<rparr>) (int (length (bs @ v) + 1)) = Inl Assert_Failed"
    using i(1) by (simp add: buffer_read_adv_def)
  have h': "config_handler True (w_cfg ?w) ((bs @ v) @ 0 # rest) (buf_data (ac_out ?a)) = Inr (k, cfg, line, resp)"
    using h(1) by simp
  have "admin_command key p ?a 0 (length (bs @ v)) (admin_put p ?a ?w) = Inl Assert_Failed"
    using admin_command_runs [OF r(1) w(1,2,3) _ _ bsv(4,5) _ h' h(2,3)] i(1) r(8) over by simp
  with admin_read_bytes [OF r(1,2,7) bs s(5) nl2] r(3) s(1,2) d show ?thesis by auto
qed

text \<open>C27: A send error on an administration connection frees it and then reads it again, for the
  descriptor to close a second time.\<close>

theorem admin_send_error_use_after_free:
  assumes "k_data key = Some p" "admin_get p w = Inr a" "ac_fd a = k_fd key" "\<not> invalid_fd (k_fd key)"
    and "owner_of (w_sel w) (k_fd key) = Some (H_Admin, p)" "sel_inv (w_sel w)" "buffer_inv (ac_out a)"
    and "pending (ac_out a) \<noteq> []" "os_send (w_os w) = Send_Error e # q" "e \<noteq> EAGAIN"
  shows "admin_write key w = Inl Use_After_Free"
proof -
  have p: "p < length (w_admin w)" "admin_put p a w = w"
    using assms(2) admin_put_self by (auto simp: admin_get_Inr)
  let ?w = "set_errno e (os_upd (\<lambda>s. s\<lparr>os_send := q\<rparr>) w)"
  let ?w' = "(sys_close (k_fd key) ?w)\<lparr>w_admin := (w_admin w)[p := None]\<rparr>"
  have at: "admin_get p ?w = Inr a" using assms(2) by (simp add: admin_get_Inr set_errno_def os_upd_def)
  have "admin_close (k_fd key) (Some p) ?w = Inr ?w'"
    using at assms(3) by (simp add: admin_close_def key_admin_def admin_free_def admin_get_Inr sys_close_def emit_def
        set_errno_def cong: option.case_cong) (simp add: admin_get_def os_upd_def)
  then have un: "unregister_fd (k_fd key) ?w = Inr (?w'\<lparr>w_sel := sel_drop (k_fd key) (w_sel w)\<rparr>)"
    using unregister_close(1) [OF assms(6,4,5), where close = handler_close and w = ?w and w' = ?w']
    by (simp add: unregister_fd_def unregister_def set_errno_def)
  have "admin_get p (?w'\<lparr>w_sel := sel_drop (k_fd key) (w_sel w)\<rparr>) = Inl Use_After_Free"
    using p(1) by (simp add: admin_get_def)
  with un assms can_read_pending [OF assms(7)] show ?thesis
    by (simp add: admin_write_def key_admin_def buffer_read_ptr_def buffer_inv_def sys_send_def pop_def Let_def)
qed

section \<open>Witnesses\<close>

text \<open>A session on descriptor 5, the input array cleared.\<close>

definition sample_admin :: admin_conn where
  "sample_admin = zero_admin\<lparr>ac_fd := 5, ac_in := buffer_init MAX_CMD_LEN (replicate MAX_CMD_LEN 0),
     ac_out := buffer_init MAX_RESPONSE_LEN (replicate MAX_RESPONSE_LEN 0)\<rparr>"

definition admin_world :: "sel \<Rightarrow> admin_conn \<Rightarrow> recv_result list \<Rightarrow> send_result list \<Rightarrow> world" where
  "admin_world s a rs ss = (sample_world s zero_conn auth_init rs ss)\<lparr>w_admin := [Some a]\<rparr>"

lemma admin_world_sel [simp]:
  "os_recv (w_os (admin_world s a rs ss)) = rs" "os_send (w_os (admin_world s a rs ss)) = ss"
  "w_sel (admin_world s a rs ss) = s" "admin_get 0 (admin_world s a rs ss) = Inr a"
  by (simp_all add: admin_world_def admin_get_def)

lemma sample_admin_sel [simp]: "ac_fd sample_admin = 5" "buf_data (ac_in sample_admin) = replicate MAX_CMD_LEN 0"
  by (simp_all add: sample_admin_def buffer_init_def buffer_reset_def)

lemma admin_selector: "\<exists>s. sel_inv s \<and> owner_of s 5 = Some (H_Admin, 0)"
proof -
  obtain s :: sel where s: "sel_inv s" "sel_table s = Map.empty" using selector_new_ok by blast
  then have "interest_of s = Map.empty" by (simp add: interest_of_def fun_eq_iff)
  with sel_reg_free [OF s(1), of 5 True H_Admin OP_READ 0] show ?thesis
    by (auto simp: invalid_fd_def ITEMS_MAX_SIZE_def)
qed

lemma admin_sample:
  obtains s where "\<And>rs ss. admin_ready sample_key 0 sample_admin (admin_world s sample_admin rs ss)"
    "sel_inv s" "owner_of s 5 = Some (H_Admin, 0)"
proof -
  obtain s :: sel where s: "sel_inv s" "owner_of s 5 = Some (H_Admin, 0)" using admin_selector by blast
  have "config_inv (w_cfg (admin_world s sample_admin rs ss))" for rs ss
    using init_logged [of "replicate REGISTER_MAX_ENTRIES (make_entry [] [] 0 [] 0 0 0)"]
    by (simp add: admin_world_def sample_world_def config_inv_def fresh_parsed_def settings_ok_def)
  moreover have "empty_of n (buffer_init n (replicate n 0))" for n
    by (simp add: empty_of_def buffer_init_def buffer_reset_def)
  moreover have "os_alloc (w_os (admin_world s sample_admin rs ss)) = []" for rs ss
    by (simp add: admin_world_def sample_world_def)
  moreover have "0 \<in> set (buf_data (ac_out sample_admin))"
    by (simp add: sample_admin_def buffer_init_def buffer_reset_def MAX_RESPONSE_LEN_def)
  ultimately have "admin_ready sample_key 0 sample_admin (admin_world s sample_admin rs ss)" for rs ss
    using s by (simp add: admin_ready_def invalid_fd_def ITEMS_MAX_SIZE_def) (simp add: sample_admin_def)
  with s show thesis by (intro that)
qed

lemma ping_words: "words (lit ''PING'') = [lit ''PING'']"
  by (simp add: words.simps lit_def is_delim_def)

theorem admin_round_witness:
  "\<exists>s w1 w2. admin_read sample_key (admin_world s sample_admin [Recv (lit ''PING'' @ [10])] [Sent MAX_RESPONSE_LEN]) = Inr w1 \<and>
     admin_write sample_key w1 = Inr w2"
proof -
  obtain s where s: "admin_ready sample_key 0 sample_admin (admin_world s sample_admin [Recv (lit ''PING'' @ [10])] [Sent MAX_RESPONSE_LEN])"
    by (rule admin_sample) blast
  have "10 \<notin> set (lit ''PING'')" "0 \<notin> set (lit ''PING'')" "length (lit ''PING'') < MAX_CMD_LEN"
    "\<forall>v \<in> set (words (lit ''PING'')). length v \<noteq> ARGS_LEN" "words (lit ''PING'') \<noteq> []"
    unfolding ping_words by (simp_all add: lit_def MAX_CMD_LEN_def ARGS_LEN_def)
  from admin_round [OF s _ _ this(1-3) _ this(5,4), of "[]" MAX_RESPONSE_LEN "[]"]
  show ?thesis by (intro exI [of _ s]) auto
qed

theorem admin_fragment_refused_witness:
  "\<exists>w w1 w2 a'. admin_read sample_key w = Inr w1 \<and> admin_write sample_key w1 = Inr w2 \<and> admin_ready sample_key 0 a' w2 \<and>
     os_trace (w_os w2) = os_trace (w_os w) @
       [Ev_Recv 5 [80, 73], Ev_Send 5 (lit ''ERROR: command too long\<newline>'')]"
proof -
  obtain s where s: "admin_ready sample_key 0 sample_admin (admin_world s sample_admin [Recv [80, 73]] [Sent 24])"
    by (rule admin_sample) blast
  have "buf_data (ac_in sample_admin) ! length [80, 73 :: byte] = 0" by (simp add: MAX_CMD_LEN_def)
  with admin_fragment_refused [OF s, of "[80, 73]" "[]" 24 "[]"] show ?thesis by (auto simp: MAX_CMD_LEN_def)
qed

theorem stale_line_aborts_witness:
  "\<exists>s w1 w2. admin_read sample_key (admin_world s sample_admin [Recv [65, 0, 78, 71, 10], Recv [80, 73]] [Sent 24]) = Inr w1 \<and>
     admin_write sample_key w1 = Inr w2 \<and> admin_read sample_key w2 = Inl Assert_Failed"
proof -
  obtain s where s: "admin_ready sample_key 0 sample_admin
      (admin_world s sample_admin [Recv [65, 0, 78, 71, 10], Recv [80, 73]] [Sent 24])"
    by (rule admin_sample) blast
  have "words ([80, 73] @ [78, 71]) = [[80, 73, 78, 71]]" using ping_words by (simp add: lit_def)
  with stale_line_aborts [OF s, of "[65]" "[78, 71]" "[80, 73]" "[]" 24 "[]"] show ?thesis
    by (intro exI [of _ s]) (auto simp: MAX_CMD_LEN_def ARGS_LEN_def)
qed

theorem admin_send_error_use_after_free_witness: "\<exists>w. admin_write sample_key w = Inl Use_After_Free"
proof -
  let ?a = "sample_admin\<lparr>ac_out := buffer_init 4 [1, 2, 3, 4]\<lparr>buf_write := 2\<rparr>\<rparr>"
  obtain s where s: "sel_inv s" "owner_of s 5 = Some (H_Admin, 0)" by (rule admin_sample) blast
  have "buffer_inv (ac_out ?a)" "pending (ac_out ?a) \<noteq> []"
    by (simp_all add: buffer_inv_def pending_def buffer_init_def buffer_reset_def)
  with admin_send_error_use_after_free [of sample_key 0 "admin_world s ?a [] [Send_Error 32]" ?a 32 "[]"] s show ?thesis
    by (auto simp: invalid_fd_def ITEMS_MAX_SIZE_def EAGAIN_def)
qed

end
