(* ===== verification/Accepting.thy ===== *)
theory Accepting
  imports Admin_Session Relay
begin

text \<open>
  The two listening sockets: what accepting a client leaves, for the proxy and for the administration
  protocol, and what happens at the limit of connections.
\<close>

section \<open>Accepting\<close>

definition accepting :: "int \<Rightarrow> world \<Rightarrow> bool" where
  "accepting fd w \<longleftrightarrow> sel_inv (w_sel w) \<and> interest_of (w_sel w) fd = None \<and> \<not> invalid_fd fd \<and>
     os_alloc (w_os w) = [] \<and> os_nonblock (w_os w) = []"

text \<open>The world after the kernel handed out the next client.\<close>

definition handed :: "int \<Rightarrow> world \<Rightarrow> world" where
  "handed l w = w\<lparr>w_os := (w_os w)\<lparr>os_accept := tl (os_accept (w_os w)), os_trace := os_trace (w_os w) @ [Ev_Accept l]\<rparr>\<rparr>"

lemma passive_accept_ok:
  assumes "accepting fd w" "os_accept (w_os w) = Accepted fd addr # q"
  shows "passive_accept store key p h w =
    (let w = (handed (k_fd key) w)\<lparr>w_sel := sel_reg fd h OP_READ p (w_sel w)\<rparr>
     in bind_res (case addr of
            Sock_In a port \<Rightarrow> store (Some (dotted a)) (htons port) w
          | Sock_In6 a port \<Rightarrow> store (os_ntop6 (w_os w) a) (htons port) w
          | Sock_Other \<Rightarrow> Inr w) (\<lambda>w. Inr (fd, w)))"
proof -
  have nb: "set_non_blocking_fd (handed (k_fd key) w) = (True, handed (k_fd key) w)"
    using assms(1) by (simp add: set_non_blocking_fd_def pop_def os_upd_def handed_def accepting_def)
  have reg: "register_fd fd h OP_READ (Some p) (handed (k_fd key) w) =
      Inr (SELECTOR_SUCCESS, (handed (k_fd key) w)\<lparr>w_sel := sel_reg fd h OP_READ p (w_sel w)\<rparr>)"
    using register_live [of "handed (k_fd key) w" fd h OP_READ p] assms(1) by (simp add: handed_def accepting_def)
  have "sys_accept (k_fd key) w = (Accepted fd addr, handed (k_fd key) w)"
    using assms(2) by (simp add: sys_accept_def pop_def os_upd_def emit_def handed_def)
  then show ?thesis using nb reg by (simp add: passive_accept_def Let_def)
qed

lemma handed_sel [simp]:
  "w_sel (handed l w) = w_sel w" "w_cfg (handed l w) = w_cfg w" "w_heap (handed l w) = w_heap w"
  "w_admin (handed l w) = w_admin w" "os_alloc (w_os (handed l w)) = os_alloc (w_os w)"
  "os_junk (w_os (handed l w)) = os_junk (w_os w)" "os_ntop6 (w_os (handed l w)) = os_ntop6 (w_os w)"
  "os_trace (w_os (handed l w)) = os_trace (w_os w) @ [Ev_Accept l]" "handed l (conn_put p c w) = conn_put p c (handed l w)"
  "handed l (admin_put p a w) = admin_put p a (handed l w)"
  by (simp_all add: handed_def conn_put_def admin_put_def)

text \<open>What \<open>passive_accept\<close> writes about the client.\<close>

definition source_of :: "(byte list \<Rightarrow> byte list option) \<Rightarrow> sockaddr \<Rightarrow> socks5_conn \<Rightarrow> socks5_conn" where
  "source_of ntop6 addr c =
     (case addr of
        Sock_In a port \<Rightarrow> c\<lparr>c_src_address := dotted a, c_src_port := htons port\<rparr>
      | Sock_In6 a port \<Rightarrow>
          c\<lparr>c_src_address := (case ntop6 a of None \<Rightarrow> c_src_address c | Some s \<Rightarrow> s), c_src_port := htons port\<rparr>
      | Sock_Other \<Rightarrow> c)"

lemma accept_socks5:
  assumes "accepting fd w" "os_accept (w_os w) = Accepted fd addr # q" "0 < fd"
    and "metrics (data (w_cfg w)) = Some m" "uint (current_connections m) < uint (max_conn (data (w_cfg w)))"
  defines "sz \<equiv> unat (buffer_size (data (w_cfg w)))"
  defines "c \<equiv> (source_of (os_ntop6 (w_os w)) addr zero_conn)
    \<lparr>c_client_fd := fd, c_in := buffer_init sz (replicate sz 0), c_out := buffer_init sz (replicate sz 0),
     c_stm := socks5_stm_init True\<rparr>"
  shows "socksv5_passive_accept key w = Inr (conn_put (length (w_heap w)) c
    (count metrics_inc_total_conn (count metrics_inc_curr_conn
      ((handed (k_fd key) w)\<lparr>w_heap := w_heap w @ [Some zero_conn],
         w_sel := sel_reg fd H_Socks5 OP_READ (length (w_heap w)) (w_sel w)\<rparr>))))"
proof -
  let ?p = "length (w_heap w)"
  let ?w1 = "w\<lparr>w_heap := w_heap w @ [Some zero_conn]\<rparr>"
  let ?w2 = "(handed (k_fd key) w)\<lparr>w_heap := w_heap w @ [Some zero_conn], w_sel := sel_reg fd H_Socks5 OP_READ ?p (w_sel w)\<rparr>"
  have put: "?w2 = conn_put ?p zero_conn ?w2" by (simp add: conn_put_def)
  have len: "?p < length (w_heap ?w2)" by simp
  have al: "os_alloc (w_os ?w2) = []" "os_alloc (w_os w) = []" using assms(1) by (simp_all add: accepting_def)
  have h: "(handed (k_fd key) ?w1)\<lparr>w_sel := sel_reg fd H_Socks5 OP_READ ?p (w_sel ?w1)\<rparr> = ?w2" by (simp add: handed_def)
  have st: "conn_upd ?p f ?w2 = Inr (conn_put ?p (f zero_conn) ?w2)" for f
    using conn_upd_put [OF len, of f zero_conn] unfolding put [symmetric] .
  have put': "conn_put ?p zero_conn ?w2 = ?w2" by (rule put [symmetric])
  have "accepting fd ?w1" "os_accept (w_os ?w1) = Accepted fd addr # q"
    using assms(1,2) by (simp_all add: accepting_def)
  from passive_accept_ok [OF this, of "store_source ?p" key ?p H_Socks5]
  have "passive_accept (store_source ?p) key ?p H_Socks5 ?w1 =
      Inr (fd, conn_put ?p (source_of (os_ntop6 (w_os w)) addr zero_conn) ?w2)"
    unfolding h by (cases addr) (simp_all add: store_source_def source_of_def st put' Let_def)
  then show ?thesis
    using assms(3-5) al len sys_alloc_free [of w]
    by (simp add: socksv5_passive_accept_def live Let_def c_def sz_def)
qed

lemma interest_reg_self: "accepting fd w \<Longrightarrow> interest_of (sel_reg fd h i p (w_sel w)) fd = Some i"
  and owner_reg_self: "accepting fd w \<Longrightarrow> owner_of (sel_reg fd h i p (w_sel w)) fd = Some (h, p)"
  and sel_reg_inv: "accepting fd w \<Longrightarrow> sel_inv (sel_reg fd h i p (w_sel w))"
  using sel_reg_free [of "w_sel w" fd True h i p] by (simp_all add: accepting_def)

text \<open>The input array of an administration connection after \<open>passive_accept\<close> wrote the client's address to it.\<close>

definition address_in_data :: "byte list \<Rightarrow> 16 word \<Rightarrow> byte list" where
  "address_in_data t port =
     replicate SRC_ADDRESS_IN_DATA 0 @ t @ replicate (SRC_PORT_IN_DATA - SRC_ADDRESS_IN_DATA - length t) 0 @
     port_bytes port @ replicate (MAX_CMD_LEN - SRC_PORT_IN_DATA - 2) 0"

lemma admin_store_zero:
  assumes "p < length (w_admin w)" "length t \<le> 45"
  shows "admin_store_source p (Some t) port (admin_put p zero_admin w) =
    Inr (admin_put p (zero_admin\<lparr>ac_in := (ac_in zero_admin)\<lparr>buf_data := address_in_data t port\<rparr>\<rparr>) w)"
proof -
  have z: "buf_data (ac_in zero_admin) = replicate 1024 0" by (simp add: zero_admin_def MAX_CMD_LEN_def)
  let ?d = "replicate 56 0 @ t @ 0 # replicate (967 - length t) (0 :: byte)"
  have "strcpy_to (replicate 1024 0) 56 t = Inr ?d"
    using assms(2) by (simp add: strcpy_to_def min_def)
  moreover have "length ?d = 1024" "take 102 ?d = replicate 56 0 @ t @ replicate (46 - length t) 0"
      "drop 104 ?d = replicate 920 0"
    using assms(2) by (simp_all add: take_Cons' drop_Cons' min_def Suc_diff_le replicate_Suc [symmetric] del: replicate_Suc)
  then have "mem_write ?d 102 (port_bytes port) = Inr (address_in_data t port)"
    by (simp add: port_bytes_def address_in_data_def SRC_ADDRESS_IN_DATA_def SRC_PORT_IN_DATA_def MAX_CMD_LEN_def)
  ultimately show ?thesis
    using assms(1) by (simp add: admin_store_source_def admin_live z SRC_ADDRESS_IN_DATA_def SRC_PORT_IN_DATA_def)
qed

lemma accept_admin:
  assumes "accepting fd w" "os_accept (w_os w) = Accepted fd (Sock_In i port) # q" "0 < fd"
  defines "a \<equiv> zero_admin\<lparr>ac_fd := fd, ac_in := buffer_init MAX_CMD_LEN (address_in_data (dotted i) (htons port)),
      ac_out := buffer_init MAX_RESPONSE_LEN (replicate MAX_RESPONSE_LEN 0)\<rparr>"
  shows "s5admin_passive_accept key w = Inr (admin_put (length (w_admin w)) a
    ((handed (k_fd key) w)\<lparr>w_admin := w_admin w @ [Some zero_admin], w_sel := sel_reg fd H_Admin OP_READ (length (w_admin w)) (w_sel w)\<rparr>))"
proof -
  let ?p = "length (w_admin w)"
  let ?w1 = "w\<lparr>w_admin := w_admin w @ [Some zero_admin]\<rparr>"
  let ?w2 = "(handed (k_fd key) w)\<lparr>w_admin := w_admin w @ [Some zero_admin], w_sel := sel_reg fd H_Admin OP_READ ?p (w_sel w)\<rparr>"
  let ?d = "address_in_data (dotted i) (htons port)"
  have put: "?w2 = admin_put ?p zero_admin ?w2" by (simp add: admin_put_def)
  have len: "?p < length (w_admin ?w2)" by simp
  have h: "(handed (k_fd key) ?w1)\<lparr>w_sel := sel_reg fd H_Admin OP_READ ?p (w_sel ?w1)\<rparr> = ?w2" by (simp add: handed_def)
  have "accepting fd ?w1" "os_accept (w_os ?w1) = Accepted fd (Sock_In i port) # q"
    using assms(1,2) by (simp_all add: accepting_def)
  note pa = passive_accept_ok [OF this, of "admin_store_source ?p" key ?p H_Admin]
  have "length (dotted i) \<le> 45" using dotted_text [of i] by simp
  from admin_store_zero [OF len this, of "htons port"]
  have st: "admin_store_source ?p (Some (dotted i)) (htons port) ?w2 =
      Inr (admin_put ?p (zero_admin\<lparr>ac_in := (ac_in zero_admin)\<lparr>buf_data := ?d\<rparr>\<rparr>) ?w2)"
    unfolding put [symmetric] .
  have al: "sys_alloc w = (True, w)" using assms(1) by (simp add: accepting_def sys_alloc_free)
  have b: "buffer_init n (buf_data (b\<lparr>buf_data := d\<rparr>)) = buffer_init n d" for n b d by simp
  have "buf_data (ac_out zero_admin) = replicate MAX_RESPONSE_LEN 0" by (simp add: zero_admin_def)
  with pa st al assms(3) len show ?thesis
    unfolding h by (simp add: s5admin_passive_accept_def admin_upd_put [OF len] a_def b Let_def)
qed

lemma admin_accepted_ready:
  fixes key :: key
  assumes "accepting fd w" "os_accept (w_os w) = Accepted fd (Sock_In i port) # q" "0 < fd" "config_inv (w_cfg w)"
  defines "p \<equiv> length (w_admin w)"
  defines "w0 \<equiv> (handed (k_fd key) w)\<lparr>w_admin := w_admin w @ [Some zero_admin], w_sel := sel_reg fd H_Admin OP_READ p (w_sel w)\<rparr>"
  shows "\<exists>a. s5admin_passive_accept key w = Inr (admin_put p a w0) \<and>
    admin_ready \<lparr>k_fd = fd, k_data = Some p\<rparr> p a (admin_put p a w0) \<and>
    buf_data (ac_in a) = address_in_data (dotted i) (htons port)"
proof -
  let ?a = "zero_admin\<lparr>ac_fd := fd, ac_in := buffer_init MAX_CMD_LEN (address_in_data (dotted i) (htons port)),
      ac_out := buffer_init MAX_RESPONSE_LEN (replicate MAX_RESPONSE_LEN 0)\<rparr>"
  have run: "s5admin_passive_accept key w = Inr (admin_put p ?a w0)"
    using accept_admin [OF assms(1-3)] by (simp add: p_def w0_def)
  have len: "length (dotted i) \<le> 15" "length (port_bytes (htons port)) = 2"
    using dotted_text [of i] by (simp_all add: port_bytes_def)
  then have al: "length (address_in_data (dotted i) (htons port)) = MAX_CMD_LEN"
    by (simp add: address_in_data_def SRC_ADDRESS_IN_DATA_def SRC_PORT_IN_DATA_def MAX_CMD_LEN_def)
  have e: "empty_of MAX_CMD_LEN (ac_in ?a)" "empty_of MAX_RESPONSE_LEN (ac_out ?a)" "0 \<in> set (buf_data (ac_out ?a))"
    using al by (simp_all add: empty_of_def buffer_init_def buffer_reset_def MAX_RESPONSE_LEN_def)
  have g: "admin_get p (admin_put p ?a w0) = Inr ?a" by (simp add: p_def w0_def)
  have acc: "\<not> invalid_fd fd" "os_alloc (w_os w) = []" using assms(1) by (simp_all add: accepting_def)
  have "admin_ready \<lparr>k_fd = fd, k_data = Some p\<rparr> p ?a (admin_put p ?a w0)"
    unfolding admin_ready_def
    using e g acc assms(4) sel_reg_inv [OF assms(1)] owner_reg_self [OF assms(1)] by (simp add: w0_def)
  moreover have "buf_data (ac_in ?a) = address_in_data (dotted i) (htons port)" by (simp add: buffer_init_def buffer_reset_def)
  ultimately show ?thesis using run by blast
qed

section \<open>Properties\<close>

text \<open>A client of the proxy that arrives below the limit is accepted: a connection of its own is
  registered for reading, waiting for the greeting with empty buffers of the configured size, knows
  the client's address, and is counted once as open and once in total; nothing else changes.\<close>

theorem accept_serves_client:
  assumes "accepting fd w" "os_accept (w_os w) = Accepted fd (Sock_In i port) # q" "0 < fd"
    and "metrics (data (w_cfg w)) = Some m" "uint (current_connections m) < uint (max_conn (data (w_cfg w)))"
    and "2 \<le> buffer_size (data (w_cfg w))" "256 \<le> length (os_junk (w_os w))"
  shows "\<exists>c w'. socksv5_passive_accept key w = Inr w' \<and>
    accepted \<lparr>k_fd = fd, k_data = Some (length (w_heap w))\<rparr> (length (w_heap w)) c w' \<and>
    interest_of (w_sel w') = (interest_of (w_sel w))(fd \<mapsto> OP_READ) \<and>
    c_src_address c = dotted i \<and> c_src_port c = htons port \<and>
    buf_limit (c_in c) = unat (buffer_size (data (w_cfg w))) \<and>
    take (length (w_heap w)) (w_heap w') = w_heap w \<and> os_trace (w_os w') = os_trace (w_os w) @ [Ev_Accept (k_fd key)] \<and>
    metrics (data (w_cfg w')) = Some (metrics_inc_total_conn (metrics_inc_curr_conn m))"
proof -
  let ?p = "length (w_heap w)" and ?sz = "unat (buffer_size (data (w_cfg w)))"
  let ?c = "(source_of (os_ntop6 (w_os w)) (Sock_In i port) zero_conn)
    \<lparr>c_client_fd := fd, c_in := buffer_init ?sz (replicate ?sz 0), c_out := buffer_init ?sz (replicate ?sz 0),
     c_stm := socks5_stm_init True\<rparr>"
  let ?w0 = "(handed (k_fd key) w)\<lparr>w_heap := w_heap w @ [Some zero_conn], w_sel := sel_reg fd H_Socks5 OP_READ ?p (w_sel w)\<rparr>"
  let ?w = "conn_put ?p ?c (count metrics_inc_total_conn (count metrics_inc_curr_conn ?w0))"
  have run: "socksv5_passive_accept key w = Inr ?w" by (rule accept_socks5 [OF assms(1-5)])
  have b: "idle (buffer_init ?sz (replicate ?sz 0))" "buf_limit (buffer_init ?sz (replicate ?sz 0)) = ?sz"
    by (simp_all add: idle_def buffer_init_inv) (simp_all add: buffer_op_defs)
  have sz: "2 \<le> ?sz" using assms(6) by (simp add: word_le_nat_alt)
  have al: "os_alloc (w_os w) = []" using assms(1) by (simp add: accepting_def)
  have inv: "\<not> invalid_fd fd" using assms(1) by (simp add: accepting_def)
  have acc: "accepted \<lparr>k_fd = fd, k_data = Some ?p\<rparr> ?p ?c ?w"
    using b sz al inv assms(3,4,7) sel_reg_inv [OF assms(1)] owner_reg_self [OF assms(1)]
    by (simp add: accepted_def connected_def sound_def) (simp add: source_of_def zero_conn_def)
  have i: "interest_of (w_sel ?w) = (interest_of (w_sel w))(fd \<mapsto> OP_READ)"
    using sel_reg_free [of "w_sel w" fd] assms(1) by (simp add: accepting_def)
  have h: "take ?p (w_heap ?w) = w_heap w" by (simp add: conn_put_def count_def)
  show ?thesis
    using run acc i h assms(4) b(2)
    by - (rule exI [of _ ?c], rule exI [of _ ?w], simp add: source_of_def)
qed

text \<open>A client that arrives at the limit is closed at once: no connection, no registration, no count.\<close>

theorem accept_at_limit:
  assumes "metrics (data (w_cfg w)) = Some m" "uint (max_conn (data (w_cfg w))) \<le> uint (current_connections m)"
    and "os_accept (w_os w) = Accepted fd addr # q"
  shows "\<exists>w'. socksv5_passive_accept key w = Inr w' \<and> w_heap w' = w_heap w \<and> w_sel w' = w_sel w \<and>
    w_cfg w' = w_cfg w \<and> os_trace (w_os w') = os_trace (w_os w) @ [Ev_Accept (k_fd key), Ev_Close fd]"
  using assms by (simp add: socksv5_passive_accept_def sys_accept_def pop_def sys_close_def emit_def)

text \<open>A client of the administration protocol gets a session ready for commands; its address and its port
  are in the session's input array, where \<open>passive_accept\<close> writes them taking the session for a connection of
  the proxy.\<close>

theorem admin_accept_writes_address_to_input:
  assumes "accepting fd w" "os_accept (w_os w) = Accepted fd (Sock_In i port) # q" "0 < fd" "config_inv (w_cfg w)"
  shows "\<exists>a w'. s5admin_passive_accept key w = Inr w' \<and>
    admin_ready \<lparr>k_fd = fd, k_data = Some (length (w_admin w))\<rparr> (length (w_admin w)) a w' \<and>
    interest_of (w_sel w') = (interest_of (w_sel w))(fd \<mapsto> OP_READ) \<and>
    take (length (dotted i)) (drop 56 (buf_data (ac_in a))) = dotted i \<and>
    take 2 (drop 102 (buf_data (ac_in a))) = port_bytes (htons port)"
proof -
  let ?p = "length (w_admin w)"
  let ?w0 = "(handed (k_fd key) w)\<lparr>w_admin := w_admin w @ [Some zero_admin], w_sel := sel_reg fd H_Admin OP_READ ?p (w_sel w)\<rparr>"
  obtain a where a: "s5admin_passive_accept key w = Inr (admin_put ?p a ?w0)"
    "admin_ready \<lparr>k_fd = fd, k_data = Some ?p\<rparr> ?p a (admin_put ?p a ?w0)"
    "buf_data (ac_in a) = address_in_data (dotted i) (htons port)"
    using admin_accepted_ready [OF assms] by blast
  have len: "length (dotted i) \<le> 15" "length (port_bytes (htons port)) = 2"
    using dotted_text [of i] by (simp_all add: port_bytes_def)
  have "take (length (dotted i)) (drop 56 (buf_data (ac_in a))) = dotted i"
    "take 2 (drop 102 (buf_data (ac_in a))) = port_bytes (htons port)"
    unfolding a(3) using len by (simp_all add: address_in_data_def SRC_ADDRESS_IN_DATA_def SRC_PORT_IN_DATA_def)
  moreover have "interest_of (w_sel (admin_put ?p a ?w0)) = (interest_of (w_sel w))(fd \<mapsto> OP_READ)"
    using sel_reg_free [of "w_sel w" fd] assms(1) by (simp add: accepting_def)
  ultimately show ?thesis using a(1,2) by blast
qed

section \<open>Witnesses\<close>

text \<open>A client from 127.0.0.1, port 8080, on descriptor 9.\<close>

definition knocking :: "sel \<Rightarrow> world" where
  "knocking s = (sample_world s sample_conn auth_init [] [])
     \<lparr>w_os := (w_os (sample_world s sample_conn auth_init [] []))\<lparr>os_accept := [Accepted 9 (Sock_In [127, 0, 0, 1] 0x901F)]\<rparr>\<rparr>"

lemma knocking_sel [simp]:
  "w_sel (knocking s) = s" "w_cfg (knocking s) = w_cfg (sample_world s sample_conn auth_init [] [])"
  "w_heap (knocking s) = [Some sample_conn]" "w_admin (knocking s) = []"
  "os_accept (w_os (knocking s)) = [Accepted 9 (Sock_In [127, 0, 0, 1] 0x901F)]"
  "length (os_junk (w_os (knocking s))) = 256" "max_conn (data (w_cfg (sample_world s c u rs ss))) = 500"
  "buffer_size (data (w_cfg (sample_world s c u rs ss))) = 4096"
  by (simp_all add: knocking_def sample_world_def)

lemma sample_knocking: "\<exists>s. accepting 9 (knocking s)"
proof -
  obtain s :: sel where s: "sel_inv s" "sel_table s = Map.empty" using selector_new_ok by blast
  then have "accepting 9 (knocking s)"
    by (simp add: accepting_def interest_of_def invalid_fd_def ITEMS_MAX_SIZE_def) (simp add: knocking_def sample_world_def)
  then show ?thesis by blast
qed

theorem accept_serves_client_witness:
  "\<exists>w w' c. socksv5_passive_accept sample_key w = Inr w' \<and> accepted \<lparr>k_fd = 9, k_data = Some 1\<rparr> 1 c w' \<and>
     c_src_address c = lit ''127.0.0.1'' \<and> c_src_port c = 8080"
proof -
  obtain s where s: "accepting 9 (knocking s)" using sample_knocking by blast
  have "dotted [127, 0, 0, 1] = lit ''127.0.0.1''" by (simp add: dotted_def decimal.simps lit_def)
  moreover have "htons 0x901F = 8080" by (simp add: htons_def)
  ultimately show ?thesis
    using accept_serves_client [OF s, of "[127, 0, 0, 1]" "0x901F" "[]" metrics_init sample_key]
    by (auto simp: metrics_init_def)
qed

theorem accept_at_limit_witness:
  "\<exists>w w'. socksv5_passive_accept sample_key w = Inr w' \<and> os_trace (w_os w') = os_trace (w_os w) @ [Ev_Accept (k_fd sample_key), Ev_Close 9]"
proof -
  let ?m = "metrics_init\<lparr>current_connections := 500\<rparr>"
  let ?c = "w_cfg (knocking empty_selector)"
  let ?w = "(knocking empty_selector)\<lparr>w_cfg := ?c\<lparr>data := (data ?c)\<lparr>metrics := Some ?m\<rparr>\<rparr>\<rparr>"
  show ?thesis using accept_at_limit [of ?w ?m 9 "Sock_In [127, 0, 0, 1] 0x901F" "[]" sample_key]
    by - (rule exI [of _ ?w], auto)
qed

theorem admin_accept_writes_address_to_input_witness:
  "\<exists>w w' a. s5admin_passive_accept sample_key w = Inr w' \<and> admin_ready \<lparr>k_fd = 9, k_data = Some 0\<rparr> 0 a w' \<and>
     take 2 (drop 102 (buf_data (ac_in a))) = [144, 31]"
proof -
  obtain s where s: "accepting 9 (knocking s)" using sample_knocking by blast
  have "config_inv (w_cfg (knocking s))"
    using init_logged [of "replicate REGISTER_MAX_ENTRIES (make_entry [] [] 0 [] 0 0 0)"]
    by (simp add: sample_world_def config_inv_def fresh_parsed_def settings_ok_def)
  moreover have "port_bytes (htons 0x901F) = [144, 31]" by (simp add: port_bytes_def htons_def)
  ultimately show ?thesis
    using admin_accept_writes_address_to_input [OF s, of "[127, 0, 0, 1]" "0x901F" "[]" sample_key] by auto
qed

end
