(* ===== verification/Args.thy ===== *)
theory Args
  imports Server_Data
begin

text \<open>
  The command lines: \<open>src/src/server/utils/args.c\<close> and \<open>src/src/admin_client/args_admin.c\<close>, with the
  part of the library they rest on, \<open>strtol\<close> with its end pointer and \<open>getopt_long\<close> without long options.
\<close>

section \<open>The options of a command line\<close>

text \<open>
  \<open>getopt\<close> gives the options one after the other: a known one with its argument, or \<open>'?'\<close> for one that is
  unknown, is long, or has no argument where it needs one.  What is no option is left over, wherever
  it stood; after \<open>--\<close> everything is.
\<close>

datatype getopt_event = Opt byte "byte list option" | Bad_Opt

fun opt_kind :: "byte list \<Rightarrow> byte \<Rightarrow> bool option" where
  "opt_kind [] c = None"
| "opt_kind (x # xs) c =
     (if x = c \<and> c \<noteq> 58 then Some (xs \<noteq> [] \<and> hd xs = 58) else opt_kind xs c)"

fun cluster :: "byte list \<Rightarrow> byte list \<Rightarrow> byte list list \<Rightarrow> getopt_event list \<times> byte list list" where
  "cluster spec [] rest = ([], rest)"
| "cluster spec (c # cs) rest =
     (case opt_kind spec c of
        None \<Rightarrow> (let (es, rest) = cluster spec cs rest in (Bad_Opt # es, rest))
      | Some False \<Rightarrow> (let (es, rest) = cluster spec cs rest in (Opt c None # es, rest))
      | Some True \<Rightarrow>
          if cs \<noteq> [] then ([Opt c (Some cs)], rest)
          else case rest of [] \<Rightarrow> ([Bad_Opt], []) | a # as \<Rightarrow> ([Opt c (Some a)], as))"

lemma cluster_length: "length (snd (cluster spec cs rest)) \<le> length rest"
  by (induction spec cs rest rule: cluster.induct) (auto split: option.splits bool.splits prod.splits list.splits)

function getopt_all :: "byte list \<Rightarrow> byte list list \<Rightarrow> getopt_event list \<times> byte list list" where
  "getopt_all spec [] = ([], [])"
| "getopt_all spec (a # as) =
     (if a = [45, 45] then ([], as)
      else if a = [] \<or> hd a \<noteq> 45 \<or> a = [45]
      then (let (es, left) = getopt_all spec as in (es, a # left))
      else if hd (tl a) = 45
      then (let (es, left) = getopt_all spec as in (Bad_Opt # es, left))
      else (let (es, rest) = cluster spec (tl a) as; (es', left) = getopt_all spec rest in (es @ es', left)))"
  by pat_completeness auto

termination
  by (relation "measure (\<lambda>(spec, as). length as)") (auto dest: arg_cong [of _ _ snd] simp: le_imp_less_Suc cluster_length
      intro: le_imp_less_Suc [OF order_trans [OF _ cluster_length]])

declare getopt_all.simps [simp del]

section \<open>Ports, users and levels\<close>

text \<open>Where \<open>strtol\<close> stops; at the start if there is no number.\<close>

definition strtol_end :: "byte list \<Rightarrow> byte list" where
  "strtol_end s =
     (let t = dropWhile is_space_char s;
          t = (if t \<noteq> [] \<and> (hd t = 45 \<or> hd t = 43) then tl t else t)
      in if takeWhile is_digit_char t = [] then s else dropWhile is_digit_char t)"

definition USHRT_MAX :: int where "USHRT_MAX = 65535"

text \<open>
  \<open>None\<close> is the exit of the process.  The test of \<open>errno\<close> is for the two ends of the range of \<open>long\<close>, which the
  last two tests refuse as well.
\<close>

definition port :: "byte list \<Rightarrow> 16 word option" where
  "port s =
     (let sl = strtol s; end_ptr = strtol_end s
      in if end_ptr = s \<or> end_ptr \<noteq> [] \<or> sl < 0 \<or> sl > USHRT_MAX then None
         else Some (word_of_int sl))"

definition user :: "byte list \<Rightarrow> (byte list \<times> byte list) option" where
  "user s =
     (if 58 \<in> set s then Some (takeWhile (\<lambda>b. b \<noteq> 58) s, tl (dropWhile (\<lambda>b. b \<noteq> 58) s)) else None)"

definition log_level_from_string :: "byte list \<Rightarrow> log_level" where
  "log_level_from_string level =
     (if level = lit ''DEBUG'' then DEBUG
      else if level = lit ''INFO'' then INFO
      else if level = lit ''WARNING'' then WARNING
      else if level = lit ''ERROR'' then ERROR
      else Other_Level)"

section \<open>The arguments of the server\<close>

definition MAX_USERS :: nat where "MAX_USERS = 10"

text \<open>The array of users and their count are a list.\<close>

record server_args =
  socks_addr :: "byte list"
  socks_port :: "16 word"
  mng_addr :: "byte list"
  mng_port :: "16 word"
  disectors_enabled :: bool
  args_users :: "(byte list \<times> byte list) list"
  args_log_level :: log_level
  args_log_file :: "byte list option"

definition default_args :: server_args where
  "default_args =
     \<lparr>socks_addr = lit ''0.0.0.0'', socks_port = 1080, mng_addr = lit ''127.0.0.1'', mng_port = 8080,
      disectors_enabled = True, args_users = [], args_log_level = INFO, args_log_file = None\<rparr>"

text \<open>Either the process goes on or it exits with a status.\<close>

datatype 'a run = Run 'a | Exit int

definition server_options :: "byte list" where
  "server_options = lit ''hl:L:Np:P:u:vg:f:''"

text \<open>A level below 0 would exit; the type has none.\<close>

fun server_option :: "getopt_event \<Rightarrow> server_args \<Rightarrow> server_args run" where
  "server_option (Opt c (Some a)) args =
     (if c = of_char CHR ''l'' then Run (args\<lparr>socks_addr := a\<rparr>)
      else if c = of_char CHR ''L'' then Run (args\<lparr>mng_addr := a\<rparr>)
      else if c = of_char CHR ''p'' then (case port a of None \<Rightarrow> Exit 1 | Some p \<Rightarrow> Run (args\<lparr>socks_port := p\<rparr>))
      else if c = of_char CHR ''P'' then (case port a of None \<Rightarrow> Exit 1 | Some p \<Rightarrow> Run (args\<lparr>mng_port := p\<rparr>))
      else if c = of_char CHR ''u''
      then (if length (args_users args) \<ge> MAX_USERS then Exit 1
            else case user a of None \<Rightarrow> Exit 1 | Some u \<Rightarrow> Run (args\<lparr>args_users := args_users args @ [u]\<rparr>))
      else if c = of_char CHR ''g'' then Run (args\<lparr>args_log_level := log_level_from_string a\<rparr>)
      else if c = of_char CHR ''f'' then Run (args\<lparr>args_log_file := Some a\<rparr>)
      else Exit 1)"
| "server_option (Opt c None) args =
     (if c = of_char CHR ''h'' then Exit 1
      else if c = of_char CHR ''N'' then Run (args\<lparr>disectors_enabled := False\<rparr>)
      else if c = of_char CHR ''v'' then Exit 0
      else Exit 1)"
| "server_option Bad_Opt args = Exit 1"

fun run_options :: "(getopt_event \<Rightarrow> 'a \<Rightarrow> 'a run) \<Rightarrow> getopt_event list \<Rightarrow> 'a \<Rightarrow> 'a run" where
  "run_options f [] args = Run args"
| "run_options f (e # es) args = (case f e args of Run args \<Rightarrow> run_options f es args | Exit c \<Rightarrow> Exit c)"

text \<open>\<open>argv\<close> without the name of the program.\<close>

definition parse_args :: "byte list list \<Rightarrow> server_args run" where
  "parse_args argv =
     (let (es, left) = getopt_all server_options argv
      in case run_options server_option es default_args of
           Exit c \<Rightarrow> Exit c
         | Run args \<Rightarrow> if left \<noteq> [] then Exit 1 else Run args)"

section \<open>The arguments of the administration client\<close>

text \<open>Its own copies of the two functions above, in \<open>args_admin.c\<close>.\<close>

definition client_port :: "byte list \<Rightarrow> 16 word option" where
  "client_port s =
     (let sl = strtol s; end_ptr = strtol_end s
      in if end_ptr = s \<or> end_ptr \<noteq> [] \<or> sl < 0 \<or> sl > USHRT_MAX then None
         else Some (word_of_int sl))"

definition client_log_level_from_string :: "byte list \<Rightarrow> log_level" where
  "client_log_level_from_string level =
     (if level = lit ''DEBUG'' then DEBUG
      else if level = lit ''INFO'' then INFO
      else if level = lit ''WARNING'' then WARNING
      else if level = lit ''ERROR'' then ERROR
      else Other_Level)"

lemma copies_agree [simp]: "client_port = port" "client_log_level_from_string = log_level_from_string"
  by (simp_all add: fun_eq_iff client_port_def port_def client_log_level_from_string_def log_level_from_string_def)

record admin_args =
  aa_host :: "byte list"
  aa_port :: int
  aa_log_file :: "byte list option"
  aa_log_level :: log_level

definition default_admin_args :: admin_args where
  "default_admin_args =
     \<lparr>aa_host = lit ''127.0.0.1'', aa_port = 8080, aa_log_file = None, aa_log_level = INFO\<rparr>"

definition admin_options :: "byte list" where
  "admin_options = lit ''hl:p:g:f:''"

fun admin_option :: "getopt_event \<Rightarrow> admin_args \<Rightarrow> admin_args run" where
  "admin_option (Opt c (Some a)) args =
     (if c = of_char CHR ''l'' then Run (args\<lparr>aa_host := a\<rparr>)
      else if c = of_char CHR ''p'' then (case client_port a of None \<Rightarrow> Exit 1 | Some p \<Rightarrow> Run (args\<lparr>aa_port := uint p\<rparr>))
      else if c = of_char CHR ''g'' then Run (args\<lparr>aa_log_level := client_log_level_from_string a\<rparr>)
      else if c = of_char CHR ''f'' then Run (args\<lparr>aa_log_file := Some a\<rparr>)
      else Exit 1)"
| "admin_option (Opt c None) args = Exit 1"
| "admin_option Bad_Opt args = Exit 1"

definition parse_admin_args :: "byte list list \<Rightarrow> admin_args run" where
  "parse_admin_args argv =
     (let (es, left) = getopt_all admin_options argv
      in case run_options admin_option es default_admin_args of
           Exit c \<Rightarrow> Exit c
         | Run args \<Rightarrow> if left \<noteq> [] then Exit 1 else Run args)"

section \<open>Ports\<close>

lemma digit_not_space: "is_digit_char b \<Longrightarrow> \<not> is_space_char b" "is_digit_char b \<Longrightarrow> b \<noteq> 45 \<and> b \<noteq> 43"
  by (auto simp: is_digit_char_def is_space_char_def word_le_nat_alt)

lemma decimal_starts: "\<exists>d ds. decimal n = d # ds \<and> is_digit_char d"
  using decimal_digits [of n] by (cases "decimal n") (auto simp: decimal.simps [of n] split: if_splits)

lemma strtol_end_decimal: "strtol_end (decimal n) = []"
proof -
  obtain d ds where d: "decimal n = d # ds" "is_digit_char d" using decimal_starts by blast
  have "takeWhile is_digit_char (decimal n) = decimal n" "dropWhile is_digit_char (decimal n) = []"
    using decimal_digits [of n] by (simp_all add: takeWhile_eq_all_conv)
  with d digit_not_space [OF d(2)] show ?thesis by (simp add: strtol_end_def)
qed

lemma port_decimal: "n < 2 ^ 63 \<Longrightarrow> port (decimal n) = (if n \<le> 65535 then Some (of_nat n) else None)"
  using strtol_decimal [of n] strtol_end_decimal [of n] decimal_starts [of n] by (auto simp: port_def USHRT_MAX_def)

section \<open>Writing a command line\<close>

definition opt :: "char \<Rightarrow> byte list" where "opt c = [45, of_char c]"

definition render :: "server_args \<Rightarrow> byte list list" where
  "render a =
     [opt CHR ''l'', socks_addr a, opt CHR ''L'', mng_addr a, opt CHR ''p'', decimal (unat (socks_port a)),
      opt CHR ''P'', decimal (unat (mng_port a))] @
     (if disectors_enabled a then [] else [opt CHR ''N'']) @
     concat (map (\<lambda>(n, p). [opt CHR ''u'', n @ [58] @ p]) (args_users a)) @
     [opt CHR ''g'', level_string (args_log_level a)] @
     (case args_log_file a of None \<Rightarrow> [] | Some f \<Rightarrow> [opt CHR ''f'', f])"

definition events_of :: "server_args \<Rightarrow> getopt_event list" where
  "events_of a =
     [Opt (of_char CHR ''l'') (Some (socks_addr a)), Opt (of_char CHR ''L'') (Some (mng_addr a)),
      Opt (of_char CHR ''p'') (Some (decimal (unat (socks_port a)))), Opt (of_char CHR ''P'') (Some (decimal (unat (mng_port a))))] @
     (if disectors_enabled a then [] else [Opt (of_char CHR ''N'') None]) @
     map (\<lambda>(n, p). Opt (of_char CHR ''u'') (Some (n @ [58] @ p))) (args_users a) @
     [Opt (of_char CHR ''g'') (Some (level_string (args_log_level a)))] @
     (case args_log_file a of None \<Rightarrow> [] | Some f \<Rightarrow> [Opt (of_char CHR ''f'') (Some f)])"

lemma getopt_arg:
  "opt_kind spec (of_char c) = Some True \<Longrightarrow> (of_char c :: byte) \<noteq> 45 \<Longrightarrow>
     getopt_all spec (opt c # a # as) = (let (es, left) = getopt_all spec as in (Opt (of_char c) (Some a) # es, left))"
  by (subst getopt_all.simps) (simp add: opt_def)

lemma getopt_flag:
  "opt_kind spec (of_char c) = Some False \<Longrightarrow> (of_char c :: byte) \<noteq> 45 \<Longrightarrow>
     getopt_all spec (opt c # as) = (let (es, left) = getopt_all spec as in (Opt (of_char c) None # es, left))"
  by (subst getopt_all.simps) (simp add: opt_def)

lemma server_opts:
  "getopt_all server_options (opt CHR ''l'' # a # as) = (let (es, left) = getopt_all server_options as in (Opt (of_char CHR ''l'') (Some a) # es, left))"
  "getopt_all server_options (opt CHR ''L'' # a # as) = (let (es, left) = getopt_all server_options as in (Opt (of_char CHR ''L'') (Some a) # es, left))"
  "getopt_all server_options (opt CHR ''p'' # a # as) = (let (es, left) = getopt_all server_options as in (Opt (of_char CHR ''p'') (Some a) # es, left))"
  "getopt_all server_options (opt CHR ''P'' # a # as) = (let (es, left) = getopt_all server_options as in (Opt (of_char CHR ''P'') (Some a) # es, left))"
  "getopt_all server_options (opt CHR ''u'' # a # as) = (let (es, left) = getopt_all server_options as in (Opt (of_char CHR ''u'') (Some a) # es, left))"
  "getopt_all server_options (opt CHR ''g'' # a # as) = (let (es, left) = getopt_all server_options as in (Opt (of_char CHR ''g'') (Some a) # es, left))"
  "getopt_all server_options (opt CHR ''f'' # a # as) = (let (es, left) = getopt_all server_options as in (Opt (of_char CHR ''f'') (Some a) # es, left))"
  "getopt_all server_options (opt CHR ''N'' # as) = (let (es, left) = getopt_all server_options as in (Opt (of_char CHR ''N'') None # es, left))"
  by (rule getopt_arg getopt_flag; simp add: server_options_def lit_def)+

lemma getopt_users:
  "getopt_all server_options (concat (map (\<lambda>(n, p). [opt CHR ''u'', n @ [58] @ p]) us) @ as) =
     (let (es, left) = getopt_all server_options as in (map (\<lambda>(n, p). Opt (of_char CHR ''u'') (Some (n @ [58] @ p))) us @ es, left))"
proof (induction us)
  case (Cons u us)
  then show ?case by (cases u) (simp add: server_opts split: prod.splits)
qed simp

lemma getopt_render: "getopt_all server_options (render a) = (events_of a, [])"
proof -
  have e: "getopt_all server_options [] = ([], [])" by (simp add: getopt_all.simps)
  show ?thesis
    unfolding render_def events_of_def
    by (cases "args_log_file a") (simp_all add: server_opts getopt_users [simplified] e)
qed

lemma run_options_append:
  "run_options f (es @ es') a = (case run_options f es a of Run b \<Rightarrow> run_options f es' b | Exit c \<Rightarrow> Exit c)"
  by (induction es arbitrary: a) (simp_all split: run.splits)

lemma run_users:
  "length (args_users a) + length us \<le> MAX_USERS \<Longrightarrow> \<forall>(n, p) \<in> set us. 58 \<notin> set n \<Longrightarrow>
     run_options server_option (map (\<lambda>(n, p). Opt (of_char CHR ''u'') (Some (n @ [58] @ p))) us) a =
       Run (a\<lparr>args_users := args_users a @ us\<rparr>)"
proof (induction us arbitrary: a)
  case (Cons u us)
  obtain n p where u: "u = (n, p)" by (cases u)
  with Cons.prems(2) have n: "58 \<notin> set n" by simp
  then have "user (n @ [58] @ p) = Some (n, p)"
    by (auto simp: user_def takeWhile_append dropWhile_append)
  with Cons.prems Cons.IH [of "a\<lparr>args_users := args_users a @ [u]\<rparr>"] u show ?case by simp
qed simp

lemma level_parsed: "l \<noteq> Other_Level \<Longrightarrow> log_level_from_string (level_string l) = l"
  by (cases l) (simp_all add: log_level_from_string_def level_string_def lit_def)

section \<open>Properties\<close>

text \<open>C39: Every setting the server has can be given on its command line: reading the command line that
  spells out some arguments, up to ten users whose names have no colon among them, gives those
  arguments back.\<close>

theorem args_roundtrip:
  assumes "length (args_users a) \<le> MAX_USERS" "\<forall>(n, p) \<in> set (args_users a). 58 \<notin> set n" "args_log_level a \<noteq> Other_Level"
  shows "parse_args (render a) = Run a"
proof -
  have port: "port (decimal (unat (w :: 16 word))) = Some w" for w
    using unsigned_less [where 'a = nat, of w] by (simp add: port_decimal)
  have "run_options server_option (events_of a) default_args = Run a"
    using run_users [of "default_args\<lparr>socks_addr := socks_addr a, mng_addr := mng_addr a, socks_port := socks_port a,
        mng_port := mng_port a, disectors_enabled := disectors_enabled a\<rparr>" "args_users a"] assms
    by (cases a; cases "args_log_file a"; cases "disectors_enabled a") (simp_all add: events_of_def run_options_append port level_parsed default_args_def)
  then show ?thesis by (simp add: parse_args_def getopt_render)
qed

theorem args_roundtrip_witness:
  "parse_args (render (default_args\<lparr>args_users := [(lit ''bob'', lit ''a:b'')], socks_port := 9050, args_log_level := DEBUG\<rparr>)) =
     Run (default_args\<lparr>args_users := [(lit ''bob'', lit ''a:b'')], socks_port := 9050, args_log_level := DEBUG\<rparr>)"
  by (rule args_roundtrip) (simp_all add: default_args_def MAX_USERS_def lit_def)

text \<open>
  A level with no such name does not stop the server, though the code has an exit for it: the level becomes the
  largest value, above every message.
\<close>

lemma unknown_level_accepted:
  assumes "l \<noteq> lit ''DEBUG''" "l \<noteq> lit ''INFO''" "l \<noteq> lit ''WARNING''" "l \<noteq> lit ''ERROR''"
  shows "parse_args [opt CHR ''g'', l] = Run (default_args\<lparr>args_log_level := Other_Level\<rparr>)"
    and "level \<noteq> Other_Level \<Longrightarrow> level < Other_Level"
proof -
  have "getopt_all server_options [] = ([], [])" by (simp add: getopt_all.simps)
  then show "parse_args [opt CHR ''g'', l] = Run (default_args\<lparr>args_log_level := Other_Level\<rparr>)"
    using assms by (simp add: parse_args_def server_opts log_level_from_string_def)
  show "level < Other_Level" if "level \<noteq> Other_Level"
    using that by (cases level) (simp_all add: less_log_level_def)
qed

end
