(* ===== verification/Admin_Client.thy ===== *)
theory Admin_Client
  imports Admin_Conn Args
begin

text \<open>
  The client of the administration protocol, \<open>src/src/admin_client/admin_client.c\<close>: it checks a line with the
  parser it shares with the server, sends it and prints what comes back.
\<close>

section \<open>The process\<close>

record client =
  cl_stdin :: "byte list"
  cl_stdout :: "byte list"
  cl_reads :: "recv_result list"
  cl_writes :: "send_result list"
  cl_sent :: "byte list"
  cl_parsed :: s5admin_cmd_parsed

definition say :: "byte list \<Rightarrow> client \<Rightarrow> client" where
  "say s c = c\<lparr>cl_stdout := cl_stdout c @ s\<rparr>"

text \<open>\<open>fgets\<close> with room for \<open>n\<close> bytes, its zero included: the line and the rest of the input.\<close>

definition fgets :: "nat \<Rightarrow> byte list \<Rightarrow> (byte list \<times> byte list) option" where
  "fgets n s =
     (let t = take (n - 1) s; l = takeWhile (\<lambda>b. b \<noteq> 10) t; line = (if 10 \<in> set t then l @ [10] else t)
      in if s = [] then None else Some (line, drop (length line) s))"

definition flush_stdin :: "byte list \<Rightarrow> byte list" where
  "flush_stdin s = tl (dropWhile (\<lambda>b. b \<noteq> 10) s)"

fun contains :: "byte list \<Rightarrow> byte list \<Rightarrow> bool" where
  "contains [] t \<longleftrightarrow> t = []"
| "contains (b # bs) t \<longleftrightarrow> take (length t) (b # bs) = t \<or> contains bs t"

text \<open>The words that end an answer, \<open>BYE\<close> apart.\<close>

definition responses :: "byte list list" where
  "responses = [lit ''OK'', lit ''ERROR'', lit ''END'', lit ''PONG'', []]"

definition response_bye :: "byte list" where
  "response_bye = lit ''BYE''"

section \<open>An answer\<close>

datatype answer = Answered | Said_Bye | Closed

definition closed_text :: "byte list" where
  "closed_text = lit ''\<newline>[Conexi'' @ [195, 179] @ lit ''n cerrada por el servidor]\<newline>''"

text \<open>
  One \<open>read\<close> after the other until an answer is complete.  \<open>n_read\<close> is unsigned: the -1 of an error passes the test
  and is the index of the zero, as is the size of the array where the read fills it.
\<close>

fun read_answer :: "recv_result list \<Rightarrow> client \<Rightarrow> (answer \<times> client) res" where
  "read_answer [] c = Inr (Closed, say closed_text (c\<lparr>cl_reads := []\<rparr>))"
| "read_answer (Recv_Closed # rs) c = Inr (Closed, say closed_text (c\<lparr>cl_reads := rs\<rparr>))"
| "read_answer (Recv_Error e # rs) c = Inl Out_Of_Bounds"
| "read_answer (Recv bs # rs) c =
     (let chunk = take MAX_RESPONSE_LEN bs; resp = takeWhile (\<lambda>b. b \<noteq> 0) chunk
      in if chunk = [] then Inr (Closed, say closed_text (c\<lparr>cl_reads := rs\<rparr>))
         else if length chunk = MAX_RESPONSE_LEN then Inl Out_Of_Bounds
         else let c = say resp (c\<lparr>cl_reads := rs\<rparr>)
         in if contains resp response_bye then Inr (Said_Bye, c)
            else if list_ex (contains resp) responses then Inr (Answered, c)
            else read_answer rs c)"

section \<open>The loop\<close>

lemma fgets_shorter: "fgets n s = Some (line, rest) \<Longrightarrow> 2 \<le> n \<Longrightarrow> length rest < length s"
  by (cases s) (auto simp: fgets_def Let_def neq_Nil_conv take_Cons' split: if_splits)

lemma flush_length: "length (flush_stdin s) \<le> length s"
  by (simp add: flush_stdin_def le_diff_conv) (meson le_SucI length_dropWhile_le)

lemma say_sel [simp]:
  "cl_stdin (say t c) = cl_stdin c" "cl_stdout (say t c) = cl_stdout c @ t" "cl_reads (say t c) = cl_reads c"
  "cl_writes (say t c) = cl_writes c" "cl_sent (say t c) = cl_sent c" "cl_parsed (say t c) = cl_parsed c"
  by (simp_all add: say_def)

lemma read_answer_stdin: "read_answer rs c = Inr (a, c') \<Longrightarrow> cl_stdin c' = cl_stdin c"
proof (induction rs arbitrary: c)
  case (Cons r rs)
  show ?case
  proof (cases r)
    case (Recv bs)
    let ?s = "takeWhile (\<lambda>b. b \<noteq> 0) (take MAX_RESPONSE_LEN bs)"
    have "read_answer rs (say ?s (c\<lparr>cl_reads := rs\<rparr>)) = Inr (a, c') \<Longrightarrow> cl_stdin c' = cl_stdin c"
      using Cons.IH [of "say ?s (c\<lparr>cl_reads := rs\<rparr>)"] by simp
    with Cons.prems Recv show ?thesis by (auto simp: Let_def split: if_split_asm)
  qed (use Cons.prems in auto)
qed auto

lemma client_round_shorter:
  assumes "fgets MAX_CMD_LEN (cl_stdin c) = Some (line, rest)"
  shows "length (flush_stdin rest) < length (cl_stdin c)" "length rest < length (cl_stdin c)"
  using fgets_shorter [OF assms] flush_length [of rest] by (simp_all add: MAX_CMD_LEN_def)

text \<open>\<open>n_write\<close> is unsigned too, so that only 0 counts as an error.\<close>

function admin_client_loop :: "client \<Rightarrow> client res" where
  "admin_client_loop c =
     (let c = say (lit ''>: '') c
      in case fgets MAX_CMD_LEN (cl_stdin c) of
           None \<Rightarrow> Inr c
         | Some (line, rest) \<Rightarrow>
             let str = takeWhile (\<lambda>b. b \<noteq> 0) line
             in if 10 \<notin> set str
                then admin_client_loop (say (lit ''ERROR: Command too long\<newline>'') (c\<lparr>cl_stdin := flush_stdin rest\<rparr>))
                else bind_res (s5admin_parse_command (cl_parsed c) (str @ [0])) (\<lambda>(p, m).
                     let c = c\<lparr>cl_stdin := rest, cl_parsed := p\<rparr>
                     in if cmd p = CMD_INVALID
                        then bind_res (c_str (arg1 p)) (\<lambda>e.
                             admin_client_loop (say (lit ''ERROR: '' @ e @ lit ''\<newline>'') c))
                        else let (r, ws) = pop (Sent (length str)) (cl_writes c);
                                 n = (case r of Sent k \<Rightarrow> min k (length str) | Send_Error e \<Rightarrow> 0);
                                 c = c\<lparr>cl_writes := ws, cl_sent := cl_sent c @ take n str\<rparr>
                        in if r = Sent 0 then Inr (say (lit ''Error enviando comando\<newline>'') c)
                           else bind_res (read_answer (cl_reads c) c) (\<lambda>(a, c).
                                if a = Answered then admin_client_loop c else Inr c)))"
  by pat_completeness auto

termination
  by (relation "measure (\<lambda>c. length (cl_stdin c))")
    (auto dest!: read_answer_stdin dest: client_round_shorter)

declare admin_client_loop.simps [simp del]

section \<open>Connecting and the program\<close>

text \<open>
  \<open>connect_to_host\<close> over the addresses the name resolved to: the kernel's sockets and the outcomes of \<open>connect\<close> come
  from the environment; the result has the descriptor or -1, and the calls that were made.
\<close>

fun client_connect_to_host :: "addrinfo list \<Rightarrow> int list \<Rightarrow> bool list \<Rightarrow> int \<times> os_event list" where
  "client_connect_to_host [] sockets connects = (-1, [])"
| "client_connect_to_host (a # rp) sockets connects =
     (let (fd, sockets) = pop (-1) sockets
      in if fd < 0 then (-1, [Ev_Socket (ai_family a)])
         else let (ok, connects) = pop False connects; calls = [Ev_Socket (ai_family a), Ev_Connect fd a]
         in if ok then (fd, calls)
            else let (r, more) = client_connect_to_host rp sockets connects in (r, calls @ Ev_Close fd # more))"

text \<open>\<open>resolve\<close> stands for \<open>getaddrinfo\<close>; the hints of the client are zero but for the type of the socket.\<close>

definition client_port_str :: "int \<Rightarrow> byte list" where
  "client_port_str p = take 5 (decimal (nat (p mod 2 ^ 32)))"

type_synonym resolver = "byte list \<Rightarrow> byte list \<Rightarrow> addr_family \<Rightarrow> ai_flag \<Rightarrow> addrinfo list option"

definition connect_to_admin_server ::
    "resolver \<Rightarrow> byte list \<Rightarrow> int \<Rightarrow> int list \<Rightarrow> bool list \<Rightarrow> int \<times> os_event list" where
  "connect_to_admin_server resolve host p sockets connects =
     (case resolve host (client_port_str p) AF_UNSPEC AI_NONE of
        None \<Rightarrow> (-1, [])
      | Some res \<Rightarrow> let (sock_fd, calls) = client_connect_to_host res sockets connects
                     in if sock_fd < 0 then (-1, calls) else (sock_fd, calls))"

text \<open>The exit status, and the calls the client made to connect and to close; \<open>opened\<close> tells whether the log file could be opened.\<close>

definition client_main ::
    "byte list list \<Rightarrow> bool \<Rightarrow> resolver \<Rightarrow> int list \<Rightarrow> bool list \<Rightarrow> client \<Rightarrow> (int \<times> os_event list) res" where
  "client_main argv opened resolve sockets connects c =
     (case parse_admin_args argv of
        Exit n \<Rightarrow> Inr (n, [])
      | Run args \<Rightarrow>
          case init_logging opened log_start (aa_log_file args) (aa_log_level args) of
            None \<Rightarrow> Inr (1, [])
          | Some l \<Rightarrow>
              let (sockfd, calls) = connect_to_admin_server resolve (aa_host args) (aa_port args) sockets connects
              in if sockfd < 0 then Inr (1, calls)
                 else bind_res (admin_client_loop c) (\<lambda>c. Inr (0, calls @ [Ev_Close sockfd])))"

text \<open>The first address that answers is taken, and the sockets of those before it are closed.\<close>

lemma client_connect_first:
  "length as = length failed \<Longrightarrow> \<forall>fd \<in> set failed. 0 \<le> fd \<Longrightarrow> 0 \<le> fd \<Longrightarrow>
     client_connect_to_host (as @ a # rest) (failed @ [fd]) (replicate (length failed) False @ [True]) =
       (fd, concat (map2 (\<lambda>a fd. [Ev_Socket (ai_family a), Ev_Connect fd a, Ev_Close fd]) as failed) @
         [Ev_Socket (ai_family a), Ev_Connect fd a])"
  by (induction as failed rule: list_induct2) (simp_all add: pop_def)

section \<open>One round\<close>

lemma words_snoc_delim: "is_delim d \<Longrightarrow> words (s @ [d]) = words s"
proof (induction "length s" arbitrary: s rule: less_induct)
  case less
  let ?s1 = "dropWhile is_delim s"
  show ?case
  proof (cases "?s1 = []")
    case True
    then have "\<forall>b \<in> set s. is_delim b" by (simp add: dropWhile_eq_Nil_conv)
    with less.prems have "words (s @ [d]) = []" "words s = []" by (intro words_blank; simp)+
    then show ?thesis by simp
  next
    case False
    let ?w = "takeWhile (\<lambda>b. \<not> is_delim b) ?s1" and ?r = "dropWhile (\<lambda>b. \<not> is_delim b) ?s1"
    have s: "s = takeWhile is_delim s @ ?w @ ?r" by simp
    have hd: "\<not> is_delim (hd ?s1)" using False hd_dropWhile by blast
    then have w: "\<forall>b \<in> set ?w. \<not> is_delim b" "?w \<noteq> []" using False by (auto dest: set_takeWhileD simp: takeWhile_eq_Nil_iff)
    have r: "?r = [] \<or> is_delim (hd ?r)" using hd_dropWhile [of "\<lambda>b. \<not> is_delim b" ?s1] by auto
    have "length s = length (takeWhile is_delim s) + length ?w + length ?r"
      by (metis s length_append add.assoc)
    with w(2) have len: "length ?r < length s" by (cases ?w) auto
    have skip: "words (takeWhile is_delim s @ t) = words t" for t
      by (rule words_skip) (auto dest: set_takeWhileD)
    have "?r @ [d] = [] \<or> is_delim (hd (?r @ [d]))" using r less.prems by (auto simp: hd_append simp del: dropWhile_eq_Nil_conv)
    then have "words (?w @ ?r @ [d]) = ?w # words (?r @ [d])" by (intro words_Cons w)
    moreover have "words (?w @ ?r) = ?w # words ?r" by (intro words_Cons w r)
    ultimately have "words (?w @ ?r @ [d]) = words (?w @ ?r)" using less.hyps [OF len less.prems] by simp
    then show ?thesis using skip [of "?w @ ?r @ [d]"] skip [of "?w @ ?r"] s by (metis append.assoc)
  qed
qed

lemma contains_Nil [simp]: "contains s []"
  by (cases s) simp_all

lemma fgets_line:
  assumes "10 \<notin> set bs" "length bs + 1 < n"
  shows "fgets n (bs @ 10 # rest) = Some (bs @ [10], rest)"
proof -
  have "take (n - 1) (bs @ 10 # rest) = bs @ 10 # take (n - 2 - length bs) rest"
    using assms(2) by (simp add: take_Cons' numeral_2_eq_2 diff_diff_eq)
  moreover have "takeWhile (\<lambda>b. b \<noteq> 10) (bs @ 10 # t) = bs" for t
    using assms(1) by (auto simp: takeWhile_append takeWhile_eq_all_conv)
  ultimately show ?thesis by (simp add: fgets_def Let_def)
qed

text \<open>The chunk a read delivers ends the answer, whatever it holds: one of the words is empty.\<close>

lemma read_answer_chunk:
  assumes "bs \<noteq> []" "length bs < MAX_RESPONSE_LEN" "\<not> contains (takeWhile (\<lambda>b. b \<noteq> 0) bs) response_bye"
  shows "read_answer (Recv bs # rs) c = Inr (Answered, say (takeWhile (\<lambda>b. b \<noteq> 0) bs) (c\<lparr>cl_reads := rs\<rparr>))"
  using assms by (simp add: Let_def responses_def)

section \<open>Properties\<close>

text \<open>C40: A legal command the user types goes to the server as it was typed, and what the next read delivers
  is printed; the client then asks for the next command, with the rest of the input.  One chunk is
  all it reads: a longer answer is cut there, and its rest is taken for the answer to the next
  command.\<close>

theorem client_sends_and_prints_one_chunk:
  assumes "cl_stdin c = bs @ 10 # rest" "10 \<notin> set bs" "0 \<notin> set bs" "length bs + 1 < MAX_CMD_LEN"
    and "length (arg1 (cl_parsed c)) = ARGS_LEN" "words bs \<noteq> []" "parse_line (words bs) = Inr (k, as)" "k \<noteq> CMD_INVALID"
    and "cl_writes c = Sent n # ws" "length bs < n" "cl_reads c = Recv s # rs" "s \<noteq> []" "0 \<notin> set s"
    and "length s < MAX_RESPONSE_LEN" "\<not> contains s response_bye"
  shows "\<exists>c'. admin_client_loop c = admin_client_loop c' \<and> cl_stdin c' = rest \<and> cl_sent c' = cl_sent c @ bs @ [10] \<and>
    cl_stdout c' = cl_stdout c @ lit ''>: '' @ s \<and> cl_reads c' = rs \<and> cl_writes c' = ws"
proof -
  have t: "takeWhile (\<lambda>b. b \<noteq> 0) (bs @ [10]) = bs @ [10]" "takeWhile (\<lambda>b. b \<noteq> 0) s = s"
    using assms(3,13) by (auto simp: takeWhile_eq_all_conv)
  have "is_text (bs @ [10])" using assms(3) by (simp add: is_text_def)
  then have str: "c_str ((bs @ [10]) @ [0]) = Inr (bs @ [10])" by (rule c_str_text)
  have "words (bs @ [10]) = words bs" by (rule words_snoc_delim) (simp add: is_delim_def)
  then obtain q m where q: "s5admin_parse_command (cl_parsed c) (bs @ [10, 0]) = Inr (q, m)" "cmd q = k"
    using parse_command_ok [OF assms(5) str] assms(6,7) by (auto simp: outcome_ok_def)
  let ?c = "say (lit ''>: '') c"
  let ?c1 = "?c\<lparr>cl_stdin := rest, cl_parsed := q, cl_writes := ws, cl_sent := cl_sent c @ bs @ [10]\<rparr>"
  have n: "\<not> n \<le> length bs" using assms(10) by simp
  have ra: "read_answer (Recv s # rs) ?c1 = Inr (Answered, say s (?c1\<lparr>cl_reads := rs\<rparr>))"
    using read_answer_chunk [of s rs ?c1] assms(12,14,15) unfolding t(2) by simp
  have "admin_client_loop c = admin_client_loop (say s (?c1\<lparr>cl_reads := rs\<rparr>))"
    using assms(1,9,11) t(1) q assms(8) n fgets_line [OF assms(2,4), of rest] ra
    by (subst admin_client_loop.simps) (simp add: pop_def Let_def min_def del: read_answer.simps takeWhile_eq_all_conv)
  then show ?thesis using assms by - (rule exI, rule conjI, assumption, simp)
qed

text \<open>An empty line, or one of blanks only, crashes the client: the parser it shares with the server
  compares a null pointer.\<close>

theorem client_blank_line_null_deref:
  assumes "cl_stdin c = bs @ 10 # rest" "\<forall>b \<in> set bs. b = 32 \<or> b = 13" "length bs + 1 < MAX_CMD_LEN"
    and "length (arg1 (cl_parsed c)) = ARGS_LEN"
  shows "admin_client_loop c = Inl Null_Deref"
proof -
  have b: "10 \<notin> set bs" "is_text (bs @ [10])" "\<forall>b \<in> set (bs @ [10]). is_delim b"
    using assms(2) by (auto simp: is_text_def is_delim_def)
  then have t: "takeWhile (\<lambda>b. b \<noteq> 0) (bs @ [10]) = bs @ [10]" by (auto simp: is_text_def takeWhile_eq_all_conv)
  have "c_str ((bs @ [10]) @ [0]) = Inr (bs @ [10])" by (rule c_str_text [OF b(2)])
  from parse_blank [OF assms(4) this b(3)]
  have "s5admin_parse_command (cl_parsed c) (bs @ [10, 0]) = Inl Null_Deref" by simp
  with assms(1) t fgets_line [OF b(1) assms(3), of rest] show ?thesis
    by (subst admin_client_loop.simps) (simp add: Let_def)
qed

section \<open>Witnesses\<close>

definition typing :: "byte list \<Rightarrow> recv_result list \<Rightarrow> send_result list \<Rightarrow> client" where
  "typing s rs ws = \<lparr>cl_stdin = s, cl_stdout = [], cl_reads = rs, cl_writes = ws, cl_sent = [], cl_parsed = fresh_parsed\<rparr>"

lemma typing_sel [simp]:
  "cl_stdin (typing s rs ws) = s" "cl_stdout (typing s rs ws) = []" "cl_reads (typing s rs ws) = rs"
  "cl_writes (typing s rs ws) = ws" "cl_sent (typing s rs ws) = []" "length (arg1 (cl_parsed (typing s rs ws))) = ARGS_LEN"
  by (simp_all add: typing_def fresh_parsed_def)

text \<open>An answer in two chunks: the second is left for the next command.\<close>

theorem client_sends_and_prints_one_chunk_witness:
  "\<exists>c'. admin_client_loop (typing (lit ''LIST_USERS\<newline>'') [Recv (lit ''alice''), Recv (lit ''\<newline>END\<newline>'')] [Sent 11]) =
     admin_client_loop c' \<and> cl_sent c' = lit ''LIST_USERS\<newline>'' \<and> cl_stdout c' = lit ''>: alice'' \<and>
     cl_reads c' = [Recv (lit ''\<newline>END\<newline>'')]"
proof -
  let ?c = "typing (lit ''LIST_USERS\<newline>'') [Recv (lit ''alice''), Recv (lit ''\<newline>END\<newline>'')] [Sent 11]"
  have w: "words (lit ''LIST_USERS'') = [lit ''LIST_USERS'']" by (simp add: words.simps lit_def is_delim_def)
  have "parse_line (words (lit ''LIST_USERS'')) = Inr (CMD_LIST_USERS, [])"
    unfolding w by (simp add: parse_line_def find_command_def commands_def lit_def)
  from client_sends_and_prints_one_chunk [of ?c "lit ''LIST_USERS''" "[]", OF _ _ _ _ _ _ this, of 11 "[]" "lit ''alice''" "[Recv (lit ''\<newline>END\<newline>'')]"]
  show ?thesis using w by (auto simp: lit_def MAX_CMD_LEN_def MAX_RESPONSE_LEN_def response_bye_def)
qed

theorem client_blank_line_null_deref_witness: "admin_client_loop (typing [10] [] []) = Inl Null_Deref"
  using client_blank_line_null_deref [of "typing [10] [] []" "[]" "[]"] by (simp add: MAX_CMD_LEN_def)

end
