(* ===== verification/Server.thy ===== *)
theory Server
  imports Accepting Args
begin

text \<open>
  The program of the server, \<open>src/src/server/server.c\<close>: start, main loop and shutdown, over the components
  it puts together.
\<close>

section \<open>The program\<close>

text \<open>
  The server runs one thread for the event loop and one for every name that is looked up, and the environment decides
  their order: between two turns, while the loop waits in \<open>pselect\<close>, any of the resolvers may finish.  What a resolver does
  is done at once here; in the program it may also fall into a turn, where nothing guards the connection it writes to.
\<close>

datatype turn = Selected pselect_result | Resolved nat

text \<open>What the environment decides: the allocations, the signals, the kernel, and the turns of the loop until a
  signal ends it.\<close>

record server_env =
  se_log_opened :: bool
  se_data :: bool
  se_metrics :: bool
  se_register :: bool
  se_garbage :: "access_entry list"
  se_blocked :: bool
  se_handled :: bool
  se_selector :: bool
  se_table :: bool
  se_os :: os
  se_turns :: "turn list"

definition FD_STDIN :: int where "FD_STDIN = 0"
definition INITIAL_QUANTITY_FDS :: nat where "INITIAL_QUANTITY_FDS = 1024"

text \<open>The data of the server while there is none: the null pointer, before \<open>server_data_init\<close> and after \<open>server_data_destroy\<close>.\<close>

definition no_data :: server_data where
  "no_data = \<lparr>metrics = None, access_reg = None, buffer_size = 0, max_conn = 0\<rparr>"

definition start_world :: "server_env \<Rightarrow> logger \<Rightarrow> server_data \<Rightarrow> world" where
  "start_world env l d =
     \<lparr>w_sel = empty_selector, w_heap = [], w_admin = [],
      w_cfg = \<lparr>parsed_cmd = fresh_parsed, user_map = auth_init, data = d, log = l\<rparr>,
      w_os = se_os env, w_resolving = []\<rparr>"

fun add_users :: "(byte list \<times> byte list) list \<Rightarrow> world \<Rightarrow> world" where
  "add_users [] w = w"
| "add_users ((name, pass) # us) w =
     (let (ok, w) = sys_alloc w; (r, m) = auth_add_user ok (user_map (w_cfg w)) name pass
      in add_users us (w\<lparr>w_cfg := (w_cfg w)\<lparr>user_map := m\<rparr>\<rparr>))"

text \<open>The main loop: a turn that fails ends it, and so does the signal, which comes after the last turn.\<close>

fun serve :: "turn list \<Rightarrow> world \<Rightarrow> (selector_status \<times> world) res" where
  "serve [] w = Inr (SELECTOR_SUCCESS, w)"
| "serve (Selected r # ts) w =
     bind_res (proxy_select r w) (\<lambda>(ss, w). if ss \<noteq> SELECTOR_SUCCESS then Inr (ss, w) else serve ts w)"
| "serve (Resolved p # ts) w =
     (if p \<in> set (w_resolving w) then bind_res (resolver_done p w) (serve ts) else serve ts w)"

text \<open>
  The end of \<open>main\<close>, reached by every \<open>goto error\<close> too: \<open>ss\<close> is the status as a number, \<open>sel\<close> the pointer to the
  selector, and \<open>ret\<close> the variable, \<open>None\<close> while nothing was assigned to it.
\<close>

definition shutdown :: "int \<Rightarrow> int option \<Rightarrow> bool \<Rightarrow> world \<Rightarrow> (int option \<times> world) res" where
  "shutdown ss ret sel w =
     bind_res (selector_destroy handler_close (if sel then Some (w_sel w) else None) w) (\<lambda>w.
     let closed = selector_close in
     Inr (if ss \<noteq> 0 then Some 1 else ret,
          w\<lparr>w_cfg := (w_cfg w)\<lparr>user_map := auth_destroy (user_map (w_cfg w)),
            data := (case server_data_destroy (Some (data (w_cfg w))) of None \<Rightarrow> no_data | Some d \<Rightarrow> d),
            log := close_logging (log (w_cfg w))\<rparr>\<rparr>))"

definition server_main :: "byte list list \<Rightarrow> server_env \<Rightarrow> (int option \<times> world) res" where
  "server_main argv env =
     (case parse_args argv of
        Exit n \<Rightarrow> Inr (Some n, start_world env log_start no_data)
      | Run args \<Rightarrow>
      case init_logging (se_log_opened env) log_start (args_log_file args) (args_log_level args) of
        None \<Rightarrow> Inr (Some 1, start_world env log_start no_data)
      | Some l \<Rightarrow>
      case server_data_init (se_data env) (se_metrics env) (se_register env) (se_garbage env) of
        None \<Rightarrow> Inr (Some 1, start_world env l no_data)
      | Some d \<Rightarrow>
          let w = add_users (args_users args) (sys_close FD_STDIN (start_world env l d));
              ss = selector_init (se_blocked env) (se_handled env)
          in if ss \<noteq> SELECTOR_SUCCESS then shutdown (status_code ss) None False w
             else bind_res (selector_new (se_selector env) (se_table env) INITIAL_QUANTITY_FDS) (\<lambda>sel.
                  case sel of
                    None \<Rightarrow> shutdown 0 None False w
                  | Some s \<Rightarrow>
                      bind_res (create_and_register_passive_socket (socks_addr args) (socks_port args) H_Passive 0 (w\<lparr>w_sel := s\<rparr>)) (\<lambda>(r, ss, msg, w).
                      if r = -1 then shutdown ss None True w
                      else bind_res (create_and_register_passive_socket (mng_addr args) (mng_port args) H_Admin_Passive ss w) (\<lambda>(r, ss, msg, w).
                           if r = -1 then shutdown ss None True w
                           else bind_res (serve (se_turns env) w) (\<lambda>(st, w).
                                if st \<noteq> SELECTOR_SUCCESS then shutdown (status_code st) None True w
                                else shutdown 0 (Some 0) True w)))))"

section \<open>Listening\<close>

lemma add_users_frame:
  "\<exists>q m. add_users us w = w\<lparr>w_os := (w_os w)\<lparr>os_alloc := q\<rparr>, w_cfg := (w_cfg w)\<lparr>user_map := m\<rparr>\<rparr>"
proof (induction us arbitrary: w)
  case Nil
  show ?case by (rule exI [of _ "os_alloc (w_os w)"], rule exI [of _ "user_map (w_cfg w)"]) simp
next
  case (Cons u us)
  obtain n p where u: "u = (n, p)" by (cases u)
  obtain ok q where a: "sys_alloc w = (ok, os_upd (\<lambda>s. s\<lparr>os_alloc := q\<rparr>) w)"
    by (cases "os_alloc (w_os w)") (simp_all add: sys_alloc_def pop_def)
  obtain r m where m: "auth_add_user ok (user_map (w_cfg w)) n p = (r, m)" by (cases "auth_add_user ok (user_map (w_cfg w)) n p")
  let ?w = "(os_upd (\<lambda>s. s\<lparr>os_alloc := q\<rparr>) w)\<lparr>w_cfg := (w_cfg w)\<lparr>user_map := m\<rparr>\<rparr>"
  have "add_users (u # us) w = add_users us ?w" using u a m by simp
  with Cons.IH [of ?w] show ?case by (auto simp: os_upd_def)
qed

lemma add_users_sel:
  "w_sel (add_users us w) = w_sel w" "w_heap (add_users us w) = w_heap w" "w_admin (add_users us w) = w_admin w"
  "data (w_cfg (add_users us w)) = data (w_cfg w)"
  "os_resolve (w_os (add_users us w)) = os_resolve (w_os w)" "os_socket (w_os (add_users us w)) = os_socket (w_os w)"
  "os_bind (w_os (add_users us w)) = os_bind (w_os w)" "os_listen (w_os (add_users us w)) = os_listen (w_os w)"
  "os_nonblock (w_os (add_users us w)) = os_nonblock (w_os w)" "os_trace (w_os (add_users us w)) = os_trace (w_os w)"
  using add_users_frame [of us w] by auto

text \<open>The world after a socket was made, with the name resolved to one address.\<close>

definition listen_events :: "byte list \<Rightarrow> 16 word \<Rightarrow> addrinfo \<Rightarrow> int \<Rightarrow> os_event list" where
  "listen_events name pt a fd =
     [Ev_Resolve name (port_str pt) AF_UNSPEC AI_PASSIVE, Ev_Socket (ai_family a), Ev_Bind fd a, Ev_Listen fd 128]"

definition listening :: "byte list \<Rightarrow> 16 word \<Rightarrow> addrinfo \<Rightarrow> int \<Rightarrow> handler \<Rightarrow> world \<Rightarrow> world" where
  "listening name pt a fd h w = w\<lparr>w_os := (w_os w)\<lparr>os_resolve := tl (os_resolve (w_os w)), os_socket := tl (os_socket (w_os w)),
       os_trace := os_trace (w_os w) @ listen_events name pt a fd\<rparr>,
     w_sel := (case selector_register True (w_sel w) fd (Some h) OP_READ None of Inr (st, s) \<Rightarrow> s | Inl e \<Rightarrow> w_sel w)\<rparr>"

definition free_kernel :: "world \<Rightarrow> bool" where
  "free_kernel w \<longleftrightarrow> os_bind (w_os w) = [] \<and> os_listen (w_os w) = [] \<and> os_nonblock (w_os w) = []"

lemma listen_one:
  assumes "os_resolve (w_os w) = Some [a] # rq" "os_socket (w_os w) = fd # q" "free_kernel w"
    and "sel_inv (w_sel w)" "\<not> invalid_fd fd" "interest_of (w_sel w) fd = None"
  shows "create_and_register_passive_socket name pt h ss w = Inr (0, 0, None, listening name pt a fd h w)"
    and "sel_inv (w_sel (listening name pt a fd h w))"
    and "interest_of (w_sel (listening name pt a fd h w)) = (interest_of (w_sel w))(fd \<mapsto> OP_READ)"
proof -
  from assms(6) have free: "sel_table (w_sel w) fd = None" by (simp add: interest_of_def)
  have fd: "0 \<le> fd" "\<not> nat fd > fd_size (w_sel w)" using assms(4,5) by (auto simp: sel_inv_def invalid_fd_def)
  note reg = register_free [OF assms(4,5) free, where h = h and interest = OP_READ and d = None]
  obtain s where s: "selector_register alloc (w_sel w) fd (Some h) OP_READ None = Inr (SELECTOR_SUCCESS, s)" "sel_inv s"
    "interest_of s = (interest_of (w_sel w))(fd \<mapsto> OP_READ)" for alloc
    using reg by (auto simp: interest_of_def fun_eq_iff)
  then show "sel_inv (w_sel (listening name pt a fd h w))" "interest_of (w_sel (listening name pt a fd h w)) = (interest_of (w_sel w))(fd \<mapsto> OP_READ)"
    by (simp_all add: listening_def)
  show "create_and_register_passive_socket name pt h ss w = Inr (0, 0, None, listening name pt a fd h w)"
    using assms(1-3) fd s(1)
    by (simp add: create_and_register_passive_socket_def pop_def sys_socket_def sys_bind_def sys_listen_def free_kernel_def
        set_non_blocking_fd_def register_fd_def os_upd_def emit_def sys_getaddrinfo_def listening_def listen_events_def
        MAX_PENDING_CONNECTIONS_def Let_def)
qed

section \<open>Shutting down\<close>

text \<open>
  What the registrations need to be closed one after the other: each connection and each session is live
  and registered once, for its client.
\<close>

type_synonym regs = "int \<Rightarrow> (handler, nat) item option"

definition holds :: "handler \<Rightarrow> nat \<Rightarrow> (handler, nat) item \<Rightarrow> bool" where
  "holds h p e \<longleftrightarrow> it_handler e = Some h \<and> it_data e = Some p"

definition closable :: "regs \<Rightarrow> world \<Rightarrow> bool" where
  "closable t w \<longleftrightarrow> metrics (data (w_cfg w)) \<noteq> None \<and>
     (\<forall>fd e. t fd = Some e \<longrightarrow> \<not> invalid_fd fd \<and> (\<exists>h. it_handler e = Some h \<and>
        (h = H_Socks5 \<longrightarrow> (\<exists>p c. it_data e = Some p \<and> conn_get p w = Inr c)) \<and>
        (h = H_Admin \<longrightarrow> (\<exists>p a. it_data e = Some p \<and> admin_get p w = Inr a)))) \<and>
     (\<forall>h p fd fd' e e'. h \<in> {H_Socks5, H_Admin} \<longrightarrow> t fd = Some e \<longrightarrow> t fd' = Some e' \<longrightarrow>
        holds h p e \<longrightarrow> holds h p e' \<longrightarrow> fd = fd')"

definition all_freed :: "regs \<Rightarrow> regs \<Rightarrow> world \<Rightarrow> bool" where
  "all_freed t0 t w \<longleftrightarrow> (\<forall>fd e p. t0 fd = Some e \<longrightarrow> t fd = None \<longrightarrow>
     (holds H_Socks5 p e \<longrightarrow> conn_get p w = Inl Use_After_Free) \<and> (holds H_Admin p e \<longrightarrow> admin_get p w = Inl Use_After_Free))"

lemma socks5_closes:
  assumes "conn_get p w = Inr c" "metrics (data (w_cfg w)) \<noteq> None"
  shows "\<exists>w'. socksv5_close fd (Some p) w = Inr w' \<and> metrics (data (w_cfg w')) \<noteq> None \<and> w_admin w' = w_admin w \<and>
    (\<forall>q. conn_get q w' = (if q = p then Inl Use_After_Free else conn_get q w))"
proof -
  let ?w1 = "if c_client_fd c > 0 then sys_close (c_client_fd c) w else w"
  let ?w2 = "count metrics_dec_curr_conn (if c_origin_fd c > 0 then sys_close (c_origin_fd c) ?w1 else ?w1)"
  have p: "p < length (w_heap w)" using assms(1) by (simp add: conn_get_Inr)
  have "socksv5_close fd (Some p) (conn_put p c w) = Inr (?w2\<lparr>w_heap := (w_heap w)[p := None]\<rparr>)"
    using p assms(2) by (simp add: socksv5_close_def live sys_close_def emit_def Let_def)
  moreover have "w_admin ?w2 = w_admin w" "metrics (data (w_cfg ?w2)) \<noteq> None"
    using assms(2) by (simp_all add: count_def sys_close_def emit_def os_upd_def)
  moreover have "conn_get q (?w2\<lparr>w_heap := (w_heap w)[p := None]\<rparr>) = (if q = p then Inl Use_After_Free else conn_get q w)" for q
    using p by (simp add: conn_get_def)
  ultimately show ?thesis using conn_put_self [OF assms(1)] by auto
qed

lemma admin_closes:
  assumes "admin_get p w = Inr a"
  shows "\<exists>w'. admin_close fd (Some p) w = Inr w' \<and> w_cfg w' = w_cfg w \<and> w_heap w' = w_heap w \<and>
    (\<forall>q. admin_get q w' = (if q = p then Inl Use_After_Free else admin_get q w))"
  using assms by (auto simp: admin_close_def key_admin_def admin_free_def sys_close_def emit_def os_upd_def admin_get_def
      split: if_splits option.splits)

lemma closableD:
  assumes "closable t w" "t fd = Some e"
  shows "\<not> invalid_fd fd" "\<exists>h. it_handler e = Some h"
    "it_handler e = Some H_Socks5 \<Longrightarrow> \<exists>p c. it_data e = Some p \<and> conn_get p w = Inr c"
    "it_handler e = Some H_Admin \<Longrightarrow> \<exists>p a. it_data e = Some p \<and> admin_get p w = Inr a"
    "metrics (data (w_cfg w)) \<noteq> None"
proof -
  from assms(1) show "metrics (data (w_cfg w)) \<noteq> None" by (simp add: closable_def)
  from assms have m: "\<not> invalid_fd fd \<and> (\<exists>h. it_handler e = Some h \<and>
      (h = H_Socks5 \<longrightarrow> (\<exists>p c. it_data e = Some p \<and> conn_get p w = Inr c)) \<and>
      (h = H_Admin \<longrightarrow> (\<exists>p a. it_data e = Some p \<and> admin_get p w = Inr a)))"
    unfolding closable_def by blast
  then show "\<not> invalid_fd fd" by blast
  from m obtain h where h: "it_handler e = Some h"
    "h = H_Socks5 \<longrightarrow> (\<exists>p c. it_data e = Some p \<and> conn_get p w = Inr c)"
    "h = H_Admin \<longrightarrow> (\<exists>p a. it_data e = Some p \<and> admin_get p w = Inr a)" by blast
  from h(1) show "\<exists>h. it_handler e = Some h" by blast
  show "\<exists>p c. it_data e = Some p \<and> conn_get p w = Inr c" if "it_handler e = Some H_Socks5" using h(1,2) that by simp
  show "\<exists>p a. it_data e = Some p \<and> admin_get p w = Inr a" if "it_handler e = Some H_Admin" using h(1,3) that by simp
qed

lemma closable_unique:
  assumes "closable t w" "h \<in> {H_Socks5, H_Admin}" "t fd' = Some e'" "t fd = Some e" "holds h p e" "holds h p e'"
  shows "fd' = fd"
  using assms unfolding closable_def by blast

lemma closableI:
  assumes "metrics (data (w_cfg w)) \<noteq> None"
    and "\<And>fd e. t fd = Some e \<Longrightarrow> \<not> invalid_fd fd \<and> (\<exists>h. it_handler e = Some h)"
    and "\<And>fd e. t fd = Some e \<Longrightarrow> it_handler e = Some H_Socks5 \<Longrightarrow> \<exists>p c. it_data e = Some p \<and> conn_get p w = Inr c"
    and "\<And>fd e. t fd = Some e \<Longrightarrow> it_handler e = Some H_Admin \<Longrightarrow> \<exists>p a. it_data e = Some p \<and> admin_get p w = Inr a"
    and "\<And>h p fd fd' e e'. h \<in> {H_Socks5, H_Admin} \<Longrightarrow> t fd = Some e \<Longrightarrow> t fd' = Some e' \<Longrightarrow>
        holds h p e \<Longrightarrow> holds h p e' \<Longrightarrow> fd = fd'"
  shows "closable t w"
proof -
  have "\<not> invalid_fd fd \<and> (\<exists>h. it_handler e = Some h \<and>
      (h = H_Socks5 \<longrightarrow> (\<exists>p c. it_data e = Some p \<and> conn_get p w = Inr c)) \<and>
      (h = H_Admin \<longrightarrow> (\<exists>p a. it_data e = Some p \<and> admin_get p w = Inr a)))" if t: "t fd = Some e" for fd e
  proof -
    obtain h where h: "\<not> invalid_fd fd" "it_handler e = Some h" using assms(2) [OF t] by blast
    have "h = H_Socks5 \<longrightarrow> (\<exists>p c. it_data e = Some p \<and> conn_get p w = Inr c)"
      "h = H_Admin \<longrightarrow> (\<exists>p a. it_data e = Some p \<and> admin_get p w = Inr a)"
      using assms(3,4) [OF t] h(2) by simp_all
    with h show ?thesis by blast
  qed
  moreover have "\<forall>h p fd fd' e e'. h \<in> {H_Socks5, H_Admin} \<longrightarrow> t fd = Some e \<longrightarrow> t fd' = Some e' \<longrightarrow>
      holds h p e \<longrightarrow> holds h p e' \<longrightarrow> fd = fd'"
    using assms(5) by blast
  ultimately show ?thesis using assms(1) unfolding closable_def by blast
qed

lemma close_step:
  assumes ok: "closable t w" "all_freed t0 t w" and e: "t fd = Some e"
  shows "\<exists>h w'. it_handler e = Some h \<and>
    (case handler_close h of None \<Rightarrow> Inr w | Some f \<Rightarrow> f fd (it_data e) w) = Inr w' \<and>
    closable (t(fd := None)) w' \<and> (t0 fd = Some e \<longrightarrow> all_freed t0 (t(fd := None)) w')"
proof -
  obtain h where h: "it_handler e = Some h" using closableD(2) [OF ok(1) e] by blast
  note uniq = closable_unique [OF ok(1) _ _ e]
  consider "h = H_Socks5" | "h = H_Admin" | "handler_close h = None" by (cases h) auto
  then show ?thesis
  proof cases
    case 1
    obtain p c where p: "it_data e = Some p" "conn_get p w = Inr c" using closableD(3) [OF ok(1) e] h 1 by blast
    obtain w' where w': "socksv5_close fd (Some p) w = Inr w'" "metrics (data (w_cfg w')) \<noteq> None" "w_admin w' = w_admin w"
      "\<And>q. conn_get q w' = (if q = p then Inl Use_After_Free else conn_get q w)"
      using socks5_closes [OF p(2) closableD(5) [OF ok(1) e], of fd] by blast
    have adm: "admin_get q w' = admin_get q w" for q using w'(3) by (simp add: admin_get_def)
    have other: "q \<noteq> p" if "t fd' = Some e'" "fd' \<noteq> fd" "holds H_Socks5 q e'" for fd' e' q
      using uniq [of H_Socks5 fd' e' p] that h p(1) 1 by (auto simp: holds_def)
    have "closable (t(fd := None)) w'"
    proof (rule closableI)
      show "metrics (data (w_cfg w')) \<noteq> None" by (rule w'(2))
    next
      fix fd' e' assume f: "(t(fd := None)) fd' = Some e'"
      then have f': "t fd' = Some e'" "fd' \<noteq> fd" by (auto split: if_splits)
      show "\<not> invalid_fd fd' \<and> (\<exists>h. it_handler e' = Some h)" using closableD(1,2) [OF ok(1) f'(1)] by blast
      show "\<exists>q c. it_data e' = Some q \<and> conn_get q w' = Inr c" if "it_handler e' = Some H_Socks5"
        using closableD(3) [OF ok(1) f'(1) that] other [OF f'] that w'(4) by (auto simp: holds_def)
      show "\<exists>q a. it_data e' = Some q \<and> admin_get q w' = Inr a" if "it_handler e' = Some H_Admin"
        using closableD(4) [OF ok(1) f'(1) that] adm by auto
    next
      fix h q fd1 fd2 e1 e2
      assume "h \<in> {H_Socks5, H_Admin}" "(t(fd := None)) fd1 = Some e1" "(t(fd := None)) fd2 = Some e2" "holds h q e1" "holds h q e2"
      then show "fd1 = fd2" using closable_unique [OF ok(1)] by (metis fun_upd_apply option.distinct(1))
    qed
    moreover have "t0 fd = Some e \<longrightarrow> all_freed t0 (t(fd := None)) w'"
      using ok(2) w'(4) adm h p(1) 1 unfolding all_freed_def holds_def by auto
    ultimately show ?thesis using h 1 p(1) w'(1) by auto
  next
    case 2
    obtain p a where p: "it_data e = Some p" "admin_get p w = Inr a" using closableD(4) [OF ok(1) e] h 2 by blast
    obtain w' where w': "admin_close fd (Some p) w = Inr w'" "w_cfg w' = w_cfg w" "w_heap w' = w_heap w"
      "\<And>q. admin_get q w' = (if q = p then Inl Use_After_Free else admin_get q w)"
      using admin_closes [OF p(2), of fd] by blast
    have con: "conn_get q w' = conn_get q w" for q using w'(3) by (simp add: conn_get_def)
    have other: "q \<noteq> p" if "t fd' = Some e'" "fd' \<noteq> fd" "holds H_Admin q e'" for fd' e' q
      using uniq [of H_Admin fd' e' p] that h p(1) 2 by (auto simp: holds_def)
    have "closable (t(fd := None)) w'"
    proof (rule closableI)
      show "metrics (data (w_cfg w')) \<noteq> None" using closableD(5) [OF ok(1) e] w'(2) by simp
    next
      fix fd' e' assume f: "(t(fd := None)) fd' = Some e'"
      then have f': "t fd' = Some e'" "fd' \<noteq> fd" by (auto split: if_splits)
      show "\<not> invalid_fd fd' \<and> (\<exists>h. it_handler e' = Some h)" using closableD(1,2) [OF ok(1) f'(1)] by blast
      show "\<exists>q c. it_data e' = Some q \<and> conn_get q w' = Inr c" if "it_handler e' = Some H_Socks5"
        using closableD(3) [OF ok(1) f'(1) that] con by auto
      show "\<exists>q a. it_data e' = Some q \<and> admin_get q w' = Inr a" if "it_handler e' = Some H_Admin"
        using closableD(4) [OF ok(1) f'(1) that] other [OF f'] that w'(4) by (auto simp: holds_def)
    next
      fix h q fd1 fd2 e1 e2
      assume "h \<in> {H_Socks5, H_Admin}" "(t(fd := None)) fd1 = Some e1" "(t(fd := None)) fd2 = Some e2" "holds h q e1" "holds h q e2"
      then show "fd1 = fd2" using closable_unique [OF ok(1)] by (metis fun_upd_apply option.distinct(1))
    qed
    moreover have "t0 fd = Some e \<longrightarrow> all_freed t0 (t(fd := None)) w'"
      using ok(2) w'(4) con h p(1) 2 unfolding all_freed_def holds_def by auto
    ultimately show ?thesis using h 2 p(1) w'(1) by auto
  next
    case 3
    have "closable (t(fd := None)) w"
      using closableD [OF ok(1)] closable_unique [OF ok(1)] ok(1)
      by (intro closableI) (auto simp: closable_def split: if_splits)
    moreover have "t0 fd = Some e \<longrightarrow> all_freed t0 (t(fd := None)) w"
      using ok(2) h 3 unfolding all_freed_def holds_def by auto
    ultimately show ?thesis using h 3 by auto
  qed
qed

lemma destroy_closes:
  assumes inv: "sel_inv (w_sel w)" and ok: "closable (sel_table (w_sel w)) w"
  shows "\<exists>w'. selector_destroy handler_close (Some (w_sel w)) w = Inr w' \<and> all_freed (sel_table (w_sel w)) Map.empty w'"
proof -
  let ?t0 = "sel_table (w_sel w)"
  define ok where "ok t u \<longleftrightarrow> closable t u \<and> all_freed ?t0 t u \<and> (\<forall>fd e. t fd = Some e \<longrightarrow> ?t0 fd = Some e)" for t u
  have size: "0 + fd_size (w_sel w) = length (fds (w_sel w))" using inv by (simp add: sel_inv_def)
  have start: "ok ?t0 w" using assms(2) by (simp add: ok_def all_freed_def)
  have valid: "\<not> invalid_fd fd" if "ok t u" "t fd = Some e" for t fd e u
    using that closableD(1) unfolding ok_def by blast
  have step: "\<exists>h u'. it_handler e = Some h \<and>
      (case handler_close h of None \<Rightarrow> Inr u | Some f \<Rightarrow> f fd (it_data e) u) = Inr u' \<and> ok (t(fd := None)) u'"
    if "ok t u" "t fd = Some e" for t fd e u
  proof -
    from that have t: "closable t u" "all_freed ?t0 t u" "?t0 fd = Some e" unfolding ok_def by blast+
    have sub: "\<forall>x y. (t(fd := None)) x = Some y \<longrightarrow> ?t0 x = Some y" using that(1) by (auto simp: ok_def)
    from close_step [OF t(1,2) that(2)] t(3) sub show ?thesis unfolding ok_def by metis
  qed
  have low: "\<forall>fd. nat fd < 0 \<longrightarrow> sel_table (w_sel w) fd = None" by simp
  have "\<exists>s' w'. destroy_items handler_close 0 (fd_size (w_sel w)) (w_sel w) w = Inr (s', w') \<and> sel_inv s' \<and>
      sel_table s' = Map.empty \<and> ok Map.empty w'"
    by (rule destroy_items_ok [where ok = ok, OF _ _ inv start size low]) (erule (1) valid, erule (1) step)
  then obtain s' w' where d: "destroy_items handler_close 0 (fd_size (w_sel w)) (w_sel w) w = Inr (s', w')" "ok Map.empty w'"
    by blast
  have "all_freed ?t0 Map.empty w'" using d(2) by (simp add: ok_def)
  with d(1) show ?thesis by (simp add: selector_destroy_def)
qed

lemma shutdown_ok:
  assumes "sel_inv (w_sel w)" "closable (sel_table (w_sel w)) w"
  shows "\<exists>w'. shutdown ss ret True w = Inr (if ss \<noteq> 0 then Some 1 else ret, w') \<and> all_freed (sel_table (w_sel w)) Map.empty w'"
proof -
  obtain w1 where "selector_destroy handler_close (Some (w_sel w)) w = Inr w1" "all_freed (sel_table (w_sel w)) Map.empty w1"
    using destroy_closes [OF assms] by blast
  moreover have "admin_get p (w\<lparr>w_cfg := g\<rparr>) = admin_get p w" for p g w by (simp add: admin_get_def)
  ultimately show ?thesis by (simp add: shutdown_def all_freed_def)
qed

section \<open>Starting\<close>

text \<open>The environment in which nothing fails before the listening sockets are made.\<close>

definition starts :: "server_env \<Rightarrow> bool" where
  "starts env \<longleftrightarrow> se_log_opened env \<and> se_data env \<and> se_metrics env \<and> se_blocked env \<and> se_handled env \<and>
     se_selector env \<and> se_table env"

definition started :: "byte list list \<Rightarrow> server_env \<Rightarrow> world \<Rightarrow> bool" where
  "started argv env w \<longleftrightarrow> sel_inv (w_sel w) \<and> sel_table (w_sel w) = Map.empty \<and> metrics (data (w_cfg w)) \<noteq> None \<and>
     os_resolve (w_os w) = os_resolve (se_os env) \<and> os_socket (w_os w) = os_socket (se_os env) \<and>
     os_bind (w_os w) = os_bind (se_os env) \<and> os_listen (w_os w) = os_listen (se_os env) \<and>
     os_nonblock (w_os w) = os_nonblock (se_os env) \<and> os_trace (w_os w) = os_trace (se_os env) @ [Ev_Close FD_STDIN]"

lemma main_starts:
  assumes "starts env" "parse_args argv = Run args"
  shows "\<exists>w. started argv env w \<and> server_main argv env =
    bind_res (create_and_register_passive_socket (socks_addr args) (socks_port args) H_Passive 0 w) (\<lambda>(r, ss, msg, w).
      if r = -1 then shutdown ss None True w
      else bind_res (create_and_register_passive_socket (mng_addr args) (mng_port args) H_Admin_Passive ss w) (\<lambda>(r, ss, msg, w).
           if r = -1 then shutdown ss None True w
           else bind_res (serve (se_turns env) w) (\<lambda>(st, w).
                if st \<noteq> SELECTOR_SUCCESS then shutdown (status_code st) None True w
                else shutdown 0 (Some 0) True w)))"
proof -
  obtain s :: sel where s: "selector_new True True INITIAL_QUANTITY_FDS = Inr (Some s)" "sel_inv s" "sel_table s = Map.empty"
    using selector_new_ok unfolding INITIAL_QUANTITY_FDS_def by blast
  obtain l where l: "init_logging True log_start (args_log_file args) (args_log_level args) = Some l"
    by (cases "args_log_file args") (auto simp: init_logging_def)
  obtain d where d: "server_data_init True True (se_register env) (se_garbage env) = Some d" "metrics d = Some metrics_init"
    by (auto simp: server_data_init_def)
  let ?w = "(add_users (args_users args) (sys_close FD_STDIN (start_world env l d)))\<lparr>w_sel := s\<rparr>"
  have "started argv env ?w"
    using s d(2) by (simp add: started_def add_users_sel) (simp add: start_world_def sys_close_def emit_def)
  moreover have "se_log_opened env" "se_data env" "se_metrics env" "se_blocked env" "se_handled env" "se_selector env" "se_table env"
    using assms(1) by (simp_all add: starts_def)
  ultimately show ?thesis
    using assms(2) l d(1) s(1)
    by (intro exI [of _ ?w]) (simp add: server_main_def Let_def selector_init_def)
qed

lemma empty_closable: "metrics (data (w_cfg w)) \<noteq> None \<Longrightarrow> closable Map.empty w"
  by (simp add: closable_def)

lemma listening_world:
  "data (w_cfg (listening name pt a fd h w)) = data (w_cfg w)" "w_heap (listening name pt a fd h w) = w_heap w"
  "os_resolve (w_os (listening name pt a fd h w)) = tl (os_resolve (w_os w))" "os_socket (w_os (listening name pt a fd h w)) = tl (os_socket (w_os w))"
  "os_trace (w_os (listening name pt a fd h w)) = os_trace (w_os w) @ listen_events name pt a fd"
  "free_kernel w \<Longrightarrow> free_kernel (listening name pt a fd h w)"
  by (simp_all add: listening_def free_kernel_def)

definition reading :: "int \<Rightarrow> handler \<Rightarrow> (handler, nat) item" where
  "reading fd h = \<lparr>it_fd = fd, it_interest = OP_READ, it_handler = Some h, it_data = None\<rparr>"

lemma listening_item:
  assumes "sel_inv (w_sel w)" "\<not> invalid_fd fd" "interest_of (w_sel w) fd = None"
  shows "sel_table (w_sel (listening name pt a fd h w)) = (sel_table (w_sel w))(fd \<mapsto> reading fd h)"
proof -
  from assms(3) have free: "sel_table (w_sel w) fd = None" by (simp add: interest_of_def)
  show ?thesis using register_free [OF assms(1,2) free, where h = h and interest = OP_READ and d = None]
    by (auto simp: listening_def reading_def)
qed

section \<open>The properties\<close>

text \<open>
  When the SOCKS port is taken, \<open>bind\<close> fails, \<open>main\<close> jumps to its end over the initialisation of \<open>ret\<close>,
  and since no selector operation failed nothing assigns it there: the process stops in order and
  returns an indeterminate status.
\<close>

theorem port_in_use_returns_undefined:
  assumes "starts env" "parse_args argv = Run args" "os_resolve (se_os env) = Some (a # as) # rq"
    and "os_socket (se_os env) = fd # q" "0 \<le> fd" "os_bind (se_os env) = False # bq"
  shows "\<exists>w. server_main argv env = Inr (None, w)"
proof -
  obtain w where w: "started argv env w" and main: "server_main argv env = bind_res (create_and_register_passive_socket (socks_addr args) (socks_port args) H_Passive 0 w)
      (\<lambda>(r, ss, msg, w). if r = -1 then shutdown ss None True w
        else bind_res (create_and_register_passive_socket (mng_addr args) (mng_port args) H_Admin_Passive ss w) (\<lambda>(r, ss, msg, w).
           if r = -1 then shutdown ss None True w
           else bind_res (serve (se_turns env) w) (\<lambda>(st, w).
                if st \<noteq> SELECTOR_SUCCESS then shutdown (status_code st) None True w
                else shutdown 0 (Some 0) True w)))"
    using main_starts [OF assms(1,2)] by blast
  have "\<exists>msg w1. create_and_register_passive_socket (socks_addr args) (socks_port args) H_Passive 0 w = Inr (-1, 0, msg, w1) \<and> w_sel w1 = w_sel w \<and>
      metrics (data (w_cfg w1)) \<noteq> None"
    using w assms(3-6)
    by (simp add: create_and_register_passive_socket_def started_def pop_def sys_socket_def sys_bind_def
        sys_getaddrinfo_def sys_close_def emit_def os_upd_def Let_def)
  then obtain msg w1 where l: "create_and_register_passive_socket (socks_addr args) (socks_port args) H_Passive 0 w = Inr (-1, 0, msg, w1)" "w_sel w1 = w_sel w"
    "metrics (data (w_cfg w1)) \<noteq> None" by blast
  have "sel_inv (w_sel w1)" "closable (sel_table (w_sel w1)) w1"
    using w l(2) empty_closable [OF l(3)] by (simp_all add: started_def)
  from shutdown_ok [OF this, of 0 None] main l(1) show ?thesis by auto
qed

text \<open>
  C28: in an environment where both sockets can be made, \<open>main\<close> reaches its loop with exactly these two
  descriptors registered, each for reading and each for its own protocol: each is a socket of the family of the
  address that the configured name and port resolved to, bound to that address and listening; a signal that comes
  before anything else ends it with status 0.
\<close>

theorem server_listens:
  assumes "starts env" "parse_args argv = Run args" "os_resolve (se_os env) = Some [a] # Some [b] # rq"
    and "os_socket (se_os env) = fd1 # fd2 # q" "\<not> invalid_fd fd1" "\<not> invalid_fd fd2" "fd1 \<noteq> fd2"
    and "os_bind (se_os env) = []" "os_listen (se_os env) = []" "os_nonblock (se_os env) = []"
  shows "\<exists>w. sel_inv (w_sel w) \<and>
    sel_table (w_sel w) = [fd1 \<mapsto> reading fd1 H_Passive, fd2 \<mapsto> reading fd2 H_Admin_Passive] \<and>
    os_trace (w_os w) = os_trace (se_os env) @ Ev_Close 0 #
      [Ev_Resolve (socks_addr args) (port_str (socks_port args)) AF_UNSPEC AI_PASSIVE, Ev_Socket (ai_family a), Ev_Bind fd1 a,
       Ev_Listen fd1 128, Ev_Resolve (mng_addr args) (port_str (mng_port args)) AF_UNSPEC AI_PASSIVE, Ev_Socket (ai_family b),
       Ev_Bind fd2 b, Ev_Listen fd2 128] \<and>
    server_main argv env = bind_res (serve (se_turns env) w) (\<lambda>(st, w).
      if st \<noteq> SELECTOR_SUCCESS then shutdown (status_code st) None True w else shutdown 0 (Some 0) True w) \<and>
    (se_turns env = [] \<longrightarrow> (\<exists>w'. server_main argv env = Inr (Some 0, w')))"
proof -
  obtain w where w: "started argv env w" and main: "server_main argv env = bind_res (create_and_register_passive_socket (socks_addr args) (socks_port args) H_Passive 0 w)
      (\<lambda>(r, ss, msg, w). if r = -1 then shutdown ss None True w
        else bind_res (create_and_register_passive_socket (mng_addr args) (mng_port args) H_Admin_Passive ss w) (\<lambda>(r, ss, msg, w).
           if r = -1 then shutdown ss None True w
           else bind_res (serve (se_turns env) w) (\<lambda>(st, w).
                if st \<noteq> SELECTOR_SUCCESS then shutdown (status_code st) None True w
                else shutdown 0 (Some 0) True w)))"
    using main_starts [OF assms(1,2)] by blast
  let ?w1 = "listening (socks_addr args) (socks_port args) a fd1 H_Passive w"
  let ?w2 = "listening (mng_addr args) (mng_port args) b fd2 H_Admin_Passive ?w1"
  have k: "free_kernel w" and t: "sel_inv (w_sel w)" "interest_of (w_sel w) = Map.empty"
    using w assms(8-10) by (auto simp: started_def free_kernel_def interest_of_def)
  have q: "os_resolve (w_os w) = Some [a] # Some [b] # rq" "os_socket (w_os w) = fd1 # fd2 # q"
    using w assms(3,4) by (simp_all add: started_def)
  have f1: "interest_of (w_sel w) fd1 = None" using t(2) by simp
  note one = listen_one [OF q k t(1) assms(5) f1]
  note l1 = one(1) [where h = H_Passive and ss = 0] one(2,3) [where h = H_Passive]
  have q2: "os_resolve (w_os ?w1) = Some [b] # rq" "os_socket (w_os ?w1) = fd2 # q" by (simp_all add: listening_world q)
  have f2: "interest_of (w_sel ?w1) fd2 = None" using l1(3) t(2) assms(7) by simp
  note two = listen_one [OF q2 listening_world(6) [OF k] l1(2) assms(6) f2]
  note l2 = two(1) [where h = H_Admin_Passive and ss = 0] two(2,3) [where h = H_Admin_Passive]
  have tab: "sel_table (w_sel ?w2) = [fd1 \<mapsto> reading fd1 H_Passive, fd2 \<mapsto> reading fd2 H_Admin_Passive]"
    using listening_item [OF t(1) assms(5) f1] listening_item [OF l1(2) assms(6) f2] w by (simp add: started_def)
  have eq: "server_main argv env = bind_res (serve (se_turns env) ?w2) (\<lambda>(st, w).
      if st \<noteq> SELECTOR_SUCCESS then shutdown (status_code st) None True w else shutdown 0 (Some 0) True w)"
    using main l1(1) l2(1) by simp
  have "metrics (data (w_cfg ?w2)) \<noteq> None" using w by (simp add: listening_world started_def)
  then have "closable (sel_table (w_sel ?w2)) ?w2"
    using assms(5,6) by (intro closableI) (auto simp: tab reading_def holds_def split: if_splits)
  from shutdown_ok [OF l2(2) this, of 0 "Some 0"] have "se_turns env = [] \<longrightarrow> (\<exists>w'. server_main argv env = Inr (Some 0, w'))"
    using eq by auto
  moreover have "os_trace (w_os ?w2) = os_trace (se_os env) @ Ev_Close 0 #
      [Ev_Resolve (socks_addr args) (port_str (socks_port args)) AF_UNSPEC AI_PASSIVE, Ev_Socket (ai_family a), Ev_Bind fd1 a,
       Ev_Listen fd1 128, Ev_Resolve (mng_addr args) (port_str (mng_port args)) AF_UNSPEC AI_PASSIVE, Ev_Socket (ai_family b),
       Ev_Bind fd2 b, Ev_Listen fd2 128]"
    using w by (simp add: listening_world started_def listen_events_def FD_STDIN_def)
  ultimately show ?thesis using l2(2) tab eq by blast
qed

text \<open>
  The shutdown closes every connection and every administration session that is still registered:
  once \<open>main\<close> has returned, none of them is allocated, and none was freed twice on the way although a
  relayed connection has two registrations.
\<close>

theorem shutdown_frees_everything:
  assumes "sel_inv (w_sel w)" "closable (sel_table (w_sel w)) w"
  shows "\<exists>w'. shutdown 0 (Some 0) True w = Inr (Some 0, w') \<and>
    (\<forall>fd e p. sel_table (w_sel w) fd = Some e \<longrightarrow> it_data e = Some p \<longrightarrow>
      (it_handler e = Some H_Socks5 \<longrightarrow> conn_get p w' = Inl Use_After_Free) \<and>
      (it_handler e = Some H_Admin \<longrightarrow> admin_get p w' = Inl Use_After_Free))"
proof -
  obtain w' where w': "shutdown 0 (Some 0) True w = Inr (Some 0, w')" "all_freed (sel_table (w_sel w)) Map.empty w'"
    using shutdown_ok [OF assms, of 0 "Some 0"] by auto
  show ?thesis using w'(1) w'(2) [unfolded all_freed_def holds_def] by auto
qed

section \<open>At concrete inputs\<close>

definition sample_env :: "addrinfo list option list \<Rightarrow> int list \<Rightarrow> bool list \<Rightarrow> server_env" where
  "sample_env rs ss bs = \<lparr>se_log_opened = True, se_data = True, se_metrics = True, se_register = True,
     se_garbage = replicate REGISTER_MAX_ENTRIES (make_entry [] [] 0 [] 0 0 0), se_blocked = True, se_handled = True,
     se_selector = True, se_table = True,
     se_os = (w_os (sample_world empty_selector sample_conn auth_init [] []))\<lparr>os_resolve := rs, os_socket := ss, os_bind := bs, os_listen := [], os_nonblock := []\<rparr>,
     se_turns = []\<rparr>"

lemma sample_starts:
  "starts (sample_env rs ss bs)" "os_resolve (se_os (sample_env rs ss bs)) = rs" "os_socket (se_os (sample_env rs ss bs)) = ss"
  "os_bind (se_os (sample_env rs ss bs)) = bs" "os_listen (se_os (sample_env rs ss bs)) = []"
  "os_nonblock (se_os (sample_env rs ss bs)) = []" "se_turns (sample_env rs ss bs) = []"
  by (simp_all add: starts_def sample_env_def)

lemma no_arguments: "parse_args [] = Run default_args"
  by (simp add: parse_args_def getopt_all.simps)

theorem port_in_use_returns_undefined_witness:
  "\<exists>w. server_main [] (sample_env [Some [Sock_In [0, 0, 0, 0] 0x3804]] [3] [False]) = Inr (None, w)"
  by (rule port_in_use_returns_undefined [OF sample_starts(1) no_arguments, where fd = 3]) (simp_all add: sample_starts)

theorem server_listens_witness:
  "\<exists>w. server_main [] (sample_env [Some [Sock_In [0, 0, 0, 0] 0x3804], Some [Sock_In [127, 0, 0, 1] 0x901F]] [3, 4] []) = Inr (Some 0, w)"
  using server_listens [OF sample_starts(1) no_arguments, where ?fd1.0 = 3 and ?fd2.0 = 4 and a = "Sock_In [0, 0, 0, 0] 0x3804"
      and b = "Sock_In [127, 0, 0, 1] 0x901F" and rq = "[]" and q = "[]"]
  by (auto simp: sample_starts invalid_fd_def ITEMS_MAX_SIZE_def)

text \<open>A relayed client, with its two registrations, and a session of the administration.\<close>

lemma sample_shutdown:
  "\<exists>s :: sel. sel_inv s \<and> sel_table s = [5 \<mapsto> \<lparr>it_fd = 5, it_interest = OP_READ, it_handler = Some H_Socks5, it_data = Some 0\<rparr>,
     6 \<mapsto> \<lparr>it_fd = 6, it_interest = OP_NOOP, it_handler = Some H_Copy, it_data = Some 0\<rparr>,
     7 \<mapsto> \<lparr>it_fd = 7, it_interest = OP_READ, it_handler = Some H_Admin, it_data = Some 0\<rparr>]"
proof -
  have more: "\<exists>s'. sel_inv s' \<and> sel_table s' = (sel_table s)(fd \<mapsto> \<lparr>it_fd = fd, it_interest = i, it_handler = Some h, it_data = d\<rparr>)"
    if "sel_inv s" "\<not> invalid_fd fd" "sel_table s fd = None" for s :: sel and fd i h d
    using register_free(2,3) [OF that, where h = h and d = d and interest = i] by blast
  have ok: "\<not> invalid_fd 5" "\<not> invalid_fd 6" "\<not> invalid_fd 7" by (simp_all add: invalid_fd_def ITEMS_MAX_SIZE_def)
  obtain s0 :: sel where s0: "sel_inv s0" "sel_table s0 = Map.empty" using selector_new_ok by blast
  obtain s1 :: sel where s1: "sel_inv s1" "sel_table s1 = [5 \<mapsto> \<lparr>it_fd = 5, it_interest = OP_READ, it_handler = Some H_Socks5, it_data = Some 0\<rparr>]"
    using more [OF s0(1) ok(1), of OP_READ H_Socks5 "Some 0"] s0(2) by auto
  obtain s2 :: sel where s2: "sel_inv s2" "sel_table s2 = (sel_table s1)(6 \<mapsto> \<lparr>it_fd = 6, it_interest = OP_NOOP, it_handler = Some H_Copy, it_data = Some 0\<rparr>)"
    using more [OF s1(1) ok(2), of OP_NOOP H_Copy "Some 0"] s1(2) by auto
  have "sel_table s2 7 = None" using s1(2) s2(2) by simp
  from more [OF s2(1) ok(3) this, of OP_READ H_Admin "Some 0"] s1(2) s2(2) show ?thesis by auto
qed

theorem shutdown_frees_everything_witness:
  "\<exists>w w'. sel_table (w_sel w) 5 \<noteq> None \<and> sel_table (w_sel w) 6 \<noteq> None \<and> conn_get 0 w = Inr sample_conn \<and>
     shutdown 0 (Some 0) True w = Inr (Some 0, w') \<and> conn_get 0 w' = Inl Use_After_Free \<and> admin_get 0 w' = Inl Use_After_Free"
proof -
  obtain s :: sel where s: "sel_inv s"
    "sel_table s = [5 \<mapsto> \<lparr>it_fd = 5, it_interest = OP_READ, it_handler = Some H_Socks5, it_data = Some 0\<rparr>,
      6 \<mapsto> \<lparr>it_fd = 6, it_interest = OP_NOOP, it_handler = Some H_Copy, it_data = Some 0\<rparr>,
      7 \<mapsto> \<lparr>it_fd = 7, it_interest = OP_READ, it_handler = Some H_Admin, it_data = Some 0\<rparr>]"
    using sample_shutdown by blast
  let ?w = "(sample_world s sample_conn auth_init [] [])\<lparr>w_admin := [Some sample_admin]\<rparr>"
  have g: "conn_get 0 ?w = Inr sample_conn" "admin_get 0 ?w = Inr sample_admin"
    by (simp_all add: sample_world_def conn_get_def admin_get_def)
  have "closable (sel_table (w_sel ?w)) ?w"
    using g by (intro closableI)
      (auto simp: s(2) sample_world_def holds_def invalid_fd_def ITEMS_MAX_SIZE_def split: if_splits)
  moreover have "sel_inv (w_sel ?w)" "sel_table (w_sel ?w) = sel_table s" using s(1) by (simp_all add: sample_world_def)
  ultimately obtain w' where "shutdown 0 (Some 0) True ?w = Inr (Some 0, w')"
    "\<forall>fd e p. sel_table s fd = Some e \<longrightarrow> it_data e = Some p \<longrightarrow>
      (it_handler e = Some H_Socks5 \<longrightarrow> conn_get p w' = Inl Use_After_Free) \<and>
      (it_handler e = Some H_Admin \<longrightarrow> admin_get p w' = Inl Use_After_Free)"
    using shutdown_frees_everything [of ?w] by auto
  moreover from this(2) [rule_format, of 5] this(2) [rule_format, of 7]
  have "conn_get 0 w' = Inl Use_After_Free" "admin_get 0 w' = Inl Use_After_Free" by (simp_all add: s(2))
  ultimately show ?thesis using g(1) s(2) by - (rule exI [of _ ?w], rule exI [of _ w'], simp add: sample_world_def)
qed

end
