(* ===== verification/Connect.thy ===== *)
theory Connect
  imports Login Relay Turns
begin

text \<open>
  The connection stage of \<open>states_handlers/conn_req.c\<close> and \<open>socks5_connecting.c\<close>: from the bytes of the request
  to the name resolved, the socket in progress, its outcome, the reply to the client, and the relay that
  follows.
\<close>

section \<open>The address as text\<close>

text \<open>What the connection records of the destination: a name is cut to 253 bytes, and at a zero byte.\<close>

fun address_text :: "(byte list \<Rightarrow> byte list option) \<Rightarrow> socks_addr \<Rightarrow> byte list" where
  "address_text ntop6 (Addr_IPv4 xs) = dotted xs"
| "address_text ntop6 (Addr_Domain xs) = takeWhile (\<lambda>b. b \<noteq> 0) (take 253 xs)"
| "address_text ntop6 (Addr_IPv6 xs) = (case ntop6 xs of None \<Rightarrow> lit ''<invalid IPv6>'' | Some s \<Rightarrow> s)"

text \<open>
  The lookup that the request of a client asks for: its address as a number of its family, or its name as the connection
  records it, with the port in decimal.
\<close>

fun target_lookup :: "(byte list \<Rightarrow> byte list option) \<Rightarrow> socks_addr \<Rightarrow> nat \<Rightarrow> os_event" where
  "target_lookup ntop6 (Addr_IPv4 xs) n = Ev_Resolve (address_text ntop6 (Addr_IPv4 xs)) (decimal n) AF_INET AI_NUMERICHOST"
| "target_lookup ntop6 (Addr_IPv6 xs) n = Ev_Resolve (address_text ntop6 (Addr_IPv6 xs)) (decimal n) AF_INET6 AI_NUMERICHOST"
| "target_lookup ntop6 (Addr_Domain xs) n = Ev_Resolve (address_text ntop6 (Addr_Domain xs)) (decimal n) AF_UNSPEC AI_NONE"

lemma port_str_whole: "port_str q = decimal (unat q)"
proof -
  have "unat q < 10 ^ 5" using unsigned_less [of q, where ?'a = nat] by simp
  from length_decimal [OF this] show ?thesis by (simp add: port_str_def)
qed

text \<open>The lookup \<open>resolve_host_name\<close> makes for a connection.\<close>

definition lookup_of :: "socks5_conn \<Rightarrow> os_event" where
  "lookup_of c = Ev_Resolve (c_dst_address c) (port_str (c_dst_port c)) (fst (resolve_hints (c_a_type c))) (snd (resolve_hints (c_a_type c)))"

lemma lookup_of_sel [simp]:
  "lookup_of (c\<lparr>c_addr_info := ais\<rparr>) = lookup_of c" "lookup_of (c\<lparr>c_req := r, c_stm := m\<rparr>) = lookup_of c"
  by (simp_all add: lookup_of_def)

lemma lookup_of_target:
  "c_dst_address c = address_text ntop6 a \<Longrightarrow> c_a_type c = addr_type a \<Longrightarrow> unat (c_dst_port c) = n \<Longrightarrow>
     lookup_of c = target_lookup ntop6 a n"
  by (cases a) (simp_all add: lookup_of_def port_str_whole resolve_hints_def conn_req_constants)

lemma dotted_take: "dotted (take 4 xs) = dotted xs"
  by (simp add: dotted_def)

lemma set_dst_address_text:
  assumes "addr_wf a" "field_closed arr (addr_bytes a)" "n = length (addr_bytes a)"
  shows "set_dst_address ntop6 old arr n (addr_type a) = address_text ntop6 a"
proof (cases a)
  case (Addr_IPv4 xs)
  with assms have "take 4 arr = xs" by (auto simp: field_closed_def field_in_def)
  with Addr_IPv4 show ?thesis using dotted_take [of arr] by (simp add: set_dst_address_def conn_req_constants)
next
  case (Addr_IPv6 xs)
  with assms have "take 16 arr = xs" by (auto simp: field_closed_def field_in_def)
  with Addr_IPv6 show ?thesis by (simp add: set_dst_address_def conn_req_constants)
next
  case (Addr_Domain xs)
  with assms have t: "take (length xs) arr = xs" "length xs < 255" by (auto simp: field_closed_def field_in_def)
  have c: "take (if length xs < 253 then length xs else 253) arr = take 253 xs"
  proof (cases "length xs < 253")
    case False
    have "take 253 (take (length xs) arr) = take 253 xs" using t(1) by simp
    with False show ?thesis by simp
  qed (use t(1) in simp)
  have "set_dst_address ntop6 old arr n 3 =
      takeWhile (\<lambda>b. b \<noteq> 0) (take (if length xs < 253 then length xs else 253) arr)"
    using Addr_Domain assms(3) by (simp add: set_dst_address_def conn_req_constants DOMAIN_NAME_MAX_LENGTH_def)
  with c Addr_Domain show ?thesis by simp
qed

section \<open>The request\<close>

text \<open>The client waits while its request is carried out; the resolver announces its result to the selector.\<close>

definition parked :: "int \<Rightarrow> world \<Rightarrow> world" where
  "parked fd w = w\<lparr>w_sel := sel_set fd OP_NOOP (w_sel w)\<rparr>"

definition looked_up :: "os_event \<Rightarrow> int \<Rightarrow> world \<Rightarrow> world" where
  "looked_up e fd w = w\<lparr>w_os := (w_os w)\<lparr>os_resolve := tl (os_resolve (w_os w)), os_trace := os_trace (w_os w) @ [e]\<rparr>,
     w_sel := (w_sel w)\<lparr>resolution_jobs := fd # resolution_jobs (w_sel w)\<rparr>\<rparr>"

lemma jobs_sel [simp]:
  "sel_inv (s\<lparr>resolution_jobs := l\<rparr>) = sel_inv s" "interest_of (s\<lparr>resolution_jobs := l\<rparr>) = interest_of s"
  "owner_of (s\<lparr>resolution_jobs := l\<rparr>) = owner_of s"
  by (simp_all add: sel_inv_def interest_of_def owner_of_def sel_table_def used_at_def fun_eq_iff)

lemma parked_sel [simp]:
  "w_sel (parked fd w) = sel_set fd OP_NOOP (w_sel w)" "w_os (parked fd w) = w_os w" "w_cfg (parked fd w) = w_cfg w"
  "w_heap (parked fd w) = w_heap w" "w_resolving (parked fd w) = w_resolving w"
  "parked fd (conn_put p c w) = conn_put p c (parked fd w)"
  by (simp_all add: parked_def)

lemma looked_up_sel [simp]:
  "w_sel (looked_up e fd w) = (w_sel w)\<lparr>resolution_jobs := fd # resolution_jobs (w_sel w)\<rparr>"
  "w_os (looked_up e fd w) = (w_os w)\<lparr>os_resolve := tl (os_resolve (w_os w)), os_trace := os_trace (w_os w) @ [e]\<rparr>" "w_cfg (looked_up e fd w) = w_cfg w"
  "w_heap (looked_up e fd w) = w_heap w" "looked_up e fd (conn_put p c w) = conn_put p c (looked_up e fd w)"
  by (simp_all add: looked_up_def)

lemma resolve_live:
  assumes "p < length (w_heap w)" "os_alloc (w_os w) = []" "os_resolve (w_os w) = r # rq"
  shows "resolve_host_name p (conn_put p c w) = Inr (conn_put p
    (case r of None \<Rightarrow> c | Some ais \<Rightarrow> c\<lparr>c_addr_info := ais\<rparr>) (looked_up (lookup_of c) (c_client_fd c) w))"
proof -
  let ?w = "emit (lookup_of c) (os_upd (\<lambda>s. s\<lparr>os_resolve := rq\<rparr>) w)"
  have e: "emit e (conn_put p c v) = conn_put p c (emit e v)" for e v by (simp add: emit_def live)
  have al: "sys_alloc (conn_put p c' ?w) = (True, conn_put p c' ?w)" for c' using assms(2) by (simp add: live emit_def)
  have w: "p < length (w_heap ?w)" "w_sel ?w = w_sel w" using assms(1) by (simp_all add: emit_def)
  have l: "looked_up (lookup_of c) (c_client_fd c) w =
      ?w\<lparr>w_sel := (w_sel w)\<lparr>resolution_jobs := c_client_fd c # resolution_jobs (w_sel w)\<rparr>\<rparr>"
    using assms(3) by (simp add: looked_up_def emit_def os_upd_def)
  have "sys_getaddrinfo (c_dst_address c) (port_str (c_dst_port c)) (fst (resolve_hints (c_a_type c))) (snd (resolve_hints (c_a_type c)))
      (conn_put p c w) = (r, conn_put p c ?w)"
    using assms(3) e by (simp add: sys_getaddrinfo_def lookup_of_def pop_def live)
  then show ?thesis
    using assms(1) al w l by (cases r) (simp_all add: resolve_host_name_def selector_notify_block_def split_beta conn_upd_put live)
qed

text \<open>The connection with the target of a request.\<close>

definition targeting :: "(byte list \<Rightarrow> byte list option) \<Rightarrow> conn_req_parser \<Rightarrow> socks5_conn \<Rightarrow> socks5_conn" where
  "targeting ntop6 r c = c\<lparr>c_dst_port := dst_port r, c_a_type := cp_atyp r,
     c_dst_address := set_dst_address ntop6 (c_dst_address c) (dst_addr r) (unat (dst_addr_len r)) (cp_atyp r)\<rparr>"

lemma targeting_sel [simp]:
  "c_client_fd (targeting f r c) = c_client_fd c" "c_origin_fd (targeting f r c) = c_origin_fd c"
  "c_stm (targeting f r c) = c_stm c" "c_req (targeting f r c) = c_req c" "c_in (targeting f r c) = c_in c"
  "c_out (targeting f r c) = c_out c" "c_dst_port (targeting f r c) = dst_port r" "c_a_type (targeting f r c) = cp_atyp r"
  "c_username (targeting f r c) = c_username c" "c_addr_info (targeting f r c) = c_addr_info c"
  by (simp_all add: targeting_def)

lemma no_threads: "os_thread (w_os w) = [] \<Longrightarrow> os_upd (\<lambda>s. s\<lparr>os_thread := []\<rparr>) w = w"
  by (simp add: os_upd_def)

lemma request_received_live:
  assumes key: "k_data key = Some p" "p < length (w_heap w)" "sel_inv (w_sel w)" "os_thread (w_os w) = []"
    and cmd: "cp_cmd r = 1"
  shows "request_received key p r (conn_put p c w) =
    (if cp_atyp r = 3 then Inr (Return 3 (conn_put p (targeting (os_ntop6 (w_os w)) r c)
        ((parked (k_fd key) w)\<lparr>w_resolving := w_resolving w @ [p]\<rparr>)))
     else bind_res (resolve_host_name p (conn_put p (targeting (os_ntop6 (w_os w)) r c) (parked (k_fd key) w)))
        (\<lambda>w. Inr (Return 3 w)))"
  using assms
  by (simp add: request_received_def live conn_req_constants pop_def no_threads Let_def parked_def targeting_def)

lemma jump_connecting:
  assumes "k_data key = Some p" "p < length (w_heap w)" "c_stm c = Some (machine 2)" "c_req c \<noteq> None"
  shows "jump socks5_states (stm_get key) (stm_put key) 3 key (conn_put p c w) =
    Inr (conn_put p (c\<lparr>c_req := None, c_stm := Some (machine 3)\<rparr>) w)"
  using assms by (auto simp: engine_defs socks5_states_def live connection_req_on_departure_def)

section \<open>The read event\<close>

text \<open>A complete request of type CONNECT, up to the step of the machine.\<close>

lemma request_statuses_split:
  "\<exists>sts. request_statuses a = sts @ [CONN_REQ_DONE] \<and> (\<forall>st \<in> set sts. st \<noteq> CONN_REQ_DONE \<and> st \<noteq> CONN_REQ_ERROR)"
  by (rule exI [of _ "[CONN_REQ_VERSION, CONN_REQ_CMD, CONN_REQ_RSV] @ addr_statuses a @
        replicate (length (addr_bytes a) - 1) CONN_REQ_DST_ADDR @ [CONN_REQ_DST_PORT_BYTE1, CONN_REQ_DST_PORT_BYTE1]"])
     (cases a, auto simp: request_statuses_def)

lemma request_read:
  assumes aw: "awaiting 2 key p c w"
    and req: "addr_wf a" "hi \<noteq> 255" "lo \<noteq> 255"
    and fits: "length (encode_request 1 a hi lo @ rest) \<le> buf_limit (c_in c)"
    and kernel: "os_recv (w_os w) = Recv (encode_request 1 a hi lo @ rest) # rs"
  shows "\<exists>b h. same_block (c_in c) b \<and> pending b = rest \<and>
    cp_cmd h = 1 \<and> cp_atyp h = addr_type a \<and> unat (dst_addr_len h) = length (addr_bytes a) \<and>
    field_closed (dst_addr h) (addr_bytes a) \<and> unat (dst_port h) = 256 * unat hi + unat lo \<and>
    socksv5_read key w = bind_res (bind_res (bind_res
        (request_received key p h (conn_put p (c\<lparr>c_in := b, c_req := Some h\<rparr>) (received (k_fd key) w)))
        (\<lambda>s. case s of Continue w \<Rightarrow> read_loop conn_req_byte (\<lambda>key w. Inr (code SOCKS5_CONNECTION_REQ, w)) (Suc (length rest)) key w
             | Return st w \<Rightarrow> Inr (st, w))) (\<lambda>(ret, w).
      bind_res (jump socks5_states (stm_get key) (stm_put key) ret key w) (\<lambda>w. Inr (ret, w)))) count_error"
proof -
  note awl = awaiting_live [OF aw]
  let ?w = "received (k_fd key) w"
  let ?fin = "\<lambda>key w. Inr (code SOCKS5_CONNECTION_REQ, w)"
  have i: "buffer_inv (c_in c)" "pending (c_in c) = []" "room (c_in c) = buf_limit (c_in c)"
    using awl(7) by (simp_all add: idle_room) (simp_all add: idle_def)
  have w': "p < length (w_heap ?w)" using awl(2) by simp
  obtain b0 where b0: "same_block (c_in c) b0" "pending b0 = encode_request 1 a hi lo @ rest"
      "socksv5_read key (conn_put p c w) = bind_res (run_read key (conn_put p (c\<lparr>c_in := b0\<rparr>) ?w)) count_error"
    using read_event [OF awl(1,2) i(1) _ _ kernel(1)] i fits by (auto simp: encode_request_def)
  let ?c = "c\<lparr>c_in := b0\<rparr>"
  from aw obtain h where h: "c_req ?c = Some h" "conn_rel CV_Start h" by (auto simp: awaiting_def)
  have one: "(1 :: byte) \<in> {1, 2, 3}" by simp
  obtain h' where h': "feeds conn_req_parser_feed h (encode_request 1 a hi lo) = Inr (h', request_statuses a)"
    "cp_cmd h' = 1" "cp_atyp h' = addr_type a" "unat (dst_addr_len h') = length (addr_bytes a)"
    "field_closed (dst_addr h') (addr_bytes a)" "unat (dst_port h') = 256 * unat hi + unat lo"
    using request_feeds [OF h(2) one req] by blast
  obtain sts where sts: "request_statuses a = sts @ [CONN_REQ_DONE]"
      "\<forall>st \<in> set sts. st \<noteq> CONN_REQ_DONE \<and> st \<noteq> CONN_REQ_ERROR"
    using request_statuses_split by blast
  have inb: "buffer_inv (c_in ?c)" "pending (c_in ?c) = encode_request 1 a hi lo @ rest"
    using b0 by (simp_all add: same_block_inv)
  obtain b where b: "same_block (c_in ?c) b" "pending b = rest"
    "read_loop conn_req_byte ?fin (length (encode_request 1 a hi lo) + Suc (length rest)) key (conn_put p ?c ?w) =
      bind_res (request_received key p h' (conn_put p (?c\<lparr>c_in := b, c_req := Some h'\<rparr>) ?w))
        (\<lambda>s. case s of Continue w \<Rightarrow> read_loop conn_req_byte ?fin (Suc (length rest)) key w | Return st w \<Rightarrow> Inr (st, w))"
    using request.loop_message [OF awl(1) w' h(1) inb h'(1) [unfolded sts(1)] sts(2) refl, of ?fin "Suc (length rest)"]
    by (auto simp del: read_loop.simps)
  have run: "run_read key (conn_put p ?c ?w) = bind_res (connection_req_read key (conn_put p ?c ?w)) (\<lambda>(ret, w).
      bind_res (jump socks5_states (stm_get key) (stm_put key) ret key w) (\<lambda>w. Inr (ret, w)))"
    using run_read_state [of key p ?w ?c 2] awl by (simp add: live)
  have hr: "connection_req_read key (conn_put p ?c ?w) =
      read_loop conn_req_byte ?fin (length (encode_request 1 a hi lo) + Suc (length rest)) key (conn_put p ?c ?w)"
    using buffered_live [of key p ?w ?c] awl(1) w' inb
    by (simp add: connection_req_read_def del: read_loop.simps)
  have "same_block (c_in c) b" using same_block_trans b0(1) b(1) by auto
  moreover have "?c\<lparr>c_in := b, c_req := Some h'\<rparr> = c\<lparr>c_in := b, c_req := Some h'\<rparr>" by simp
  moreover have "socksv5_read key w = bind_res (bind_res (bind_res
        (request_received key p h' (conn_put p (?c\<lparr>c_in := b, c_req := Some h'\<rparr>) ?w))
        (\<lambda>s. case s of Continue w \<Rightarrow> read_loop conn_req_byte ?fin (Suc (length rest)) key w
             | Return st w \<Rightarrow> Inr (st, w))) (\<lambda>(ret, w).
      bind_res (jump socks5_states (stm_get key) (stm_put key) ret key w) (\<lambda>w. Inr (ret, w)))) count_error"
    using b0(3) run hr b(3) awl(3) by (simp del: read_loop.simps)
  ultimately show ?thesis using b(2) h'(2-6) by - (rule exI [of _ b], rule exI [of _ h'], simp del: read_loop.simps)
qed

section \<open>The name resolved\<close>

text \<open>
  The request was read, its target is known by the addresses \<open>ais\<close>, and the selector will announce it:
  the connection waits in the connecting state, its client being listened to for nothing.
\<close>

definition resolved :: "key \<Rightarrow> nat \<Rightarrow> addrinfo list \<Rightarrow> socks5_conn \<Rightarrow> world \<Rightarrow> bool" where
  "resolved key p ais c w \<longleftrightarrow>
     k_data key = Some p \<and> conn_get p w = Inr c \<and> c_client_fd c = k_fd key \<and> c_origin_fd c = 0 \<and>
     0 < k_fd key \<and> \<not> invalid_fd (k_fd key) \<and> owner_of (w_sel w) (k_fd key) = Some (H_Socks5, p) \<and>
     interest_of (w_sel w) (k_fd key) = Some OP_NOOP \<and> buffer_inv (c_in c) \<and> 0 < buf_limit (c_in c) \<and>
     idle (c_out c) \<and> c_stm c = Some (machine 3) \<and> c_addr_info c = ais \<and> sound w \<and>
     k_fd key \<in> set (resolution_jobs (w_sel w))"

lemma resolved_live:
  assumes "resolved key p ais c w"
  shows "k_data key = Some p" "p < length (w_heap w)" "conn_put p c w = w" "sound w" "c_client_fd c = k_fd key"
    "c_origin_fd c = 0" "0 < k_fd key" "\<not> invalid_fd (k_fd key)" "owner_of (w_sel w) (k_fd key) = Some (H_Socks5, p)"
    "interest_of (w_sel w) (k_fd key) = Some OP_NOOP" "buffer_inv (c_in c)" "0 < buf_limit (c_in c)" "idle (c_out c)"
    "c_stm c = Some (machine 3)" "c_addr_info c = ais" "sel_inv (w_sel w)" "metrics (data (w_cfg w)) \<noteq> None"
    "os_alloc (w_os w) = []" "256 \<le> length (os_junk (w_os w))"
  using assms by (simp_all add: resolved_def conn_put_self conn_get_Inr sound_def)

text \<open>The world after the read event and, for a name, the resolver; \<open>l\<close> are the resolvers still at work.\<close>

definition announced :: "os_event \<Rightarrow> int \<Rightarrow> nat list \<Rightarrow> world \<Rightarrow> world" where
  "announced e fd l w = (looked_up e fd (parked fd (received fd w)))\<lparr>w_resolving := l\<rparr>"

lemma announced_sel [simp]:
  "w_sel (announced e fd l w) = (sel_set fd OP_NOOP (w_sel w))\<lparr>resolution_jobs := fd # resolution_jobs (sel_set fd OP_NOOP (w_sel w))\<rparr>"
  "w_os (announced e fd l w) = (w_os (received fd w))\<lparr>os_resolve := tl (os_resolve (w_os w)), os_trace := os_trace (w_os (received fd w)) @ [e]\<rparr>"
  "w_cfg (announced e fd l w) = w_cfg w" "w_heap (announced e fd l w) = w_heap w" "w_resolving (announced e fd l w) = l"
  by (simp_all add: announced_def) (simp_all add: received_def)

lemma request_resolves:
  assumes aw: "awaiting 2 key p c w"
    and req: "addr_wf a" "hi \<noteq> 255" "lo \<noteq> 255"
    and fits: "length (encode_request 1 a hi lo @ rest) \<le> buf_limit (c_in c)"
    and kernel: "os_recv (w_os w) = Recv (encode_request 1 a hi lo @ rest) # rs" "os_thread (w_os w) = []"
      "os_resolve (w_os w) = r # rq"
  shows "\<exists>c' w0 l. socksv5_read key w = Inr w0 \<and>
    (if addr_type a = 3 then resolver_done p w0 else Inr w0) =
      Inr (conn_put p c' (announced (target_lookup (os_ntop6 (w_os w)) a (256 * unat hi + unat lo)) (k_fd key) l w)) \<and>
    resolved key p (case r of None \<Rightarrow> c_addr_info c | Some ais \<Rightarrow> ais) c'
      (conn_put p c' (announced (target_lookup (os_ntop6 (w_os w)) a (256 * unat hi + unat lo)) (k_fd key) l w)) \<and>
    pending (c_in c') = rest \<and> c_out c' = c_out c \<and> c_dst_address c' = address_text (os_ntop6 (w_os w)) a \<and>
    unat (c_dst_port c') = 256 * unat hi + unat lo \<and> c_username c' = c_username c \<and>
    c_src_address c' = c_src_address c \<and> c_src_port c' = c_src_port c \<and>
    (addr_type a = 3 \<longrightarrow> sel_inv (w_sel w0) \<and> agenda (w_sel w0) = agenda (w_sel w) \<and> p \<in> set (w_resolving w0))"
proof -
  note awl = awaiting_live [OF aw]
  let ?t = "target_lookup (os_ntop6 (w_os w)) a (256 * unat hi + unat lo)"
  let ?fd = "k_fd key" and ?w = "received (k_fd key) w" and ?res = "\<lambda>d. case r of None \<Rightarrow> d | Some ais \<Rightarrow> d\<lparr>c_addr_info := ais\<rparr>"
  obtain b h where h: "same_block (c_in c) b" "pending b = rest" "cp_cmd h = 1" "cp_atyp h = addr_type a"
    "unat (dst_addr_len h) = length (addr_bytes a)" "field_closed (dst_addr h) (addr_bytes a)"
    "unat (dst_port h) = 256 * unat hi + unat lo"
    "socksv5_read key w = bind_res (bind_res (bind_res
        (request_received key p h (conn_put p (c\<lparr>c_in := b, c_req := Some h\<rparr>) ?w))
        (\<lambda>s. case s of Continue w \<Rightarrow> read_loop conn_req_byte (\<lambda>key w. Inr (code SOCKS5_CONNECTION_REQ, w)) (Suc (length rest)) key w
             | Return st w \<Rightarrow> Inr (st, w))) (\<lambda>(ret, w).
      bind_res (jump socks5_states (stm_get key) (stm_put key) ret key w) (\<lambda>w. Inr (ret, w)))) count_error"
    using request_read [OF aw req fits kernel(1)] by blast
  let ?d = "targeting (os_ntop6 (w_os w)) h (c\<lparr>c_in := b, c_req := Some h\<rparr>)"
  let ?e = "\<lambda>d. d\<lparr>c_req := None, c_stm := Some (machine 3)\<rparr>"
  let ?c = "?res (?e ?d)"
  have kw: "p < length (w_heap ?w)" "sel_inv (w_sel ?w)" "os_thread (w_os ?w) = []" "os_alloc (w_os ?w) = []"
    "os_ntop6 (w_os ?w) = os_ntop6 (w_os w)" "os_resolve (w_os ?w) = r # rq"
    using awl kernel by (simp_all add: sound_def) (simp_all add: received_def)
  note rr = request_received_live [OF awl(1) kw(1-3) h(3), of "c\<lparr>c_in := b, c_req := Some h\<rparr>", unfolded kw(5)]
  have st: "c_stm ?d = Some (machine 2)" "c_req ?d = Some h" "c_client_fd ?d = ?fd" using awl by simp_all
  have dst: "c_dst_address ?d = address_text (os_ntop6 (w_os w)) a"
    using set_dst_address_text [OF req(1) h(6,5)] h(4) by (simp add: targeting_def)
  have look: "lookup_of ?d = ?t" "lookup_of (?e ?d) = ?t"
    using lookup_of_target [of ?d "os_ntop6 (w_os w)" a "256 * unat hi + unat lo"] dst h(4,7) by simp_all
  have src: "c_src_address ?d = c_src_address c" "c_src_port ?d = c_src_port c" by (simp_all add: targeting_def)
  have facts: "c_dst_address ?c = address_text (os_ntop6 (w_os w)) a" "unat (c_dst_port ?c) = 256 * unat hi + unat lo"
    "c_username ?c = c_username c" "c_src_address ?c = c_src_address c" "c_src_port ?c = c_src_port c" "pending (c_in ?c) = rest"
    "c_out ?c = c_out c"
    using dst h(2,7) src by (cases r; simp)+
  have ready: "resolved key p (case r of None \<Rightarrow> c_addr_info c | Some ais \<Rightarrow> ais) ?c (conn_put p ?c (announced ?t ?fd l w))" for l
  proof -
    have "0 < buf_limit b" using fits h(1) by (auto simp: encode_request_def same_block_def)
    moreover obtain i where "interest_of (w_sel w) ?fd = Some i" using owner_interest [OF awl(12)] by blast
    ultimately show ?thesis
      using awl h(1) by (cases r) (auto simp: resolved_def sound_def same_block_inv received_def)
  qed
  show ?thesis
  proof (cases "addr_type a = 3")
    case True
    have w0: "socksv5_read key w = Inr (conn_put p (?e ?d) ((parked ?fd ?w)\<lparr>w_resolving := w_resolving ?w @ [p]\<rparr>))"
      using h(8) rr True h(4) jump_connecting [OF awl(1), of "(parked ?fd ?w)\<lparr>w_resolving := w_resolving ?w @ [p]\<rparr>" ?d] kw(1) st
      by (simp add: count_error_def del: read_loop.simps)
    let ?v = "(parked ?fd ?w)\<lparr>w_resolving := w_resolving ?w @ [p]\<rparr>"
    let ?l = "remove1 p (w_resolving ?w @ [p])"
    have "resolve_host_name p (conn_put p (?e ?d) ?v) = Inr (conn_put p ?c (looked_up ?t ?fd ?v))"
      using resolve_live [of p ?v r rq "?e ?d"] kw st(3) look(2) by simp
    moreover have "(looked_up ?t ?fd ?v)\<lparr>w_resolving := ?l\<rparr> = announced ?t ?fd ?l w"
      "w_resolving (looked_up ?t ?fd ?v) = w_resolving ?w @ [p]"
      by (simp_all add: announced_def looked_up_def)
    ultimately have "resolver_done p (conn_put p (?e ?d) ?v) = Inr (conn_put p ?c (announced ?t ?fd ?l w))"
      by (simp add: resolver_done_def)
    moreover have "sel_inv (w_sel ?v)" "agenda (w_sel ?v) = agenda (w_sel w)" using kw(2) by (simp_all add: received_def)
    ultimately show ?thesis using w0 True facts ready [of ?l]
      by - (rule exI [of _ ?c], rule exI [of _ "conn_put p (?e ?d) ?v"], rule exI [of _ ?l], simp)
  next
    case False
    let ?v = "parked ?fd ?w"
    have res: "resolve_host_name p (conn_put p ?d ?v) = Inr (conn_put p (?res ?d) (looked_up ?t ?fd ?v))"
      using resolve_live [of p ?v r rq ?d] kw st(3) look(1) by simp
    have st': "c_stm (?res ?d) = Some (machine 2)" "c_req (?res ?d) \<noteq> None" "?e (?res ?d) = ?c" using st by (cases r; simp)+
    have "(looked_up ?t ?fd ?v)\<lparr>w_resolving := w_resolving ?w\<rparr> = looked_up ?t ?fd ?v" by (simp add: looked_up_def)
    then have v: "looked_up ?t ?fd ?v = announced ?t ?fd (w_resolving ?w) w" by (simp add: announced_def)
    have "socksv5_read key w = Inr (conn_put p ?c (announced ?t ?fd (w_resolving ?w) w))"
      using h(8) rr False h(4) res jump_connecting [OF awl(1), of "looked_up ?t ?fd ?v" "?res ?d"] kw(1) st' v
      by (simp add: count_error_def del: read_loop.simps)
    with False facts ready [of "w_resolving ?w"] show ?thesis
      by - (rule exI [of _ ?c], rule exI [of _ "conn_put p ?c (announced ?t ?fd (w_resolving ?w) w)"], rule exI [of _ "w_resolving ?w"], simp)
  qed
qed

section \<open>The connection attempt\<close>

text \<open>The world after a socket was made and its connection was started.\<close>

definition dialed :: "addrinfo \<Rightarrow> int \<Rightarrow> world \<Rightarrow> world" where
  "dialed a fo w = w\<lparr>w_os := (w_os w)\<lparr>os_socket := tl (os_socket (w_os w)), os_connect := tl (os_connect (w_os w)),
     os_errno := EINPROGRESS, os_trace := os_trace (w_os w) @ [Ev_Socket (ai_family a), Ev_Connect fo a]\<rparr>\<rparr>"

lemma dialed_sel [simp]:
  "w_sel (dialed a fo w) = w_sel w" "w_cfg (dialed a fo w) = w_cfg w" "w_heap (dialed a fo w) = w_heap w"
  "dialed a fo (conn_put p c w) = conn_put p c (dialed a fo w)" "os_errno (w_os (dialed a fo w)) = EINPROGRESS"
  "os_recv (w_os (dialed a fo w)) = os_recv (w_os w)" "os_send (w_os (dialed a fo w)) = os_send (w_os w)"
  "os_alloc (w_os (dialed a fo w)) = os_alloc (w_os w)" "os_junk (w_os (dialed a fo w)) = os_junk (w_os w)"
  "os_trace (w_os (dialed a fo w)) = os_trace (w_os w) @ [Ev_Socket (ai_family a), Ev_Connect fo a]" "os_sockopt (w_os (dialed a fo w)) = os_sockopt (w_os w)"
  "os_sockname (w_os (dialed a fo w)) = os_sockname (w_os w)" "os_clock (w_os (dialed a fo w)) = os_clock (w_os w)"
  by (simp_all add: dialed_def conn_put_def)

lemma errnos: "EINPROGRESS \<noteq> 0" "EMFILE \<noteq> 0" "EAGAIN \<noteq> 0"
  by (simp_all add: EINPROGRESS_def EMFILE_def EAGAIN_def)

lemma connect_in_progress:
  assumes "os_socket (w_os w) = fo # sq" "0 \<le> fo" "os_nonblock (w_os w) = []" "os_connect (w_os w) = EINPROGRESS # cq"
  shows "connect_to_host (a # ais) fd w = (CONNECTION_IN_PROGRESS, ais, fo, dialed a fo w)"
  using assms
  by (simp add: connect_to_host_def sys_socket_def pop_def set_non_blocking_fd_def sys_connect_def errnos set_errno_def
      emit_def os_upd_def dialed_def Let_def)

text \<open>The connection \<open>p\<close> of the client \<open>fc\<close> has a connection to \<open>fo\<close> in progress, with \<open>ais\<close> left to try.\<close>

definition dialing :: "nat \<Rightarrow> int \<Rightarrow> int \<Rightarrow> addrinfo list \<Rightarrow> socks5_conn \<Rightarrow> world \<Rightarrow> bool" where
  "dialing p fc fo ais c w \<longleftrightarrow>
     conn_get p w = Inr c \<and> c_client_fd c = fc \<and> c_origin_fd c = fo \<and> 0 < fc \<and> 0 < fo \<and> fc \<noteq> fo \<and>
     \<not> invalid_fd fc \<and> \<not> invalid_fd fo \<and> owner_of (w_sel w) fc = Some (H_Socks5, p) \<and>
     owner_of (w_sel w) fo = Some (H_Connecting, p) \<and> interest_of (w_sel w) fc = Some OP_NOOP \<and>
     interest_of (w_sel w) fo = Some OP_WRITE \<and> buffer_inv (c_in c) \<and> 0 < buf_limit (c_in c) \<and> idle (c_out c) \<and>
     c_stm c = Some (machine 3) \<and> c_addr_info c = ais \<and> sound w"

lemma dialing_live:
  assumes "dialing p fc fo ais c w"
  shows "p < length (w_heap w)" "conn_put p c w = w" "sound w" "c_client_fd c = fc"
    "c_origin_fd c = fo" "0 < fc" "0 < fo" "fc \<noteq> fo" "fo \<noteq> fc" "\<not> invalid_fd fc" "\<not> invalid_fd fo"
    "owner_of (w_sel w) fc = Some (H_Socks5, p)" "owner_of (w_sel w) fo = Some (H_Connecting, p)"
    "interest_of (w_sel w) fc = Some OP_NOOP" "interest_of (w_sel w) fo = Some OP_WRITE"
    "buffer_inv (c_in c)" "0 < buf_limit (c_in c)" "idle (c_out c)" "c_stm c = Some (machine 3)" "c_addr_info c = ais"
    "sel_inv (w_sel w)" "metrics (data (w_cfg w)) \<noteq> None" "os_alloc (w_os w) = []" "256 \<le> length (os_junk (w_os w))"
  using assms by (simp_all add: dialing_def conn_put_self conn_get_Inr sound_def)

lemma run_block_connecting:
  assumes "k_data key = Some p" "p < length (w_heap w)" "c_stm c = Some (machine 3)"
  shows "run_block key (conn_put p c w) =
    bind_res (connecting_on_block_ready key (conn_put p c w)) (\<lambda>(ret, w).
      bind_res (jump socks5_states (stm_get key) (stm_put key) ret key w) (\<lambda>w. Inr (ret, w)))"
  using assms by (simp add: run_block_def engine_defs socks5_states_def live)

lemma block_dials:
  assumes res: "resolved key p (a # ais) c w"
    and kernel: "os_socket (w_os w) = fo # sq" "os_nonblock (w_os w) = []" "os_connect (w_os w) = EINPROGRESS # cq"
    and fo: "0 < fo" "\<not> invalid_fd fo" "interest_of (w_sel w) fo = None"
  shows "\<exists>c'. socksv5_block key w = Inr (conn_put p c' ((dialed a fo w)\<lparr>w_sel :=
      sel_reg fo H_Connecting OP_WRITE p (sel_set (k_fd key) OP_NOOP (w_sel w))\<rparr>)) \<and>
    dialing p (k_fd key) fo ais c' (conn_put p c' ((dialed a fo w)\<lparr>w_sel :=
      sel_reg fo H_Connecting OP_WRITE p (sel_set (k_fd key) OP_NOOP (w_sel w))\<rparr>)) \<and>
    c' = c\<lparr>c_addr_info := ais, c_origin_fd := fo\<rparr>"
proof -
  note r = resolved_live [OF res]
  let ?c = "c\<lparr>c_addr_info := ais, c_origin_fd := fo\<rparr>"
  let ?s = "sel_set (k_fd key) OP_NOOP (w_sel w)"
  let ?w = "(dialed a fo w)\<lparr>w_sel := sel_reg fo H_Connecting OP_WRITE p ?s\<rparr>"
  have ne: "fo \<noteq> k_fd key" using fo(3) r(10) by auto
  have s: "sel_inv ?s" "interest_of ?s fo = None" using r(16) fo(3) ne by simp_all
  note reg = sel_reg_free [OF s(1) fo(2) s(2), where h = H_Connecting and i = OP_WRITE and p = p]
  have dial: "connect_to_host (a # ais) 0 w = (CONNECTION_IN_PROGRESS, ais, fo, dialed a fo w)"
    using connect_in_progress [OF kernel(1) _ kernel(2,3)] fo(1) by simp
  have kc: "key_conn key w = Inr (p, c)" using key_conn_put [OF r(1,2), of c] r(3) by simp
  have "conn_put p c (dialed a fo w) = dialed a fo w" using dialed_sel(4) [of a fo p c w] r(3) by simp
  then have up: "conn_upd p f (dialed a fo w) = Inr (conn_put p (f c) (dialed a fo w))" for f
    using conn_upd_put [of p "dialed a fo w" f c] r(2) by simp
  have "connecting_on_block_ready key w = Inr (3, conn_put p ?c ?w)"
    using r(1,2,5,6,15,16) dial fo s kc up by (simp add: connecting_on_block_ready_def live)
  then have "socksv5_block key w = Inr (conn_put p ?c ?w)"
    using run_block_connecting [OF r(1,2,14)] r(3) jump_stay [OF r(1), of ?w ?c 3] r(2,14)
    by (simp add: socksv5_block_def)
  moreover have "dialing p (k_fd key) fo ais ?c (conn_put p ?c ?w)"
    using r reg ne fo(1,2) by (simp add: dialing_def sound_def)
  ultimately show ?thesis by blast
qed

section \<open>The access register\<close>

text \<open>The entry of a request that ended with \<open>st\<close>, and the world after it was added to the register.\<close>

definition entry_for :: "socks5_conn \<Rightarrow> socks5_reply_status \<Rightarrow> world \<Rightarrow> access_entry" where
  "entry_for c st w = make_entry (c_username c) (c_src_address c) (c_src_port c) (c_dst_address c) (c_dst_port c)
     (uint (reply_code st)) (os_clock (w_os w))"

definition recorded :: "socks5_conn \<Rightarrow> socks5_reply_status \<Rightarrow> world \<Rightarrow> world" where
  "recorded c st w = (case access_register_add_entry (access_reg (data (w_cfg w))) (entry_for c st w) of
     Inl e \<Rightarrow> w | Inr (r, row) \<Rightarrow> w\<lparr>w_cfg := (w_cfg w)\<lparr>data := (data (w_cfg w))\<lparr>access_reg := r\<rparr>\<rparr>\<rparr>)"

definition registering :: "world \<Rightarrow> bool" where
  "registering w \<longleftrightarrow> (case access_reg (data (w_cfg w)) of None \<Rightarrow> False | Some r \<Rightarrow> reg_inv r)"

definition accesses :: "world \<Rightarrow> access_entry list" where
  "accesses w = (case access_reg (data (w_cfg w)) of None \<Rightarrow> [] | Some r \<Rightarrow> logged r)"

lemma recorded_sel [simp]:
  "w_sel (recorded c st w) = w_sel w" "w_os (recorded c st w) = w_os w" "w_heap (recorded c st w) = w_heap w"
  "metrics (data (w_cfg (recorded c st w))) = metrics (data (w_cfg w))"
  "recorded c st (conn_put p d w) = conn_put p d (recorded c st w)"
  by (auto simp: recorded_def entry_for_def split: sum.splits)

lemma recorded_last:
  assumes "registering w"
  shows "registering (recorded c st w)" "accesses (recorded c st w) \<noteq> []" "last (accesses (recorded c st w)) = entry_for c st w"
proof -
  from assms obtain r where r: "access_reg (data (w_cfg w)) = Some r" "reg_inv r"
    by (auto simp: registering_def split: option.splits)
  obtain r' where "access_register_add_entry (Some r) (entry_for c st w) = Inr (Some r', entry_row (entry_for c st w))" "reg_inv r'"
    "last (logged r') = entry_for c st w" "logged r' \<noteq> []"
    using add_entry_logged [OF r(2), of "entry_for c st w"] by auto
  with r(1) show "registering (recorded c st w)" "accesses (recorded c st w) \<noteq> []"
    "last (accesses (recorded c st w)) = entry_for c st w"
    by (simp_all add: recorded_def registering_def accesses_def)
qed

lemma add_access_live:
  assumes "p < length (w_heap w)" "registering w"
  shows "add_access p st (conn_put p c w) = Inr (conn_put p c (recorded c st w))"
proof -
  from assms(2) obtain r where r: "access_reg (data (w_cfg w)) = Some r" "reg_inv r"
    by (auto simp: registering_def split: option.splits)
  show ?thesis
    using add_entry_logged [OF r(2), of "entry_for c st w"] r(1) assms(1)
    by (auto simp: add_access_def live recorded_def entry_for_def)
qed

section \<open>The reply\<close>

text \<open>The bytes of the reply to a request that was carried out, as sent.\<close>

definition success_bytes :: "os \<Rightarrow> int \<Rightarrow> byte list" where
  "success_bytes u fo =
     (let resp = create_conn_req_response SOCKS5_REP_SUCCEEDED (os_sockname u fo)
        (os_junk u ! 0, take 46 (os_junk u), ucast (os_junk u ! 1)) (take 16 (os_junk u))
      in take (conn_req_response_size resp) (conn_req_response_bytes resp))"

lemma success_bytes_ok:
  assumes "os_sockname u fo \<noteq> Sock_Other" "256 \<le> length (os_junk u)"
  shows "length (success_bytes u fo) = 22" "take 4 (success_bytes u fo) = [5, 0, 0, 4]"
  using assms
  by (cases "os_sockname u fo"; simp add: success_bytes_def create_conn_req_response_def family_constants
      conn_req_response_size_def conn_req_response_bytes_def response_constants conn_req_constants u16_bytes_def
      SOCKS5_VERSION_def Let_def)+

lemma send_success_live:
  assumes "p < length (w_heap w)" "os_sockname (w_os w) (c_origin_fd c) \<noteq> Sock_Other" "256 \<le> length (os_junk (w_os w))"
    and out: "buffer_inv (c_out c)" "22 \<le> room (c_out c)"
  shows "\<exists>b. same_block (c_out c) b \<and> pending b = pending (c_out c) @ success_bytes (w_os w) (c_origin_fd c) \<and>
    send_success p (conn_put p c w) = Inr (conn_put p (c\<lparr>c_out := b\<rparr>) w)"
proof -
  let ?r = "success_bytes (w_os w) (c_origin_fd c)"
  let ?resp = "create_conn_req_response SOCKS5_REP_SUCCEEDED (os_sockname (w_os w) (c_origin_fd c))
    (os_junk (w_os w) ! 0, take 46 (os_junk (w_os w)), ucast (os_junk (w_os w) ! 1)) (take 16 (os_junk (w_os w)))"
  note len = success_bytes_ok [OF assms(2,3)]
  have r: "?r = take (conn_req_response_size ?resp) (conn_req_response_bytes ?resp)"
    by (simp add: success_bytes_def Let_def)
  have sz: "conn_req_response_size ?resp \<le> 22" "conn_req_response_size ?resp \<le> length (conn_req_response_bytes ?resp)"
    using len(1) unfolding r by (auto simp: conn_req_response_size_def response_constants min_def split: if_splits)
  obtain b where b: "buffer_recv (c_out c) ?r = Inr b" "same_block (c_out c) b" "pending b = pending (c_out c) @ ?r"
    using buffer_recv_ok [OF out(1), of ?r] out(2) len(1) by auto
  have "buffer_write_struct (c_out c) (conn_req_response_bytes ?resp) (conn_req_response_size ?resp) = Inr b"
    using b(1) sz out(2) unfolding r by (subst buffer_write_struct_is_recv) auto
  with assms(1) b(2,3) show ?thesis
    by (intro exI [of _ b]) (simp add: send_success_def live Let_def)
qed

section \<open>The connection made\<close>

lemma jump_copy:
  assumes "k_data key = Some p" "p < length (w_heap w)" "c_stm c = Some (machine 3)" "sel_inv (w_sel w)"
    "\<not> invalid_fd (c_origin_fd c)" "interest_of (w_sel w) (c_origin_fd c) = None"
  shows "jump socks5_states (stm_get key) (stm_put key) 4 key (conn_put p c w) =
    Inr (conn_put p (c\<lparr>c_stm := Some (machine 4)\<rparr>) (w\<lparr>w_sel := sel_reg (c_origin_fd c) H_Copy OP_NOOP p (w_sel w)\<rparr>))"
  using assms by (simp add: engine_defs socks5_states_def live copy_on_arrival_def)

lemma run_read_connecting:
  assumes "k_data key = Some p" "p < length (w_heap w)" "c_stm c = Some (machine 3)" "sel_inv (w_sel w)"
    "\<not> invalid_fd (c_origin_fd c)" "interest_of (w_sel w) (c_origin_fd c) = None"
  shows "run_read key (conn_put p c w) =
    Inr (4, conn_put p (c\<lparr>c_stm := Some (machine 4)\<rparr>) (w\<lparr>w_sel := sel_reg (c_origin_fd c) H_Copy OP_NOOP p (w_sel w)\<rparr>))"
  using run_read_state [OF assms(1-3), of connecting_read] jump_copy [OF assms]
  by (simp add: live connecting_read_def)

text \<open>What \<open>getsockopt\<close> said is consumed.\<close>

definition asked :: "world \<Rightarrow> world" where
  "asked w = os_upd (\<lambda>s. s\<lparr>os_sockopt := tl (os_sockopt (w_os w))\<rparr>) w"

lemma asked_sel [simp]:
  "w_sel (asked w) = w_sel w" "w_cfg (asked w) = w_cfg w" "w_heap (asked w) = w_heap w"
  "asked (conn_put p c w) = conn_put p c (asked w)" "os_errno (w_os (asked w)) = os_errno (w_os w)"
  "os_recv (w_os (asked w)) = os_recv (w_os w)" "os_send (w_os (asked w)) = os_send (w_os w)"
  "os_alloc (w_os (asked w)) = os_alloc (w_os w)" "os_junk (w_os (asked w)) = os_junk (w_os w)"
  "os_trace (w_os (asked w)) = os_trace (w_os w)" "os_sockname (w_os (asked w)) = os_sockname (w_os w)"
  "os_clock (w_os (asked w)) = os_clock (w_os w)" "os_socket (w_os (asked w)) = os_socket (w_os w)"
  "os_nonblock (w_os (asked w)) = os_nonblock (w_os w)" "os_connect (w_os (asked w)) = os_connect (w_os w)"
  by (simp_all add: asked_def)

lemma dialing_steps:
  assumes d: "dialing p fc fo ais c w" and key: "k_data key = Some p"
  shows "key_conn key w = Inr (p, c)" "conn_upd p f (asked w) = Inr (conn_put p (f c) (asked w))"
proof -
  note l = dialing_live [OF d]
  show "key_conn key w = Inr (p, c)" using key_conn_put [OF key l(1), of c] l(2) by simp
  have "conn_put p c (asked w) = asked w" using asked_sel(4) [of p c w] l(2) by simp
  then show "conn_upd p f (asked w) = Inr (conn_put p (f c) (asked w))"
    using conn_upd_put [of p "asked w" f c] l(1) by simp
qed

lemma connecting_succeeds:
  assumes d: "dialing p fc fo ais c w" and key: "k_data key = Some p"
    and kernel: "os_sockopt (w_os w) = (True, 0) # oq" "os_send (w_os w) = Sent 22 # q" "calm (w_os w)"
      "os_sockname (w_os w) fo \<noteq> Sock_Other"
    and room: "22 \<le> buf_limit (c_out c)" and reg: "registering w"
  shows "\<exists>c' w'. handle_write_connecting key w = Inr w' \<and> relay_ok p fc fo c' w' \<and>
    os_trace (w_os w') = os_trace (w_os w) @ [Ev_Send fc (success_bytes (w_os w) fo)] \<and>
    accesses w' \<noteq> [] \<and> last (accesses w') = entry_for c SOCKS5_REP_SUCCEEDED w \<and>
    pending (c_in c') = [] \<and> pending (c_out c') = [] \<and> interest_of (w_sel w') fc = Some OP_READ \<and>
    agenda (w_sel w') = agenda (w_sel w)"
proof -
  note l = dialing_live [OF d]
  note drop = sel_drop_tables [OF l(21,11,13)]
  have free: "interest_of (sel_drop fo (w_sel w)) fo = None" using drop(1) by simp
  note sreg = sel_reg_free [OF drop(3) l(11) free, where h = H_Copy and i = OP_NOOP and p = p]
  let ?c1 = "c\<lparr>c_addr_info := []\<rparr>"
  let ?c2 = "?c1\<lparr>c_stm := Some (machine 4)\<rparr>"
  let ?w1 = "(asked w)\<lparr>w_sel := sel_drop fo (w_sel w)\<rparr>"
  let ?w2 = "?w1\<lparr>w_sel := sel_reg fo H_Copy OP_NOOP p (sel_drop fo (w_sel w))\<rparr>"
  let ?w3 = "recorded ?c2 SOCKS5_REP_SUCCEEDED ?w2"
  let ?r = "success_bytes (w_os w) fo"
  have un: "unregister_fd fo (conn_put p ?c1 (asked w)) = Inr (conn_put p ?c1 ?w1)"
    using unregister_origin [of "conn_put p ?c1 (asked w)" fo H_Connecting p] l(11,13,21) by simp
  have rd: "run_read key (conn_put p ?c1 ?w1) = Inr (4, conn_put p ?c2 ?w2)"
    using run_read_connecting [OF key, of ?w1 ?c1] l(1,5,11,19) drop(3) free by simp
  have reg2: "registering ?w2" using reg by (simp add: registering_def)
  note rec = recorded_last [OF reg2, of ?c2 SOCKS5_REP_SUCCEEDED]
  have out: "buffer_inv (c_out ?c2)" "pending (c_out ?c2) = []" "22 \<le> room (c_out ?c2)" "c_origin_fd ?c2 = fo"
    using l(5,18) room by (simp_all add: idle_room) (simp_all add: idle_def)
  have rs: "success_bytes (w_os ?w3) (c_origin_fd ?c2) = ?r"
    using l(5) by (simp add: success_bytes_def)
  obtain b where b: "same_block (c_out ?c2) b" "pending b = ?r" "send_success p (conn_put p ?c2 ?w3) = Inr (conn_put p (?c2\<lparr>c_out := b\<rparr>) ?w3)"
    using send_success_live [of p ?w3 ?c2] l(1,5,24) kernel(4) out rs by auto
  let ?c3 = "?c2\<lparr>c_out := b, c_in := buffer_reset (c_in c)\<rparr>"
  let ?s = "sel_set fc OP_WRITE (w_sel ?w3)"
  let ?w4 = "?w3\<lparr>w_sel := ?s\<rparr>"
  have rb: "buffer_inv (buffer_reset (c_in c))" "pending (buffer_reset (c_in c)) = []" "0 < buf_limit (buffer_reset (c_in c))"
    "buf_write (buffer_reset (c_in c)) = 0"
    using buffer_reset_inv [OF l(16)] l(17) by simp_all (simp_all add: buffer_reset_def)
  note len = success_bytes_ok(1) [OF kernel(4) l(24)]
  have s3: "sel_inv (w_sel ?w3)" "interest_of (w_sel ?w3) = (interest_of (w_sel w))(fo \<mapsto> OP_NOOP)"
    "owner_of (w_sel ?w3) = (owner_of (w_sel w))(fo \<mapsto> (H_Copy, p))"
    using sreg drop(1,2) by (simp_all add: fun_eq_iff)
  obtain b' where b': "same_block b b'" "pending b' = []" "buf_read b' = 0"
    "socksv5_write key (conn_put p ?c3 ?w4) = Inr (conn_put p (?c3\<lparr>c_out := b'\<rparr>)
        (served ?c3 22 (fo > 0 \<and> room b = 0) (sent fc ?r q ?w4)))"
    using write_live [OF key, of ?w4 ?c3 22 "machine 4" 4 q] l(1,4,5,22) s3(1) rb(1) b(1,2) len kernel(2)
    by (auto simp: same_block_inv)
  let ?w5 = "served ?c3 22 (fo > 0 \<and> room b = 0) (sent fc ?r q ?w4)"
  have c: "c_client_fd ?c2 = fc" using l(4) by simp
  have aq: "os_upd (\<lambda>s. s\<lparr>os_sockopt := oq\<rparr>) w = asked w" using kernel(1) by (simp add: asked_def)
  have run: "handle_write_connecting key w = Inr (conn_put p (?c3\<lparr>c_out := b'\<rparr>) ?w5)"
    using dialing_steps [OF d key] kernel(1) un rd add_access_live [OF _ reg2, where c = ?c2 and p = p] b(3) b'(4) l(1,5) s3(1) c
    by (simp add: handle_write_connecting_def pop_def live aq Let_def)
  have bo: "same_block (c_out c) b'" "tidy b'"
  proof -
    show sb: "same_block (c_out c) b'" using same_block_trans b(1) b'(1) by auto
    show "tidy b'" using same_block_inv [OF sb] b'(2,3) emptied [of b'] sb room by (auto simp: tidy_def same_block_def)
  qed
  have s5: "sel_inv (w_sel ?w5)" "owner_of (w_sel ?w5) = (owner_of (w_sel w))(fo \<mapsto> (H_Copy, p))"
    "interest_of (w_sel ?w5) fc = Some OP_READ" "interest_of (w_sel ?w5) fo \<in> {Some OP_NOOP, Some OP_READ}"
    using s3 l(4,5,8-11,14) b(2) rb(2) len by (auto simp: sel_after_send_def Let_def)
  have "relay_ok p fc fo (?c3\<lparr>c_out := b'\<rparr>) (conn_put p (?c3\<lparr>c_out := b'\<rparr>) ?w5)"
    using l s5 bo(2) rb kernel(2,3) b'(2)
    by (auto simp: relay_ok_def relay_up_def relaying_def wakeful_def tidy_def calm_def)
  moreover have "accesses (conn_put p (?c3\<lparr>c_out := b'\<rparr>) ?w5) = accesses ?w3"
    by (simp add: accesses_def served_def count_def)
  moreover have "entry_for ?c2 SOCKS5_REP_SUCCEEDED ?w2 = entry_for c SOCKS5_REP_SUCCEEDED w"
    by (simp add: entry_for_def)
  moreover have "agenda (w_sel ?w5) = agenda (w_sel w)" by (simp add: sel_after_send_def Let_def)
  ultimately show ?thesis
    using run rec(2,3) rb(2) b'(2) s5(3)
    by - (rule exI [of _ "?c3\<lparr>c_out := b'\<rparr>"], rule exI [of _ "conn_put p (?c3\<lparr>c_out := b'\<rparr>) ?w5"], simp)
qed

section \<open>Failures\<close>

text \<open>The bytes of a failure reply: two of them are what the memory held.\<close>

definition failure_bytes :: "os \<Rightarrow> socks5_reply_status \<Rightarrow> byte list" where
  "failure_bytes u st = [5, reply_code st, 0, 1, 0, 0, 0, 0, os_junk u ! 4, os_junk u ! 5]"

lemma failure_bytes_length [simp]: "length (failure_bytes u st) = 10" "failure_bytes u st \<noteq> []"
  by (simp_all add: failure_bytes_def)

lemma failure_prefix:
  "length junk = 16 \<Longrightarrow> take 10 (conn_req_response_bytes (create_conn_req_error_response st junk)) =
     [5, reply_code st, 0, 1, 0, 0, 0, 0, junk ! 4, junk ! 5]"
proof -
  assume "length junk = 16"
  then obtain a b c d e f js where "junk = a # b # c # d # e # f # js"
    by (auto simp: length_Suc_conv eval_nat_numeral)
  then show ?thesis
    by (simp add: create_conn_req_error_response_def conn_req_response_bytes_def conn_req_constants
        SOCKS5_VERSION_def eval_nat_numeral)
qed

lemma send_failure_live:
  assumes "p < length (w_heap w)" "256 \<le> length (os_junk (w_os w))" and out: "buffer_inv (c_out c)" "10 \<le> room (c_out c)"
  shows "\<exists>b. same_block (c_out c) b \<and> pending b = pending (c_out c) @ failure_bytes (w_os w) st \<and>
    send_failure p st (conn_put p c w) = Inr (conn_put p (c\<lparr>c_out := b, c_is_error_response := True\<rparr>) w)"
proof -
  let ?m = "conn_req_response_bytes (create_conn_req_error_response st (take 16 (os_junk (w_os w))))"
  have r: "failure_bytes (w_os w) st = take 10 ?m"
    using failure_prefix [of "take 16 (os_junk (w_os w))" st] assms(2) by (simp add: failure_bytes_def)
  have sz: "10 \<le> length ?m"
    using assms(2) by (simp add: conn_req_response_bytes_def create_conn_req_error_response_def u16_bytes_def)
  obtain b where b: "buffer_recv (c_out c) (failure_bytes (w_os w) st) = Inr b" "same_block (c_out c) b"
      "pending b = pending (c_out c) @ failure_bytes (w_os w) st"
    using buffer_recv_ok [OF out(1), of "failure_bytes (w_os w) st"] out(2) by auto
  have "buffer_write_struct (c_out c) ?m 10 = Inr b"
    using b(1) sz out(2) unfolding r by (subst buffer_write_struct_is_recv) auto
  with assms(1) b(2,3) show ?thesis
    by (intro exI [of _ b]) (simp add: send_failure_def live response_constants)
qed

text \<open>The write of a failure reply, taken whole, closes the connection.\<close>

lemma failure_sent:
  assumes key: "k_data key = Some p" "p < length (w_heap w)" and sel: "sel_inv (w_sel w)" "metrics (data (w_cfg w)) \<noteq> None"
    and fd: "0 < c_client_fd c" "\<not> invalid_fd (c_client_fd c)"
      "owner_of (w_sel w) (c_client_fd c) = Some (H_Socks5, p)" "c_origin_fd c \<le> 0"
    and st: "c_stm c = Some (machine s)" "state_parser s c" "c_is_error_response c"
    and bufs: "buffer_inv (c_in c)" "buffer_inv (c_out c)" "pending (c_out c) \<noteq> []"
    and send: "os_send (w_os w) = Sent (length (pending (c_out c))) # q"
  shows "\<exists>w'. socksv5_write key (conn_put p c w) = Inr w' \<and> conn_get p w' = Inl Use_After_Free \<and>
    os_trace (w_os w') = os_trace (w_os w) @ [Ev_Send (c_client_fd c) (pending (c_out c)), Ev_Close (c_client_fd c)] \<and>
    owner_of (w_sel w') (c_client_fd c) = None \<and> access_reg (data (w_cfg w')) = access_reg (data (w_cfg w))"
proof -
  let ?k = "length (pending (c_out c))"
  let ?v = "served c ?k False (sent (c_client_fd c) (pending (c_out c)) q w)"
  obtain b where b: "socksv5_write key (conn_put p c w) = run_write key s (conn_put p (c\<lparr>c_out := b\<rparr>) ?v)"
    using write_live [OF key sel bufs(2) _ bufs(1) st(1), of ?k s q] send bufs(3) fd(4) by auto
  have own: "sel_inv (w_sel ?v)" "owner_of (w_sel ?v) = owner_of (w_sel w)" "metrics (data (w_cfg ?v)) \<noteq> None"
    using sel by (auto simp: sel_after_send_def Let_def)
  have pv: "p < length (w_heap ?v)" using key(2) by simp
  have "run_write key s (conn_put p (c\<lparr>c_out := b\<rparr>) ?v) = Inr (closed p (c\<lparr>c_out := b\<rparr>) ?v)"
    by (rule write_after_error [OF key(1) pv own(1,3)]) (use own fd st in \<open>simp_all add: state_parser_def\<close>)
  moreover have "owner_of (sel_drop (c_client_fd c) (w_sel ?v)) (c_client_fd c) = None"
    using sel_drop_tables(2) [OF own(1) fd(2), of H_Socks5 p] own(2) fd(3) by simp
  ultimately show ?thesis
    using b fd(1,4) key(2) conn_get_closed [OF pv]
    by (intro exI [of _ "closed p (c\<lparr>c_out := b\<rparr>) ?v"])
       (simp add: closed_def Let_def sys_close_def emit_def count_def served_def os_upd_def)
qed

section \<open>The properties\<close>

text \<open>C8: a request is carried out.  A client that waits for its request sends, in one segment, a CONNECT for an address or a
  name of 1 to 254 bytes, no byte of the address, the name or the port 255.  The server looks up just this target, by its text
  (a name up to a zero byte and to 253 bytes) and its port, makes a socket of the family of the first address of the answer,
  and connects it to that address; the socket connects in the background and becomes writable without an error.  Then the
  client has got the success reply and nothing else, the access register ends with the request under its target as text, and
  client and origin are relayed, from empty buffers; whatever followed the request in the segment has been thrown away.  The
  kernel reports no error and no end of a stream.\<close>

theorem connect_served:
  assumes aw: "awaiting 2 key p c w"
    and req: "addr_wf a" "hi \<noteq> 255" "lo \<noteq> 255"
    and fits: "length (encode_request 1 a hi lo @ rest) \<le> buf_limit (c_in c)" "22 \<le> buf_limit (c_out c)"
    and kernel: "os_recv (w_os w) = Recv (encode_request 1 a hi lo @ rest) # rs" "os_thread (w_os w) = []"
      "os_resolve (w_os w) = Some (ai # ais) # rq" "os_socket (w_os w) = fo # sq" "os_nonblock (w_os w) = []"
      "os_connect (w_os w) = EINPROGRESS # cq" "os_sockopt (w_os w) = (True, 0) # oq" "os_send (w_os w) = Sent 22 # q"
      "calm (w_os w)" "os_sockname (w_os w) fo \<noteq> Sock_Other"
    and fo: "0 < fo" "\<not> invalid_fd fo" "interest_of (w_sel w) fo = None" and reg: "registering w"
  shows "\<exists>w0 w1 w2 w3 c3. socksv5_read key w = Inr w0 \<and>
    (if addr_type a = 3 then resolver_done p w0 else Inr w0) = Inr w1 \<and>
    k_fd key \<in> set (resolution_jobs (w_sel w1)) \<and> socksv5_block key w1 = Inr w2 \<and>
    interest_of (w_sel w2) fo = Some OP_WRITE \<and> handle_write_connecting \<lparr>k_fd = fo, k_data = Some p\<rparr> w2 = Inr w3 \<and>
    relay_ok p (k_fd key) fo c3 w3 \<and> pending (c_in c3) = [] \<and> pending (c_out c3) = [] \<and>
    interest_of (w_sel w3) (k_fd key) = Some OP_READ \<and>
    os_trace (w_os w3) = os_trace (w_os w) @
      [Ev_Recv (k_fd key) (encode_request 1 a hi lo @ rest), target_lookup (os_ntop6 (w_os w)) a (256 * unat hi + unat lo),
       Ev_Socket (ai_family ai), Ev_Connect fo ai, Ev_Send (k_fd key) (success_bytes (w_os w) fo)] \<and>
    last (accesses w3) = make_entry (c_username c) (c_src_address c) (c_src_port c) (address_text (os_ntop6 (w_os w)) a)
      (word_of_nat (256 * unat hi + unat lo)) 0 (os_clock (w_os w))"
proof -
  let ?fd = "k_fd key" and ?t = "target_lookup (os_ntop6 (w_os w)) a (256 * unat hi + unat lo)"
  obtain c1 w0 l where 1: "socksv5_read key w = Inr w0"
    "(if addr_type a = 3 then resolver_done p w0 else Inr w0) = Inr (conn_put p c1 (announced ?t ?fd l w))"
    "resolved key p (ai # ais) c1 (conn_put p c1 (announced ?t ?fd l w))" "c_out c1 = c_out c"
    "c_dst_address c1 = address_text (os_ntop6 (w_os w)) a" "unat (c_dst_port c1) = 256 * unat hi + unat lo"
    "c_username c1 = c_username c" "c_src_address c1 = c_src_address c" "c_src_port c1 = c_src_port c"
    using request_resolves [OF aw req fits(1) kernel(1-3)] by auto
  let ?w1 = "conn_put p c1 (announced ?t ?fd l w)"
  note r = resolved_live [OF 1(3)]
  note awl = awaiting_live [OF aw]
  have sel: "sel_inv (w_sel w)" using awl(4) by (simp add: sound_def)
  obtain i where i: "interest_of (w_sel w) ?fd = Some i" using owner_interest [OF awl(12)] by blast
  have os1: "os_socket (w_os ?w1) = fo # sq" "os_nonblock (w_os ?w1) = []" "os_connect (w_os ?w1) = EINPROGRESS # cq"
    "os_sockopt (w_os ?w1) = (True, 0) # oq" "os_send (w_os ?w1) = Sent 22 # q" "calm (w_os ?w1)"
    "os_sockname (w_os ?w1) = os_sockname (w_os w)" "os_junk (w_os ?w1) = os_junk (w_os w)" "os_clock (w_os ?w1) = os_clock (w_os w)"
    "os_trace (w_os ?w1) = os_trace (w_os w) @ [Ev_Recv ?fd (encode_request 1 a hi lo @ rest), ?t]"
    using kernel by (simp_all add: received_def calm_def)
  have free: "interest_of (w_sel ?w1) fo = None" using fo(3) sel i by auto
  obtain c2 w2 where 2: "socksv5_block key ?w1 = Inr w2" "dialing p ?fd fo ais c2 w2"
    "w_os w2 = w_os (dialed ai fo ?w1)" "w_cfg w2 = w_cfg w" "c2 = c1\<lparr>c_addr_info := ais, c_origin_fd := fo\<rparr>"
    using block_dials [OF 1(3) os1(1-3) fo(1,2) free] by auto
  have os2: "os_sockopt (w_os w2) = (True, 0) # oq" "os_send (w_os w2) = Sent 22 # q" "calm (w_os w2)"
    "os_sockname (w_os w2) fo \<noteq> Sock_Other" "success_bytes (w_os w2) fo = success_bytes (w_os w) fo"
    "os_clock (w_os w2) = os_clock (w_os w)" "os_trace (w_os w2) = os_trace (w_os ?w1) @ [Ev_Socket (ai_family ai), Ev_Connect fo ai]" "registering w2"
    using os1 kernel(10) reg 2(3,4) by (simp_all add: calm_def success_bytes_def registering_def)
  have room: "22 \<le> buf_limit (c_out c2)" using fits(2) 1(4) 2(5) by simp
  obtain c3 w3 where 3: "handle_write_connecting \<lparr>k_fd = fo, k_data = Some p\<rparr> w2 = Inr w3" "relay_ok p ?fd fo c3 w3"
    "os_trace (w_os w3) = os_trace (w_os w2) @ [Ev_Send ?fd (success_bytes (w_os w2) fo)]"
    "last (accesses w3) = entry_for c2 SOCKS5_REP_SUCCEEDED w2" "pending (c_in c3) = []" "pending (c_out c3) = []"
    "interest_of (w_sel w3) ?fd = Some OP_READ"
    using connecting_succeeds [OF 2(2) _ os2(1-4) room os2(8), of "\<lparr>k_fd = fo, k_data = Some p\<rparr>"] by auto
  have "c_dst_port c1 = word_of_nat (256 * unat hi + unat lo)" by (simp flip: 1(6))
  then have e: "entry_for c2 SOCKS5_REP_SUCCEEDED w2 = make_entry (c_username c) (c_src_address c) (c_src_port c)
      (address_text (os_ntop6 (w_os w)) a) (word_of_nat (256 * unat hi + unat lo)) 0 (os_clock (w_os w))"
    using 1 2(5) os2(6) by (simp add: entry_for_def)
  have job: "?fd \<in> set (resolution_jobs (w_sel ?w1))" by simp
  show ?thesis
    using 1(1,2) job 2(1) dialing_live(15) [OF 2(2)] 3 e os2(5,7) os1(10)
    by - (rule exI [of _ w0], rule exI [of _ ?w1], rule exI [of _ w2], rule exI [of _ w3], rule exI [of _ c3], simp)
qed

text \<open>
  The origin refused and there is no other address: the socket is closed twice, the access recorded, and the reply
  waits for the client to take it.
\<close>

lemma connecting_fails:
  assumes d: "dialing p fc fo [] c w"
    and kernel: "os_sockopt (w_os w) = (True, e) # oq" "e \<noteq> 0"
    and room: "10 \<le> buf_limit (c_out c)" and reg: "registering w"
  defines "st \<equiv> get_code (os_errno (w_os w))"
  shows "\<exists>b v. handle_write_connecting \<lparr>k_fd = fo, k_data = Some p\<rparr> w =
      Inr (conn_put p (c\<lparr>c_out := b, c_is_error_response := True, c_origin_fd := -1\<rparr>) v) \<and>
    buffer_inv b \<and> pending b = [5, reply_code st, 0, 1, 0, 0, 0, 0, os_junk (w_os w) ! 4, os_junk (w_os w) ! 5] \<and>
    sel_inv (w_sel v) \<and> owner_of (w_sel v) fc = Some (H_Socks5, p) \<and> interest_of (w_sel v) fc = Some OP_WRITE \<and>
    interest_of (w_sel v) fo = None \<and> w_heap v = w_heap w \<and> os_send (w_os v) = os_send (w_os w) \<and>
    os_trace (w_os v) = os_trace (w_os w) @ [Ev_Close fo, Ev_Close fo] \<and>
    metrics (data (w_cfg v)) = metrics (data (w_cfg w)) \<and> last (accesses v) = entry_for c st w"
proof -
  note l = dialing_live [OF d]
  note drop = sel_drop_tables [OF l(21,11,13)]
  let ?key = "\<lparr>k_fd = fo, k_data = Some p\<rparr>"
  let ?w1 = "sys_close fo (asked w)"
  let ?w2 = "recorded c st ?w1"
  let ?w3 = "sys_close fo (?w2\<lparr>w_sel := sel_drop fo (w_sel w)\<rparr>)"
  have w1: "w_sel ?w1 = w_sel w" "w_heap ?w1 = w_heap w" "w_cfg ?w1 = w_cfg w" "os_junk (w_os ?w1) = os_junk (w_os w)"
    "os_send (w_os ?w1) = os_send (w_os w)" "os_trace (w_os ?w1) = os_trace (w_os w) @ [Ev_Close fo]" "os_clock (w_os ?w1) = os_clock (w_os w)"
    using l(2) by (simp_all add: sys_close_def emit_def)
  have cl: "sys_close fo (conn_put p d v) = conn_put p d (sys_close fo v)" for d v by (simp add: sys_close_def emit_def)
  have self: "conn_put p c ?w1 = ?w1" using cl [of c "asked w"] asked_sel(4) [of p c w] l(2) by simp
  have reg1: "registering ?w1" using reg w1(3) by (simp add: registering_def)
  note rec = recorded_last [OF reg1, of c st]
  have acc: "add_access p st ?w1 = Inr (conn_put p c ?w2)"
    using add_access_live [OF _ reg1, where c = c and p = p and st = st] l(1) w1(2) self by simp
  have out: "buffer_inv (c_out c)" "pending (c_out c) = []" "10 \<le> room (c_out c)"
    using l(18) room by (simp_all add: idle_room) (simp_all add: idle_def)
  have fb: "failure_bytes (w_os ?w2) st = [5, reply_code st, 0, 1, 0, 0, 0, 0, os_junk (w_os w) ! 4, os_junk (w_os w) ! 5]"
    using w1(4) by (simp add: failure_bytes_def)
  obtain b where b: "same_block (c_out c) b" "pending b = failure_bytes (w_os ?w2) st"
    "send_failure p st (conn_put p c ?w2) = Inr (conn_put p (c\<lparr>c_out := b, c_is_error_response := True\<rparr>) ?w2)"
    using send_failure_live [of p ?w2 c st] l(1,24) w1(2,4) out by auto
  let ?c1 = "c\<lparr>c_out := b, c_is_error_response := True\<rparr>"
  let ?c2 = "?c1\<lparr>c_origin_fd := -1\<rparr>"
  have un: "unregister_fd fo (conn_put p ?c1 ?w2) = Inr (conn_put p ?c1 (?w2\<lparr>w_sel := sel_drop fo (w_sel w)\<rparr>))"
    using unregister_origin [of "conn_put p ?c1 ?w2" fo H_Connecting p] l(11,13,21) w1(1) by simp
  let ?w4 = "?w3\<lparr>w_sel := sel_set fc OP_WRITE (sel_drop fo (w_sel w))\<rparr>"
  have w3: "w_sel ?w3 = sel_drop fo (w_sel w)" "w_heap ?w3 = w_heap w" "w_cfg ?w3 = w_cfg ?w2"
    "os_send (w_os ?w3) = os_send (w_os w)" "os_trace (w_os ?w3) = os_trace (w_os w) @ [Ev_Close fo, Ev_Close fo]"
    using w1 by (simp_all add: sys_close_def emit_def)
  have aq: "os_upd (\<lambda>s. s\<lparr>os_sockopt := oq\<rparr>) w = asked w" using kernel(1) by (simp add: asked_def)
  have up: "conn_upd p f ?w1 = Inr (conn_put p (f c) ?w1)" for f
    using conn_upd_put [of p ?w1 f c] l(1) w1(2) self by simp
  have same: "c\<lparr>c_addr_info := [], c_origin_fd := fo\<rparr> = c" using l(5,20) by simp
  have run: "handle_write_connecting ?key w = Inr (conn_put p ?c2 ?w4)"
    using dialing_steps(1) [OF d, of ?key] kernel acc b(3) un l(1,4,5,20) self w3(1,2) drop(3)
    by (simp add: handle_write_connecting_def pop_def live aq up same cl st_def Let_def)
  have s4: "sel_inv (w_sel ?w4)" "owner_of (w_sel ?w4) fc = Some (H_Socks5, p)" "interest_of (w_sel ?w4) fc = Some OP_WRITE"
    "interest_of (w_sel ?w4) fo = None"
    using drop l(8-10,12,14) by simp_all
  have "accesses ?w4 = accesses ?w2" using w3(3) by (simp add: accesses_def)
  moreover have "entry_for c st ?w1 = entry_for c st w" using w1(7) by (simp add: entry_for_def)
  moreover have "metrics (data (w_cfg ?w4)) = metrics (data (w_cfg w))" using w3(3) w1(3) by simp
  moreover have "buffer_inv b" using b(1) out(1) by (simp add: same_block_inv)
  ultimately show ?thesis
    using run s4 w3 b(2) fb rec(3) by - (rule exI [of _ b], rule exI [of _ ?w4], simp)
qed

text \<open>C19: a connection the origin refuses is reported under another code.  The reply, and the entry of the access register,
  carry the code of \<open>errno\<close>, which is that of the last call that failed anywhere, and not the error of the
  socket, which was asked for; the descriptor of the origin is closed twice, and the client's once the
  reply is gone.\<close>

theorem connect_error_reported:
  assumes d: "dialing p fc fo [] c w"
    and kernel: "os_sockopt (w_os w) = (True, e) # oq" "e \<noteq> 0" "os_send (w_os w) = Sent 10 # q"
    and room: "10 \<le> buf_limit (c_out c)" and reg: "registering w"
  defines "st \<equiv> get_code (os_errno (w_os w))"
  shows "\<exists>w1 w2. handle_write_connecting \<lparr>k_fd = fo, k_data = Some p\<rparr> w = Inr w1 \<and>
    interest_of (w_sel w1) fc = Some OP_WRITE \<and> interest_of (w_sel w1) fo = None \<and>
    socksv5_write \<lparr>k_fd = fc, k_data = Some p\<rparr> w1 = Inr w2 \<and> conn_get p w2 = Inl Use_After_Free \<and>
    os_trace (w_os w2) = os_trace (w_os w) @
      [Ev_Close fo, Ev_Close fo, Ev_Send fc [5, reply_code st, 0, 1, 0, 0, 0, 0, os_junk (w_os w) ! 4, os_junk (w_os w) ! 5], Ev_Close fc] \<and>
    last (accesses w2) = entry_for c st w"
proof -
  note l = dialing_live [OF d]
  obtain b v where v: "handle_write_connecting \<lparr>k_fd = fo, k_data = Some p\<rparr> w =
      Inr (conn_put p (c\<lparr>c_out := b, c_is_error_response := True, c_origin_fd := -1\<rparr>) v)"
    "buffer_inv b" "pending b = [5, reply_code st, 0, 1, 0, 0, 0, 0, os_junk (w_os w) ! 4, os_junk (w_os w) ! 5]"
    "sel_inv (w_sel v)" "owner_of (w_sel v) fc = Some (H_Socks5, p)" "interest_of (w_sel v) fc = Some OP_WRITE"
    "interest_of (w_sel v) fo = None" "w_heap v = w_heap w" "os_send (w_os v) = os_send (w_os w)"
    "os_trace (w_os v) = os_trace (w_os w) @ [Ev_Close fo, Ev_Close fo]"
    "metrics (data (w_cfg v)) = metrics (data (w_cfg w))" "last (accesses v) = entry_for c st w"
    using connecting_fails [OF d kernel(1,2) room reg] unfolding st_def by blast
  let ?c = "c\<lparr>c_out := b, c_is_error_response := True, c_origin_fd := -1\<rparr>"
  obtain w2 where w2: "socksv5_write \<lparr>k_fd = fc, k_data = Some p\<rparr> (conn_put p ?c v) = Inr w2" "conn_get p w2 = Inl Use_After_Free"
    "os_trace (w_os w2) = os_trace (w_os v) @ [Ev_Send fc (pending b), Ev_Close fc]"
    "access_reg (data (w_cfg w2)) = access_reg (data (w_cfg v))"
    using failure_sent [of "\<lparr>k_fd = fc, k_data = Some p\<rparr>" p v ?c 3 q] l(1,4,6,10,16,19,22) v kernel(3)
    by (auto simp: state_parser_def)
  then have "last (accesses w2) = entry_for c st w" using v(12) by (simp add: accesses_def)
  then show ?thesis
    using v(1,3,6,7,10) w2(1-3) by - (rule exI [of _ "conn_put p ?c v"], rule exI [of _ w2], simp)
qed

text \<open>C21: the next address is tried for nothing unless its socket gets the old number.  When the first connection fails
  and another address is left, the handler starts the next connection and returns without registering it:
  the selector is as before.  Only if the kernel gives the number of the socket that was closed does the
  registration that was left behind fit; otherwise a closed descriptor stays registered, the new one is watched by nobody, and the client
  is not listened to.\<close>

theorem retry_needs_same_descriptor:
  assumes d: "dialing p fc fo (a # ais) c w"
    and kernel: "os_sockopt (w_os w) = (True, e) # oq" "e \<noteq> 0" "os_socket (w_os w) = fo' # sq" "os_nonblock (w_os w) = []"
      "os_connect (w_os w) = EINPROGRESS # cq"
    and fo': "0 < fo'" "fo' = fo \<or> interest_of (w_sel w) fo' = None"
  shows "\<exists>c' w'. handle_write_connecting \<lparr>k_fd = fo, k_data = Some p\<rparr> w = Inr w' \<and> conn_get p w' = Inr c' \<and>
    c_origin_fd c' = fo' \<and> w_sel w' = w_sel w \<and>
    os_trace (w_os w') = os_trace (w_os w) @ [Ev_Close fo, Ev_Socket (ai_family a), Ev_Connect fo' a] \<and>
    interest_of (w_sel w') fc = Some OP_NOOP \<and> interest_of (w_sel w') fo = Some OP_WRITE \<and>
    (dialing p fc fo' ais c' w' \<longleftrightarrow> fo' = fo)"
proof -
  note l = dialing_live [OF d]
  let ?key = "\<lparr>k_fd = fo, k_data = Some p\<rparr>"
  let ?w1 = "sys_close fo (asked w)"
  let ?c = "c\<lparr>c_addr_info := ais, c_origin_fd := fo'\<rparr>"
  have cl: "sys_close fo (conn_put p d v) = conn_put p d (sys_close fo v)" for d v by (simp add: sys_close_def emit_def)
  have self: "conn_put p c (dialed a fo' ?w1) = dialed a fo' ?w1"
    by (simp only: dialed_sel(4) [symmetric] cl [symmetric] asked_sel(4) [symmetric] l(2))
  have w1: "w_sel (dialed a fo' ?w1) = w_sel w" "w_heap (dialed a fo' ?w1) = w_heap w" "w_cfg (dialed a fo' ?w1) = w_cfg w"
    "os_trace (w_os (dialed a fo' ?w1)) = os_trace (w_os w) @ [Ev_Close fo, Ev_Socket (ai_family a), Ev_Connect fo' a]" "os_alloc (w_os (dialed a fo' ?w1)) = os_alloc (w_os w)"
    "os_junk (w_os (dialed a fo' ?w1)) = os_junk (w_os w)"
    by (simp_all add: sys_close_def emit_def)
  have up: "conn_upd p f (dialed a fo' ?w1) = Inr (conn_put p (f c) (dialed a fo' ?w1))" for f
    using conn_upd_put [of p "dialed a fo' ?w1" f c] l(1) w1(2) self by simp
  have dial: "connect_to_host (a # ais) fo ?w1 = (CONNECTION_IN_PROGRESS, ais, fo', dialed a fo' ?w1)"
    by (rule connect_in_progress [where sq = sq and cq = cq]) (use kernel fo' in \<open>simp_all add: sys_close_def emit_def\<close>)
  have aq: "os_upd (\<lambda>s. s\<lparr>os_sockopt := oq\<rparr>) w = asked w" using kernel(1) by (simp add: asked_def)
  have run: "handle_write_connecting ?key w = Inr (conn_put p ?c (dialed a fo' ?w1))"
    using dialing_steps(1) [OF d, of ?key] kernel(1,2) l(5,20) dial
    by (simp add: handle_write_connecting_def pop_def aq up Let_def)
  have "dialing p fc fo' ais ?c (conn_put p ?c (dialed a fo' ?w1)) \<longleftrightarrow> fo' = fo"
    using fo'(2) l w1 by (auto simp: dialing_def sound_def)
  with run l(1,14,15) w1(1,2,4) show ?thesis
    by - (rule exI [of _ ?c], rule exI [of _ "conn_put p ?c (dialed a fo' ?w1)"], simp)
qed

text \<open>C22: a name that does not resolve is reported.  The client gets the code for an unreachable host, the access register
  gets the entry, and when the reply has been taken the connection is closed and released.\<close>

theorem resolution_failure_reported:
  assumes res: "resolved key p [] c w" and send: "os_send (w_os w) = Sent 10 # q"
    and room: "10 \<le> buf_limit (c_out c)" and reg: "registering w"
  shows "\<exists>w1 w2. socksv5_block key w = Inr w1 \<and> interest_of (w_sel w1) (k_fd key) = Some OP_WRITE \<and>
    socksv5_write key w1 = Inr w2 \<and> conn_get p w2 = Inl Use_After_Free \<and> owner_of (w_sel w2) (k_fd key) = None \<and>
    os_trace (w_os w2) = os_trace (w_os w) @
      [Ev_Send (k_fd key) [5, 4, 0, 1, 0, 0, 0, 0, os_junk (w_os w) ! 4, os_junk (w_os w) ! 5], Ev_Close (k_fd key)] \<and>
    last (accesses w2) = entry_for c SOCKS5_REP_HOST_UNREACHABLE w"
proof -
  note r = resolved_live [OF res]
  let ?w1 = "recorded c SOCKS5_REP_HOST_UNREACHABLE w"
  note rec = recorded_last [OF reg, of c SOCKS5_REP_HOST_UNREACHABLE]
  have acc: "add_access p SOCKS5_REP_HOST_UNREACHABLE w = Inr (conn_put p c ?w1)"
    using add_access_live [OF r(2) reg, of SOCKS5_REP_HOST_UNREACHABLE c] r(3) by simp
  have out: "buffer_inv (c_out c)" "pending (c_out c) = []" "10 \<le> room (c_out c)"
    using r(13) room by (simp_all add: idle_room) (simp_all add: idle_def)
  obtain b where b: "same_block (c_out c) b" "pending b = failure_bytes (w_os w) SOCKS5_REP_HOST_UNREACHABLE"
    "send_failure p SOCKS5_REP_HOST_UNREACHABLE (conn_put p c ?w1) = Inr (conn_put p (c\<lparr>c_out := b, c_is_error_response := True\<rparr>) ?w1)"
    using send_failure_live [of p ?w1 c SOCKS5_REP_HOST_UNREACHABLE] r(2,19) out by (auto simp: failure_bytes_def)
  let ?c1 = "c\<lparr>c_out := b, c_is_error_response := True\<rparr>"
  let ?w2 = "?w1\<lparr>w_sel := sel_set (k_fd key) OP_WRITE (w_sel w)\<rparr>"
  let ?c2 = "?c1\<lparr>c_stm := Some (machine 2), c_req := new_req ?w2\<rparr>"
  have kc: "key_conn key w = Inr (p, c)" using key_conn_put [OF r(1,2), of c] r(3) by simp
  have "connecting_on_block_ready key w = Inr (2, conn_put p ?c1 ?w2)"
    using kc acc b(3) r(5,15,16) by (simp add: connecting_on_block_ready_def live)
  moreover have "jump socks5_states (stm_get key) (stm_put key) 2 key (conn_put p ?c1 ?w2) = Inr (conn_put p ?c2 ?w2)"
    using r(1,2,14,18) by (simp add: engine_defs socks5_states_def live connection_req_on_arrival_def new_req_def Let_def)
  ultimately have run: "socksv5_block key w = Inr (conn_put p ?c2 ?w2)"
    using run_block_connecting [OF r(1,2,14)] r(3) by (simp add: socksv5_block_def)
  have s2: "sel_inv (w_sel ?w2)" "owner_of (w_sel ?w2) (k_fd key) = Some (H_Socks5, p)" "interest_of (w_sel ?w2) (k_fd key) = Some OP_WRITE"
    using r(8-10,16) by simp_all
  have "\<exists>h. new_req ?w2 = Some h" using new_req_start [of ?w2] r(19) by auto
  then have snd: "\<exists>w'. socksv5_write key (conn_put p ?c2 ?w2) = Inr w' \<and> conn_get p w' = Inl Use_After_Free \<and>
      os_trace (w_os w') = os_trace (w_os ?w2) @ [Ev_Send (k_fd key) (pending b), Ev_Close (k_fd key)] \<and>
      owner_of (w_sel w') (k_fd key) = None \<and> access_reg (data (w_cfg w')) = access_reg (data (w_cfg ?w2))"
    using failure_sent [OF r(1), of ?w2 ?c2 2 q] r(2,5-8,11,17) s2(1,2) send b(1,2)
    by (auto simp: state_parser_def same_block_inv)
  then obtain w2 where w2: "socksv5_write key (conn_put p ?c2 ?w2) = Inr w2" "conn_get p w2 = Inl Use_After_Free"
    "os_trace (w_os w2) = os_trace (w_os ?w2) @ [Ev_Send (k_fd key) (pending b), Ev_Close (k_fd key)]"
    "owner_of (w_sel w2) (k_fd key) = None" "access_reg (data (w_cfg w2)) = access_reg (data (w_cfg ?w2))" by blast
  have "accesses w2 = accesses ?w1" using w2(5) by (simp add: accesses_def)
  then show ?thesis
    using run s2(3) w2(1-4) b(2) rec(3)
    by - (rule exI [of _ "conn_put p ?c2 ?w2"], rule exI [of _ w2], simp add: failure_bytes_def)
qed

text \<open>C17: an address that cannot be reached from here crashes the server.  When \<open>connect\<close> fails at once, as it does without a
  route, no reply is sent: the error state closes the client and releases the connection, and the
  handler then reads the descriptor of the client in the released connection.\<close>

theorem immediate_failure_use_after_free:
  assumes res: "resolved key p [a] c w"
    and kernel: "os_socket (w_os w) = fo # sq" "os_nonblock (w_os w) = []" "os_connect (w_os w) = e # cq" "e \<noteq> 0" "e \<noteq> EINPROGRESS"
    and fo: "0 < fo" "interest_of (w_sel w) fo = None"
  shows "socksv5_block key w = Inl Use_After_Free"
proof -
  note r = resolved_live [OF res]
  let ?w1 = "sys_close fo (os_upd (\<lambda>s. s\<lparr>os_socket := sq, os_nonblock := [], os_connect := cq,
    os_trace := os_trace s @ [Ev_Socket (ai_family a), Ev_Connect fo a], os_errno := e\<rparr>) w)"
  let ?c = "c\<lparr>c_addr_info := [], c_origin_fd := fo\<rparr>"
  have dial: "connect_to_host [a] 0 w = (CONNECTION_FAILED, [], fo, ?w1)"
    using kernel fo(1)
    by (simp add: connect_to_host_def sys_socket_def pop_def set_non_blocking_fd_def sys_connect_def set_errno_def
        emit_def os_upd_def Let_def)
  have w1: "w_sel ?w1 = w_sel w" "w_heap ?w1 = w_heap w" "w_cfg ?w1 = w_cfg w" by (simp_all add: sys_close_def emit_def)
  have self: "conn_put p c ?w1 = ?w1"
    by (simp only: sys_close_def emit_def conn_put_push(6) [symmetric] r(3))
  have up: "conn_upd p f ?w1 = Inr (conn_put p (f c) ?w1)" for f
    using conn_upd_put [of p ?w1 f c] r(2) w1(2) self by simp
  have kc: "key_conn key w = Inr (p, c)" using key_conn_put [OF r(1,2), of c] r(3) by simp
  have codes: "CONNECTION_FAILED \<noteq> CONNECTION_IN_PROGRESS" "CONNECTION_FAILED \<noteq> CONNECTION_SUCCESS"
    by (simp_all add: CONNECTION_FAILED_def CONNECTION_IN_PROGRESS_def CONNECTION_SUCCESS_def)
  have blk: "connecting_on_block_ready key w = Inr (6, conn_put p ?c ?w1)"
    using kc dial up r(6,15) codes by (simp add: connecting_on_block_ready_def)
  let ?c2 = "?c\<lparr>c_stm := Some (machine 6)\<rparr>"
  have un: "unregister_fd fo (conn_put p ?c2 ?w1) = Inr (conn_put p ?c2 ?w1)"
    using unregister_none [of "conn_put p ?c2 ?w1" fo] w1(1) r(16) fo(2) by simp
  have cl: "unregister_fd (c_client_fd ?c2) (conn_put p ?c2 ?w1) = Inr (closed p ?c2 ?w1)"
    by (rule unregister_client) (use w1 r(2,5,8,9,16,17) in simp_all)
  have "jump socks5_states (stm_get key) (stm_put key) 6 key (conn_put p ?c ?w1) = Inr (closed p ?c2 ?w1)"
    using r(1,2,5,7,14) w1(2) un cl fo(1)
    by (simp add: engine_defs socks5_states_def live handle_error_def close_both_def)
  then have "run_block key w = Inr (6, closed p ?c2 ?w1)"
    using run_block_connecting [OF r(1,2,14)] r(3) blk by simp
  moreover have "metrics (data (w_cfg (closed p ?c2 ?w1))) \<noteq> None"
    using w1(3) r(17) by (simp add: closed_def Let_def sys_close_def emit_def)
  moreover have "conn_get p (count f v) = conn_get p v" for f v by (simp add: conn_get_def)
  moreover have "conn_get p (closed p ?c2 ?w1) = Inl Use_After_Free"
    using conn_get_closed [of p ?w1 ?c2] r(2) w1(2) by simp
  ultimately show ?thesis using r(1) by (simp add: socksv5_block_def metrics_upd_live)
qed

section \<open>At concrete inputs\<close>

text \<open>The sample world with answers for the calls of a connection: names, sockets, outcomes of \<open>connect\<close> and of the sockets.\<close>

definition sample_net :: "sel \<Rightarrow> socks5_conn \<Rightarrow> recv_result list \<Rightarrow> send_result list \<Rightarrow> addrinfo list option list \<Rightarrow>
    int list \<Rightarrow> int list \<Rightarrow> (bool \<times> int) list \<Rightarrow> world" where
  "sample_net s c rs ss names socks conns outs =
     (let w = sample_world s c auth_init rs ss
      in w\<lparr>w_os := (w_os w)\<lparr>os_resolve := names, os_socket := socks, os_connect := conns, os_sockopt := outs,
           os_sockname := (\<lambda>fd. Sock_In [10, 0, 0, 1] 0x5000)\<rparr>\<rparr>)"

lemma sample_net_sel [simp]:
  "w_sel (sample_net s c rs ss ns fs cs us) = s" "w_heap (sample_net s c rs ss ns fs cs us) = [Some c]"
  "sound (sample_net s c rs ss ns fs cs us) = sel_inv s" "conn_get 0 (sample_net s c rs ss ns fs cs us) = Inr c"
  "os_recv (w_os (sample_net s c rs ss ns fs cs us)) = rs" "os_send (w_os (sample_net s c rs ss ns fs cs us)) = ss"
  "os_resolve (w_os (sample_net s c rs ss ns fs cs us)) = ns" "os_socket (w_os (sample_net s c rs ss ns fs cs us)) = fs"
  "os_connect (w_os (sample_net s c rs ss ns fs cs us)) = cs" "os_sockopt (w_os (sample_net s c rs ss ns fs cs us)) = us"
  "os_thread (w_os (sample_net s c rs ss ns fs cs us)) = []" "os_nonblock (w_os (sample_net s c rs ss ns fs cs us)) = []"
  "os_sockname (w_os (sample_net s c rs ss ns fs cs us)) fd = Sock_In [10, 0, 0, 1] 0x5000"
  "os_trace (w_os (sample_net s c rs ss ns fs cs us)) = []" "os_errno (w_os (sample_net s c rs ss ns fs cs us)) = 0"
  "os_junk (w_os (sample_net s c rs ss ns fs cs us)) = replicate 256 0"
  by (simp_all add: sample_net_def sample_world_def sound_def Let_def conn_get_def)

lemma sample_registering: "registering (sample_net s c rs ss ns fs cs us)"
  using init_logged [of "replicate REGISTER_MAX_ENTRIES (make_entry [] [] 0 [] 0 0 0)"]
  by (simp add: registering_def sample_net_def sample_world_def Let_def)

definition sample_request :: socks5_conn where
  "sample_request = sample_conn\<lparr>c_stm := Some (machine 2), c_req := conn_req_parser_init True True (replicate 256 0)\<rparr>"

lemma sample_request_sel [simp]:
  "c_client_fd sample_request = 5" "c_origin_fd sample_request = 0" "idle (c_in sample_request)" "idle (c_out sample_request)"
  "buf_limit (c_in sample_request) = 64" "buf_limit (c_out sample_request) = 64" "c_stm sample_request = Some (machine 2)"
  "c_addr_info sample_request = []"
  by (simp_all add: sample_request_def sample_conn_def sample_idle zero_conn_def)

lemma sample_valid: "\<not> invalid_fd 5" "\<not> invalid_fd 6"
  by (simp_all add: invalid_fd_def ITEMS_MAX_SIZE_def)

lemma sample_awaits_request:
  assumes "sel_inv s" "owner_of s = [5 \<mapsto> (H_Socks5, 0)]"
  shows "awaiting 2 sample_key 0 sample_request (sample_net s sample_request rs ss ns fs cs us)"
proof -
  have "\<exists>h. c_req sample_request = Some h \<and> conn_rel CV_Start h"
    using conn_rel_init [of "replicate 256 0"] by (auto simp: sample_request_def conn_req_parser_init_def)
  with assms show ?thesis by (simp add: awaiting_def connected_def sample_valid)
qed

theorem connect_served_witness:
  "\<exists>w w0 w1 w2 w3 c3. os_recv (w_os w) = [Recv [5, 1, 0, 1, 10, 0, 0, 2, 0, 80]] \<and> socksv5_read sample_key w = Inr w0 \<and>
     w1 = w0 \<and> socksv5_block sample_key w1 = Inr w2 \<and> handle_write_connecting \<lparr>k_fd = 6, k_data = Some 0\<rparr> w2 = Inr w3 \<and>
     relay_ok 0 5 6 c3 w3 \<and> Ev_Resolve (dotted [10, 0, 0, 2]) (decimal 80) AF_INET AI_NUMERICHOST \<in> set (os_trace (w_os w3)) \<and>
     Ev_Connect 6 (Sock_In [10, 0, 0, 2] 0x5000) \<in> set (os_trace (w_os w3))"
proof -
  obtain s where s: "sel_inv s" "owner_of s = [5 \<mapsto> (H_Socks5, 0)]" "interest_of s = [5 \<mapsto> OP_READ]" using sample_selector by blast
  let ?w = "sample_net s sample_request [Recv [5, 1, 0, 1, 10, 0, 0, 2, 0, 80]] [Sent 22] [Some [Sock_In [10, 0, 0, 2] 0x5000]]
    [6] [EINPROGRESS] [(True, 0)]"
  have rec: "os_recv (w_os ?w) = Recv (encode_request 1 (Addr_IPv4 [10, 0, 0, 2]) 0 80 @ []) # []"
    by (simp add: encode_request_def)
  have calm: "calm (w_os ?w)" by (simp add: calm_def)
  obtain w0 w1 w2 w3 c3 where "socksv5_read sample_key ?w = Inr w0" "w0 = w1" "socksv5_block sample_key w1 = Inr w2"
    "handle_write_connecting \<lparr>k_fd = 6, k_data = Some 0\<rparr> w2 = Inr w3" "relay_ok 0 (k_fd sample_key) 6 c3 w3"
    "Ev_Resolve (dotted [10, 0, 0, 2]) (decimal 80) AF_INET AI_NUMERICHOST \<in> set (os_trace (w_os w3))"
    "Ev_Connect 6 (Sock_In [10, 0, 0, 2] 0x5000) \<in> set (os_trace (w_os w3))"
    using connect_served [OF sample_awaits_request [OF s(1,2)] _ _ _ _ _ rec _ _ _ _ _ _ _ calm _ _ sample_valid(2) _ sample_registering,
        where ai = "Sock_In [10, 0, 0, 2] 0x5000" and ais = "[]" and rq = "[]" and sq = "[]" and cq = "[]" and oq = "[]" and q = "[]"] s(3)
    by (auto simp: encode_request_def)
  then show ?thesis
    by - (rule exI [of _ ?w], rule exI [of _ w0], rule exI [of _ w1], rule exI [of _ w2], rule exI [of _ w3], rule exI [of _ c3], simp)
qed

text \<open>The same connection with its target looked up, and with a socket in progress.\<close>

lemma sample_resolved:
  "\<exists>s. interest_of s 6 = None \<and> (\<forall>ais rs ss ns fs cs us. resolved sample_key 0 ais (sample_request\<lparr>c_stm := Some (machine 3), c_addr_info := ais\<rparr>)
     (sample_net s (sample_request\<lparr>c_stm := Some (machine 3), c_addr_info := ais\<rparr>) rs ss ns fs cs us))"
proof -
  obtain s where s: "sel_inv s" "owner_of s = [5 \<mapsto> (H_Socks5, 0)]" "interest_of s = [5 \<mapsto> OP_READ]" using sample_selector by blast
  have b: "buffer_inv (c_in sample_request)" using sample_request_sel(3) by (simp add: idle_def)
  show ?thesis
    using s b by (intro exI [of _ "(sel_set 5 OP_NOOP s)\<lparr>resolution_jobs := [5]\<rparr>"]) (simp add: resolved_def sample_valid)
qed

lemma sample_dialing:
  "\<exists>s. \<forall>ais rs ss ns fs cs us. dialing 0 5 6 ais (sample_request\<lparr>c_stm := Some (machine 3), c_addr_info := ais, c_origin_fd := 6\<rparr>)
     (sample_net s (sample_request\<lparr>c_stm := Some (machine 3), c_addr_info := ais, c_origin_fd := 6\<rparr>) rs ss ns fs cs us)"
proof -
  obtain s where s: "sel_inv s" "owner_of s = [5 \<mapsto> (H_Socks5, 0)]" "interest_of s = [5 \<mapsto> OP_READ]" using sample_selector by blast
  have b: "buffer_inv (c_in sample_request)" using sample_request_sel(3) by (simp add: idle_def)
  have n: "sel_inv (sel_set 5 OP_NOOP s)" "interest_of (sel_set 5 OP_NOOP s) 6 = None" using s by simp_all
  show ?thesis
    using s b sel_reg_free [OF n(1) sample_valid(2) n(2), where h = H_Connecting and i = OP_WRITE and p = 0]
    by (intro exI [of _ "sel_reg 6 H_Connecting OP_WRITE 0 (sel_set 5 OP_NOOP s)"]) (simp add: dialing_def sample_valid)
qed

theorem connect_error_reported_witness:
  "\<exists>w w1 w2. os_sockopt (w_os w) = [(True, ECONNREFUSED)] \<and> handle_write_connecting \<lparr>k_fd = 6, k_data = Some 0\<rparr> w = Inr w1 \<and>
     socksv5_write \<lparr>k_fd = 5, k_data = Some 0\<rparr> w1 = Inr w2 \<and>
     os_trace (w_os w2) = [Ev_Close 6, Ev_Close 6, Ev_Send 5 [5, 4, 0, 1, 0, 0, 0, 0, 0, 0], Ev_Close 5]"
proof -
  obtain s where s: "\<And>ais rs ss ns fs cs us. dialing 0 5 6 ais (sample_request\<lparr>c_stm := Some (machine 3), c_addr_info := ais, c_origin_fd := 6\<rparr>)
     (sample_net s (sample_request\<lparr>c_stm := Some (machine 3), c_addr_info := ais, c_origin_fd := 6\<rparr>) rs ss ns fs cs us)"
    using sample_dialing by blast
  let ?c = "sample_request\<lparr>c_stm := Some (machine 3), c_addr_info := [], c_origin_fd := 6\<rparr>"
  let ?w = "sample_net s ?c [] [Sent 10] [] [] [] [(True, ECONNREFUSED)]"
  have e: "ECONNREFUSED \<noteq> 0" "get_code 0 = SOCKS5_REP_HOST_UNREACHABLE"
    by (simp_all add: get_code_def ECONNREFUSED_def ENETUNREACH_def EHOSTUNREACH_def ETIMEDOUT_def)
  obtain w1 w2 where "handle_write_connecting \<lparr>k_fd = 6, k_data = Some 0\<rparr> ?w = Inr w1"
     "socksv5_write \<lparr>k_fd = 5, k_data = Some 0\<rparr> w1 = Inr w2"
     "os_trace (w_os w2) = [Ev_Close 6, Ev_Close 6, Ev_Send 5 [5, 4, 0, 1, 0, 0, 0, 0, 0, 0], Ev_Close 5]"
    using connect_error_reported [OF s [of "[]" "[]" "[Sent 10]" "[]" "[]" "[]" "[(True, ECONNREFUSED)]"] _ e(1) _ _ sample_registering,
        where q = "[]" and oq = "[]"] e
    by auto
  then show ?thesis by - (rule exI [of _ ?w], rule exI [of _ w1], rule exI [of _ w2], simp)
qed

theorem retry_needs_same_descriptor_witness:
  "\<exists>w w' c'. handle_write_connecting \<lparr>k_fd = 6, k_data = Some 0\<rparr> w = Inr w' \<and> conn_get 0 w' = Inr c' \<and> c_origin_fd c' = 6 \<and>
     dialing 0 5 6 [] c' w'"
proof -
  obtain s where s: "\<And>ais rs ss ns fs cs us. dialing 0 5 6 ais (sample_request\<lparr>c_stm := Some (machine 3), c_addr_info := ais, c_origin_fd := 6\<rparr>)
     (sample_net s (sample_request\<lparr>c_stm := Some (machine 3), c_addr_info := ais, c_origin_fd := 6\<rparr>) rs ss ns fs cs us)"
    using sample_dialing by blast
  let ?a = "Sock_In [10, 0, 0, 2] 0x5000"
  let ?c = "sample_request\<lparr>c_stm := Some (machine 3), c_addr_info := [?a], c_origin_fd := 6\<rparr>"
  let ?w = "sample_net s ?c [] [] [] [6] [EINPROGRESS] [(True, ECONNREFUSED)]"
  have e: "ECONNREFUSED \<noteq> 0" by (simp add: ECONNREFUSED_def)
  obtain w' c' where "handle_write_connecting \<lparr>k_fd = 6, k_data = Some 0\<rparr> ?w = Inr w'" "conn_get 0 w' = Inr c'" "c_origin_fd c' = 6"
    "dialing 0 5 6 [] c' w'"
    using retry_needs_same_descriptor [OF s [of "[?a]" "[]" "[]" "[]" "[6]" "[EINPROGRESS]" "[(True, ECONNREFUSED)]"] _ e, of "[]" 6 "[]" "[]"]
    by auto
  then show ?thesis by - (rule exI [of _ ?w], rule exI [of _ w'], rule exI [of _ c'], simp)
qed

theorem resolution_failure_reported_witness:
  "\<exists>w w1 w2. socksv5_block sample_key w = Inr w1 \<and> socksv5_write sample_key w1 = Inr w2 \<and>
     os_trace (w_os w2) = [Ev_Send 5 [5, 4, 0, 1, 0, 0, 0, 0, 0, 0], Ev_Close 5]"
proof -
  obtain s where s: "\<And>ais rs ss ns fs cs us. resolved sample_key 0 ais (sample_request\<lparr>c_stm := Some (machine 3), c_addr_info := ais\<rparr>)
     (sample_net s (sample_request\<lparr>c_stm := Some (machine 3), c_addr_info := ais\<rparr>) rs ss ns fs cs us)"
    using sample_resolved by blast
  let ?c = "sample_request\<lparr>c_stm := Some (machine 3), c_addr_info := []\<rparr>"
  let ?w = "sample_net s ?c [] [Sent 10] [] [] [] []"
  obtain w1 w2 where "socksv5_block sample_key ?w = Inr w1" "socksv5_write sample_key w1 = Inr w2"
    "os_trace (w_os w2) = [Ev_Send 5 [5, 4, 0, 1, 0, 0, 0, 0, 0, 0], Ev_Close 5]"
    using resolution_failure_reported [OF s [of "[]" "[]" "[Sent 10]" "[]" "[]" "[]" "[]"] _ _ sample_registering, where q = "[]"] by auto
  then show ?thesis by - (rule exI [of _ ?w], rule exI [of _ w1], rule exI [of _ w2], simp)
qed

theorem immediate_failure_use_after_free_witness:
  "\<exists>w. os_connect (w_os w) = [ENETUNREACH] \<and> socksv5_block sample_key w = Inl Use_After_Free"
proof -
  obtain s where s: "interest_of s 6 = None" "\<And>ais rs ss ns fs cs us. resolved sample_key 0 ais (sample_request\<lparr>c_stm := Some (machine 3), c_addr_info := ais\<rparr>)
     (sample_net s (sample_request\<lparr>c_stm := Some (machine 3), c_addr_info := ais\<rparr>) rs ss ns fs cs us)"
    using sample_resolved by blast
  let ?a = "Sock_In [10, 0, 0, 2] 0x5000"
  let ?c = "sample_request\<lparr>c_stm := Some (machine 3), c_addr_info := [?a]\<rparr>"
  let ?w = "sample_net s ?c [] [] [] [6] [ENETUNREACH] []"
  have "socksv5_block sample_key ?w = Inl Use_After_Free"
    using immediate_failure_use_after_free [OF s(2) [of "[?a]" "[]" "[]" "[]" "[6]" "[ENETUNREACH]" "[]"], of 6 "[]" ENETUNREACH "[]"] s(1)
    by (simp add: ENETUNREACH_def EINPROGRESS_def)
  then show ?thesis by - (rule exI [of _ ?w], simp)
qed

end
