(* ===== verification/Loops.thy ===== *)
theory Loops
  imports Negotiation
begin

text \<open>
  The three loops that read messages come to their end: each iteration takes a byte of the input buffer, and
  nothing that a handler does on the way (writing a reply, stepping the machine, closing descriptors) puts bytes
  back.  So the iterations the loops are given are enough, and more of them change nothing.
\<close>

section \<open>What leaves the input buffer alone\<close>

text \<open>The connection \<open>p\<close> has the same input buffer in \<open>w'\<close> as in \<open>w\<close>, unless it was released.\<close>

definition same_in :: "nat \<Rightarrow> world \<Rightarrow> world \<Rightarrow> bool" where
  "same_in p w w' \<longleftrightarrow> (\<forall>c'. conn_get p w' = Inr c' \<longrightarrow> (\<exists>c. conn_get p w = Inr c \<and> c_in c' = c_in c))"

lemma same_in_refl [simp, intro]: "same_in p w w"
  by (simp add: same_in_def)

lemma same_in_trans: "same_in p w w1 \<Longrightarrow> same_in p w1 w2 \<Longrightarrow> same_in p w w2"
  unfolding same_in_def by metis

lemma same_in_heap: "w_heap w' = w_heap w \<Longrightarrow> same_in p w w'"
  by (simp add: same_in_def conn_get_def)

definition kept :: "nat \<Rightarrow> world \<Rightarrow> world res \<Rightarrow> bool" where
  "kept p w r \<longleftrightarrow> (\<forall>w'. r = Inr w' \<longrightarrow> same_in p w w')"

definition kept_with :: "nat \<Rightarrow> world \<Rightarrow> ('a \<times> world) res \<Rightarrow> bool" where
  "kept_with p w r \<longleftrightarrow> (\<forall>a w'. r = Inr (a, w') \<longrightarrow> same_in p w w')"

named_theorems kept_intros \<open>operations that leave the input buffers alone\<close>

lemma kept_return [kept_intros]:
  "kept p w (Inl e)" "kept_with p w (Inl e)" "same_in p w w' \<Longrightarrow> kept p w (Inr w')" "same_in p w w' \<Longrightarrow> kept_with p w (Inr (a, w'))"
  by (simp_all add: kept_def kept_with_def)

lemma kept_step:
  "kept p w r \<Longrightarrow> (\<And>w'. kept p w' (f w')) \<Longrightarrow> kept p w (bind_res r f)"
  "kept p w r \<Longrightarrow> (\<And>w'. kept_with p w' (g w')) \<Longrightarrow> kept_with p w (bind_res r g)"
  "kept_with p w s \<Longrightarrow> (\<And>a w'. kept p w' (h (a, w'))) \<Longrightarrow> kept p w (bind_res s h)"
  "kept_with p w s \<Longrightarrow> (\<And>a w'. kept_with p w' (k (a, w'))) \<Longrightarrow> kept_with p w (bind_res s k)"
  unfolding kept_def kept_with_def by (auto simp: bind_res_eq_Inr intro: same_in_trans)

lemma kept_read:
  "(\<And>x. kept p w (f x)) \<Longrightarrow> kept p w (bind_res r f)"
  "(\<And>x. kept_with p w (g x)) \<Longrightarrow> kept_with p w (bind_res r g)"
  unfolding kept_def kept_with_def by (auto simp: bind_res_eq_Inr)

lemma kept_cases [kept_intros]:
  "(b \<Longrightarrow> kept p w r) \<Longrightarrow> (\<not> b \<Longrightarrow> kept p w s) \<Longrightarrow> kept p w (if b then r else s)"
  "(b \<Longrightarrow> kept_with p w r') \<Longrightarrow> (\<not> b \<Longrightarrow> kept_with p w s') \<Longrightarrow> kept_with p w (if b then r' else s')"
  by auto

lemma kept_split: "(\<And>a b. kept p w (f a b)) \<Longrightarrow> kept p w (case x of (a, b) \<Rightarrow> f a b)"
  by (cases x) simp

lemma kept_let: "kept p w (f x) \<Longrightarrow> kept p w (Let x f)"
  by simp

lemma kept_after: "same_in p w v \<Longrightarrow> kept p v r \<Longrightarrow> kept p w r"
  unfolding kept_def by (auto intro: same_in_trans)

section \<open>The operations\<close>

lemma kept_conn_upd: "(\<And>c. c_in (f c) = c_in c) \<Longrightarrow> kept p w (conn_upd q f w)"
  by (auto simp: kept_def same_in_def conn_upd_def bind_res_eq_Inr conn_get_def nth_list_update split: option.splits if_splits)

lemma kept_conn_free: "kept p w (conn_free q w)"
  by (auto simp: kept_def same_in_def conn_free_def bind_res_eq_Inr conn_get_def nth_list_update split: option.splits if_splits)

lemma kept_heap: "(\<And>w'. r = Inr w' \<Longrightarrow> w_heap w' = w_heap w) \<Longrightarrow> kept p w r"
  by (simp add: kept_def same_in_heap)

lemma kept_metrics: "kept p w (metrics_upd f w)"
  by (rule kept_heap) (auto simp: metrics_upd_def split: option.splits)

lemma kept_set_interest: "kept p w (set_interest fd i w)"
  by (rule kept_heap) (auto simp: set_interest_def set_interest_status_def bind_res_eq_Inr)

lemma sys_heap [simp]:
  "w_heap (sys_close fd w) = w_heap w" "w_heap (emit e w) = w_heap w" "w_heap (set_errno n w) = w_heap w"
  "w_heap (snd (sys_alloc w)) = w_heap w" "w_heap (snd (sys_send fd bs w)) = w_heap w"
  by (auto simp: sys_close_def emit_def set_errno_def sys_alloc_def sys_send_def Let_def split: prod.splits send_result.splits)

lemma kept_socks_close: "kept p w (socksv5_close fd d w)"
  unfolding socksv5_close_def Let_def
  by (intro kept_read(1), clarify, rule kept_after [OF same_in_heap], rule sys_heap(1), intro kept_step(1) kept_conn_free)
    (rule kept_after [OF same_in_heap kept_metrics], simp)

lemma kept_admin_close: "kept p w (admin_close fd d w)"
  by (rule kept_heap) (auto simp: admin_close_def admin_free_def key_admin_def bind_res_eq_Inr split: option.splits)

lemma kept_close: "handler_close h = Some f \<Longrightarrow> kept p w (f fd d w)"
  by (cases h) (auto intro: kept_socks_close kept_admin_close)

lemma kept_unregister: "kept p w (unregister_fd fd w)"
proof -
  have "same_in p w w'" if "selector_unregister_fd handler_close (w_sel w) fd w = Inr (st, s, w')" for st s w'
    using that kept_close unfolding kept_def
    by (fastforce simp: selector_unregister_fd_def bind_res_eq_Inr Let_def split: if_splits option.splits)
  then have "same_in p w (w'\<lparr>w_sel := s\<rparr>)" if "selector_unregister_fd handler_close (w_sel w) fd w = Inr (st, s, w')" for st s w'
    using that by (auto simp: same_in_def)
  then show ?thesis by (auto simp: kept_def unregister_fd_def unregister_def bind_res_eq_Inr)
qed

lemma kept_register: "kept_with p w (register_fd fd h i d w)"
  by (auto simp: kept_with_def register_fd_def bind_res_eq_Inr Let_def sys_alloc_def intro!: same_in_heap split: prod.splits if_splits)

lemmas kept_ops = kept_metrics kept_set_interest kept_unregister

lemma kept_stm_put: "kept p w (stm_put key m w)"
  unfolding stm_put_def by (intro kept_read(1), clarify) (rule kept_conn_upd, simp)

lemma kept_alloc: "kept p (snd (sys_alloc w)) r \<Longrightarrow> kept p w r"
  by (rule kept_after [OF same_in_heap]) simp_all

section \<open>The machine\<close>

lemma kept_arrivals:
  "kept p w (handshake_on_arrival s key w)" "kept p w (auth_on_arrival s key w)" "kept p w (connection_req_on_arrival s key w)"
  "kept p w (copy_on_arrival s key w)" "kept p w (handle_done s key w)" "kept p w (handle_error s key w)"
  "kept p w (handshake_on_departure s key w)" "kept p w (auth_on_departure s key w)"
  "kept p w (connection_req_on_departure s key w)" "kept p w (copy_on_departure s key w)"
proof -
  have parser: "kept p w (let (a1, w) = sys_alloc w; (a2, w) = (if a1 then sys_alloc w else (False, w)) in conn_upd q (f a1 a2 w) w)"
    if "\<And>a b w c. c_in (f a b w c) = c_in c" for f :: "bool \<Rightarrow> bool \<Rightarrow> world \<Rightarrow> socks5_conn \<Rightarrow> socks5_conn" and q w
  proof -
    obtain a1 w1 where 1: "sys_alloc w = (a1, w1)" by (cases "sys_alloc w")
    obtain a2 w2 where 2: "(if a1 then sys_alloc w1 else (False, w1)) = (a2, w2)" by (cases "if a1 then sys_alloc w1 else (False, w1)")
    have h1: "w_heap w1 = w_heap w" using sys_heap(4) [of w] 1 by simp
    have "w_heap w2 = w_heap w1"
    proof (cases a1)
      case True
      with 2 have "sys_alloc w1 = (a2, w2)" by simp
      then show ?thesis using sys_heap(4) [of w1] by simp
    qed (use 2 in simp)
    with h1 have "same_in p w w2" by (intro same_in_heap) simp
    moreover have "kept p w2 (conn_upd q (f a1 a2 w2) w2)" by (rule kept_conn_upd) (rule that)
    ultimately show ?thesis using 1 2 by (simp add: kept_after)
  qed
  show "kept p w (handshake_on_arrival s key w)"
    unfolding handshake_on_arrival_def by (intro kept_read(1), clarify) (rule parser, simp)
  show "kept p w (auth_on_arrival s key w)"
    unfolding auth_on_arrival_def Let_def [of "os_junk _"] by (intro kept_read(1), clarify) (rule parser, simp)
  show "kept p w (connection_req_on_arrival s key w)"
    unfolding connection_req_on_arrival_def by (intro kept_read(1), clarify) (rule parser, simp)
  show "kept p w (copy_on_arrival s key w)"
    unfolding copy_on_arrival_def by (intro kept_read(1), clarify) (intro kept_step(3) kept_register, simp add: kept_return)
  have both: "kept p w (close_both key w)" for w
  proof (cases "k_data key")
    case (Some q)
    show ?thesis
      unfolding close_both_def Some option.case
      by (rule kept_read(1), rule kept_step(1), (intro kept_cases(1) kept_unregister kept_return(3) same_in_refl), rule kept_read(1))
        (intro kept_cases(1) kept_unregister kept_return(3) same_in_refl)
  qed (simp add: close_both_def kept_return)
  then show "kept p w (handle_done s key w)" "kept p w (handle_error s key w)" by (simp_all add: handle_done_def handle_error_def)
  show "kept p w (handshake_on_departure s key w)" "kept p w (auth_on_departure s key w)" "kept p w (connection_req_on_departure s key w)"
    unfolding handshake_on_departure_def auth_on_departure_def connection_req_on_departure_def
    by (intro kept_read(1), clarify, intro kept_read(1) kept_conn_upd, auto)+
  show "kept p w (copy_on_departure s key w)"
    unfolding copy_on_departure_def by (intro kept_read(1), clarify) (rule kept_unregister)
qed

lemma kept_rows:
  assumes "d \<in> set write_states"
  shows "on_arrival d = Some f \<Longrightarrow> kept p w (f s key w)" "on_departure d = Some f \<Longrightarrow> kept p w (f s key w)"
    "on_write_ready d = Some g \<Longrightarrow> kept_with p w (g key w)"
  using assms
  by (auto simp: write_states_def states_with_def state_row_def intro: kept_arrivals)
    (auto simp: kept_with_def handshake_write_def auth_write_def connection_req_write_def connecting_write_def
      bind_res_eq_Inr split: if_splits option.splits)

lemma kept_arrive: "kept p w (arrive write_states i key w)"
proof (cases "mem_get write_states i")
  case (Inr d)
  then show ?thesis
    using kept_rows(1) [OF mem_get_in [OF Inr]] by (cases "on_arrival d") (simp_all add: arrive_def kept_return)
qed (simp add: arrive_def kept_return)

lemma kept_depart: "kept p w (depart write_states c key w)"
proof (cases c)
  case (Some i)
  show ?thesis
  proof (cases "mem_get write_states i")
    case (Inr d)
    then show ?thesis
      using Some kept_rows(2) [OF mem_get_in [OF Inr]] by (cases "on_departure d") (simp_all add: depart_def kept_return)
  qed (simp add: depart_def Some kept_return)
qed (simp add: depart_def kept_return)

lemma kept_jump: "kept p w (jump write_states (stm_get key) (stm_put key) n key w)"
  unfolding jump_def
  by (rule kept_read(1)) (intro kept_cases(1) kept_return same_in_refl kept_step(1) kept_depart, rule kept_read(1),
    intro kept_step(1) kept_stm_put kept_arrive)

lemma kept_handle_first: "kept p w (handle_first write_states (stm_get key) (stm_put key) key w)"
  unfolding handle_first_def
  by (rule kept_read(1)) (intro kept_cases(1) kept_step(1) kept_stm_put kept_arrive kept_return(3) same_in_refl)

lemma kept_stm_write: "kept_with p w (stm_handler_write write_states (stm_get key) (stm_put key) key w)"
proof -
  have row: "kept_with p w (case on_write_ready d of None \<Rightarrow> Inl Aborted | Some f \<Rightarrow>
      bind_res (f key w) (\<lambda>(ret, w). bind_res (jump write_states (stm_get key) (stm_put key) ret key w) (\<lambda>w. Inr (ret, w))))"
    if "d \<in> set write_states" for d w
  proof (cases "on_write_ready d")
    case (Some f)
    show ?thesis
      unfolding Some option.case
      by (rule kept_step(4), rule kept_rows(3) [OF that Some], unfold prod.case, rule kept_step(2), rule kept_jump)
        (simp add: kept_return)
  qed (simp add: kept_return)
  have "kept_with p w (bind_res (stm_get key w) (\<lambda>m. case current m of None \<Rightarrow> Inl Null_Deref | Some i \<Rightarrow>
      bind_res (mem_get write_states i) (\<lambda>d. case on_write_ready d of None \<Rightarrow> Inl Aborted | Some f \<Rightarrow>
      bind_res (f key w) (\<lambda>(ret, w). bind_res (jump write_states (stm_get key) (stm_put key) ret key w) (\<lambda>w. Inr (ret, w))))))" for w
  proof (rule kept_read(2))
    fix m
    show "kept_with p w (case current m of None \<Rightarrow> Inl Null_Deref | Some i \<Rightarrow>
      bind_res (mem_get write_states i) (\<lambda>d. case on_write_ready d of None \<Rightarrow> Inl Aborted | Some f \<Rightarrow>
      bind_res (f key w) (\<lambda>(ret, w). bind_res (jump write_states (stm_get key) (stm_put key) ret key w) (\<lambda>w. Inr (ret, w)))))"
    proof (cases "current m")
      case (Some i)
      then show ?thesis
        using row [OF mem_get_in] by (cases "mem_get write_states i") (simp_all add: kept_return)
    qed (simp add: kept_return)
  qed
  then show ?thesis
    unfolding stm_handler_defs by (intro kept_step(2) kept_handle_first)
qed

section \<open>Writing to the client\<close>

lemma kept_drop_both: "kept p w (drop_both key w)"
  unfolding drop_both_def
  by (rule kept_read(1), clarify, rule kept_step(1), intro kept_cases(1) kept_unregister kept_return(3) same_in_refl)
    (rule kept_read(1), rule kept_unregister)

lemma kept_send_done: "kept p w (socksv5_send_done key k full w)"
  unfolding socksv5_send_done_def
  apply (rule kept_step(1), rule kept_metrics)
  apply (rule kept_read(1), clarify, rule kept_read(1))
  apply (rule kept_step(1), rule kept_conn_upd, simp)
  apply (rule kept_step(1), rule kept_set_interest)
  apply (rule kept_step(1), intro kept_cases(1) kept_set_interest kept_return(3) same_in_refl)
  apply (rule kept_step(1), intro kept_cases(1) kept_set_interest kept_return(3) same_in_refl)
  apply (rule kept_read(1), rule kept_step(1), rule kept_conn_upd, simp)
  apply (rule kept_read(1), intro kept_cases(1) kept_return(3) same_in_refl)
  apply (rule kept_step(3), rule kept_stm_write, simp add: kept_return)
  done

lemma kept_write: "kept p w (socksv5_write key w)"
proof -
  have out: "kept p w (let (r, w) = sys_send fd bs w in case r of
      Sent k \<Rightarrow> if k > 0 then socksv5_send_done key k full w else Inr w
    | Send_Error e \<Rightarrow> if e \<noteq> EAGAIN then bind_res (metrics_upd metrics_inc_errors w) (drop_both key) else Inr w)"
    for fd bs full w
  proof -
    obtain r v where rv: "sys_send fd bs w = (r, v)" by (cases "sys_send fd bs w")
    have "kept p v (case r of Sent k \<Rightarrow> if k > 0 then socksv5_send_done key k full v else Inr v
      | Send_Error e \<Rightarrow> if e \<noteq> EAGAIN then bind_res (metrics_upd metrics_inc_errors v) (drop_both key) else Inr v)"
      by (cases r) (simp_all add: kept_send_done kept_return kept_step(1) [OF kept_metrics kept_drop_both])
    moreover have "same_in p w v" using sys_heap(5) [of fd bs w] rv by (intro same_in_heap) simp
    ultimately show ?thesis using rv by (simp add: kept_after)
  qed
  show ?thesis
    unfolding socksv5_write_def
    by (rule kept_read(1), rule kept_split, rule kept_cases(1), rule kept_set_interest, rule kept_let, rule kept_read(1),
        rule kept_split, rule out)
qed

section \<open>The loops\<close>

text \<open>One iteration takes at least one byte.\<close>

definition shrinks :: "(key \<Rightarrow> world \<Rightarrow> loop_step res) \<Rightarrow> bool" where
  "shrinks body \<longleftrightarrow> (\<forall>key w p c w'. key_conn key w = Inr (p, c) \<longrightarrow> buffer_can_read (c_in c) \<longrightarrow>
     body key w = Inr (Continue w') \<longrightarrow> buffered key w' < buffered key w)"

lemma read_loop_fuel:
  assumes "shrinks body" "buffered key w < n" "buffered key w < m"
  shows "read_loop body fin n key w = read_loop body fin m key w"
  using assms(2,3)
proof (induction n arbitrary: m w)
  case (Suc n)
  then obtain m' where m: "m = Suc m'" by (cases m) auto
  show ?case
  proof (cases "key_conn key w")
    case (Inr x)
    obtain p c where x: "x = (p, c)" by (cases x)
    show ?thesis
    proof (cases "buffer_can_read (c_in c) \<and> (\<exists>w'. body key w = Inr (Continue w'))")
      case True
      then obtain w' where w': "body key w = Inr (Continue w')" by blast
      then have "buffered key w' < buffered key w"
        using assms(1) Inr x True unfolding shrinks_def by blast
      with Suc.prems m have "buffered key w' < n" "buffered key w' < m'" by linarith+
      with Suc.IH [of w' m'] Inr x m w' True show ?thesis by simp
    qed (cases "body key w", use Inr x m in \<open>auto split: loop_step.split\<close>)
  qed (use m in simp)
qed simp

lemma buffered_taken:
  assumes "key_conn key w = Inr (p, c)" "buffer_can_read (c_in c)" "next_in key w = Inr (x, q, w')"
  shows "q = p" "k_data key = Some p" "buffered key w' < buffered key w"
proof -
  from assms(1) show k: "k_data key = Some p" by (auto simp: key_conn_def bind_res_eq_Inr split: option.splits)
  from assms(1) k have g: "conn_get p w = Inr c" by (auto simp: key_conn_def bind_res_eq_Inr)
  obtain b where b: "buffer_read (c_in c) = Inr (x, b)" "conn_upd p (\<lambda>c. c\<lparr>c_in := b\<rparr>) w = Inr w'" "q = p"
    using assms(1,3) by (auto simp: next_in_def bind_res_eq_Inr)
  show "q = p" by (rule b(3))
  have "buf_write b - buf_read b < buf_write (c_in c) - buf_read (c_in c)"
    using b(1) assms(2)
    by (auto simp: buffer_read_def bind_res_eq_Inr buffer_read_adv_def buffer_compact_def buffer_can_read_def guard_eq_Inr Let_def
        split: if_splits)
  moreover have "conn_get p w' = Inr (c\<lparr>c_in := b\<rparr>)"
    using b(2) g conn_get_upd [OF g, of "\<lambda>c. c\<lparr>c_in := b\<rparr>"] by (auto simp: conn_get_Inr)
  ultimately show "buffered key w' < buffered key w"
    using g k by (simp add: buffered_def key_conn_def)
qed

lemma kept_buffered: "same_in p w w' \<Longrightarrow> k_data key = Some p \<Longrightarrow> buffered key w' \<le> buffered key w"
  by (auto simp: buffered_def key_conn_def same_in_def split: sum.splits) (auto simp: bind_res_def split: sum.splits)

lemma shrinksI:
  assumes "\<And>key w x p w1 w'. next_in key w = Inr (x, p, w1) \<Longrightarrow> k_data key = Some p \<Longrightarrow> body key w = Inr (Continue w') \<Longrightarrow>
      same_in p w1 w' \<or> buffered key w' = 0"
    and "\<And>key w w'. body key w = Inr w' \<Longrightarrow> \<exists>y. next_in key w = Inr y"
  shows "shrinks body"
  unfolding shrinks_def
proof (intro allI impI)
  fix key w p c w'
  assume a: "key_conn key w = Inr (p, c)" "buffer_can_read (c_in c)" "body key w = Inr (Continue w')"
  obtain x q w1 where n: "next_in key w = Inr (x, q, w1)" using assms(2) [OF a(3)] by (metis prod_cases3)
  note t = buffered_taken [OF a(1,2) n]
  from t(1) n have n': "next_in key w = Inr (x, p, w1)" by simp
  from assms(1) [OF n' t(2) a(3)] kept_buffered [OF _ t(2), of w1 w'] t(3) show "buffered key w' < buffered key w"
    by auto
qed

section \<open>The three bodies\<close>

lemma same_in_upd: "conn_upd q f w = Inr w' \<Longrightarrow> (\<And>c. c_in (f c) = c_in c) \<Longrightarrow> same_in p w w'"
  using kept_conn_upd [of f p w q] by (simp add: kept_def)

lemma kept_greeting: "kept p w (greeting_answer key q h w)"
  unfolding greeting_answer_def Let_def
  by (rule kept_read(1), rule kept_read(1), rule kept_step(1), rule kept_conn_upd, simp, rule kept_step(1), rule kept_set_interest,
      rule kept_step(1), rule kept_conn_upd, simp, rule kept_write)

lemma handshake_shrinks: "shrinks handshake_byte"
proof (rule shrinksI)
  fix key w x p w1 w'
  assume n: "next_in key w = Inr (x, p, w1)" and "handshake_byte key w = Inr (Continue w')"
  then obtain h st w2 where 2: "conn_upd p (\<lambda>c. c\<lparr>c_handshake := Some h\<rparr>) w1 = Inr w2"
      and 3: "greeting_answer key p h w2 = Inr w' \<or> w2 = w'"
    by (auto simp: handshake_byte_def bind_res_eq_Inr split: option.splits if_splits)
  have "same_in p w1 w2" by (rule same_in_upd [OF 2]) simp
  moreover have "same_in p w2 w'" using 3 kept_greeting [of p w2 key p h] by (auto simp: kept_def)
  ultimately show "same_in p w1 w' \<or> buffered key w' = 0" by (blast intro: same_in_trans)
qed (auto simp: handshake_byte_def bind_res_eq_Inr)

text \<open>The answer to a login throws away what else the input buffer holds.\<close>

lemma login_empties:
  assumes "login_answer key p a w = Inr w'" "k_data key = Some p"
  shows "buffered key w' = 0"
proof -
  obtain c b ok u w1 w2 w3 where 1: "conn_get p w = Inr c"
      "conn_upd p (\<lambda>c. c\<lparr>c_out := b, c_in := buffer_reset (c_in c), c_is_error_response := \<not> ok\<rparr>) w = Inr w1"
      "set_interest (k_fd key) OP_WRITE w1 = Inr w2"
      "(if ok then conn_upd p (\<lambda>c. c\<lparr>c_username := u\<rparr>) w2 else Inr w2) = Inr w3" "socksv5_write key w3 = Inr w'"
    using assms(1) unfolding login_answer_def Let_def bind_res_eq_Inr by blast
  have "same_in p w1 w2" using kept_set_interest 1(3) by (simp add: kept_def)
  moreover have "same_in p w2 w3" using 1(4) by (cases ok) (auto intro: same_in_upd)
  moreover have "same_in p w3 w'" using kept_write 1(5) by (simp add: kept_def)
  ultimately have "same_in p w1 w'" by (blast intro: same_in_trans)
  then have "buffered key w' \<le> buffered key w1" by (rule kept_buffered) (rule assms(2))
  moreover have "buffered key w1 = 0"
    using 1(2) assms(2) conn_get_upd [OF 1(1)] by (auto simp: buffered_def key_conn_def buffer_reset_def)
  ultimately show ?thesis by simp
qed

lemma auth_shrinks: "shrinks auth_byte"
proof (rule shrinksI)
  fix key w x p w1 w'
  assume n: "next_in key w = Inr (x, p, w1)" and k: "k_data key = Some p" and "auth_byte key w = Inr (Continue w')"
  then obtain a st w2 where 2: "conn_upd p (\<lambda>c. c\<lparr>c_auth := Some a\<rparr>) w1 = Inr w2"
      and 3: "login_answer key p a w2 = Inr w' \<or> w2 = w'"
    by (auto simp: auth_byte_def bind_res_eq_Inr split: option.splits if_splits)
  have "same_in p w1 w2" by (rule same_in_upd [OF 2]) simp
  then show "same_in p w1 w' \<or> buffered key w' = 0" using 3 login_empties [OF _ k] by auto
qed (auto simp: auth_byte_def bind_res_eq_Inr)

lemma request_returns: "request_received key p r w \<noteq> Inr (Continue w')"
  by (auto simp: request_received_def bind_res_eq_Inr Let_def split: prod.splits if_splits)

lemma conn_req_shrinks: "shrinks conn_req_byte"
proof (rule shrinksI)
  fix key w x p w1 w'
  assume n: "next_in key w = Inr (x, p, w1)" and "conn_req_byte key w = Inr (Continue w')"
  then obtain r where "conn_upd p (\<lambda>c. c\<lparr>c_req := Some r\<rparr>) w1 = Inr w'"
    by (auto simp: conn_req_byte_def bind_res_eq_Inr request_returns split: option.splits if_splits)
  then have "same_in p w1 w'" by (rule same_in_upd) simp
  then show "same_in p w1 w' \<or> buffered key w' = 0" ..
qed (auto simp: conn_req_byte_def bind_res_eq_Inr)

section \<open>The loops come to their end\<close>

lemma loop_enough:
  assumes "shrinks body"
  shows "read_loop body fin (Suc (buffered key w) + k) key w = read_loop body fin (Suc (buffered key w)) key w"
  by (rule read_loop_fuel [OF assms]) simp_all

lemma loop_unfold:
  assumes "shrinks body"
  shows "read_loop body fin (Suc (buffered key w)) key w =
    bind_res (key_conn key w) (\<lambda>(p, c).
      if buffer_can_read (c_in c)
      then bind_res (body key w) (\<lambda>s.
           case s of Continue w \<Rightarrow> read_loop body fin (Suc (buffered key w)) key w | Return st w \<Rightarrow> Inr (st, w))
      else fin key w)"
proof (cases "key_conn key w")
  case (Inr x)
  obtain p c where x: "x = (p, c)" by (cases x)
  show ?thesis
  proof (cases "buffer_can_read (c_in c) \<and> (\<exists>w'. body key w = Inr (Continue w'))")
    case True
    then obtain w' where w': "body key w = Inr (Continue w')" by blast
    then have "buffered key w' < buffered key w"
      using assms Inr x True unfolding shrinks_def by blast
    then have "read_loop body fin (buffered key w) key w' = read_loop body fin (Suc (buffered key w')) key w'"
      by (intro read_loop_fuel [OF assms]) simp_all
    with Inr x w' True show ?thesis by simp
  qed (cases "body key w", use Inr x in \<open>auto split: loop_step.split\<close>)
qed simp

text \<open>
  C18: The three loops \<open>while (buffer_can_read(\<dots>))\<close> that read the greeting, the login and the request end, on every
  world: the iterations they are given are enough (any larger number gives the same result), and each loop
  satisfies the equation of the unbounded loop of the code, in which nothing counts iterations.
\<close>

theorem read_loops_end:
  "read_loop handshake_byte return_current (Suc (buffered key w) + k) key w = handshake_read key w \<and>
   read_loop auth_byte return_current (Suc (buffered key w) + k) key w = auth_read key w \<and>
   read_loop conn_req_byte (\<lambda>key w. Inr (code SOCKS5_CONNECTION_REQ, w)) (Suc (buffered key w) + k) key w =
     connection_req_read key w \<and>
   handshake_read key w = bind_res (key_conn key w) (\<lambda>(p, c).
     if buffer_can_read (c_in c)
     then bind_res (handshake_byte key w) (\<lambda>s. case s of Continue w \<Rightarrow> handshake_read key w | Return st w \<Rightarrow> Inr (st, w))
     else return_current key w) \<and>
   auth_read key w = bind_res (key_conn key w) (\<lambda>(p, c).
     if buffer_can_read (c_in c)
     then bind_res (auth_byte key w) (\<lambda>s. case s of Continue w \<Rightarrow> auth_read key w | Return st w \<Rightarrow> Inr (st, w))
     else return_current key w) \<and>
   connection_req_read key w = bind_res (key_conn key w) (\<lambda>(p, c).
     if buffer_can_read (c_in c)
     then bind_res (conn_req_byte key w) (\<lambda>s. case s of Continue w \<Rightarrow> connection_req_read key w | Return st w \<Rightarrow> Inr (st, w))
     else Inr (code SOCKS5_CONNECTION_REQ, w))"
  unfolding handshake_read_def auth_read_def connection_req_read_def
  by (intro conjI loop_enough loop_unfold handshake_shrinks auth_shrinks conn_req_shrinks)

end
