(* ===== verification/Well_Typed.thy ===== *)
theory Well_Typed
  imports Socks5
begin

text \<open>
  What every value of the server satisfies whatever the clients and the kernel do: the three pointers of
  a buffer are in order and within its block, a parser runs its own table over arrays of the declared sizes,
  a machine is within its states, and the settings and the tables behind the administration are in order.  Every
  operation that returns keeps it.
\<close>

section \<open>Buffers\<close>

lemma write_adv_typed: "buffer_write_adv b n = Inr b' \<Longrightarrow> buffer_inv b \<Longrightarrow> buffer_inv b'"
  by (auto simp: buffer_write_adv_def buffer_inv_def Let_def guard_eq_Inr split: if_splits)

lemma compact_typed: "buffer_compact b = Inr b' \<Longrightarrow> buffer_inv b \<Longrightarrow> buffer_inv b'"
  using buffer_compact_ok [of b] same_block_inv by auto

lemma read_adv_typed: "buffer_read_adv b n = Inr b' \<Longrightarrow> buffer_inv b \<Longrightarrow> buffer_inv b'"
  by (auto simp: buffer_read_adv_def buffer_compact_def buffer_inv_def Let_def guard_eq_Inr split: if_splits)

lemma read_typed: "buffer_read b = Inr (x, b') \<Longrightarrow> buffer_inv b \<Longrightarrow> buffer_inv b'"
  by (auto simp: buffer_read_def bind_res_eq_Inr intro: read_adv_typed split: if_splits)

lemma filled_typed:
  "mem_write (buf_data b) i xs = Inr d \<Longrightarrow> buffer_inv b \<Longrightarrow> buffer_inv (b\<lparr>buf_data := d\<rparr>)"
  using length_mem_write [of "buf_data b" i xs d] by (simp add: buffer_inv_def)

lemma recv_typed: "buffer_recv b bs = Inr b' \<Longrightarrow> buffer_inv b \<Longrightarrow> buffer_inv b'"
  by (auto simp: buffer_recv_def bind_res_eq_Inr intro: write_adv_typed filled_typed)

lemma struct_typed: "buffer_write_struct b bs n = Inr b' \<Longrightarrow> buffer_inv b \<Longrightarrow> buffer_inv b'"
  by (auto simp: buffer_write_struct_def bind_res_eq_Inr guard_eq_Inr intro: write_adv_typed filled_typed split: if_splits)

lemmas buffers_typed = compact_typed read_adv_typed read_typed recv_typed struct_typed write_adv_typed

lemma null_typed: "buffer_inv null_buffer"
  by (simp add: null_buffer_def buffer_inv_def)

section \<open>Parsers\<close>

text \<open>The motor is missing where its allocation failed.\<close>

definition handshake_typed :: "handshake_parser \<Rightarrow> bool" where
  "handshake_typed h \<longleftrightarrow> (\<forall>m. hp_parser h = Some m \<longrightarrow> motor_ok handshake_parser_definition m)"

definition auth_typed :: "auth_parser \<Rightarrow> bool" where
  "auth_typed a \<longleftrightarrow> (\<forall>m. ap_parser a = Some m \<longrightarrow> motor_ok auth_parser_definition m) \<and>
     length (auth_parser.username a) = MAX_USERNAME_LEN \<and> length (auth_parser.password a) = MAX_PASSWORD_LEN"

definition req_typed :: "conn_req_parser \<Rightarrow> bool" where
  "req_typed r \<longleftrightarrow> (\<forall>m. cp_parser r = Some m \<longrightarrow> motor_ok conn_req_parser_definition m) \<and> length (dst_addr r) = 256"

lemma motor_of_init:
  "map_of (def_states d) (def_start d) \<noteq> None \<Longrightarrow> parser_init a parser_no_classes d = Some m \<Longrightarrow> motor_ok d m"
  using motor_ok_init by (cases a) (auto simp: parser_init_def)

lemma inits_typed:
  "handshake_parser_init a b = Some h \<Longrightarrow> handshake_typed h"
  "auth_parser_init a b u v = Some x \<Longrightarrow> MAX_USERNAME_LEN \<le> length u \<Longrightarrow> MAX_PASSWORD_LEN \<le> length v \<Longrightarrow> auth_typed x"
  "conn_req_parser_init a b u = Some r \<Longrightarrow> 256 \<le> length u \<Longrightarrow> req_typed r"
  using handshake_state_in_table auth_state_in_table conn_req_state_in_table
  by (auto simp: handshake_parser_init_def handshake_typed_def auth_parser_init_def auth_typed_def conn_req_parser_init_def
      req_typed_def intro!: motor_of_init split: if_splits)

text \<open>The byte 255 is a fault of the motor, so a parser that returns was fed another one.\<close>

lemma handshake_feed_typed:
  assumes "handshake_parser_feed h c = Inr (h', st)" "handshake_typed h"
  shows "handshake_typed h'"
proof -
  obtain m m' e where m: "hp_parser h = Some m" "parser_feed m c = Inr (m', e)"
    using assms(1) by (auto simp: handshake_parser_feed_def bind_res_eq_Inr split: option.splits)
  have ok: "motor_ok handshake_parser_definition m" using m(1) assms(2) by (simp add: handshake_typed_def)
  then have "c \<noteq> 255" using motor_255 m(2) by fastforce
  from handshake_motor [OF ok this] m(2) have "motor_ok handshake_parser_definition m'" by auto
  then show ?thesis
    using assms m by (auto simp: handshake_parser_feed_def handshake_typed_def Let_def split: handshake_state.splits if_splits)
qed

lemma auth_feed_typed:
  assumes "auth_parser_feed a c = Inr (a', st)" "auth_typed a"
  shows "auth_typed a'"
proof -
  obtain m m' e where m: "ap_parser a = Some m" "parser_feed m c = Inr (m', e)"
    using assms(1) by (auto simp: auth_parser_feed_def bind_res_eq_Inr split: option.splits)
  have ok: "motor_ok auth_parser_definition m" using m(1) assms(2) by (simp add: auth_typed_def)
  then have "c \<noteq> 255" using motor_255 m(2) by fastforce
  from auth_motor [OF ok this] m(2) have ok': "motor_ok auth_parser_definition m'" by auto
  then show ?thesis
    using assms m motor_ok_set [OF ok' auth_state_in_table]
    by (auto simp: auth_parser_feed_def auth_typed_def Let_def bind_res_eq_Inr mem_put_def guard_eq_Inr
        split: auth_state.splits if_splits)
qed

lemma req_feed_typed:
  assumes "conn_req_parser_feed r c = Inr (r', st)" "req_typed r"
  shows "req_typed r'"
proof -
  obtain m m' e where m: "cp_parser r = Some m" "parser_feed m c = Inr (m', e)"
    using assms(1) by (auto simp: conn_req_parser_feed_def bind_res_eq_Inr split: option.splits)
  have ok: "motor_ok conn_req_parser_definition m" using m(1) assms(2) by (simp add: req_typed_def)
  then have "c \<noteq> 255" using motor_255 m(2) by fastforce
  from conn_req_motor [OF ok this] m(2) have ok': "motor_ok conn_req_parser_definition m'" by auto
  then show ?thesis
    using assms m motor_ok_set [OF ok' conn_req_state_in_table]
    by (auto simp: conn_req_parser_feed_def req_typed_def Let_def bind_res_eq_Inr mem_put_def guard_eq_Inr
        split: conn_req_parser_state.splits if_splits)
qed

section \<open>Connections\<close>

definition stm_typed :: "state_machine \<Rightarrow> bool" where
  "stm_typed m \<longleftrightarrow> max_state m = 7 \<and> initial m = 0 \<and> (\<forall>i. current m = Some i \<longrightarrow> i \<le> 7)"

definition conn_typed :: "socks5_conn \<Rightarrow> bool" where
  "conn_typed c \<longleftrightarrow> buffer_inv (c_in c) \<and> buffer_inv (c_out c) \<and> (\<forall>m. c_stm c = Some m \<longrightarrow> stm_typed m) \<and>
     (\<forall>h. c_handshake c = Some h \<longrightarrow> handshake_typed h) \<and> (\<forall>a. c_auth c = Some a \<longrightarrow> auth_typed a) \<and>
     (\<forall>r. c_req c = Some r \<longrightarrow> req_typed r)"

lemma conn_typedD:
  assumes "conn_typed c"
  shows "buffer_inv (c_in c)" "buffer_inv (c_out c)" "c_stm c = Some m \<Longrightarrow> stm_typed m"
    "c_handshake c = Some h \<Longrightarrow> handshake_typed h" "c_auth c = Some a \<Longrightarrow> auth_typed a" "c_req c = Some r \<Longrightarrow> req_typed r"
  using assms by (simp_all add: conn_typed_def)

lemma zero_typed: "conn_typed zero_conn"
  by (simp add: conn_typed_def zero_conn_def null_typed)

lemma stm_init_typed: "socks5_stm_init a = Some m \<Longrightarrow> stm_typed m"
  by (auto simp: socks5_stm_init_def stm_typed_def split: if_splits)

section \<open>The data of the administration\<close>

definition arg_kept :: "(s5admin_cmd_parsed \<times> byte list) res \<Rightarrow> bool" where
  "arg_kept r \<longleftrightarrow> (\<forall>q m. r = Inr (q, m) \<longrightarrow> length (arg1 q) = ARGS_LEN)"

lemma arg_kept_error:
  assumes "length (arg1 p) = ARGS_LEN"
  shows "arg_kept (bind_res (invalid p msg) (\<lambda>p. Inr (p, m)))"
  using assms by (auto simp: arg_kept_def invalid_def strcpy_to_def bind_res_eq_Inr dest: length_mem_write)

lemma arg_kept_read: "(\<And>x. arg_kept (f x)) \<Longrightarrow> arg_kept (bind_res r f)"
  by (cases r) (simp_all add: arg_kept_def)

lemma arg_kept_none: "length (arg1 p) = ARGS_LEN \<Longrightarrow> arg_kept (no_more_args p m i)"
  unfolding no_more_args_def too_many_args_def
  by (rule arg_kept_read, clarify) (auto intro: arg_kept_error simp: arg_kept_def [of "Inr _"])

lemma arg_kept_take:
  assumes "length (arg1 p) = ARGS_LEN" "\<And>t m i. length t = ARGS_LEN \<Longrightarrow> arg_kept (nxt (put t p) m i)"
  shows "arg_kept (take_arg put nxt p m i)"
  unfolding take_arg_def missing_args_def invalid_argument_def
proof (rule arg_kept_read, clarify)
  fix t mem pos
  show "arg_kept (case t of None \<Rightarrow> bind_res (invalid p (lit ''missing argument'')) (\<lambda>p. Inr (p, mem))
    | Some token \<Rightarrow> if length token > ARGS_LEN
        then bind_res (strtok_rest mem pos) (\<lambda>mem. bind_res (invalid p (lit ''argument too long'')) (\<lambda>p. Inr (p, mem)))
        else nxt (put (strncpy token ARGS_LEN) p) mem pos)"
  proof (cases t)
    case None
    then show ?thesis using arg_kept_error [OF assms(1)] by simp
  next
    case (Some token)
    have "length (strncpy token ARGS_LEN) = ARGS_LEN" by (simp add: strncpy_def)
    then show ?thesis using Some arg_kept_error [OF assms(1)] assms(2) by (simp add: arg_kept_read)
  qed
qed

lemma arg_kept_args: "length (arg1 p) = ARGS_LEN \<Longrightarrow> arg_kept (s5admin_parse_command_args p m i n)"
  unfolding s5admin_parse_command_args_def
  by (auto intro!: arg_kept_none arg_kept_take) (simp add: arg_kept_def)

lemma parsed_arg1:
  assumes "s5admin_parse_command p mem = Inr (q, mem')" "length (arg1 p) = ARGS_LEN"
  shows "length (arg1 q) = ARGS_LEN"
proof -
  obtain p1 where p1: "invalid p (lit ''invalid command'') = Inr p1"
    using assms(1) by (cases "invalid p (lit ''invalid command'')") (auto simp: s5admin_parse_command_def)
  obtain t m i where t: "strtok_r mem 0 = Inr (t, m, i)"
    using assms(1) p1 by (cases "strtok_r mem 0") (auto simp: s5admin_parse_command_def)
  have len: "length (arg1 p1) = ARGS_LEN"
    using arg_kept_error [OF assms(2), of "lit ''invalid command''" mem] p1 by (simp add: arg_kept_def)
  then have "arg_kept (s5admin_parse_command p mem)"
    using p1 t arg_kept_args
    by (simp add: s5admin_parse_command_def split: option.split) (simp add: arg_kept_def)
  with assms(1) show ?thesis by (simp add: arg_kept_def)
qed

text \<open>A command changes the settings, the users or the level of the log, and not the number of connections.\<close>

lemma respond_same: "respond st resp t = Inr (st', resp') \<Longrightarrow> st' = st"
  by (auto simp: respond_def bind_res_eq_Inr)

definition config_kept :: "config_state \<Rightarrow> config_state \<Rightarrow> bool" where
  "config_kept st st' \<longleftrightarrow> (config_inv st \<longrightarrow> config_inv st') \<and>
     map_option current_connections (metrics (data st')) = map_option current_connections (metrics (data st))"

lemma config_kept_refl [simp]: "config_kept st st" "config_kept st (st\<lparr>user_map := m\<rparr>)" "config_kept st (st\<lparr>log := l\<rparr>)"
  by (simp_all add: config_kept_def)

lemma config_kept_settings:
  "config_kept st (st\<lparr>data := snd (set_max_conn (data st) (atoi a))\<rparr>)" "config_kept st (st\<lparr>data := snd (set_buffer_size (data st) (atoi a))\<rparr>)"
  using set_max_conn_inv [of st "atoi a"] set_buffer_size_inv [of st "atoi a"] atoi_less [of a]
  by (simp_all add: config_kept_def set_max_conn_def set_buffer_size_def)

lemma command_typed:
  assumes "command_handler ok c st resp = Inr (st', resp')"
  shows "config_kept st st'"
proof (cases c)
  case CMD_ADD_USER
  with assms show ?thesis
    by (auto simp: handle_add_user_def bind_res_eq_Inr Let_def case_prod_unfold split: if_splits dest!: respond_same)
next
  case CMD_REMOVE_USER
  with assms show ?thesis
    by (auto simp: handle_remove_user_def bind_res_eq_Inr Let_def case_prod_unfold split: if_splits dest!: respond_same)
next
  case CMD_SET_LOGLEVEL
  with assms show ?thesis
    by (auto simp: handle_set_loglevel_def bind_res_eq_Inr Let_def split: if_splits dest!: respond_same)
next
  case CMD_SET_MAX_CONN
  with assms obtain a where a: "(let (r, d) = set_max_conn (data st) (atoi a)
      in if r = 0 then respond (st\<lparr>data := d\<rparr>) resp (lit ''OK\<newline>'')
         else respond st resp (lit ''ERROR: max connections must be at least 1\<newline>'')) = Inr (st', resp')"
    by (auto simp: handle_set_max_conn_def bind_res_eq_Inr)
  then show ?thesis
    using config_kept_settings(1) [of st a] by (auto simp: Let_def split: prod.splits if_splits dest!: respond_same)
next
  case CMD_SET_BUFF
  with assms obtain a where a: "(let (r, d) = set_buffer_size (data st) (atoi a)
      in if r = 0 then respond (st\<lparr>data := d\<rparr>) resp (lit ''OK\<newline>'')
         else respond st resp (lit ''ERROR: buffer size must be at least '' @ decimal_int BUFF_MIN_LEN @ lit '' bytes\<newline>'')) = Inr (st', resp')"
    by (auto simp: handle_set_buff_def bind_res_eq_Inr)
  then show ?thesis
    using config_kept_settings(2) [of st a] by (auto simp: Let_def split: prod.splits if_splits dest!: respond_same)
qed (use assms in \<open>auto simp: handle_list_users_def handle_get_metrics_def handle_get_access_register_def handle_get_config_def
    handle_help_def handle_ping_def handle_exit_def bind_res_eq_Inr split: option.splits dest!: respond_same\<close>)

lemma config_handler_typed:
  assumes "config_handler ok st line resp = Inr (n, st', line', resp')"
  shows "config_kept st st'"
proof -
  obtain p l where p: "s5admin_parse_command (parsed_cmd st) line = Inr (p, l)"
    using assms by (auto simp: config_handler_def bind_res_eq_Inr)
  have kept: "config_kept st (st\<lparr>parsed_cmd := p\<rparr>)" using parsed_arg1 [OF p] by (simp add: config_kept_def config_inv_def)
  define out where "out = (if cmd p = CMD_INVALID
      then bind_res (c_str (arg1 p)) (\<lambda>m. respond (st\<lparr>parsed_cmd := p\<rparr>) resp (lit ''ERROR: '' @ m @ lit ''\<newline>''))
      else command_handler ok (cmd p) (st\<lparr>parsed_cmd := p\<rparr>) resp)"
  obtain r where "out = Inr (st', r)"
    using assms p by (cases out) (auto simp: config_handler_def out_def [symmetric] Let_def bind_res_eq_Inr)
  then have "config_kept (st\<lparr>parsed_cmd := p\<rparr>) st'"
    by (cases "cmd p = CMD_INVALID") (auto simp: out_def bind_res_eq_Inr dest!: respond_same intro: command_typed)
  with kept show ?thesis by (simp add: config_kept_def)
qed

lemma add_access_typed:
  assumes "add_access p st w = Inr w'"
  shows "\<exists>g. w' = w\<lparr>w_cfg := g\<rparr> \<and> config_kept (w_cfg w) g"
proof -
  obtain c where c: "conn_get p w = Inr c" using assms by (cases "conn_get p w") (simp_all add: add_access_def)
  define e where "e = make_entry (c_username c) (c_src_address c) (c_src_port c) (c_dst_address c) (c_dst_port c)
    (uint (reply_code st)) (os_clock (w_os w))"
  obtain x row where x: "access_register_add_entry (access_reg (data (w_cfg w))) e = Inr (x, row)"
      "w' = w\<lparr>w_cfg := (w_cfg w)\<lparr>data := (data (w_cfg w))\<lparr>access_reg := x\<rparr>\<rparr>\<rparr>"
    using assms c unfolding add_access_def c bind_res_Inr e_def [symmetric]
    by (cases "access_register_add_entry (access_reg (data (w_cfg w))) e") auto
  have reg: "reg_inv r" if "config_inv (w_cfg w)" "x = Some r" for r
  proof (cases "access_reg (data (w_cfg w))")
    case None
    with that x(1) show ?thesis by (simp add: access_register_add_entry_def)
  next
    case (Some r')
    with that(1) have "reg_inv r'" by (simp add: config_inv_def)
    from add_entry_logged [OF this, of e] that(2) Some x(1) show ?thesis by (metis Inr_inject option.inject prod.inject)
  qed
  have "config_inv ((w_cfg w)\<lparr>data := (data (w_cfg w))\<lparr>access_reg := x\<rparr>\<rparr>)" if "config_inv (w_cfg w)"
    using that reg [OF that] by (simp add: config_inv_def settings_ok_def)
  then have "config_kept (w_cfg w) ((w_cfg w)\<lparr>data := (data (w_cfg w))\<lparr>access_reg := x\<rparr>\<rparr>)"
    unfolding config_kept_def by simp
  with x(2) show ?thesis by blast
qed

end
