(* ===== verification/World_Invariant.thy ===== *)
theory World_Invariant
  imports Well_Typed Handler_Facts
begin

text \<open>
  How an invariant of the server is proved: a predicate on worlds that survives the few operations by which
  the handlers change a world survives every handler, every turn of the selector and the main loop.  The operations
  are the laws of a locale; the handlers are gone through once, inside it.
\<close>

section \<open>Results that satisfy a predicate\<close>

definition keeps :: "(world \<Rightarrow> bool) \<Rightarrow> world res \<Rightarrow> bool" where
  "keeps P r \<longleftrightarrow> (\<forall>w. r = Inr w \<longrightarrow> P w)"

definition keeps_with :: "(world \<Rightarrow> bool) \<Rightarrow> ('a \<times> world) res \<Rightarrow> bool" where
  "keeps_with P r \<longleftrightarrow> (\<forall>a w. r = Inr (a, w) \<longrightarrow> P w)"

lemma keeps_return:
  "keeps P (Inl e)" "keeps_with P (Inl e)" "P w \<Longrightarrow> keeps P (Inr w)" "P w \<Longrightarrow> keeps_with P (Inr (a, w))"
  by (simp_all add: keeps_def keeps_with_def)

lemma keeps_seq:
  "keeps P r \<Longrightarrow> (\<And>w. P w \<Longrightarrow> keeps P (f w)) \<Longrightarrow> keeps P (bind_res r f)"
  "keeps P r \<Longrightarrow> (\<And>w. P w \<Longrightarrow> keeps_with P (g w)) \<Longrightarrow> keeps_with P (bind_res r g)"
  by (auto simp: keeps_def keeps_with_def bind_res_eq_Inr)

lemma keeps_seq_with:
  "keeps_with P s \<Longrightarrow> (\<And>a w. P w \<Longrightarrow> keeps P (h a w)) \<Longrightarrow> keeps P (bind_res s (\<lambda>(a, w). h a w))"
  "keeps_with P s \<Longrightarrow> (\<And>a w. P w \<Longrightarrow> keeps_with P (k a w)) \<Longrightarrow> keeps_with P (bind_res s (\<lambda>(a, w). k a w))"
  by (auto simp: keeps_def keeps_with_def bind_res_eq_Inr)

lemma keeps_get:
  "(\<And>x. r = Inr x \<Longrightarrow> keeps P (f x)) \<Longrightarrow> keeps P (bind_res r f)"
  "(\<And>x. r = Inr x \<Longrightarrow> keeps_with P (g x)) \<Longrightarrow> keeps_with P (bind_res r g)"
  by (auto simp: keeps_def keeps_with_def bind_res_eq_Inr)

lemma keeps_get_pair:
  "(\<And>a b. r = Inr (a, b) \<Longrightarrow> keeps P (f a b)) \<Longrightarrow> keeps P (bind_res r (\<lambda>(a, b). f a b))"
  "(\<And>a b. r = Inr (a, b) \<Longrightarrow> keeps_with P (g a b)) \<Longrightarrow> keeps_with P (bind_res r (\<lambda>(a, b). g a b))"
  by (auto simp: keeps_def keeps_with_def bind_res_eq_Inr)

lemma keeps_if:
  "(b \<Longrightarrow> keeps P r) \<Longrightarrow> (\<not> b \<Longrightarrow> keeps P s) \<Longrightarrow> keeps P (if b then r else s)"
  "(b \<Longrightarrow> keeps_with P r') \<Longrightarrow> (\<not> b \<Longrightarrow> keeps_with P s') \<Longrightarrow> keeps_with P (if b then r' else s')"
  by auto

lemma keeps_option:
  "(x = None \<Longrightarrow> keeps P r) \<Longrightarrow> (\<And>y. x = Some y \<Longrightarrow> keeps P (f y)) \<Longrightarrow> keeps P (case x of None \<Rightarrow> r | Some y \<Rightarrow> f y)"
  "(x = None \<Longrightarrow> keeps_with P s) \<Longrightarrow> (\<And>y. x = Some y \<Longrightarrow> keeps_with P (g y)) \<Longrightarrow> keeps_with P (case x of None \<Rightarrow> s | Some y \<Rightarrow> g y)"
  by (auto split: option.split)

text \<open>A system call in a \<open>let\<close>.\<close>

lemma keeps_call:
  "P (snd x) \<Longrightarrow> (\<And>a w. x = (a, w) \<Longrightarrow> P w \<Longrightarrow> keeps P (f a w)) \<Longrightarrow> keeps P (case x of (a, w) \<Rightarrow> f a w)"
  "P (snd x) \<Longrightarrow> (\<And>a w. x = (a, w) \<Longrightarrow> P w \<Longrightarrow> keeps_with P (g a w)) \<Longrightarrow> keeps_with P (case x of (a, w) \<Rightarrow> g a w)"
  by (auto split: prod.split)

lemma keeps_let:
  "(\<And>x. x = t \<Longrightarrow> keeps P (f x)) \<Longrightarrow> keeps P (Let t f)"
  "(\<And>x. x = t \<Longrightarrow> keeps_with P (g x)) \<Longrightarrow> keeps_with P (Let t g)"
  by simp_all

lemma keeps_split: "(\<And>a b. x = (a, b) \<Longrightarrow> keeps P (f a b)) \<Longrightarrow> keeps P (case x of (a, b) \<Rightarrow> f a b)"
  by (cases x) simp

lemma keeps_nested: "(\<And>a b. x = (a, b) \<Longrightarrow> keeps P (f a b c)) \<Longrightarrow> keeps P ((case x of (a, b) \<Rightarrow> f a b) c)"
  by (cases x) simp

lemma keeps_quad: "(\<And>a b c d. x = (a, b, c, d) \<Longrightarrow> keeps P (f a b c d)) \<Longrightarrow> keeps P (case x of (a, b, c, d) \<Rightarrow> f a b c d)"
  by (cases x) simp

lemma keeps_io:
  "(\<And>k. x = Sent k \<Longrightarrow> keeps P (f k)) \<Longrightarrow> (\<And>e. x = Send_Error e \<Longrightarrow> keeps P (g e)) \<Longrightarrow>
     keeps P (case x of Sent k \<Rightarrow> f k | Send_Error e \<Rightarrow> g e)"
  "(\<And>bs. y = Recv bs \<Longrightarrow> keeps P (f' bs)) \<Longrightarrow> (y = Recv_Closed \<Longrightarrow> keeps P r) \<Longrightarrow> (\<And>e. y = Recv_Error e \<Longrightarrow> keeps P (g' e)) \<Longrightarrow>
     keeps P (case y of Recv bs \<Rightarrow> f' bs | Recv_Closed \<Rightarrow> r | Recv_Error e \<Rightarrow> g' e)"
  by (auto split: send_result.split recv_result.split)

text \<open>The same for one iteration of a loop.\<close>

definition keeps_step :: "(world \<Rightarrow> bool) \<Rightarrow> loop_step res \<Rightarrow> bool" where
  "keeps_step P r \<longleftrightarrow> (case r of Inl e \<Rightarrow> True | Inr (Continue w) \<Rightarrow> P w | Inr (Return n w) \<Rightarrow> P w)"

lemma step_get: "(\<And>x. r = Inr x \<Longrightarrow> keeps_step P (f x)) \<Longrightarrow> keeps_step P (bind_res r f)"
  by (cases r) (simp_all add: keeps_step_def)

lemma step_seq: "keeps P r \<Longrightarrow> (\<And>w. P w \<Longrightarrow> keeps_step P (f w)) \<Longrightarrow> keeps_step P (bind_res r f)"
  by (cases r) (simp_all add: keeps_step_def keeps_def)

lemma step_return: "P w \<Longrightarrow> keeps_step P (Inr (Continue w))" "P w \<Longrightarrow> keeps_step P (Inr (Return n w))" "keeps_step P (Inl e)"
  by (simp_all add: keeps_step_def)

lemma step_if: "(b \<Longrightarrow> keeps_step P r) \<Longrightarrow> (\<not> b \<Longrightarrow> keeps_step P s) \<Longrightarrow> keeps_step P (if b then r else s)"
  by simp

lemma step_option:
  "(x = None \<Longrightarrow> keeps_step P r) \<Longrightarrow> (\<And>y. x = Some y \<Longrightarrow> keeps_step P (f y)) \<Longrightarrow>
     keeps_step P (case x of None \<Rightarrow> r | Some y \<Rightarrow> f y)"
  by (auto split: option.split)

section \<open>What the handlers do to a world\<close>

text \<open>Two selectors with the same connections and sessions registered under the same descriptors; what is new is legal.\<close>

definition held :: "sel \<Rightarrow> int \<Rightarrow> handler \<Rightarrow> nat option \<Rightarrow> bool" where
  "held s fd h d \<longleftrightarrow> (\<exists>e. sel_table s fd = Some e \<and> it_handler e = Some h \<and> it_data e = d)"

definition same_owners :: "sel \<Rightarrow> sel \<Rightarrow> bool" where
  "same_owners s s' \<longleftrightarrow> (\<forall>fd d. \<forall>h \<in> {H_Socks5, H_Admin}. held s' fd h d = held s fd h d) \<and>
     (\<forall>fd. sel_table s' fd \<noteq> None \<longrightarrow> sel_table s fd \<noteq> None \<or> \<not> invalid_fd fd)"

lemma same_owners_set: "sel_inv s \<Longrightarrow> same_owners s (sel_set fd i s)"
  by (auto simp: same_owners_def held_def sel_set_cases split: option.splits)

lemma register_cases:
  assumes "sel_inv (w_sel w)" "register_fd fd h i d w = Inr (st, w')"
  shows "st \<noteq> SELECTOR_SUCCESS \<and> (w' = w \<or> w' = snd (sys_alloc w)) \<or>
    st = SELECTOR_SUCCESS \<and> \<not> invalid_fd fd \<and> sel_table (w_sel w) fd = None \<and>
    (\<exists>s. w' = w\<lparr>w_sel := s\<rparr> \<and> sel_inv s \<and> sel_table s = (sel_table (w_sel w))(fd \<mapsto>
       \<lparr>it_fd = fd, it_interest = i, it_handler = Some h, it_data = d\<rparr>))"
proof -
  let ?ok = "if nat fd > fd_size (w_sel w) then sys_alloc w else (True, w)"
  have sel: "w_sel (snd ?ok) = w_sel w" "\<not> invalid_fd fd \<Longrightarrow> ?ok = (True, w)"
    using assms(1) by (auto simp: sys_alloc_def pop_def sel_inv_def invalid_fd_def split: list.split)
  have run: "bind_res (selector_register (fst ?ok) (w_sel w) fd (Some h) i d) (\<lambda>(st, s). Inr (st, (snd ?ok)\<lparr>w_sel := s\<rparr>)) = Inr (st, w')"
    using assms(2) sel(1) unfolding register_fd_def case_prod_unfold Let_def by (simp split: if_splits)
  have same: "(snd ?ok)\<lparr>w_sel := w_sel w\<rparr> = snd ?ok" using sel(1) by (metis world.surjective world.update_convs(1))
  have out: "snd ?ok = w \<or> snd ?ok = snd (sys_alloc w)" by simp
  consider "invalid_fd fd" | "\<not> invalid_fd fd" "sel_table (w_sel w) fd = None"
    | e where "\<not> invalid_fd fd" "sel_table (w_sel w) fd = Some e" by fastforce
  then show ?thesis
  proof cases
    case 1 with run out show ?thesis unfolding selector_register_def by (auto simp: same)
  next
    case 2
    show ?thesis
      using run sel(2) [OF 2(1)] 2 register_free [OF assms(1) 2, where h = h and d = d and interest = i] by auto
  next
    case 3
    show ?thesis
      using run sel(2) [OF 3(1)] 3 register_taken [OF assms(1) 3(2), where h = h and d = d and interest = i] by auto
  qed
qed

lemma calls_os:
  "\<exists>u. sys_close fd w = w\<lparr>w_os := u\<rparr> \<and> os_alloc u = os_alloc (w_os w) \<and> os_junk u = os_junk (w_os w)"
  "\<exists>u. set_errno n w = w\<lparr>w_os := u\<rparr> \<and> os_alloc u = os_alloc (w_os w) \<and> os_junk u = os_junk (w_os w)"
  "\<exists>u. snd (sys_send fd bs w) = w\<lparr>w_os := u\<rparr> \<and> os_alloc u = os_alloc (w_os w) \<and> os_junk u = os_junk (w_os w)"
  "\<exists>u. snd (sys_recv fd n' w) = w\<lparr>w_os := u\<rparr> \<and> os_alloc u = os_alloc (w_os w) \<and> os_junk u = os_junk (w_os w)"
  "\<exists>u. snd (sys_socket af w) = w\<lparr>w_os := u\<rparr> \<and> os_alloc u = os_alloc (w_os w) \<and> os_junk u = os_junk (w_os w)"
  "\<exists>u. snd (sys_connect fd ai w) = w\<lparr>w_os := u\<rparr> \<and> os_alloc u = os_alloc (w_os w) \<and> os_junk u = os_junk (w_os w)"
  "\<exists>u. snd (sys_accept fd w) = w\<lparr>w_os := u\<rparr> \<and> os_alloc u = os_alloc (w_os w) \<and> os_junk u = os_junk (w_os w)"
  "\<exists>u. snd (sys_bind fd ai w) = w\<lparr>w_os := u\<rparr> \<and> os_alloc u = os_alloc (w_os w) \<and> os_junk u = os_junk (w_os w)"
  "\<exists>u. snd (sys_listen fd n' w) = w\<lparr>w_os := u\<rparr> \<and> os_alloc u = os_alloc (w_os w) \<and> os_junk u = os_junk (w_os w)"
  "\<exists>u. snd (set_non_blocking_fd w) = w\<lparr>w_os := u\<rparr> \<and> os_alloc u = os_alloc (w_os w) \<and> os_junk u = os_junk (w_os w)"
  "\<exists>u. snd (sys_getaddrinfo name service af fl w) = w\<lparr>w_os := u\<rparr> \<and> os_alloc u = os_alloc (w_os w) \<and> os_junk u = os_junk (w_os w)"
  by (auto simp: sys_close_def emit_def set_errno_def sys_send_def sys_recv_def sys_socket_def sys_connect_def sys_accept_def
      sys_bind_def sys_listen_def set_non_blocking_fd_def sys_getaddrinfo_def os_upd_def Let_def split: prod.split send_result.split recv_result.split)

lemma typed_updates:
  "conn_typed c \<Longrightarrow> buffer_inv b \<Longrightarrow> conn_typed (c\<lparr>c_in := b\<rparr>)" "conn_typed c \<Longrightarrow> buffer_inv b \<Longrightarrow> conn_typed (c\<lparr>c_out := b\<rparr>)"
  "conn_typed c \<Longrightarrow> (\<And>m. m' = Some m \<Longrightarrow> stm_typed m) \<Longrightarrow> conn_typed (c\<lparr>c_stm := m'\<rparr>)"
  "conn_typed c \<Longrightarrow> (\<And>h. h' = Some h \<Longrightarrow> handshake_typed h) \<Longrightarrow> conn_typed (c\<lparr>c_handshake := h'\<rparr>)"
  "conn_typed c \<Longrightarrow> (\<And>a. a' = Some a \<Longrightarrow> auth_typed a) \<Longrightarrow> conn_typed (c\<lparr>c_auth := a'\<rparr>)"
  "conn_typed c \<Longrightarrow> (\<And>r. r' = Some r \<Longrightarrow> req_typed r) \<Longrightarrow> conn_typed (c\<lparr>c_req := r'\<rparr>)"
  by (simp_all add: conn_typed_def)

lemma typed_frame [simp]:
  "conn_typed (c\<lparr>c_is_error_response := e\<rparr>) = conn_typed c" "conn_typed (c\<lparr>c_origin_fd := fd\<rparr>) = conn_typed c"
  "conn_typed (c\<lparr>c_client_fd := fd\<rparr>) = conn_typed c"
  "conn_typed (c\<lparr>c_addr_info := ai\<rparr>) = conn_typed c" "conn_typed (c\<lparr>c_username := u\<rparr>) = conn_typed c"
  "conn_typed (c\<lparr>c_dst_port := port, c_a_type := t, c_dst_address := a\<rparr>) = conn_typed c"
  "conn_typed (c\<lparr>c_src_address := sa, c_src_port := sp\<rparr>) = conn_typed c"
  by (simp_all add: conn_typed_def)

locale world_operations =
  fixes inv :: "world \<Rightarrow> bool"
  assumes live_typed: "inv w \<Longrightarrow> conn_get p w = Inr c \<Longrightarrow> conn_typed c"
    and table: "inv w \<Longrightarrow> sel_inv (w_sel w)"
    and junk: "inv w \<Longrightarrow> 256 \<le> length (os_junk (w_os w))"
    and inv_conn: "inv w \<Longrightarrow> conn_get p w = Inr c \<Longrightarrow> conn_typed c' \<Longrightarrow> c_client_fd c' = c_client_fd c \<Longrightarrow>
      inv (w\<lparr>w_heap := (w_heap w)[p := Some c']\<rparr>)"
    and inv_admin: "inv w \<Longrightarrow> admin_get p w = Inr a \<Longrightarrow> ac_fd a' = ac_fd a \<Longrightarrow> inv (w\<lparr>w_admin := (w_admin w)[p := Some a']\<rparr>)"
    and inv_sel: "inv w \<Longrightarrow> sel_inv s \<Longrightarrow> same_owners (w_sel w) s \<Longrightarrow> inv (w\<lparr>w_sel := s\<rparr>)"
    and inv_kernel: "inv w \<Longrightarrow> os_alloc u = os_alloc (w_os w) \<Longrightarrow> os_junk u = os_junk (w_os w) \<Longrightarrow> inv (w\<lparr>w_os := u\<rparr>)"
    and inv_alloc: "inv w \<Longrightarrow> inv (snd (sys_alloc w))"
    and inv_config: "inv w \<Longrightarrow> config_kept (w_cfg w) g \<Longrightarrow> inv (w\<lparr>w_cfg := g\<rparr>)"
    and inv_resolving: "inv w \<Longrightarrow> inv (w\<lparr>w_resolving := l\<rparr>)"
    and inv_unregister: "inv w \<Longrightarrow> unregister_fd fd w = Inr w' \<Longrightarrow> inv w'"
    and released: "inv w \<Longrightarrow> admin_get p w = Inr a \<Longrightarrow> unregister_fd (ac_fd a) w = Inr w' \<Longrightarrow> \<exists>e. admin_get p w' = Inl e"
begin

lemma inv_calls [intro]:
  assumes "inv w"
  shows "inv (sys_close fd w)" "inv (set_errno n w)" "inv (snd (sys_send fd bs w))" "inv (snd (sys_recv fd k w))"
    "inv (snd (sys_socket af w))" "inv (snd (sys_connect fd ai w))" "inv (snd (sys_accept fd w))" "inv (snd (sys_bind fd ai w))"
    "inv (snd (sys_listen fd k w))" "inv (snd (set_non_blocking_fd w))" "inv (snd (sys_getaddrinfo name service af fl w))"
  using calls_os [where w = w] inv_kernel [OF assms] by metis+

lemma inv_os_upd: "inv w \<Longrightarrow> os_alloc (f (w_os w)) = os_alloc (w_os w) \<Longrightarrow> os_junk (f (w_os w)) = os_junk (w_os w) \<Longrightarrow> inv (os_upd f w)"
  by (simp add: os_upd_def inv_kernel)

lemma k_upd:
  "inv w \<Longrightarrow> (\<And>c. conn_get q w = Inr c \<Longrightarrow> conn_typed c \<Longrightarrow> conn_typed (f c)) \<Longrightarrow> (\<And>c. c_client_fd (f c) = c_client_fd c) \<Longrightarrow>
     keeps inv (conn_upd q f w)"
  using live_typed inv_conn by (simp add: keeps_def conn_upd_def bind_res_eq_Inr) metis

lemma k_interest: "inv w \<Longrightarrow> keeps inv (set_interest fd i w)"
  using table inv_sel [of w "sel_set fd i (w_sel w)"] same_owners_set by (simp add: keeps_def set_interest_live)

lemma k_status: "inv w \<Longrightarrow> keeps_with inv (set_interest_status fd i w)"
  using table inv_sel [of w "sel_set fd i (w_sel w)"] same_owners_set by (simp add: keeps_with_def set_interest_status_live)

lemma k_unregister: "inv w \<Longrightarrow> keeps inv (unregister_fd fd w)"
  using inv_unregister by (simp add: keeps_def)

lemma k_register: "inv w \<Longrightarrow> h \<notin> {H_Socks5, H_Admin} \<Longrightarrow> keeps_with inv (register_fd fd h i d w)"
  unfolding keeps_with_def
proof (intro allI impI)
  fix st w' assume w: "inv w" and h: "h \<notin> {H_Socks5, H_Admin}" and r: "register_fd fd h i d w = Inr (st, w')"
  from register_cases [OF table [OF w] r] show "inv w'"
    using w inv_alloc [OF w] h inv_sel [OF w] by (auto simp: same_owners_def held_def split: if_splits)
qed

lemma k_metrics: "inv w \<Longrightarrow> (\<And>m. current_connections (f m) = current_connections m) \<Longrightarrow> keeps inv (metrics_upd f w)"
  by (auto simp: keeps_def metrics_upd_def config_kept_def config_inv_def settings_ok_def intro!: inv_config split: option.splits)

lemma k_access: "inv w \<Longrightarrow> keeps inv (add_access p st w)"
  by (auto simp: keeps_def dest!: add_access_typed intro: inv_config)

subsection \<open>Arrivals and departures\<close>

lemma k_parser:
  assumes "inv w" "\<And>a1 a2 v c. inv v \<Longrightarrow> conn_typed c \<Longrightarrow> conn_typed (f a1 a2 v c)" "\<And>a1 a2 v c. c_client_fd (f a1 a2 v c) = c_client_fd c"
  shows "keeps inv (let (a1, w) = sys_alloc w; (a2, w) = (if a1 then sys_alloc w else (False, w)) in conn_upd q (f a1 a2 w) w)"
proof -
  have "inv (snd (if a then sys_alloc v else (False, v)))" if "inv v" for a v using that inv_alloc by simp
  then show ?thesis
    unfolding Let_def
    by (intro keeps_call(1) inv_alloc [OF assms(1)]) (auto intro!: k_upd assms(2,3))
qed

lemma k_arrivals:
  assumes w: "inv w"
  shows "keeps inv (handshake_on_arrival s key w)" "keeps inv (auth_on_arrival s key w)" "keeps inv (connection_req_on_arrival s key w)"
    "keeps inv (copy_on_arrival s key w)" "keeps inv (handle_done s key w)" "keeps inv (handle_error s key w)"
proof -
  show "keeps inv (handshake_on_arrival s key w)"
    unfolding handshake_on_arrival_def
    by (rule keeps_get_pair(1), rule k_parser [OF w]) (auto intro: typed_updates inits_typed)
  show "keeps inv (auth_on_arrival s key w)"
    unfolding auth_on_arrival_def Let_def [of "os_junk _"]
    by (rule keeps_get_pair(1), rule k_parser [OF w])
      (auto intro!: typed_updates(5) elim!: inits_typed(2) dest: junk simp: MAX_USERNAME_LEN_def MAX_PASSWORD_LEN_def)
  show "keeps inv (connection_req_on_arrival s key w)"
    unfolding connection_req_on_arrival_def
    by (rule keeps_get_pair(1), rule k_parser [OF w]) (auto intro: typed_updates inits_typed dest: junk)
  show "keeps inv (copy_on_arrival s key w)"
    unfolding copy_on_arrival_def
    by (rule keeps_get_pair(1), rule keeps_seq_with(1), rule k_register [OF w]) (simp_all add: keeps_return)
  have "keeps inv (close_both key w)"
    unfolding close_both_def
    by (rule keeps_option(1), simp add: keeps_return w, rule keeps_get(1), rule keeps_seq(1))
      (auto intro!: keeps_if(1) keeps_get(1) k_unregister simp: keeps_return w)
  then show "keeps inv (handle_done s key w)" "keeps inv (handle_error s key w)" by (simp_all add: handle_done_def handle_error_def)
qed

lemma k_departures:
  assumes w: "inv w"
  shows "keeps inv (handshake_on_departure s key w)" "keeps inv (auth_on_departure s key w)" "keeps inv (connection_req_on_departure s key w)"
    "keeps inv (copy_on_departure s key w)"
  unfolding handshake_on_departure_def auth_on_departure_def connection_req_on_departure_def copy_on_departure_def
  by (rule keeps_get_pair(1), rule keeps_get(1), rule k_upd; auto intro: typed_updates w)+
    (rule keeps_get_pair(1), rule k_unregister [OF w])

lemma k_write_handlers:
  assumes w: "inv w"
  shows "keeps_with inv (handshake_write key w)" "keeps_with inv (auth_write key w)" "keeps_with inv (connection_req_write key w)"
    "keeps_with inv (connecting_write key w)"
  unfolding handshake_write_def auth_write_def connection_req_write_def connecting_write_def
  by (auto intro!: keeps_get_pair(2) keeps_option(2) keeps_if(2) keeps_return simp: w)

lemma write_rows:
  assumes "d \<in> set write_states" "inv w"
  shows "on_write_ready d = Some g \<Longrightarrow> keeps_with inv (g key w)"
  using assms k_write_handlers by (auto simp: write_states_def states_with_def state_row_def)

lemma state_rows:
  assumes "d \<in> set (states_with hr ar rr cr xr bl)" "inv w"
  shows "on_arrival d = Some f \<Longrightarrow> keeps inv (f s key w)" "on_departure d = Some f \<Longrightarrow> keeps inv (f s key w)"
  using assms k_arrivals k_departures by (auto simp: states_with_def state_row_def)

subsection \<open>The machine\<close>

lemma k_arrive: "inv w \<Longrightarrow> keeps inv (arrive (states_with hr ar rr cr xr bl) i key w)"
  unfolding arrive_def
  by (rule keeps_get(1), rule keeps_option(1), simp add: keeps_return) (rule state_rows(1) [OF mem_get_in])

lemma k_depart: "inv w \<Longrightarrow> keeps inv (depart (states_with hr ar rr cr xr bl) i key w)"
  unfolding depart_def
  by (rule keeps_option(1), simp add: keeps_return, rule keeps_get(1), rule keeps_option(1), simp add: keeps_return)
    (rule state_rows(2) [OF mem_get_in])

lemma k_put: "inv w \<Longrightarrow> stm_typed m \<Longrightarrow> keeps inv (stm_put key m w)"
  unfolding stm_put_def by (rule keeps_get_pair(1), rule k_upd) (auto intro: typed_updates)

lemma get_typed: "inv w \<Longrightarrow> stm_get key w = Inr m \<Longrightarrow> stm_typed m"
  by (auto simp: stm_get_def key_conn_def bind_res_eq_Inr split: option.splits dest!: live_typed conn_typedD(3))

lemma k_first: "inv w \<Longrightarrow> keeps inv (handle_first (states_with hr ar rr cr xr bl) (stm_get key) (stm_put key) key w)"
  unfolding handle_first_def
  by (rule keeps_get(1), rule keeps_if(1), rule keeps_seq(1), rule k_put)
    (auto simp: stm_typed_def keeps_return intro: k_arrive dest: get_typed)

lemma k_jump: "inv w \<Longrightarrow> keeps inv (jump (states_with hr ar rr cr xr bl) (stm_get key) (stm_put key) n key w)"
  unfolding jump_def
proof (rule keeps_get(1), intro keeps_if(1) keeps_return(1))
  fix m assume w: "inv w" and m: "stm_get key w = Inr m" "\<not> n > max_state m"
  show "keeps inv (Inr w)" using w by (simp add: keeps_return)
  have n: "n \<le> 7" using get_typed [OF w m(1)] m(2) by (simp add: stm_typed_def)
  show "keeps inv (bind_res (depart (states_with hr ar rr cr xr bl) (current m) key w) (\<lambda>w.
      bind_res (stm_get key w) (\<lambda>m. bind_res (stm_put key (m\<lparr>current := Some n\<rparr>) w) (arrive (states_with hr ar rr cr xr bl) n key))))"
    by (rule keeps_seq(1), rule k_depart [OF w], rule keeps_get(1), rule keeps_seq(1), rule k_put)
      (use n in \<open>auto simp: stm_typed_def intro: k_arrive dest: get_typed\<close>)
qed

lemma k_stm:
  assumes "inv w" "\<And>d f w. d \<in> set (states_with hr ar rr cr xr bl) \<Longrightarrow> ev d = Some f \<Longrightarrow> inv w \<Longrightarrow> keeps_with inv (f key w)"
  shows "keeps_with inv (stm_handler ev (states_with hr ar rr cr xr bl) (stm_get key) (stm_put key) key w)"
  unfolding stm_handler_def
  apply (rule keeps_seq(2), rule k_first [OF assms(1)])
  apply (rule keeps_get(2), rule keeps_option(2), simp add: keeps_return)
  apply (rule keeps_get(2), rule keeps_option(2), simp add: keeps_return)
  apply (rule keeps_seq_with(2), erule assms(2) [OF mem_get_in], assumption+)
  apply (rule keeps_seq(2), erule k_jump, simp add: keeps_return)
  done

lemma k_stm_write: "inv w \<Longrightarrow> keeps_with inv (stm_handler_write write_states (stm_get key) (stm_put key) key w)"
  unfolding stm_handler_write_def using k_stm write_rows unfolding write_states_def by blast

subsection \<open>Writing to the client\<close>

lemma key_buffers:
  assumes "inv w" "key_conn key w = Inr (p, c)"
  shows "buffer_inv (c_in c)" "buffer_inv (c_out c)"
  using assms live_typed conn_typedD(1,2) by (auto simp: key_conn_def bind_res_eq_Inr split: option.splits)

lemma conn_buffers:
  assumes "inv w" "conn_get p w = Inr c"
  shows "buffer_inv (c_in c)" "buffer_inv (c_out c)"
  using live_typed [OF assms] by (auto dest: conn_typedD)

lemma k_in: "inv w \<Longrightarrow> buffer_inv b \<Longrightarrow> keeps inv (conn_upd q (\<lambda>c. c\<lparr>c_in := b\<rparr>) w)"
  and k_out: "inv w \<Longrightarrow> buffer_inv b \<Longrightarrow> keeps inv (conn_upd q (\<lambda>c. c\<lparr>c_out := b\<rparr>) w)"
  by (auto intro!: k_upd typed_updates)

lemma k_drop_both: "inv w \<Longrightarrow> keeps inv (drop_both key w)"
  unfolding drop_both_def
  by (rule keeps_get_pair(1), rule keeps_seq(1)) (auto intro!: keeps_if(1) k_unregister keeps_get(1) simp: keeps_return)

lemma k_send_done: "inv w \<Longrightarrow> keeps inv (socksv5_send_done key n full w)"
  unfolding socksv5_send_done_def
  apply (rule keeps_seq(1), rule k_metrics, assumption, simp add: metrics_add_bytes_def)
  apply (rule keeps_get_pair(1), rule keeps_get(1))
  apply (rule keeps_seq(1), rule k_out, assumption, rule read_adv_typed, assumption, rule key_buffers(2) [rotated], assumption+)
  apply (rule keeps_seq(1), rule k_interest, assumption)
  apply (rule keeps_seq(1), intro keeps_if(1) k_interest keeps_return, assumption+)
  apply (rule keeps_seq(1), intro keeps_if(1) k_interest keeps_return, assumption+)
  apply (rule keeps_get(1), rule keeps_seq(1), rule k_out, assumption, rule compact_typed, assumption)
  apply (rule read_adv_typed, assumption, rule key_buffers(2) [rotated], assumption+)
  apply (rule keeps_get(1), intro keeps_if(1) keeps_return)
   apply (rule keeps_seq_with(1), rule k_stm_write, assumption, simp add: keeps_return)
  apply assumption
  done

lemma k_write: "inv w \<Longrightarrow> keeps inv (socksv5_write key w)"
  unfolding socksv5_write_def
  apply (rule keeps_get_pair(1), rule keeps_if(1), rule k_interest, assumption)
  apply (rule keeps_let(1), rule keeps_get_pair(1))
  apply (unfold Let_def, rule keeps_call(1), rule inv_calls(3), assumption)
  apply (rule keeps_io(1))
   apply (intro keeps_if(1) k_send_done keeps_return, assumption+)
  apply (intro keeps_if(1) keeps_return)
   apply (rule keeps_seq(1), rule k_metrics, assumption, simp add: metrics_inc_errors_def)
   apply (rule k_drop_both, assumption+)
  done

subsection \<open>Reading a greeting, a login and a request\<close>

lemma k_loop:
  assumes "\<And>w. inv w \<Longrightarrow> keeps_step inv (body key w)" "\<And>w. inv w \<Longrightarrow> keeps_with inv (fin key w)"
  shows "inv w \<Longrightarrow> keeps_with inv (read_loop body fin n key w)"
proof (induction n arbitrary: w)
  case 0
  then show ?case by (simp add: assms(2))
next
  case (Suc n)
  have "keeps_with inv (bind_res (body key w) (\<lambda>s. case s of Continue w \<Rightarrow> read_loop body fin n key w | Return st w \<Rightarrow> Inr (st, w)))"
    using assms(1) [OF Suc.prems] Suc.IH
    by (cases "body key w") (auto simp: keeps_step_def keeps_with_def split: loop_step.splits)
  with Suc.prems assms(2) show ?case by (auto intro!: keeps_get_pair(2) keeps_if(2))
qed

lemma next_kept:
  assumes "inv w" "next_in key w = Inr (x, p, w')"
  shows "inv w'"
proof -
  obtain c b where c: "key_conn key w = Inr (p, c)" "buffer_read (c_in c) = Inr (x, b)" "conn_upd p (\<lambda>c. c\<lparr>c_in := b\<rparr>) w = Inr w'"
    using assms(2) by (auto simp: next_in_def bind_res_eq_Inr)
  from k_in [OF assms(1) read_typed [OF c(2) key_buffers(1) [OF assms(1) c(1)]]] c(3) show ?thesis
    by (simp add: keeps_def)
qed

lemma k_current: "inv w \<Longrightarrow> keeps_with inv (return_current key w)"
  unfolding return_current_def by (rule keeps_get(2)) (simp add: keeps_return)


lemma k_flag: "inv w \<Longrightarrow> keeps inv (conn_upd q (\<lambda>c. c\<lparr>c_is_error_response := f c\<rparr>) w)"
  by (auto intro!: k_upd)

lemma k_greeting: "inv w \<Longrightarrow> keeps inv (greeting_answer key p h w)"
  unfolding greeting_answer_def
  apply (rule keeps_let(1), rule keeps_get(1), rule keeps_get(1))
  apply (rule keeps_seq(1), rule k_out, assumption, rule struct_typed, assumption, rule conn_buffers(2) [rotated], assumption+)
  apply (rule keeps_seq(1), rule k_interest, assumption)
  apply (rule keeps_seq(1), rule k_flag, assumption, rule k_write, assumption)
  done

lemma k_parsers:
  "inv w \<Longrightarrow> handshake_typed h \<Longrightarrow> keeps inv (conn_upd q (\<lambda>c. c\<lparr>c_handshake := Some h\<rparr>) w)"
  "inv w \<Longrightarrow> auth_typed a \<Longrightarrow> keeps inv (conn_upd q (\<lambda>c. c\<lparr>c_auth := Some a\<rparr>) w)"
  "inv w \<Longrightarrow> req_typed r \<Longrightarrow> keeps inv (conn_upd q (\<lambda>c. c\<lparr>c_req := Some r\<rparr>) w)"
  by (auto intro!: k_upd typed_updates)

lemma parsers_live:
  assumes "inv w" "conn_get p w = Inr c"
  shows "c_handshake c = Some h \<Longrightarrow> handshake_typed h" "c_auth c = Some a \<Longrightarrow> auth_typed a" "c_req c = Some r \<Longrightarrow> req_typed r"
  using live_typed [OF assms] by (auto dest: conn_typedD)

lemma k_handshake_byte:
  assumes "inv w"
  shows "keeps_step inv (handshake_byte key w)"
  unfolding handshake_byte_def
proof (rule step_get, clarify)
  fix x p w1 assume "next_in key w = Inr (x, p, w1)"
  then have w1: "inv w1" by (rule next_kept [OF assms])
  show "keeps_step inv (bind_res (conn_get p w1) (\<lambda>c. case c_handshake c of None \<Rightarrow> Inl Null_Deref
    | Some h \<Rightarrow> bind_res (handshake_parser_feed h x) (\<lambda>(h, st). bind_res (conn_upd p (\<lambda>c. c\<lparr>c_handshake := Some h\<rparr>) w1) (\<lambda>w.
        if st = HANDSHAKE_DONE then bind_res (greeting_answer key p h w) (\<lambda>w. Inr (Continue w))
        else if st = HANDSHAKE_ERROR then Inr (Return (code SOCKS5_ERROR) w) else Inr (Continue w)))))"
    apply (rule step_get, rule step_option, simp add: step_return)
    apply (rule step_get, clarify, rule step_seq, rule k_parsers(1) [OF w1], rule handshake_feed_typed, assumption)
     apply (rule parsers_live(1) [OF w1], assumption+)
    apply (intro step_if step_return step_seq [OF k_greeting], assumption+)
    done
qed

lemma k_login: "inv w \<Longrightarrow> keeps inv (login_answer key p a w)"
  unfolding login_answer_def
  apply (rule keeps_get(1), rule keeps_get(1), rule keeps_let(1), rule keeps_get(1), rule keeps_get(1))
  apply (rule keeps_seq(1), rule k_upd, assumption)
    apply (simp add: conn_typed_def buffer_reset_inv, rule struct_typed, assumption, rule conn_buffers(2) [rotated], assumption+)
   apply simp
  apply (rule keeps_seq(1), rule k_interest, assumption)
  apply (rule keeps_seq(1), intro keeps_if(1) keeps_return k_upd, assumption, simp_all)
  apply (rule k_write, assumption)
  done

lemma k_auth_byte:
  assumes "inv w"
  shows "keeps_step inv (auth_byte key w)"
  unfolding auth_byte_def
proof (rule step_get, clarify)
  fix x p w1 assume "next_in key w = Inr (x, p, w1)"
  then have w1: "inv w1" by (rule next_kept [OF assms])
  show "keeps_step inv (bind_res (conn_get p w1) (\<lambda>c. case c_auth c of None \<Rightarrow> Inl Null_Deref
    | Some a \<Rightarrow> bind_res (auth_parser_feed a x) (\<lambda>(a, st). bind_res (conn_upd p (\<lambda>c. c\<lparr>c_auth := Some a\<rparr>) w1) (\<lambda>w.
        if st = AUTH_DONE then bind_res (login_answer key p a w) (\<lambda>w. Inr (Continue w))
        else if st = AUTH_ERROR then Inr (Return (code SOCKS5_ERROR) w) else Inr (Continue w)))))"
    apply (rule step_get, rule step_option, simp add: step_return)
    apply (rule step_get, clarify, rule step_seq, rule k_parsers(2) [OF w1], rule auth_feed_typed, assumption)
     apply (rule parsers_live(2) [OF w1], assumption+)
    apply (intro step_if step_return step_seq [OF k_login], assumption+)
    done
qed

lemma k_failure: "inv w \<Longrightarrow> keeps inv (send_failure p st w)"
  unfolding send_failure_def
  apply (rule keeps_get(1), rule keeps_get(1), rule k_upd, assumption)
   apply (simp add: conn_typed_def, rule struct_typed, assumption, rule conn_buffers(2) [rotated], assumption+)
  apply simp
  done

lemma k_success: "inv w \<Longrightarrow> keeps inv (send_success p w)"
  unfolding send_success_def Let_def
  apply (rule keeps_get(1), rule keeps_get(1), rule k_out, assumption)
  apply (rule struct_typed, assumption, rule conn_buffers(2) [rotated], assumption+)
  done

lemma k_jobs: "inv w \<Longrightarrow> inv (w\<lparr>w_sel := (w_sel w)\<lparr>resolution_jobs := l\<rparr>\<rparr>)"
  using table [of w]
  by (intro inv_sel) (auto simp: sel_inv_def used_at_def same_owners_def held_def sel_table_def)

lemma k_notify:
  assumes "inv w"
  shows "keeps inv (let (ok, w) = sys_alloc w; (st, s) = selector_notify_block ok (w_sel w) fd in Inr (w\<lparr>w_sel := s\<rparr>))"
proof -
  obtain ok v where v: "sys_alloc w = (ok, v)" by (cases "sys_alloc w")
  with inv_alloc [OF assms] have "inv v" by simp
  then have "inv (v\<lparr>w_sel := snd (selector_notify_block ok (w_sel v) fd)\<rparr>)"
    using k_jobs by (simp add: selector_notify_block_def)
  then show ?thesis using v by (cases "selector_notify_block ok (w_sel v) fd") (simp add: keeps_def)
qed

lemma k_resolve:
  assumes "inv w"
  shows "keeps inv (resolve_host_name p w)"
proof -
  have "keeps inv (bind_res (case r of None \<Rightarrow> Inr v | Some res \<Rightarrow> conn_upd p (\<lambda>c. c\<lparr>c_addr_info := res\<rparr>) v) (\<lambda>w.
      let (ok, w) = sys_alloc w; (st, s) = selector_notify_block ok (w_sel w) fd in Inr (w\<lparr>w_sel := s\<rparr>)))"
    if "sys_getaddrinfo name service af fl w = (r, v)" for name service af fl r v fd
  proof -
    have "inv v" using inv_calls(11) [OF assms, of name service af fl] that by simp
    then show ?thesis by (intro keeps_seq(1) keeps_option(1) k_notify k_upd keeps_return) simp_all
  qed
  then show ?thesis unfolding resolve_host_name_def by (intro keeps_get(1)) (simp add: Let_def split: prod.split)
qed

lemma k_resolver_done: "inv w \<Longrightarrow> keeps inv (resolver_done p w)"
  unfolding resolver_done_def by (intro keeps_seq(1) k_resolve keeps_return inv_resolving)

lemma k_request:
  assumes "inv w"
  shows "keeps_step inv (request_received key p r w)"
proof (cases "cp_cmd r = SOCKS5_CONN_REQ_CMD_CONNECT")
  case False
  then show ?thesis
    unfolding request_received_def
    by (simp) (intro step_seq k_failure assms step_get k_interest step_return)
next
  case True
  have thread: "inv (os_upd (\<lambda>s. s\<lparr>os_thread := q\<rparr>) v)" if "inv v" for q v by (rule inv_os_upd [OF that]) simp_all
  have "keeps_step inv (if cp_atyp r = SOCKS5_CONN_REQ_ATYP_DOMAIN_NAME
      then let (ok, q) = pop True (os_thread (w_os v)); w = os_upd (\<lambda>s. s\<lparr>os_thread := q\<rparr>) v
           in if ok then Inr (Return (code SOCKS5_CONNECTING) (w\<lparr>w_resolving := w_resolving w @ [p]\<rparr>))
              else Inr (Return (code SOCKS5_ERROR) w)
      else bind_res (resolve_host_name p v) (\<lambda>w. Inr (Return (code SOCKS5_CONNECTING) w)))" if "inv v" for v
    using thread [OF that] inv_resolving
    by (auto simp: Let_def split: prod.split intro!: step_if step_return step_seq [OF k_resolve [OF that]])
  then show ?thesis
    unfolding request_received_def using True
    by (simp only: if_False not_not simp_thms) (intro step_seq k_interest assms k_upd, simp_all)
qed

lemma k_conn_req_byte:
  assumes "inv w"
  shows "keeps_step inv (conn_req_byte key w)"
  unfolding conn_req_byte_def
proof (rule step_get, clarify)
  fix x p w1 assume "next_in key w = Inr (x, p, w1)"
  then have w1: "inv w1" by (rule next_kept [OF assms])
  show "keeps_step inv (bind_res (conn_get p w1) (\<lambda>c. case c_req c of None \<Rightarrow> Inl Null_Deref
    | Some r \<Rightarrow> bind_res (conn_req_parser_feed r x) (\<lambda>(r, st). bind_res (conn_upd p (\<lambda>c. c\<lparr>c_req := Some r\<rparr>) w1) (\<lambda>w.
        if st = CONN_REQ_DONE then request_received key p r w
        else if st = CONN_REQ_ERROR then Inr (Return (code SOCKS5_ERROR) w) else Inr (Continue w)))))"
    apply (rule step_get, rule step_option, simp add: step_return)
    apply (rule step_get, clarify, rule step_seq, rule k_parsers(3) [OF w1], rule req_feed_typed, assumption)
     apply (rule parsers_live(3) [OF w1], assumption+)
    apply (intro step_if step_return k_request, assumption+)
    done
qed

lemma k_reads:
  assumes "inv w"
  shows "keeps_with inv (handshake_read key w)" "keeps_with inv (auth_read key w)" "keeps_with inv (connection_req_read key w)"
  unfolding handshake_read_def auth_read_def connection_req_read_def
  using assms by (auto simp del: read_loop.simps intro!: k_loop k_handshake_byte k_auth_byte k_conn_req_byte k_current keeps_return)

subsection \<open>Connecting\<close>

lemma inv_dial:
  assumes "inv w" "connect_loop res rp fd w = (r, rest, fd', w')"
  shows "inv w'"
  using assms
proof (induction rp arbitrary: fd w)
  case (Cons a rp)
  obtain s w1 where 1: "sys_socket (ai_family a) w = (s, w1)" "inv w1"
    using inv_calls(5) [OF Cons.prems(1), of "ai_family a"] by (cases "sys_socket (ai_family a) w") auto
  obtain ok w2 where 2: "set_non_blocking_fd w1 = (ok, w2)" "inv w2" using inv_calls(10) [OF 1(2)] by (cases "set_non_blocking_fd w1") auto
  obtain e w3 where 3: "sys_connect s a w2 = (e, w3)" "inv w3" using inv_calls(6) [OF 2(2), of s a] by (cases "sys_connect s a w2") auto
  show ?case
    using Cons.prems(2) Cons.IH [OF inv_calls(1) [OF 3(2)]] 1 2 3 inv_calls(1) by (auto split: if_splits)
qed simp

lemma k_dialed: "inv w \<Longrightarrow> keeps inv (conn_upd p (\<lambda>c. c\<lparr>c_addr_info := res, c_origin_fd := fd\<rparr>) w)"
  by (intro k_upd) (simp_all add: conn_typed_def)

lemma k_reset: "inv w \<Longrightarrow> keeps inv (conn_upd p (\<lambda>c. c\<lparr>c_in := buffer_reset (c_in c)\<rparr>) w)"
  by (intro k_upd) (simp_all add: conn_typed_def buffer_reset_inv)

lemma k_block:
  assumes w: "inv w"
  shows "keeps_with inv (connecting_on_block_ready key w)"
  unfolding connecting_on_block_ready_def connect_to_host_def
proof (rule keeps_get_pair(2), rule keeps_if(2))
  fix p c
  show "keeps_with inv (bind_res (add_access p SOCKS5_REP_HOST_UNREACHABLE w) (\<lambda>w.
      bind_res (send_failure p SOCKS5_REP_HOST_UNREACHABLE w) (\<lambda>w.
      bind_res (set_interest (c_client_fd c) OP_WRITE w) (\<lambda>w. Inr (code SOCKS5_CONNECTION_REQ, w)))))"
    by (intro keeps_seq(2) k_access k_failure k_interest keeps_return w)
  obtain r rest fd v where d: "connect_loop (c_addr_info c) (c_addr_info c) (c_origin_fd c) w = (r, rest, fd, v)"
    by (metis prod_cases4)
  have v: "inv v" by (rule inv_dial [OF w d])
  have progress: "keeps_with inv (bind_res (set_interest (c_client_fd c) OP_NOOP u) (\<lambda>w.
      bind_res (register_fd fd H_Connecting OP_WRITE (k_data key) w) (\<lambda>(st, w).
      if st \<noteq> SELECTOR_SUCCESS
      then bind_res (add_access p SOCKS5_REP_GENERAL_FAILURE w) (\<lambda>w. Inr (code SOCKS5_ERROR, w))
      else Inr (code SOCKS5_CONNECTING, w))))" if "inv u" for u
    by (intro keeps_seq(2) keeps_seq_with(2) keeps_if(2) k_interest k_register k_access keeps_return that) simp_all
  have success: "keeps_with inv (bind_res (add_access p SOCKS5_REP_SUCCEEDED u) (\<lambda>w.
      bind_res (send_success p w) (\<lambda>w.
      bind_res (set_interest (k_fd key) OP_WRITE w) (\<lambda>w.
      bind_res (conn_upd p (\<lambda>c. c\<lparr>c_in := buffer_reset (c_in c)\<rparr>) w) (\<lambda>w.
      bind_res (socksv5_write key w) (\<lambda>w. Inr (code SOCKS5_COPY, w)))))))" if "inv u" for u
    by (intro keeps_seq(2) k_access k_success k_interest k_reset k_write keeps_return that)
  show "keeps_with inv (let (result, res, fd, w) = connect_loop (c_addr_info c) (c_addr_info c) (c_origin_fd c) w in
      bind_res (conn_upd p (\<lambda>c. c\<lparr>c_addr_info := res, c_origin_fd := fd\<rparr>) w) (\<lambda>w.
      if result = CONNECTION_IN_PROGRESS
      then bind_res (set_interest (c_client_fd c) OP_NOOP w) (\<lambda>w.
           bind_res (register_fd fd H_Connecting OP_WRITE (k_data key) w) (\<lambda>(st, w).
           if st \<noteq> SELECTOR_SUCCESS
           then bind_res (add_access p SOCKS5_REP_GENERAL_FAILURE w) (\<lambda>w. Inr (code SOCKS5_ERROR, w))
           else Inr (code SOCKS5_CONNECTING, w)))
      else if result = CONNECTION_SUCCESS
      then bind_res (add_access p SOCKS5_REP_SUCCEEDED w) (\<lambda>w.
           bind_res (send_success p w) (\<lambda>w.
           bind_res (set_interest (k_fd key) OP_WRITE w) (\<lambda>w.
           bind_res (conn_upd p (\<lambda>c. c\<lparr>c_in := buffer_reset (c_in c)\<rparr>) w) (\<lambda>w.
           bind_res (socksv5_write key w) (\<lambda>w. Inr (code SOCKS5_COPY, w))))))
      else Inr (code SOCKS5_ERROR, w)))"
    unfolding d Let_def prod.case
    by (rule keeps_seq(2), rule k_dialed [OF v], intro keeps_if(2) progress success keeps_return)
qed

subsection \<open>Copying\<close>

lemma k_both_gone:
  "inv w \<Longrightarrow> keeps inv (bind_res (unregister_fd fd w) (\<lambda>w. bind_res (conn_get p w) (\<lambda>c. unregister_fd (c_client_fd c) w)))"
  by (intro keeps_seq(1) keeps_get(1) k_unregister)

lemma k_copy_write: "inv w \<Longrightarrow> keeps inv (copy_write_handler key w)"
  unfolding copy_write_handler_def Let_def
  apply (rule keeps_get_pair(1), rule keeps_if(1), rule k_interest, assumption)
  apply (rule keeps_get_pair(1), rule keeps_call(1), rule inv_calls(3), assumption)
  apply (rule keeps_io(1))
   apply (rule keeps_if(1))
    apply (rule keeps_get(1), rule keeps_get(1), rule keeps_seq(1), rule k_in, assumption, rule compact_typed, assumption)
     apply (rule read_adv_typed, assumption, rule key_buffers(1) [rotated], assumption+)
    apply (rule keeps_seq(1), intro keeps_if(1) k_interest keeps_return, assumption+)
    apply (intro keeps_if(1) k_interest keeps_return, assumption+)
   apply (rule k_both_gone, assumption)
  apply (intro keeps_if(1) k_both_gone keeps_return, assumption+)
  done

lemma k_copy_read_handler: "inv w \<Longrightarrow> keeps inv (copy_read_handler key w)"
  unfolding copy_read_handler_def Let_def
  apply (rule keeps_get_pair(1), rule keeps_if(1))
   apply (intro keeps_seq(1) k_interest, assumption+)
  apply (rule keeps_get_pair(1), rule keeps_call(1), rule inv_calls(4), assumption)
  apply (rule keeps_io(2))
    apply (rule keeps_get(1), rule keeps_seq(1), rule k_out, assumption, rule recv_typed, assumption)
     apply (rule key_buffers(2) [rotated], assumption+)
    apply (intro keeps_seq(1) k_interest k_write, assumption+)
   apply (rule k_unregister, assumption)
  apply (intro keeps_if(1) k_both_gone keeps_return, assumption+)
  done

lemma k_copy_read: "inv w \<Longrightarrow> keeps_with inv (copy_read key w)"
  unfolding copy_read_def
  by (rule keeps_get_pair(2), rule keeps_seq_with(2), rule k_status, assumption)
    (intro keeps_if(2) keeps_seq(2) k_copy_write keeps_return, assumption+)


subsection \<open>The handlers\<close>

lemma event_rows:
  assumes "d \<in> set socks5_states" "inv w"
  shows "on_read_ready d = Some f \<Longrightarrow> keeps_with inv (f key w)" "on_block_ready d = Some f \<Longrightarrow> keeps_with inv (f key w)"
  using assms k_reads k_copy_read k_block
  by (auto simp: socks5_states_def states_with_def state_row_def connecting_read_def keeps_return)

lemma k_run_read: "inv w \<Longrightarrow> keeps_with inv (run_read key w)"
  and k_run_block: "inv w \<Longrightarrow> keeps_with inv (run_block key w)"
  using k_stm [of w _ _ _ _ _ _ on_read_ready] k_stm [of w _ _ _ _ _ _ on_block_ready] event_rows
  unfolding run_read_def run_block_def stm_handler_read_def stm_handler_block_def socks5_states_def by metis+

lemma k_origin: "inv w \<Longrightarrow> keeps inv (conn_upd p (\<lambda>c. c\<lparr>c_origin_fd := fd\<rparr>) w)"
  and k_targets: "inv w \<Longrightarrow> keeps inv (conn_upd p (\<lambda>c. c\<lparr>c_addr_info := ais\<rparr>) w)"
  by (intro k_upd; simp)+

lemma k_connected:
  assumes "inv w"
  shows "keeps inv (bind_res (conn_upd p (\<lambda>c. c\<lparr>c_addr_info := []\<rparr>) w) (\<lambda>w.
    bind_res (unregister_fd fd w) (\<lambda>w.
    bind_res (run_read key w) (\<lambda>(ret, w).
    bind_res (add_access p SOCKS5_REP_SUCCEEDED w) (\<lambda>w.
    bind_res (send_success p w) (\<lambda>w.
    bind_res (conn_get p w) (\<lambda>c.
    bind_res (set_interest (c_client_fd c) OP_WRITE w) (\<lambda>w.
    bind_res (conn_upd p (\<lambda>c. c\<lparr>c_in := buffer_reset (c_in c)\<rparr>) w)
      (socksv5_write key)))))))))"
  by (rule keeps_seq(1), rule k_targets [OF assms], rule keeps_seq(1), rule k_unregister, assumption,
      rule keeps_seq_with(1), rule k_run_read, assumption)
    (intro keeps_seq(1) k_access k_success keeps_get(1) k_interest k_reset k_write, assumption+)

lemma k_failed:
  assumes "inv w"
  shows "keeps inv (bind_res (add_access p st w) (\<lambda>w. bind_res (send_failure p st w) (\<lambda>w. bind_res (unregister_fd fd w) (\<lambda>w.
    bind_res (conn_upd p (\<lambda>c. c\<lparr>c_origin_fd := -1\<rparr>) (sys_close fd w)) (set_interest fd' OP_WRITE)))))"
  by (intro keeps_seq(1) k_access k_failure k_unregister k_origin k_interest inv_calls(1) assms)

lemma inv_asked:
  assumes "inv w"
  shows "inv (if ok then os_upd (\<lambda>s. s\<lparr>os_sockopt := q\<rparr>) w else sys_close fd (set_errno err (os_upd (\<lambda>s. s\<lparr>os_sockopt := q\<rparr>) w)))"
proof -
  have "inv (os_upd (\<lambda>s. s\<lparr>os_sockopt := q\<rparr>) w)" by (rule inv_os_upd [OF assms]) simp_all
  then show ?thesis using inv_calls(1,2) by simp
qed

lemma inv_redial:
  assumes "(if rest = [] then (CONNECTION_FAILED, [], fd, w) else connect_loop rest rest fd w) = (r, rest', fd', v)" "inv w"
  shows "inv v"
  using assms inv_dial by (auto split: if_splits)

lemma k_connecting:
  assumes w: "inv w"
  shows "keeps inv (handle_write_connecting key w)"
  unfolding handle_write_connecting_def connect_to_host_def Let_def
  apply (rule keeps_get_pair(1), rule keeps_split, rule keeps_nested, rule keeps_if(1))
   apply (rule keeps_quad, drule inv_redial, rule inv_calls(1), rule inv_asked [OF w])
   apply (rule keeps_seq(1), rule k_dialed, assumption, intro keeps_if(1) keeps_return k_failed, assumption+)
  apply (rule k_connected, rule inv_asked [OF w])
  done

lemma k_socks_read:
  assumes w: "inv w"
  shows "keeps inv (socksv5_read key w)"
  unfolding socksv5_read_def Let_def
  apply (rule keeps_get_pair(1), rule keeps_if(1))
   apply (rule keeps_seq(1), rule k_interest [OF w], intro keeps_if(1) k_interest keeps_return, assumption+)
  apply (rule keeps_get_pair(1), rule keeps_call(1), rule inv_calls(4) [OF w], rule keeps_io(2))
    apply (rule keeps_get(1), rule keeps_seq(1), rule k_in, assumption, rule recv_typed, assumption)
     apply (rule key_buffers(1) [OF w], assumption)
    apply (rule keeps_seq_with(1), rule k_run_read, assumption)
    apply (intro keeps_if(1) k_metrics keeps_return, assumption, simp add: metrics_inc_errors_def, assumption)
   apply (rule k_drop_both, assumption)
  apply (intro keeps_if(1) keeps_seq(1) k_metrics k_drop_both keeps_return, assumption, simp add: metrics_inc_errors_def, assumption+)
  done

lemma k_socks_block: "inv w \<Longrightarrow> keeps inv (socksv5_block key w)"
  unfolding socksv5_block_def
  apply (rule keeps_seq_with(1), rule k_run_block, assumption, intro keeps_if(1) keeps_seq(1) keeps_option(1) keeps_return k_metrics)
      apply (assumption, simp add: metrics_inc_errors_def, assumption)
   apply (intro keeps_get(1) k_unregister, assumption+)
  done

subsection \<open>The administration\<close>

lemma k_admin_upd: "inv w \<Longrightarrow> (\<And>a. ac_fd (f a) = ac_fd a) \<Longrightarrow> keeps inv (admin_upd p f w)"
  using inv_admin by (simp add: keeps_def admin_upd_def bind_res_eq_Inr) metis

lemma inv_answered:
  assumes w: "inv w" and run: "(if z then bind_res r (\<lambda>out. Inr (1, d, out, w))
     else let (ok, w) = sys_alloc w
          in bind_res (config_handler ok (w_cfg w) line resp) (\<lambda>(k, cfg, line, resp). Inr (k, g line, h resp, w\<lparr>w_cfg := cfg\<rparr>))) =
       Inr (k, d', out, w')"
  shows "inv w'"
proof (cases z)
  case True
  with w run show ?thesis by (auto simp: bind_res_eq_Inr)
next
  case False
  obtain ok v where v: "sys_alloc w = (ok, v)" by (cases "sys_alloc w")
  with inv_alloc [OF w] have iv: "inv v" by simp
  obtain n cfg l rs where c: "config_handler ok (w_cfg v) line resp = Inr (n, cfg, l, rs)"
    using run False v by (cases "config_handler ok (w_cfg v) line resp") auto
  with run False v have "w' = v\<lparr>w_cfg := cfg\<rparr>" by simp
  with inv_config [OF iv config_handler_typed [OF c]] show ?thesis by simp
qed

lemma keeps_quad_with:
  "(\<And>a b c v. r = Inr (a, b, c, v) \<Longrightarrow> keeps inv (f a b c v)) \<Longrightarrow> keeps inv (bind_res r (\<lambda>(a, b, c, v). f a b c v))"
  by (auto simp: keeps_def bind_res_eq_Inr)

lemma k_admin_command:
  assumes w: "inv w"
  shows "keeps inv (admin_command key p a at n w)"
  unfolding admin_command_def Let_def [of "(ac_in a)\<lparr>buf_data := _\<rparr>"] set_interest_key_def
  apply (rule keeps_get(1), rule keeps_if(1), rule k_admin_upd [OF w], simp)
  apply (rule keeps_get_pair(1), rule keeps_get(1), rule keeps_quad_with, drule inv_answered [OF w])
  apply (rule keeps_get(1), rule keeps_get(1), intro keeps_seq(1) k_admin_upd k_interest, assumption, simp, assumption)
  done

lemma k_admin_no_newline: "inv w \<Longrightarrow> keeps inv (admin_no_newline key p a w)"
  unfolding admin_no_newline_def set_interest_key_def
  apply (rule keeps_seq(1), rule keeps_if(1))
    apply (rule keeps_get_pair(1), rule keeps_get(1), rule keeps_get(1), rule keeps_get(1))
    apply (intro keeps_seq(1) k_admin_upd k_interest, assumption, simp, assumption)
   apply (simp add: keeps_return)
  apply (rule k_admin_upd, assumption, simp)
  done

lemma send_admin: "admin_get p (snd (sys_send fd bs w)) = admin_get p w"
  using calls_os(3) [of fd bs w] by (auto simp: admin_get_def)

lemma key_admin_get: "key_admin key w = Inr (p, a) \<Longrightarrow> admin_get p w = Inr a"
  by (auto simp: key_admin_def bind_res_eq_Inr split: option.splits)

lemma k_admin_gone:
  "inv w \<Longrightarrow> admin_get p w = Inr a \<Longrightarrow> keeps inv (bind_res (unregister_fd (ac_fd a) w) (\<lambda>w. bind_res (admin_get p w) (f w)))"
  using released by (fastforce simp: keeps_def bind_res_eq_Inr)

lemma k_admin_write:
  assumes w: "inv w"
  shows "keeps inv (admin_write key w)"
  unfolding admin_write_def Let_def set_interest_key_def
  apply (rule keeps_get_pair(1), rule keeps_if(1), simp add: keeps_return w)
  apply (rule keeps_get_pair(1), rule keeps_call(1), rule inv_calls(3) [OF w], rule keeps_io(1))
   apply (rule keeps_get(1), rule keeps_get(1), intro keeps_seq(1) k_admin_upd k_interest, assumption, simp, assumption)
  apply (rule keeps_if(1), simp add: keeps_return)
  apply (rule k_admin_gone, assumption)
  apply (drule key_admin_get, metis send_admin snd_conv)
  done

lemma recv_admin: "sys_recv fd n w = (r, v) \<Longrightarrow> admin_get p v = admin_get p w"
  using calls_os(4) [of fd n w] by (auto simp: admin_get_def)

lemma k_admin_put:
  "inv w \<Longrightarrow> admin_get p w = Inr a \<Longrightarrow> ac_fd a' = ac_fd a \<Longrightarrow> keeps inv (admin_upd p (\<lambda>_. a') w)"
  using inv_admin by (simp add: keeps_def admin_upd_def)

lemma k_admin_read:
  assumes w: "inv w"
  shows "keeps inv (admin_read key w)"
  unfolding admin_read_def Let_def
  apply (rule keeps_get_pair(1), rule keeps_if(1), rule k_unregister [OF w])
  apply (rule keeps_get_pair(1), rule keeps_call(1), rule inv_calls(4) [OF w], rule keeps_io(2))
    apply (rule keeps_get(1), rule keeps_seq(1), rule k_admin_put, assumption, erule recv_admin [THEN trans], erule key_admin_get, simp)
    apply (rule keeps_get_pair(1), rule keeps_get(1), rule keeps_option(1), rule k_admin_no_newline, assumption, rule k_admin_command, assumption)
   apply (rule k_unregister, assumption)+
  done

end

section \<open>The turns of the selector\<close>

text \<open>Accepting a client makes a connection before it is registered, and is a law of its own.\<close>

locale world_invariant = world_operations +
  assumes inv_accept: "inv w \<Longrightarrow> socksv5_passive_accept key w = Inr w' \<Longrightarrow> inv w'"
    and inv_admin_accept: "inv w \<Longrightarrow> s5admin_passive_accept key w = Inr w' \<Longrightarrow> inv w'"
begin

lemma k_accepts: "inv w \<Longrightarrow> keeps inv (socksv5_passive_accept key w)" "inv w \<Longrightarrow> keeps inv (s5admin_passive_accept key w)"
  unfolding keeps_def using inv_accept inv_admin_accept by blast+

lemma k_read_handler: "inv w \<Longrightarrow> read_handler h = Some f \<Longrightarrow> keeps inv (f fd d w)"
  by (cases h) (auto simp: as_callback_def k_accepts k_socks_read k_copy_read_handler k_admin_read)

lemma k_write_handler: "inv w \<Longrightarrow> write_handler h = Some f \<Longrightarrow> keeps inv (f fd d w)"
  by (cases h) (auto simp: as_callback_def k_write k_connecting k_copy_write k_admin_write)

lemma k_block_handler: "inv w \<Longrightarrow> block_handler h = Some f \<Longrightarrow> keeps inv (f fd d w)"
  by (cases h) (auto simp: as_callback_def k_socks_block)

lemma k_runs:
  assumes "inv w"
  shows "keeps inv (run_handler (handle_read proxy_handlers) h e fd d w)"
    "keeps inv (run_handler (handle_write proxy_handlers) h e fd d w)"
    "keeps inv (run_handler (handle_block proxy_handlers) h e fd d w)"
  using k_read_handler [OF assms] k_write_handler [OF assms] k_block_handler [OF assms]
  by (simp_all add: run_handler_def keeps_return proxy_handlers_def split: option.split)

lemma k_handle_item: "inv w \<Longrightarrow> keeps inv (handle_item proxy_handlers w_sel i w)"
  unfolding handle_item_def Let_def
  by (rule keeps_get(1), rule keeps_if(1), rule keeps_return(3), assumption)
    (rule keeps_seq(1), intro keeps_if(1) k_runs keeps_return(3), assumption+, rule keeps_get(1),
      intro keeps_if(1) k_runs keeps_return(3), assumption+)

lemma k_items: "inv w \<Longrightarrow> keeps inv (iterate_items proxy_handlers w_sel is w)"
  by (induction "is" arbitrary: w) (auto simp: keeps_return intro!: keeps_seq(1) k_handle_item)

lemma k_notify_jobs: "inv w \<Longrightarrow> keeps inv (notify_jobs proxy_handlers w_sel jobs w)"
proof (induction jobs arbitrary: w)
  case (Cons fd jobs)
  show ?case
    unfolding notify_jobs.simps
    by (rule keeps_get(1), rule keeps_seq(1), intro keeps_if(1) k_runs(3) keeps_return(3) Cons.prems) (rule Cons.IH)
qed (simp add: keeps_return)

lemma inv_readiness: "inv w \<Longrightarrow> inv (w\<lparr>w_sel := (w_sel w)\<lparr>slave_r := r, slave_w := s\<rparr>\<rparr>)"
  using table [of w] by (intro inv_sel) (auto simp: same_owners_def held_def)

lemma k_notifications: "inv w \<Longrightarrow> keeps inv (handle_block_notifications proxy_handlers w_sel (\<lambda>s w. w\<lparr>w_sel := s\<rparr>) w)"
  unfolding handle_block_notifications_def
  by (rule keeps_seq(1), rule k_notify_jobs, assumption, rule keeps_return(3), rule k_jobs, assumption)

lemma k_select:
  assumes "inv w"
  shows "keeps_with inv (proxy_select ps w)"
proof -
  let ?w = "w\<lparr>w_sel := (w_sel w)\<lparr>slave_r := master_r (w_sel w), slave_w := master_w (w_sel w)\<rparr>\<rparr>"
  have w: "inv ?w" by (rule inv_readiness [OF assms])
  have ready: "inv (?w\<lparr>w_sel := (w_sel ?w)\<lparr>slave_r := r, slave_w := s\<rparr>\<rparr>)" for r s by (rule inv_readiness [OF w])
  show ?thesis
    unfolding proxy_select_def selector_select_def Let_def handle_iteration_def
    by (cases ps) (use w ready in \<open>auto intro!: keeps_seq(2) keeps_return k_notifications k_items\<close>)
qed


end

end
