(* ===== verification/Integrity.thy ===== *)
theory Integrity
  imports World_Invariant Server
begin

text \<open>
  The invariant of the server: values are well typed, and the connections and sessions on the heap are exactly those
  that are registered, each once, for its own descriptor.  It holds from the start of the main loop to its end, and at
  the end the shutdown frees everything.
\<close>

section \<open>The invariant\<close>

definition linked :: "world \<Rightarrow> bool" where
  "linked w \<longleftrightarrow>
     (\<forall>fd d. held (w_sel w) fd H_Socks5 d \<longrightarrow> (\<exists>p c. d = Some p \<and> conn_get p w = Inr c \<and> c_client_fd c = fd)) \<and>
     (\<forall>p c. conn_get p w = Inr c \<longrightarrow> held (w_sel w) (c_client_fd c) H_Socks5 (Some p)) \<and>
     (\<forall>fd d. held (w_sel w) fd H_Admin d \<longrightarrow> (\<exists>p a. d = Some p \<and> admin_get p w = Inr a \<and> ac_fd a = fd)) \<and>
     (\<forall>p a. admin_get p w = Inr a \<longrightarrow> held (w_sel w) (ac_fd a) H_Admin (Some p))"

definition world_ok :: "world \<Rightarrow> bool" where
  "world_ok w \<longleftrightarrow> sel_inv (w_sel w) \<and> (\<forall>fd. sel_table (w_sel w) fd \<noteq> None \<longrightarrow> \<not> invalid_fd fd) \<and> config_inv (w_cfg w) \<and>
     256 \<le> length (os_junk (w_os w)) \<and> (\<forall>p c. conn_get p w = Inr c \<longrightarrow> conn_typed c) \<and> linked w"

lemma world_okD:
  assumes "world_ok w"
  shows "sel_inv (w_sel w)" "sel_table (w_sel w) fd = Some e \<Longrightarrow> \<not> invalid_fd fd" "config_inv (w_cfg w)"
    "256 \<le> length (os_junk (w_os w))" "conn_get p w = Inr c \<Longrightarrow> conn_typed c"
    "held (w_sel w) fd H_Socks5 d \<Longrightarrow> \<exists>p c. d = Some p \<and> conn_get p w = Inr c \<and> c_client_fd c = fd"
    "conn_get p w = Inr c \<Longrightarrow> held (w_sel w) (c_client_fd c) H_Socks5 (Some p)"
    "held (w_sel w) fd H_Admin d \<Longrightarrow> \<exists>p a. d = Some p \<and> admin_get p w = Inr a \<and> ac_fd a = fd"
    "admin_get p w = Inr a \<Longrightarrow> held (w_sel w) (ac_fd a) H_Admin (Some p)"
  using assms unfolding world_ok_def linked_def by blast+

lemma world_okI:
  assumes "sel_inv (w_sel w)" "\<And>fd e. sel_table (w_sel w) fd = Some e \<Longrightarrow> \<not> invalid_fd fd" "config_inv (w_cfg w)"
    "256 \<le> length (os_junk (w_os w))" "\<And>p c. conn_get p w = Inr c \<Longrightarrow> conn_typed c"
    "\<And>fd d. held (w_sel w) fd H_Socks5 d \<Longrightarrow> \<exists>p c. d = Some p \<and> conn_get p w = Inr c \<and> c_client_fd c = fd"
    "\<And>p c. conn_get p w = Inr c \<Longrightarrow> held (w_sel w) (c_client_fd c) H_Socks5 (Some p)"
    "\<And>fd d. held (w_sel w) fd H_Admin d \<Longrightarrow> \<exists>p a. d = Some p \<and> admin_get p w = Inr a \<and> ac_fd a = fd"
    "\<And>p a. admin_get p w = Inr a \<Longrightarrow> held (w_sel w) (ac_fd a) H_Admin (Some p)"
  shows "world_ok w"
  using assms unfolding world_ok_def linked_def by blast

lemma held_one: "held s fd h d \<Longrightarrow> held s fd h' d' \<Longrightarrow> h' = h \<and> d' = d"
  by (auto simp: held_def)

lemma held_apart: "held s fd h d \<Longrightarrow> held s fd' h' d' \<Longrightarrow> h \<noteq> h' \<or> d \<noteq> d' \<Longrightarrow> fd \<noteq> fd'"
  using held_one by blast

text \<open>The same connections, sessions and registrations.\<close>

lemma world_ok_same:
  assumes "world_ok w" "w_sel w' = w_sel w" "w_heap w' = w_heap w" "w_admin w' = w_admin w"
    "config_inv (w_cfg w')" "256 \<le> length (os_junk (w_os w'))"
  shows "world_ok w'"
proof -
  have "conn_get p w' = conn_get p w" "admin_get p w' = admin_get p w" for p
    using assms(3,4) by (simp_all add: conn_get_def admin_get_def)
  with assms show ?thesis by (simp add: world_ok_def linked_def)
qed

lemma admin_get_heap [simp]: "admin_get p (w\<lparr>w_heap := h\<rparr>) = admin_get p w" "admin_get p (w\<lparr>w_sel := s\<rparr>) = admin_get p w"
  "admin_get p (w\<lparr>w_os := u\<rparr>) = admin_get p w" "admin_get p (w\<lparr>w_cfg := g\<rparr>) = admin_get p w"
  "conn_get p (w\<lparr>w_admin := as\<rparr>) = conn_get p w"
  by (simp_all add: admin_get_def conn_get_def)

lemma conn_get_put_at:
  "conn_get p w = Inr c \<Longrightarrow> w_heap w' = (w_heap w)[p := Some c'] \<Longrightarrow> conn_get q w' = (if q = p then Inr c' else conn_get q w)"
  by (auto simp: conn_get_def split: if_splits)

lemma admin_get_put_at:
  "admin_get p w = Inr a \<Longrightarrow> w_admin w' = (w_admin w)[p := Some a'] \<Longrightarrow> admin_get q w' = (if q = p then Inr a' else admin_get q w)"
  by (auto simp: admin_get_def split: if_splits)

lemma world_ok_conn:
  assumes ok: "world_ok w" and c: "conn_get p w = Inr c" "conn_typed c'" "c_client_fd c' = c_client_fd c"
  shows "world_ok (w\<lparr>w_heap := (w_heap w)[p := Some c']\<rparr>)"
proof -
  define w' where "w' = w\<lparr>w_heap := (w_heap w)[p := Some c']\<rparr>"
  then have same: "w_sel w' = w_sel w" "w_cfg w' = w_cfg w" "w_os w' = w_os w" "admin_get q w' = admin_get q w" for q by simp_all
  have get: "conn_get q w' = (if q = p then Inr c' else conn_get q w)" for q
    by (rule conn_get_put_at [OF c(1)]) (simp add: w'_def)
  have "\<exists>q c. d = Some q \<and> conn_get q w' = Inr c \<and> c_client_fd c = fd" if h: "held (w_sel w) fd H_Socks5 d" for fd d
  proof -
    obtain q e where q: "d = Some q" "conn_get q w = Inr e" "c_client_fd e = fd" using world_okD(6) [OF ok h] by blast
    then show ?thesis using c get [of q] by (cases "q = p") auto
  qed
  then have "world_ok w'"
    using world_okD [OF ok] c by (intro world_okI) (simp_all add: get same split: if_splits)
  then show ?thesis by (simp add: w'_def)
qed

lemma world_ok_admin:
  assumes ok: "world_ok w" and a: "admin_get p w = Inr a" "ac_fd a' = ac_fd a"
  shows "world_ok (w\<lparr>w_admin := (w_admin w)[p := Some a']\<rparr>)"
proof -
  define w' where "w' = w\<lparr>w_admin := (w_admin w)[p := Some a']\<rparr>"
  then have same: "w_sel w' = w_sel w" "w_cfg w' = w_cfg w" "w_os w' = w_os w" "conn_get q w' = conn_get q w" for q by simp_all
  have get: "admin_get q w' = (if q = p then Inr a' else admin_get q w)" for q
    by (rule admin_get_put_at [OF a(1)]) (simp add: w'_def)
  have "\<exists>q a. d = Some q \<and> admin_get q w' = Inr a \<and> ac_fd a = fd" if h: "held (w_sel w) fd H_Admin d" for fd d
  proof -
    obtain q e where q: "d = Some q" "admin_get q w = Inr e" "ac_fd e = fd" using world_okD(8) [OF ok h] by blast
    then show ?thesis using a get [of q] by (cases "q = p") auto
  qed
  then have "world_ok w'"
    using world_okD [OF ok] a by (intro world_okI) (simp_all add: get same split: if_splits)
  then show ?thesis by (simp add: w'_def)
qed

lemma world_ok_sel:
  assumes "world_ok w" "sel_inv s" "same_owners (w_sel w) s"
  shows "world_ok (w\<lparr>w_sel := s\<rparr>)"
  using assms unfolding world_ok_def linked_def same_owners_def by auto

section \<open>Closing\<close>

text \<open>Both close handlers release what they are registered for, and change nothing else that counts.\<close>

definition same_kernel :: "world \<Rightarrow> world \<Rightarrow> bool" where
  "same_kernel w w' \<longleftrightarrow> os_alloc (w_os w') = os_alloc (w_os w) \<and> os_junk (w_os w') = os_junk (w_os w)"

lemma socks_close_world:
  assumes "conn_get p w = Inr c" "metrics (data (w_cfg w)) = Some m"
  shows "\<exists>w'. socksv5_close fd (Some p) w = Inr w' \<and> same_kernel w w' \<and> w_sel w' = w_sel w \<and> w_admin w' = w_admin w \<and>
    w_heap w' = (w_heap w)[p := None] \<and> w_cfg w' = (w_cfg w)\<lparr>data := (data (w_cfg w))\<lparr>metrics := Some (metrics_dec_curr_conn m)\<rparr>\<rparr>"
  using assms
  by (auto simp: socksv5_close_def key_conn_def metrics_upd_def conn_free_def conn_get_def sys_close_def emit_def os_upd_def same_kernel_def
      Let_def split: if_splits option.splits)

lemma admin_close_world:
  assumes "admin_get p w = Inr a"
  shows "\<exists>w'. admin_close fd (Some p) w = Inr w' \<and> same_kernel w w' \<and> w_sel w' = w_sel w \<and> w_heap w' = w_heap w \<and>
    w_cfg w' = w_cfg w \<and> w_admin w' = (w_admin w)[p := None]"
  using assms
  by (auto simp: admin_close_def key_admin_def admin_free_def admin_get_def sys_close_def emit_def os_upd_def same_kernel_def
      split: if_splits option.splits)

lemma conn_get_freed:
  "conn_get p w = Inr c \<Longrightarrow> w_heap w' = (w_heap w)[p := None] \<Longrightarrow>
     conn_get q w' = (if q = p then Inl Use_After_Free else conn_get q w)"
  by (auto simp: conn_get_def split: if_splits)

lemma admin_get_freed:
  "admin_get p w = Inr a \<Longrightarrow> w_admin w' = (w_admin w)[p := None] \<Longrightarrow>
     admin_get q w' = (if q = p then Inl Use_After_Free else admin_get q w)"
  by (auto simp: admin_get_def split: if_splits)

lemma held_without: "sel_table s' = (sel_table s)(fd := None) \<Longrightarrow> held s' fd' h d \<longleftrightarrow> fd' \<noteq> fd \<and> held s fd' h d"
  by (auto simp: held_def)

text \<open>The ways an unregistration can go.\<close>

lemma unregister_world:
  assumes ok: "world_ok w" and un: "unregister_fd fd w = Inr w'"
  obtains (none) "w' = w" "sel_table (w_sel w) fd = None"
  | (plain) s where "w' = w\<lparr>w_sel := s\<rparr>" "sel_inv s" "sel_table s = (sel_table (w_sel w))(fd := None)"
      "\<And>d. \<not> held (w_sel w) fd H_Socks5 d" "\<And>d. \<not> held (w_sel w) fd H_Admin d"
  | (conn) p c m where "conn_get p w = Inr c" "c_client_fd c = fd" "metrics (data (w_cfg w)) = Some m"
      "w_heap w' = (w_heap w)[p := None]" "w_admin w' = w_admin w"
      "w_cfg w' = (w_cfg w)\<lparr>data := (data (w_cfg w))\<lparr>metrics := Some (metrics_dec_curr_conn m)\<rparr>\<rparr>"
      "same_kernel w w'" "sel_inv (w_sel w')" "sel_table (w_sel w') = (sel_table (w_sel w))(fd := None)"
  | (admin) p a where "admin_get p w = Inr a" "ac_fd a = fd" "w_admin w' = (w_admin w)[p := None]" "w_heap w' = w_heap w"
      "w_cfg w' = w_cfg w" "same_kernel w w'" "sel_inv (w_sel w')" "sel_table (w_sel w') = (sel_table (w_sel w))(fd := None)"
proof (cases "sel_table (w_sel w) fd")
  case None
  with un show thesis
    using unregister_free [OF world_okD(1) [OF ok] None, where close = handler_close and w = w] none
    by (simp add: unregister_fd_def unregister_def)
next
  case (Some e)
  note inv = world_okD(1) [OF ok]
  note valid = world_okD(2) [OF ok Some]
  obtain h where h: "it_handler e = Some h" using table_item [OF inv Some] by blast
  have step: "\<exists>s. w' = v\<lparr>w_sel := s\<rparr> \<and> sel_inv s \<and> sel_table s = (sel_table (w_sel w))(fd := None)"
    if "(case handler_close h of None \<Rightarrow> Inr w | Some f \<Rightarrow> f fd (it_data e) w) = Inr v" for v
    using unregister_used [where close = handler_close and w = w and w' = v, OF inv valid Some h] that un
    by (auto simp: unregister_fd_def unregister_def)
  show thesis
  proof (cases "h = H_Socks5 \<or> h = H_Admin")
    case False
    then have "(case handler_close h of None \<Rightarrow> Inr w | Some f \<Rightarrow> f fd (it_data e) w) = Inr w" by (cases h) auto
    from step [OF this] obtain s where "w' = w\<lparr>w_sel := s\<rparr>" "sel_inv s" "sel_table s = (sel_table (w_sel w))(fd := None)" by blast
    moreover have "\<not> held (w_sel w) fd H_Socks5 d" "\<not> held (w_sel w) fd H_Admin d" for d using False Some h by (auto simp: held_def)
    ultimately show thesis by (rule plain)
  next
    case True
    then show thesis
    proof
      assume S: "h = H_Socks5"
      then have "held (w_sel w) fd H_Socks5 (it_data e)" using Some h by (simp add: held_def)
      from world_okD(6) [OF ok this] obtain p c where p: "it_data e = Some p" "conn_get p w = Inr c" "c_client_fd c = fd" by blast
      obtain m where m: "metrics (data (w_cfg w)) = Some m" using world_okD(3) [OF ok] by (auto simp: config_inv_def)
      from socks_close_world [OF p(2) m, of fd] obtain v where v: "socksv5_close fd (Some p) w = Inr v" "same_kernel w v"
        "w_admin v = w_admin w" "w_heap v = (w_heap w)[p := None]"
        "w_cfg v = (w_cfg w)\<lparr>data := (data (w_cfg w))\<lparr>metrics := Some (metrics_dec_curr_conn m)\<rparr>\<rparr>" by blast
      from step [of v] S p(1) v(1) obtain s where s: "w' = v\<lparr>w_sel := s\<rparr>" "sel_inv s" "sel_table s = (sel_table (w_sel w))(fd := None)"
        by auto
      show thesis using v s by (intro conn [OF p(2,3) m]) (simp_all add: same_kernel_def)
    next
      assume A: "h = H_Admin"
      then have "held (w_sel w) fd H_Admin (it_data e)" using Some h by (simp add: held_def)
      from world_okD(8) [OF ok this] obtain p a where p: "it_data e = Some p" "admin_get p w = Inr a" "ac_fd a = fd" by blast
      from admin_close_world [OF p(2), of fd] obtain v where v: "admin_close fd (Some p) w = Inr v" "same_kernel w v"
        "w_heap v = w_heap w" "w_cfg v = w_cfg w" "w_admin v = (w_admin w)[p := None]" by blast
      from step [of v] A p(1) v(1) obtain s where s: "w' = v\<lparr>w_sel := s\<rparr>" "sel_inv s" "sel_table s = (sel_table (w_sel w))(fd := None)"
        by auto
      show thesis using v s by (intro admin [OF p(2,3)]) (simp_all add: same_kernel_def)
    qed
  qed
qed

lemma world_ok_unregister:
  assumes ok: "world_ok w" and un: "unregister_fd fd w = Inr w'"
  shows "world_ok w'"
  using ok un
proof (cases rule: unregister_world)
  case none
  with ok show ?thesis by simp
next
  case (plain s)
  have "same_owners (w_sel w) s"
    unfolding same_owners_def held_without [OF plain(3)] using plain(3-5) by auto
  with world_ok_sel [OF ok plain(2)] plain(1) show ?thesis by simp
next
  case (conn p c m)
  note get = conn_get_freed [OF conn(1,4)]
  have admin: "admin_get q w' = admin_get q w" for q using conn(5) by (simp add: admin_get_def)
  note h = held_without [OF conn(9)]
  have own: "held (w_sel w) fd H_Socks5 (Some p)" using world_okD(7) [OF ok conn(1)] conn(2) by simp
  show ?thesis
  proof (rule world_okI)
    show "sel_inv (w_sel w')" by (rule conn(8))
    show "\<not> invalid_fd fd'" if "sel_table (w_sel w') fd' = Some e" for fd' e
      using that conn(9) world_okD(2) [OF ok, of fd' e] by (simp split: if_splits)
    show "config_inv (w_cfg w')" using world_okD(3) [OF ok] conn(6) by (auto simp: config_inv_def settings_ok_def)
    show "256 \<le> length (os_junk (w_os w'))" using world_okD(4) [OF ok] conn(7) by (simp add: same_kernel_def)
    show "conn_typed c'" if "conn_get q w' = Inr c'" for q c' using that get world_okD(5) [OF ok, of q c'] by (simp split: if_splits)
    show "\<exists>q c. d = Some q \<and> conn_get q w' = Inr c \<and> c_client_fd c = fd'" if "held (w_sel w') fd' H_Socks5 d" for fd' d
    proof -
      from that h have x: "fd' \<noteq> fd" "held (w_sel w) fd' H_Socks5 d" by auto
      from world_okD(6) [OF ok x(2)] obtain q e where q: "d = Some q" "conn_get q w = Inr e" "c_client_fd e = fd'" by blast
      with x(1) conn(1,2) have "q \<noteq> p" by auto
      with q get show ?thesis by auto
    qed
    show "held (w_sel w') (c_client_fd e) H_Socks5 (Some q)" if "conn_get q w' = Inr e" for q e
    proof -
      from that get have q: "q \<noteq> p" "conn_get q w = Inr e" by (auto split: if_splits)
      from held_apart [OF world_okD(7) [OF ok q(2)] own] q(1) world_okD(7) [OF ok q(2)] h show ?thesis by simp
    qed
    show "\<exists>q a. d = Some q \<and> admin_get q w' = Inr a \<and> ac_fd a = fd'" if "held (w_sel w') fd' H_Admin d" for fd' d
      using that h world_okD(8) [OF ok, of fd' d] admin by simp
    show "held (w_sel w') (ac_fd a) H_Admin (Some q)" if "admin_get q w' = Inr a" for q a
    proof -
      have "held (w_sel w) (ac_fd a) H_Admin (Some q)" using world_okD(9) [OF ok, of q a] that admin by simp
      from held_apart [OF this own] this h show ?thesis by simp
    qed
  qed
next
  case (admin p a)
  note get = admin_get_freed [OF admin(1,3)]
  have conn: "conn_get q w' = conn_get q w" for q using admin(4) by (simp add: conn_get_def)
  note h = held_without [OF admin(8)]
  have own: "held (w_sel w) fd H_Admin (Some p)" using world_okD(9) [OF ok admin(1)] admin(2) by simp
  show ?thesis
  proof (rule world_okI)
    show "sel_inv (w_sel w')" by (rule admin(7))
    show "\<not> invalid_fd fd'" if "sel_table (w_sel w') fd' = Some e" for fd' e
      using that admin(8) world_okD(2) [OF ok, of fd' e] by (simp split: if_splits)
    show "config_inv (w_cfg w')" using world_okD(3) [OF ok] admin(5) by simp
    show "256 \<le> length (os_junk (w_os w'))" using world_okD(4) [OF ok] admin(6) by (simp add: same_kernel_def)
    show "conn_typed c'" if "conn_get q w' = Inr c'" for q c' using that conn world_okD(5) [OF ok, of q c'] by simp
    show "\<exists>q c. d = Some q \<and> conn_get q w' = Inr c \<and> c_client_fd c = fd'" if "held (w_sel w') fd' H_Socks5 d" for fd' d
      using that h world_okD(6) [OF ok, of fd' d] conn by simp
    show "held (w_sel w') (c_client_fd e) H_Socks5 (Some q)" if "conn_get q w' = Inr e" for q e
    proof -
      have "held (w_sel w) (c_client_fd e) H_Socks5 (Some q)" using world_okD(7) [OF ok, of q e] that conn by simp
      from held_apart [OF this own] this h show ?thesis by simp
    qed
    show "\<exists>q a. d = Some q \<and> admin_get q w' = Inr a \<and> ac_fd a = fd'" if "held (w_sel w') fd' H_Admin d" for fd' d
    proof -
      from that h have x: "fd' \<noteq> fd" "held (w_sel w) fd' H_Admin d" by auto
      from world_okD(8) [OF ok x(2)] obtain q e where q: "d = Some q" "admin_get q w = Inr e" "ac_fd e = fd'" by blast
      with x(1) admin(1,2) have "q \<noteq> p" by auto
      with q get show ?thesis by auto
    qed
    show "held (w_sel w') (ac_fd e) H_Admin (Some q)" if "admin_get q w' = Inr e" for q e
    proof -
      from that get have q: "q \<noteq> p" "admin_get q w = Inr e" by (auto split: if_splits)
      from held_apart [OF world_okD(9) [OF ok q(2)] own] q(1) world_okD(9) [OF ok q(2)] h show ?thesis by simp
    qed
  qed
qed

text \<open>An invariant of the operations is one of the loop, whenever the resolvers finish.\<close>

context world_invariant begin

lemma k_serve: "inv w \<Longrightarrow> keeps_with inv (serve ts w)"
proof (induction ts arbitrary: w)
  case (Cons t ts)
  show ?case
  proof (cases t)
    case (Selected r)
    show ?thesis
      unfolding Selected serve.simps
      by (rule keeps_seq_with(2), rule k_select [OF Cons.prems]) (intro keeps_if(2) keeps_return Cons.IH, assumption+)
  next
    case (Resolved p)
    show ?thesis
      unfolding Resolved serve.simps
      by (intro keeps_if(2) Cons.IH Cons.prems) (rule keeps_seq(2), rule k_resolver_done [OF Cons.prems], rule Cons.IH)
  qed
qed (simp add: keeps_return)

end

interpretation server: world_operations world_ok
proof unfold_locales
  fix w p c assume "world_ok w" "conn_get p w = Inr c" then show "conn_typed c" by (rule world_okD(5))
next
  fix w assume ok: "world_ok w"
  show "sel_inv (w_sel w)" "256 \<le> length (os_junk (w_os w))" by (rule world_okD [OF ok])+
  show "world_ok (snd (sys_alloc w))"
    by (rule world_ok_same [OF ok]) (use world_okD(3,4) [OF ok] in \<open>simp_all add: sys_alloc_def os_upd_def Let_def split: prod.split\<close>)
  show "world_ok (w\<lparr>w_resolving := l\<rparr>)" for l by (rule world_ok_same [OF ok]) (use world_okD(3,4) [OF ok] in simp_all)
  show "world_ok (w\<lparr>w_os := u\<rparr>)" if "os_alloc u = os_alloc (w_os w)" "os_junk u = os_junk (w_os w)" for u
    by (rule world_ok_same [OF ok]) (use world_okD(3,4) [OF ok] that in simp_all)
  show "world_ok (w\<lparr>w_cfg := g\<rparr>)" if "config_kept (w_cfg w) g" for g
    by (rule world_ok_same [OF ok]) (use world_okD(3,4) [OF ok] that in \<open>simp_all add: config_kept_def\<close>)
  show "world_ok w'" if "unregister_fd fd w = Inr w'" for fd w' by (rule world_ok_unregister [OF ok that])
  show "world_ok (w\<lparr>w_sel := s\<rparr>)" if "sel_inv s" "same_owners (w_sel w) s" for s by (rule world_ok_sel [OF ok that])
  show "world_ok (w\<lparr>w_heap := (w_heap w)[p := Some c']\<rparr>)"
    if "conn_get p w = Inr c" "conn_typed c'" "c_client_fd c' = c_client_fd c" for p c c'
    by (rule world_ok_conn [OF ok that])
  show "world_ok (w\<lparr>w_admin := (w_admin w)[p := Some a']\<rparr>)" if "admin_get p w = Inr a" "ac_fd a' = ac_fd a" for p a a'
    by (rule world_ok_admin [OF ok that])
  show "\<exists>e. admin_get p w' = Inl e" if a: "admin_get p w = Inr a" and un: "unregister_fd (ac_fd a) w = Inr w'" for p a w'
    using ok un
  proof (cases rule: unregister_world)
    case none
    with world_okD(9) [OF ok a] show ?thesis by (simp add: held_def)
  next
    case (plain s)
    with world_okD(9) [OF ok a] show ?thesis by blast
  next
    case (conn q c m)
    with world_okD(7) [OF ok conn(1)] world_okD(9) [OF ok a] held_one show ?thesis by fastforce
  next
    case (admin q a')
    with world_okD(9) [OF ok admin(1)] world_okD(9) [OF ok a] have "q = p" using held_one by fastforce
    with admin_get_freed [OF admin(1,3), of p] show ?thesis by simp
  qed
qed

section \<open>Accepting\<close>

text \<open>What the calls of the kernel leave: everything but the kernel, whose allocations never fail unless they did before.\<close>

definition only_kernel :: "world \<Rightarrow> world \<Rightarrow> bool" where
  "only_kernel w w' \<longleftrightarrow> (\<exists>u. w' = w\<lparr>w_os := u\<rparr> \<and> os_junk u = os_junk (w_os w) \<and> (os_alloc (w_os w) = [] \<longrightarrow> os_alloc u = []))"

lemma only_kernel_trans: "only_kernel w w1 \<Longrightarrow> only_kernel w1 w2 \<Longrightarrow> only_kernel w w2"
  by (auto simp: only_kernel_def)

lemma only_kernel_refl [simp]: "only_kernel w w"
  by (simp add: only_kernel_def exI [of _ "w_os w"])

lemma only_kernel_calls:
  "only_kernel w (sys_close fd w)" "only_kernel w (snd (sys_accept fd w))" "only_kernel w (snd (set_non_blocking_fd w))"
  "only_kernel w (snd (sys_alloc w))"
proof -
  show "only_kernel w (sys_close fd w)" using calls_os(1) [of fd w] by (auto simp: only_kernel_def)
  show "only_kernel w (snd (sys_accept fd w))" using calls_os(7) [of fd w] by (auto simp: only_kernel_def)
  show "only_kernel w (snd (set_non_blocking_fd w))" using calls_os(10) [of w] by (auto simp: only_kernel_def)
  show "only_kernel w (snd (sys_alloc w))"
    by (auto simp: only_kernel_def sys_alloc_def os_upd_def pop_def split: list.split)
qed

lemma only_kernelD:
  assumes "only_kernel w w'"
  shows "w_sel w' = w_sel w" "w_heap w' = w_heap w" "w_admin w' = w_admin w" "w_cfg w' = w_cfg w" "w_resolving w' = w_resolving w"
    "os_junk (w_os w') = os_junk (w_os w)" "os_alloc (w_os w) = [] \<Longrightarrow> os_alloc (w_os w') = []"
  using assms by (auto simp: only_kernel_def)

definition new_item :: "int \<Rightarrow> handler \<Rightarrow> nat \<Rightarrow> (handler, nat) item" where
  "new_item fd h p = \<lparr>it_fd = fd, it_interest = OP_READ, it_handler = Some h, it_data = Some p\<rparr>"

lemma passive_accept_world:
  assumes inv: "sel_inv (w_sel w)" and run: "passive_accept store key p h w = Inr (fd, w')"
  obtains (failed) "fd = -1" "only_kernel w w'"
  | (made) w1 s where "\<not> invalid_fd fd" "only_kernel w w1" "sel_table (w_sel w) fd = None" "sel_inv s"
      "sel_table s = (sel_table (w_sel w))(fd \<mapsto> new_item fd h p)"
      "w' = w1\<lparr>w_sel := s\<rparr> \<or> (\<exists>a pt. store a pt (w1\<lparr>w_sel := s\<rparr>) = Inr w')"
proof -
  obtain r w1 where 1: "sys_accept (k_fd key) w = (r, w1)" by (cases "sys_accept (k_fd key) w")
  have k1: "only_kernel w w1" using only_kernel_calls(2) [of w "k_fd key"] 1 by simp
  show thesis
  proof (cases r)
    case Accept_Error
    with run 1 k1 show thesis by (intro failed) (simp_all add: passive_accept_def)
  next
    case (Accepted client addr)
    obtain ok w2 where 2: "set_non_blocking_fd w1 = (ok, w2)" by (cases "set_non_blocking_fd w1")
    have k2: "only_kernel w w2" using only_kernel_trans [OF k1] only_kernel_calls(3) [of w1] 2 by simp
    show thesis
    proof (cases ok)
      case False
      with run 1 2 Accepted only_kernel_trans [OF k2 only_kernel_calls(1)] show thesis
        by (intro failed) (auto simp: passive_accept_def)
    next
      case True
      define after where "after = (\<lambda>v. case addr of Sock_In a pt \<Rightarrow> store (Some (dotted a)) (htons pt) v
        | Sock_In6 a pt \<Rightarrow> store (os_ntop6 (w_os v) a) (htons pt) v | Sock_Other \<Rightarrow> Inr v)"
      have run': "bind_res (register_fd client h OP_READ (Some p) w2) (\<lambda>(st, w).
          if st \<noteq> SELECTOR_SUCCESS then Inr (-1, sys_close client w) else bind_res (after w) (\<lambda>w. Inr (client, w))) = Inr (fd, w')"
        using run 1 2 Accepted True unfolding after_def by (simp add: passive_accept_def)
      then obtain st w3 where 3: "register_fd client h OP_READ (Some p) w2 = Inr (st, w3)"
        by (cases "register_fd client h OP_READ (Some p) w2") auto
      have inv2: "sel_inv (w_sel w2)" using inv only_kernelD(1) [OF k2] by simp
      show thesis
      proof (cases "st = SELECTOR_SUCCESS")
        case False
        have "only_kernel w w3"
          using register_cases [OF inv2 3] False k2 only_kernel_trans [OF k2 only_kernel_calls(4)] by auto
        with run' 3 False only_kernel_trans [OF _ only_kernel_calls(1)] show thesis by (intro failed) auto
      next
        case True
        with register_cases [OF inv2 3] obtain s where s: "\<not> invalid_fd client" "sel_table (w_sel w2) client = None"
          "w3 = w2\<lparr>w_sel := s\<rparr>" "sel_inv s" "sel_table s = (sel_table (w_sel w2))(client \<mapsto> new_item client h p)"
          by (auto simp: new_item_def)
        have "fd = client" "after w3 = Inr w'" using run' 3 True by (auto simp: bind_res_eq_Inr)
        then have "w' = w2\<lparr>w_sel := s\<rparr> \<or> (\<exists>a pt. store a pt (w2\<lparr>w_sel := s\<rparr>) = Inr w')"
          using s(3) by (auto simp: after_def split: sockaddr.splits)
        with s \<open>fd = client\<close> k2 only_kernelD(1) [OF k2] show thesis by (intro made [of w2 s]) simp_all
      qed
    qed
  qed
qed

text \<open>A new cell of the heap that is released again, and one whose descriptor is registered.\<close>

lemma conn_get_snoc:
  "w_heap w' = w_heap w @ [x] \<Longrightarrow> conn_get q w' = (if q = length (w_heap w) then case x of None \<Rightarrow> Inl Use_After_Free | Some c \<Rightarrow> Inr c
     else conn_get q w)"
  by (auto simp: conn_get_def nth_append)

lemma admin_get_snoc:
  "w_admin w' = w_admin w @ [x] \<Longrightarrow> admin_get q w' = (if q = length (w_admin w) then case x of None \<Rightarrow> Inl Use_After_Free | Some a \<Rightarrow> Inr a
     else admin_get q w)"
  by (auto simp: admin_get_def nth_append)

lemma world_ok_hole:
  assumes ok: "world_ok w" and same: "w_sel w' = w_sel w" "w_cfg w' = w_cfg w" "os_junk (w_os w') = os_junk (w_os w)"
    and heap: "w_heap w' = w_heap w \<or> w_heap w' = w_heap w @ [None]" "w_admin w' = w_admin w \<or> w_admin w' = w_admin w @ [None]"
  shows "world_ok w'"
proof -
  have conn: "conn_get q w' = Inr c \<longleftrightarrow> conn_get q w = Inr c" for q c
    using heap(1) conn_get_snoc [of w' w None q] by (auto simp: conn_get_def)
  have admin: "admin_get q w' = Inr a \<longleftrightarrow> admin_get q w = Inr a" for q a
    using heap(2) admin_get_snoc [of w' w None q] by (auto simp: admin_get_def)
  show ?thesis
    using world_okD [OF ok] by (intro world_okI) (simp_all add: same conn admin)
qed

lemma held_new:
  "sel_table s' = (sel_table s)(fd \<mapsto> new_item fd h p) \<Longrightarrow> sel_table s fd = None \<Longrightarrow>
     held s' fd' h' d \<longleftrightarrow> held s fd' h' d \<or> (fd' = fd \<and> h' = h \<and> d = Some p)"
  by (auto simp: held_def new_item_def)

lemma world_ok_new_conn:
  assumes ok: "world_ok w" and c: "conn_typed c" "w_heap w' = w_heap w @ [Some c]" "w_admin w' = w_admin w" "w_cfg w' = w_cfg w"
      "os_junk (w_os w') = os_junk (w_os w)"
    and s: "sel_inv (w_sel w')" "\<not> invalid_fd (c_client_fd c)" "sel_table (w_sel w) (c_client_fd c) = None"
      "sel_table (w_sel w') = (sel_table (w_sel w))(c_client_fd c \<mapsto> new_item (c_client_fd c) H_Socks5 (length (w_heap w)))"
  shows "world_ok w'"
proof -
  note get = conn_get_snoc [OF c(2)]
  have new: "conn_get (length (w_heap w)) w' = Inr c" using get by simp
  have old: "conn_get q w = Inr e \<Longrightarrow> conn_get q w' = Inr e" for q e using get [of q] by (auto simp: conn_get_Inr)
  have admin: "admin_get q w' = admin_get q w" for q using c(3) by (simp add: admin_get_def)
  note h = held_new [OF s(4,3)]
  show ?thesis
  proof (rule world_okI)
    show "sel_inv (w_sel w')" by (rule s(1))
    show "\<not> invalid_fd fd" if "sel_table (w_sel w') fd = Some e" for fd e
      using that s(2,4) world_okD(2) [OF ok, of fd e] by (simp split: if_splits)
    show "config_inv (w_cfg w')" "256 \<le> length (os_junk (w_os w'))" using world_okD(3,4) [OF ok] c(4,5) by simp_all
    show "conn_typed e" if "conn_get q w' = Inr e" for q e
      using that get [of q] c(1) world_okD(5) [OF ok, of q e] by (simp split: if_splits)
    show "\<exists>q e. d = Some q \<and> conn_get q w' = Inr e \<and> c_client_fd e = fd" if "held (w_sel w') fd H_Socks5 d" for fd d
      using that [unfolded h] world_okD(6) [OF ok, of fd d] old new by blast
    show "held (w_sel w') (c_client_fd e) H_Socks5 (Some q)" if "conn_get q w' = Inr e" for q e
      using that get [of q] world_okD(7) [OF ok, of q e] by (simp add: h split: if_splits)
    show "\<exists>q a. d = Some q \<and> admin_get q w' = Inr a \<and> ac_fd a = fd" if "held (w_sel w') fd H_Admin d" for fd d
      using that world_okD(8) [OF ok, of fd d] by (simp add: h admin)
    show "held (w_sel w') (ac_fd a) H_Admin (Some q)" if "admin_get q w' = Inr a" for q a
      using that world_okD(9) [OF ok, of q a] by (simp add: h admin)
  qed
qed

lemma world_ok_new_admin:
  assumes ok: "world_ok w" and a: "w_admin w' = w_admin w @ [Some a]" "w_heap w' = w_heap w" "w_cfg w' = w_cfg w"
      "os_junk (w_os w') = os_junk (w_os w)"
    and s: "sel_inv (w_sel w')" "\<not> invalid_fd (ac_fd a)" "sel_table (w_sel w) (ac_fd a) = None"
      "sel_table (w_sel w') = (sel_table (w_sel w))(ac_fd a \<mapsto> new_item (ac_fd a) H_Admin (length (w_admin w)))"
  shows "world_ok w'"
proof -
  note get = admin_get_snoc [OF a(1)]
  have new: "admin_get (length (w_admin w)) w' = Inr a" using get by simp
  have old: "admin_get q w = Inr e \<Longrightarrow> admin_get q w' = Inr e" for q e
    using get [of q] by (auto simp: admin_get_def split: if_splits option.splits)
  have conn: "conn_get q w' = conn_get q w" for q using a(2) by (simp add: conn_get_def)
  note h = held_new [OF s(4,3)]
  show ?thesis
  proof (rule world_okI)
    show "sel_inv (w_sel w')" by (rule s(1))
    show "\<not> invalid_fd fd" if "sel_table (w_sel w') fd = Some e" for fd e
      using that s(2,4) world_okD(2) [OF ok, of fd e] by (simp split: if_splits)
    show "config_inv (w_cfg w')" "256 \<le> length (os_junk (w_os w'))" using world_okD(3,4) [OF ok] a(3,4) by simp_all
    show "conn_typed e" if "conn_get q w' = Inr e" for q e using that world_okD(5) [OF ok, of q e] by (simp add: conn)
    show "\<exists>q e. d = Some q \<and> conn_get q w' = Inr e \<and> c_client_fd e = fd" if "held (w_sel w') fd H_Socks5 d" for fd d
      using that world_okD(6) [OF ok, of fd d] by (simp add: h conn)
    show "held (w_sel w') (c_client_fd e) H_Socks5 (Some q)" if "conn_get q w' = Inr e" for q e
      using that world_okD(7) [OF ok, of q e] by (simp add: h conn)
    show "\<exists>q a. d = Some q \<and> admin_get q w' = Inr a \<and> ac_fd a = fd" if "held (w_sel w') fd H_Admin d" for fd d
      using that [unfolded h] world_okD(8) [OF ok, of fd d] old new by blast
    show "held (w_sel w') (ac_fd e) H_Admin (Some q)" if "admin_get q w' = Inr e" for q e
      using that get [of q] world_okD(9) [OF ok, of q e] by (simp add: h split: if_splits)
  qed
qed

text \<open>The connection of a client is made, registered and given its descriptor, or it is gone again.\<close>

lemma accept_made:
  assumes ok: "world_ok w" and run: "bind_res (passive_accept (store_source (length (w_heap w))) key (length (w_heap w)) H_Socks5
      (w\<lparr>w_heap := w_heap w @ [Some zero_conn]\<rparr>)) (\<lambda>(fd, w1).
      if fd = -1 then conn_free (length (w_heap w)) w1
      else bind_res (conn_upd (length (w_heap w)) (\<lambda>c. c\<lparr>c_client_fd := fd\<rparr>) w1) (rest fd)) = Inr w'"
  obtains (failed) u where "only_kernel w u" "w' = u\<lparr>w_heap := w_heap w @ [None]\<rparr>" "world_ok w'"
  | (made) fd u s c where "only_kernel w u" "rest fd (u\<lparr>w_sel := s, w_heap := w_heap w @ [Some c]\<rparr>) = Inr w'"
      "world_ok (u\<lparr>w_sel := s, w_heap := w_heap w @ [Some c]\<rparr>)"
proof -
  let ?p = "length (w_heap w)"
  let ?w = "w\<lparr>w_heap := w_heap w @ [Some zero_conn]\<rparr>"
  obtain fd w1 where p: "passive_accept (store_source ?p) key ?p H_Socks5 ?w = Inr (fd, w1)"
    using run by (cases "passive_accept (store_source ?p) key ?p H_Socks5 ?w") auto
  have inv: "sel_inv (w_sel ?w)" using world_okD(1) [OF ok] by simp
  have grown: "\<exists>u. only_kernel w u \<and> v = u\<lparr>w_heap := w_heap w @ [Some zero_conn]\<rparr>" if "only_kernel ?w v" for v
    using that by (auto simp: only_kernel_def)
  from inv p show thesis
  proof (cases rule: passive_accept_world)
    case failed
    from grown [OF failed(2)] obtain u where u: "only_kernel w u" "w1 = u\<lparr>w_heap := w_heap w @ [Some zero_conn]\<rparr>" by blast
    have w': "w' = u\<lparr>w_heap := w_heap w @ [None]\<rparr>"
      using run p failed(1) u(2) by (simp add: conn_free_def conn_get_def nth_append list_update_append)
    have "world_ok w'"
      by (rule world_ok_hole [OF ok]) (use only_kernelD [OF u(1)] w' in simp_all)
    with u(1) w' show thesis by (rule that(1))
  next
    case (made w2 s)
    from grown [OF made(2)] obtain u where u: "only_kernel w u" "w2 = u\<lparr>w_heap := w_heap w @ [Some zero_conn]\<rparr>" by blast
    obtain c0 where c0: "w1 = u\<lparr>w_sel := s, w_heap := w_heap w @ [Some c0]\<rparr>" "conn_typed c0"
    proof -
      have swap: "v\<lparr>w_sel := s, w_heap := h\<rparr> = v\<lparr>w_heap := h, w_sel := s\<rparr>" for v :: world and h by simp
      from made(6) show thesis
      proof
        assume "w1 = w2\<lparr>w_sel := s\<rparr>"
        with u(2) zero_typed show thesis unfolding swap by (intro that [of zero_conn]) simp_all
      next
        assume "\<exists>a pt. store_source ?p a pt (w2\<lparr>w_sel := s\<rparr>) = Inr w1"
        then obtain a pt where "store_source ?p a pt (w2\<lparr>w_sel := s\<rparr>) = Inr w1" by blast
        then have "w1 = u\<lparr>w_sel := s, w_heap := w_heap w @ [Some (zero_conn\<lparr>c_src_address :=
            (case a of None \<Rightarrow> c_src_address zero_conn | Some s \<Rightarrow> s), c_src_port := pt\<rparr>)]\<rparr>"
          using u(2) by (simp add: store_source_def conn_upd_def conn_get_def nth_append list_update_append)
        with zero_typed show thesis
          unfolding swap
          by (intro that [of "zero_conn\<lparr>c_src_address := (case a of None \<Rightarrow> c_src_address zero_conn | Some s \<Rightarrow> s), c_src_port := pt\<rparr>"])
            simp_all
      qed
    qed
    have fd: "fd \<noteq> -1" using made(1) by (auto simp: invalid_fd_def)
    let ?c = "c0\<lparr>c_client_fd := fd\<rparr>"
    let ?v = "u\<lparr>w_sel := s, w_heap := w_heap w @ [Some ?c]\<rparr>"
    have "rest fd ?v = Inr w'"
      using run p fd c0(1) by (simp add: conn_upd_def conn_get_def nth_append list_update_append)
    moreover have "world_ok ?v"
      by (rule world_ok_new_conn [OF ok, of ?c]) (use c0(2) only_kernelD [OF u(1)] made in simp_all)
    ultimately show thesis using u(1) by (intro that(2))
  qed
qed

text \<open>What is done with the new connection.\<close>

definition equip :: "nat \<Rightarrow> int \<Rightarrow> step" where
  "equip p fd w =
     (let sz = unat (buffer_size (data (w_cfg w))); (a1, w) = sys_alloc w
      in if \<not> a1 then unregister_fd fd w
         else let (a2, w) = sys_alloc w
         in if \<not> a2 then unregister_fd fd w
            else bind_res (conn_upd p (\<lambda>c. c\<lparr>c_in := buffer_init sz (replicate sz 0), c_out := buffer_init sz (replicate sz 0)\<rparr>) w) (\<lambda>w.
            let (a3, w) = sys_alloc w
            in bind_res (conn_upd p (\<lambda>c. c\<lparr>c_stm := socks5_stm_init a3\<rparr>) w) (\<lambda>w.
               if \<not> a3 then unregister_fd fd w
               else bind_res (metrics_upd metrics_inc_curr_conn w) (metrics_upd metrics_inc_total_conn))))"

lemma accept_equip:
  "socksv5_passive_accept key w =
     (case metrics (data (w_cfg w)) of
        None \<Rightarrow> Inl Null_Deref
      | Some m \<Rightarrow>
          if uint (current_connections m) \<ge> uint (max_conn (data (w_cfg w)))
          then let (r, w) = sys_accept (k_fd key) w in Inr (case r of Accept_Error \<Rightarrow> w | Accepted fd a \<Rightarrow> sys_close fd w)
          else let (a0, w) = sys_alloc w
               in if \<not> a0 then Inr w
                  else bind_res (passive_accept (store_source (length (w_heap w))) key (length (w_heap w)) H_Socks5
                         (w\<lparr>w_heap := w_heap w @ [Some zero_conn]\<rparr>)) (\<lambda>(fd, w1).
                       if fd = -1 then conn_free (length (w_heap w)) w1
                       else bind_res (conn_upd (length (w_heap w)) (\<lambda>c. c\<lparr>c_client_fd := fd\<rparr>) w1) (equip (length (w_heap w)) fd)))"
  unfolding socksv5_passive_accept_def equip_def [abs_def] Let_def ..

lemma world_ok_metrics: "world_ok w \<Longrightarrow> keeps world_ok (metrics_upd f w)"
  unfolding keeps_def
proof (intro allI impI)
  fix w' assume ok: "world_ok w" and "metrics_upd f w = Inr w'"
  then obtain m where "w' = w\<lparr>w_cfg := (w_cfg w)\<lparr>data := (data (w_cfg w))\<lparr>metrics := Some (f m)\<rparr>\<rparr>\<rparr>"
    by (auto simp: metrics_upd_def split: option.splits)
  then show "world_ok w'"
    using world_okD(3,4) [OF ok] by (intro world_ok_same [OF ok]) (simp_all add: config_inv_def settings_ok_def)
qed

lemma equip_ok: "world_ok w \<Longrightarrow> keeps world_ok (equip p fd w)"
  unfolding equip_def Let_def
  apply (rule keeps_call(1), rule server.inv_alloc, assumption)
  apply (rule keeps_if(1), rule server.k_unregister, assumption)
  apply (rule keeps_call(1), rule server.inv_alloc, assumption)
  apply (rule keeps_if(1), rule server.k_unregister, assumption)
  apply (rule keeps_seq(1), rule server.k_upd, assumption)
    apply (simp add: conn_typed_def buffer_init_inv)
   apply simp
  apply (rule keeps_call(1), rule server.inv_alloc, assumption)
  apply (rule keeps_seq(1), rule server.k_upd, assumption, rule typed_updates(3), assumption, erule stm_init_typed, simp)
  apply (rule keeps_if(1), rule server.k_unregister, assumption)
  apply (rule keeps_seq(1), rule world_ok_metrics, assumption, rule world_ok_metrics, assumption)
  done

lemma socks_accept_ok:
  assumes ok: "world_ok w" and run: "socksv5_passive_accept key w = Inr w'"
  shows "world_ok w'"
proof -
  obtain m where m: "metrics (data (w_cfg w)) = Some m" using world_okD(3) [OF ok] by (auto simp: config_inv_def)
  show ?thesis
  proof (cases "uint (current_connections m) \<ge> uint (max_conn (data (w_cfg w)))")
    case True
    then show ?thesis
      using run m server.inv_calls(7) [OF ok, of "k_fd key"] server.inv_calls(1)
      by (cases "sys_accept (k_fd key) w") (auto simp: accept_equip split: accept_result.splits)
  next
    case False
    obtain a0 v where v: "sys_alloc w = (a0, v)" by (cases "sys_alloc w")
    with server.inv_alloc [OF ok] have ok': "world_ok v" by simp
    show ?thesis
    proof (cases a0)
      case True
      have run': "bind_res (passive_accept (store_source (length (w_heap v))) key (length (w_heap v)) H_Socks5
          (v\<lparr>w_heap := w_heap v @ [Some zero_conn]\<rparr>)) (\<lambda>(fd, w1).
          if fd = -1 then conn_free (length (w_heap v)) w1
          else bind_res (conn_upd (length (w_heap v)) (\<lambda>c. c\<lparr>c_client_fd := fd\<rparr>) w1) (equip (length (w_heap v)) fd)) = Inr w'"
        using run m False v True by (simp add: accept_equip)
      show ?thesis by (rule accept_made [OF ok' run']) (use equip_ok in \<open>auto simp: keeps_def\<close>)
    qed (use run m False v ok' in \<open>simp add: accept_equip\<close>)
  qed
qed

lemma admin_source_world:
  assumes "admin_store_source p a pt w = Inr w'"
  obtains x d where "admin_get p w = Inr x" "w' = w\<lparr>w_admin := (w_admin w)[p := Some (x\<lparr>ac_in := (ac_in x)\<lparr>buf_data := d\<rparr>\<rparr>)]\<rparr>"
proof -
  obtain x where x: "admin_get p w = Inr x" using assms by (cases "admin_get p w") (simp_all add: admin_store_source_def)
  obtain d where "admin_upd p (\<lambda>c. c\<lparr>ac_in := (ac_in c)\<lparr>buf_data := d\<rparr>\<rparr>) w = Inr w'"
    using assms x by (auto simp: admin_store_source_def bind_res_eq_Inr)
  with x show thesis by (intro that) (auto simp: admin_upd_def)
qed

lemma admin_accept_ok:
  assumes ok: "world_ok w0" and run: "s5admin_passive_accept key w0 = Inr w'"
  shows "world_ok w'"
proof -
  obtain a0 w where v: "sys_alloc w0 = (a0, w)" by (cases "sys_alloc w0")
  with server.inv_alloc [OF ok] have ok': "world_ok w" by simp
  show ?thesis
  proof (cases a0)
    case True
    let ?p = "length (w_admin w)"
    let ?w = "w\<lparr>w_admin := w_admin w @ [Some zero_admin]\<rparr>"
    obtain fd w1 where p: "passive_accept (admin_store_source ?p) key ?p H_Admin ?w = Inr (fd, w1)"
      using run True v by (cases "passive_accept (admin_store_source ?p) key ?p H_Admin ?w") (auto simp: s5admin_passive_accept_def)
    have inv: "sel_inv (w_sel ?w)" using world_okD(1) [OF ok'] by simp
    have grown: "\<exists>u. only_kernel w u \<and> v = u\<lparr>w_admin := w_admin w @ [Some zero_admin]\<rparr>" if "only_kernel ?w v" for v
      using that by (auto simp: only_kernel_def)
    from inv p show ?thesis
    proof (cases rule: passive_accept_world)
      case failed
      from grown [OF failed(2)] obtain u where u: "only_kernel w u" "w1 = u\<lparr>w_admin := w_admin w @ [Some zero_admin]\<rparr>" by blast
      have "w' = u\<lparr>w_admin := w_admin w @ [None]\<rparr>"
        using run True v p failed(1) u(2)
        by (simp add: s5admin_passive_accept_def admin_free_def admin_get_def nth_append list_update_append)
      then show ?thesis by (intro world_ok_hole [OF ok']) (use only_kernelD [OF u(1)] in simp_all)
    next
      case (made w2 s)
      from grown [OF made(2)] obtain u where u: "only_kernel w u" "w2 = u\<lparr>w_admin := w_admin w @ [Some zero_admin]\<rparr>" by blast
      obtain x where x: "w_admin w1 = w_admin w @ [Some x]" "w_sel w1 = s" "w_heap w1 = w_heap w" "w_cfg w1 = w_cfg w"
        "os_junk (w_os w1) = os_junk (w_os w)"
      proof -
        from made(6) show thesis
        proof
          assume "w1 = w2\<lparr>w_sel := s\<rparr>"
          with u only_kernelD [OF u(1)] show thesis by (intro that [of zero_admin]) simp_all
        next
          assume "\<exists>a pt. admin_store_source ?p a pt (w2\<lparr>w_sel := s\<rparr>) = Inr w1"
          then obtain a pt where "admin_store_source ?p a pt (w2\<lparr>w_sel := s\<rparr>) = Inr w1" by blast
          then show thesis
            by (rule admin_source_world) (use u only_kernelD [OF u(1)] that in \<open>simp add: list_update_append\<close>)
        qed
      qed
      have fd: "\<not> fd < 0" using made(1) by (simp add: invalid_fd_def)
      have w': "admin_upd ?p (\<lambda>a. a\<lparr>ac_fd := fd, ac_in := buffer_init MAX_CMD_LEN (buf_data (ac_in a)),
          ac_out := buffer_init MAX_RESPONSE_LEN (buf_data (ac_out a))\<rparr>) w1 = Inr w'"
        using run True v p fd by (simp add: s5admin_passive_accept_def)
      let ?a = "x\<lparr>ac_fd := fd, ac_in := buffer_init MAX_CMD_LEN (buf_data (ac_in x)),
          ac_out := buffer_init MAX_RESPONSE_LEN (buf_data (ac_out x))\<rparr>"
      have "w' = w1\<lparr>w_admin := w_admin w @ [Some ?a]\<rparr>"
        using w' x(1) by (simp add: admin_upd_def admin_get_def nth_append list_update_append)
      then show ?thesis by (intro world_ok_new_admin [OF ok', of _ ?a]) (use x made in simp_all)
    qed
  qed (use run v ok' in \<open>simp add: s5admin_passive_accept_def\<close>)
qed

interpretation server: world_invariant world_ok
  by unfold_locales (rule socks_accept_ok, assumption+, rule admin_accept_ok, assumption+)

section \<open>From the start to the end\<close>

lemma serve_ok: "world_ok w \<Longrightarrow> serve ts w = Inr (st, w') \<Longrightarrow> world_ok w'"
  using server.k_serve [of w ts] by (simp add: keeps_with_def)

lemma world_ok_closable:
  assumes ok: "world_ok w"
  shows "closable (sel_table (w_sel w)) w"
proof (rule closableI)
  show "metrics (data (w_cfg w)) \<noteq> None" using world_okD(3) [OF ok] by (simp add: config_inv_def)
  show "\<not> invalid_fd fd \<and> (\<exists>h. it_handler e = Some h)" if "sel_table (w_sel w) fd = Some e" for fd e
    using world_okD(2) [OF ok that] table_item [OF world_okD(1) [OF ok] that] by blast
  show "\<exists>p c. it_data e = Some p \<and> conn_get p w = Inr c" if "sel_table (w_sel w) fd = Some e" "it_handler e = Some H_Socks5" for fd e
    using world_okD(6) [OF ok, of fd "it_data e"] that by (auto simp: held_def)
  show "\<exists>p a. it_data e = Some p \<and> admin_get p w = Inr a" if "sel_table (w_sel w) fd = Some e" "it_handler e = Some H_Admin" for fd e
    using world_okD(8) [OF ok, of fd "it_data e"] that by (auto simp: held_def)
  show "fd = fd'" if h: "h \<in> {H_Socks5, H_Admin}" "sel_table (w_sel w) fd = Some e" "sel_table (w_sel w) fd' = Some e'"
      "holds h p e" "holds h p e'" for h p fd fd' e e'
  proof -
    have "held (w_sel w) fd h (Some p)" "held (w_sel w) fd' h (Some p)" using h(2-5) by (auto simp: held_def holds_def)
    then show ?thesis using h(1) world_okD(6,8) [OF ok, of fd "Some p"] world_okD(6,8) [OF ok, of fd' "Some p"] by auto
  qed
qed

text \<open>The shutdown creates nothing, so what is not registered any more is not allocated either.\<close>

definition live_in :: "world \<Rightarrow> world \<Rightarrow> bool" where
  "live_in w w' \<longleftrightarrow> (\<forall>q c. conn_get q w' = Inr c \<longrightarrow> (\<exists>c'. conn_get q w = Inr c')) \<and>
     (\<forall>q a. admin_get q w' = Inr a \<longrightarrow> (\<exists>a'. admin_get q w = Inr a'))"

lemma close_live:
  assumes "handler_close h = Some f" "f fd d v = Inr w'" "live_in w v"
  shows "live_in w w'"
proof -
  have "live_in v w'"
  proof (cases h)
    case H_Socks5
    with assms(1,2) have run: "socksv5_close fd d v = Inr w'" by simp
    obtain p c v1 where v1: "w_heap v1 = w_heap v" "w_admin v1 = w_admin v" "conn_free p v1 = Inr w'"
    proof -
      from run obtain p c where k: "key_conn \<lparr>k_fd = fd, k_data = d\<rparr> v = Inr (p, c)"
        by (cases "key_conn \<lparr>k_fd = fd, k_data = d\<rparr> v") (auto simp: socksv5_close_def)
      let ?u = "if c_client_fd c > 0 then sys_close (c_client_fd c) v else v"
      let ?u2 = "if c_origin_fd c > 0 then sys_close (c_origin_fd c) ?u else ?u"
      have "bind_res (metrics_upd metrics_dec_curr_conn ?u2) (conn_free p) = Inr w'"
        using run k by (simp add: socksv5_close_def Let_def)
      then obtain v1 where "metrics_upd metrics_dec_curr_conn ?u2 = Inr v1" "conn_free p v1 = Inr w'" by (auto simp: bind_res_eq_Inr)
      then show thesis by (intro that [of v1 p]) (auto simp: metrics_upd_def sys_close_def emit_def os_upd_def split: option.splits)
    qed
    then obtain x where x: "conn_get p v1 = Inr x" "w' = v1\<lparr>w_heap := (w_heap v1)[p := None]\<rparr>"
      by (auto simp: conn_free_def bind_res_eq_Inr)
    then have "conn_get q w' = Inr e \<Longrightarrow> conn_get q v = Inr e" for q e
      using conn_get_freed [OF x(1), of w' q] v1(1) by (simp add: conn_get_def [of q v1] conn_get_def [of q v] split: if_splits)
    moreover have "admin_get q w' = admin_get q v" for q using x(2) v1(2) by (simp add: admin_get_def)
    ultimately show ?thesis by (auto simp: live_in_def)
  next
    case H_Admin
    with assms(1,2) have run: "admin_close fd d v = Inr w'" by simp
    obtain p v1 where v1: "w_heap v1 = w_heap v" "w_admin v1 = w_admin v" "admin_free p v1 = Inr w'"
    proof -
      from run obtain p a where k: "key_admin \<lparr>k_fd = fd, k_data = d\<rparr> v = Inr (p, a)"
        by (cases "key_admin \<lparr>k_fd = fd, k_data = d\<rparr> v") (auto simp: admin_close_def)
      with run have "admin_free p (sys_close (ac_fd a) v) = Inr w'" by (simp add: admin_close_def)
      then show thesis by (intro that [of "sys_close (ac_fd a) v" p]) (simp_all add: sys_close_def emit_def os_upd_def)
    qed
    then obtain x where x: "admin_get p v1 = Inr x" "w' = v1\<lparr>w_admin := (w_admin v1)[p := None]\<rparr>"
      by (auto simp: admin_free_def bind_res_eq_Inr)
    then have "admin_get q w' = Inr e \<Longrightarrow> admin_get q v = Inr e" for q e
      using admin_get_freed [OF x(1), of w' q] v1(2) by (simp add: admin_get_def [of q v1] admin_get_def [of q v] split: if_splits)
    moreover have "conn_get q w' = conn_get q v" for q using x(2) v1(1) by (simp add: conn_get_def)
    ultimately show ?thesis by (auto simp: live_in_def)
  qed (use assms(1) in simp_all)
  with assms(3) show ?thesis by (fastforce simp: live_in_def)
qed

lemma destroy_live: "destroy_items handler_close i n s v = Inr (s', w') \<Longrightarrow> live_in w v \<Longrightarrow> live_in w w'"
proof (induction n arbitrary: i s v)
  case (Suc n)
  then obtain item where i: "mem_get (fds s) i = Inr item" by (cases "mem_get (fds s) i") auto
  show ?case
  proof (cases "item_used item")
    case True
    then obtain st s1 v1 where u: "selector_unregister_fd handler_close s (int i) v = Inr (st, s1, v1)"
      "destroy_items handler_close (Suc i) n s1 v1 = Inr (s', w')"
      using Suc.prems(1) i by (auto simp: bind_res_eq_Inr)
    have "live_in w v1"
      using u(1) Suc.prems(2) close_live
      by (auto simp: selector_unregister_fd_def bind_res_eq_Inr Let_def split: if_splits option.splits)
    with Suc.IH u(2) show ?thesis by blast
  next
    case False
    with Suc i show ?thesis by auto
  qed
qed simp

lemma shutdown_releases:
  assumes ok: "world_ok w"
  shows "\<exists>w'. shutdown ss ret True w = Inr (if ss \<noteq> 0 then Some 1 else ret, w') \<and>
    (\<forall>p c. conn_get p w' \<noteq> Inr c) \<and> (\<forall>p a. admin_get p w' \<noteq> Inr a)"
proof -
  obtain w' where w': "shutdown ss ret True w = Inr (if ss \<noteq> 0 then Some 1 else ret, w')"
      "all_freed (sel_table (w_sel w)) Map.empty w'"
    using shutdown_ok [OF world_okD(1) [OF ok] world_ok_closable [OF ok]] by blast
  obtain s1 w1 g where d: "destroy_items handler_close 0 (fd_size (w_sel w)) (w_sel w) w = Inr (s1, w1)" "w' = w1\<lparr>w_cfg := g\<rparr>"
    using w'(1) by (auto simp: shutdown_def selector_destroy_def bind_res_eq_Inr)
  have "live_in w w" by (simp add: live_in_def)
  with destroy_live [OF d(1), of w] have "live_in w w1" by blast
  then have live: "live_in w w'" using d(2) by (simp add: live_in_def)
  have "conn_get p w' \<noteq> Inr c" for p c
  proof
    assume c: "conn_get p w' = Inr c"
    then obtain c0 where "conn_get p w = Inr c0" using live unfolding live_in_def by blast
    from world_okD(7) [OF ok this] obtain e where "sel_table (w_sel w) (c_client_fd c0) = Some e" "holds H_Socks5 p e"
      by (auto simp: held_def holds_def)
    then have "conn_get p w' = Inl Use_After_Free" using w'(2) unfolding all_freed_def by auto
    with c show False by simp
  qed
  moreover have "admin_get p w' \<noteq> Inr a" for p a
  proof
    assume a: "admin_get p w' = Inr a"
    then obtain a0 where "admin_get p w = Inr a0" using live unfolding live_in_def by blast
    from world_okD(9) [OF ok this] obtain e where "sel_table (w_sel w) (ac_fd a0) = Some e" "holds H_Admin p e"
      by (auto simp: held_def holds_def)
    then have "admin_get p w' = Inl Use_After_Free" using w'(2) unfolding all_freed_def by auto
    with a show False by simp
  qed
  ultimately show ?thesis using w'(1) by blast
qed

end
