(* ===== verification/Lifetime.thy ===== *)
theory Lifetime
  imports Integrity
begin

text \<open>
  The life of the server process: it starts in a world that satisfies the invariant of \<open>Integrity\<close>, every turn of the
  loop keeps it, and the shutdown releases every connection and every session, whatever ends the loop.
\<close>

section \<open>Listening\<close>

text \<open>A registration is refused or made, but it never dies.\<close>

lemma register_returns:
  assumes inv: "sel_inv (w_sel w)"
  shows "\<exists>st w'. register_fd fd h i d w = Inr (st, w')"
proof -
  let ?ok = "if nat fd > fd_size (w_sel w) then sys_alloc w else (True, w)"
  consider "invalid_fd fd" | "\<not> invalid_fd fd" "sel_table (w_sel w) fd = None"
    | e where "\<not> invalid_fd fd" "sel_table (w_sel w) fd = Some e" by fastforce
  then have "\<exists>r. selector_register ok (w_sel w) fd (Some h) i d = Inr r" for ok
  proof cases
    case 1 then show ?thesis by (simp add: selector_register_def)
  next
    case 2 then show ?thesis using register_free(1) [OF inv 2, where h = h and d = d and interest = i] by blast
  next
    case 3 then show ?thesis using register_taken [OF inv 3(2), where h = h and d = d and interest = i] by blast
  qed
  then obtain st s where reg: "selector_register (fst ?ok) (w_sel w) fd (Some h) i d = Inr (st, s)" by (metis surj_pair)
  have "w_sel (snd ?ok) = w_sel w" by (simp add: sys_alloc_def pop_def split: list.split)
  then have "register_fd fd h i d w = Inr (st, (snd ?ok)\<lparr>w_sel := s\<rparr>)"
    using reg unfolding register_fd_def case_prod_unfold Let_def by simp
  then show ?thesis by blast
qed

lemma register_passive:
  assumes "world_ok w" "h \<notin> {H_Socks5, H_Admin}"
  shows "\<exists>st w'. register_fd fd h i d w = Inr (st, w') \<and> world_ok w'"
  using register_returns [OF world_okD(1) [OF assms(1)]] server.k_register [OF assms] unfolding keeps_with_def by blast

lemma listen_loop_ok:
  "world_ok w \<Longrightarrow> h \<notin> {H_Socks5, H_Admin} \<Longrightarrow> \<exists>r ss' msg w'. listen_loop h as ss w = Inr (r, ss', msg, w') \<and> world_ok w'"
proof (induction "as" arbitrary: ss w)
  case (Cons a as)
  obtain fd w1 where 1: "sys_socket (ai_family a) w = (fd, w1)" by (cases "sys_socket (ai_family a) w")
  obtain b w2 where 2: "sys_bind fd a w1 = (b, w2)" by (cases "sys_bind fd a w1")
  obtain l w3 where 3: "sys_listen fd MAX_PENDING_CONNECTIONS w2 = (l, w3)" by (cases "sys_listen fd MAX_PENDING_CONNECTIONS w2")
  obtain n w4 where 4: "set_non_blocking_fd w3 = (n, w4)" by (cases "set_non_blocking_fd w3")
  have ok: "world_ok w1" "world_ok w2" "world_ok w3" "world_ok w4"
    using server.inv_calls(5) [OF Cons.prems(1), of "ai_family a"] server.inv_calls(8) [of w1 fd a]
      server.inv_calls(9) [of w2 fd MAX_PENDING_CONNECTIONS] server.inv_calls(10) [of w3] 1 2 3 4
    by simp_all
  obtain st w5 where 5: "register_fd fd h OP_READ None w4 = Inr (st, w5)" "world_ok w5"
    using register_passive [OF ok(4) Cons.prems(2)] by blast
  show ?case
    using 1 2 3 4 5 ok server.inv_calls(1) [of _ fd] Cons.IH [OF 5(2) Cons.prems(2), of 0] by simp
qed simp

lemma listen_ok:
  assumes "world_ok w" "h \<notin> {H_Socks5, H_Admin}"
  shows "\<exists>r ss' msg w'. create_and_register_passive_socket name pt h ss w = Inr (r, ss', msg, w') \<and> world_ok w'"
proof -
  obtain r v where v: "sys_getaddrinfo name (port_str pt) AF_UNSPEC AI_PASSIVE w = (r, v)"
    by (cases "sys_getaddrinfo name (port_str pt) AF_UNSPEC AI_PASSIVE w")
  then have "world_ok v" using server.inv_calls(11) [OF assms(1), of name "port_str pt" AF_UNSPEC AI_PASSIVE] by simp
  with listen_loop_ok [OF _ assms(2)] show ?thesis
    by (auto simp: create_and_register_passive_socket_def v split: option.split)
qed

section \<open>Starting\<close>

lemma selector_new_made:
  fixes s :: "('a, 'b) fdselector"
  assumes "selector_new a b 1024 = Inr (Some s)"
  shows "sel_inv s" "sel_table s = Map.empty"
proof -
  from assms have "a" "b"
    by (auto simp: selector_new_def ensure_capacity_def bind_res_eq_Inr empty_selector_def split: if_splits)
  with assms have "selector_new True True 1024 = Inr (Some s)" by simp
  moreover obtain s' :: "('a, 'b) fdselector" where "selector_new True True 1024 = Inr (Some s')" "sel_inv s'" "sel_table s' = Map.empty"
    using selector_new_ok by blast
  ultimately show "sel_inv s" "sel_table s = Map.empty" by simp_all
qed

lemma selector_new_returns: "\<exists>s :: sel option. selector_new a b 1024 = Inr s"
proof (cases "a \<and> b")
  case True
  then show ?thesis using selector_new_ok [where 'a = handler and 'b = nat] by auto
next
  case False
  obtain s :: sel where "selector_new True True 1024 = Inr (Some s)" using selector_new_ok by blast
  then obtain st and s' :: sel where "ensure_capacity True empty_selector 1024 = Inr (st, s')" by (auto simp: selector_new_def bind_res_eq_Inr)
  then obtain st and s' :: sel where "ensure_capacity b empty_selector 1024 = Inr (st, s')"
    by (cases b) (auto simp: ensure_capacity_def items_init_def guard_eq_Inr bind_res_eq_Inr empty_selector_def split: if_splits)
  with False show ?thesis by (auto simp: selector_new_def)
qed

text \<open>The world before the sockets are made.\<close>

definition fit :: "server_env \<Rightarrow> bool" where
  "fit env \<longleftrightarrow> se_metrics env \<and> length (se_garbage env) = REGISTER_MAX_ENTRIES \<and> 256 \<le> length (os_junk (se_os env))"

lemma start_ok:
  assumes env: "fit env" and d: "server_data_init (se_data env) (se_metrics env) (se_register env) (se_garbage env) = Some d"
    and s: "sel_inv s" "sel_table s = Map.empty"
  shows "world_ok ((add_users us (sys_close fd (start_world env l d)))\<lparr>w_sel := s\<rparr>)"
proof -
  let ?w0 = "sys_close fd (start_world env l d)"
  obtain q m where w: "add_users us ?w0 = ?w0\<lparr>w_os := (w_os ?w0)\<lparr>os_alloc := q\<rparr>, w_cfg := (w_cfg ?w0)\<lparr>user_map := m\<rparr>\<rparr>"
    using add_users_frame by blast
  from d have "se_data env" by (simp add: server_data_init_def split: if_splits)
  with d have "settings_ok d" by (simp add: server_data_init_ok)
  moreover have "metrics d \<noteq> None" "\<forall>r. access_reg d = Some r \<longrightarrow> reg_inv r"
    using d env init_logged by (auto simp: server_data_init_def fit_def split: if_splits)
  ultimately have "config_inv (w_cfg (start_world env l d))"
    by (simp add: start_world_def config_inv_def fresh_parsed_def)
  then have "config_inv (w_cfg ((start_world env l d)\<lparr>w_cfg := (w_cfg (start_world env l d))\<lparr>user_map := m\<rparr>\<rparr>))"
    by simp
  then show ?thesis
    using env s unfolding w
    by (intro world_okI) (simp_all add: sys_close_def emit_def os_upd_def start_world_def fit_def held_def conn_get_def admin_get_def)
qed

text \<open>No connection and no session is allocated.\<close>

definition all_released :: "world \<Rightarrow> bool" where
  "all_released w \<longleftrightarrow> (\<forall>p c. conn_get p w \<noteq> Inr c) \<and> (\<forall>p a. admin_get p w \<noteq> Inr a)"

lemma empty_released: "w_heap w = [] \<Longrightarrow> w_admin w = [] \<Longrightarrow> all_released w"
  by (simp add: all_released_def conn_get_def admin_get_def)

lemma shutdown_all: "world_ok w \<Longrightarrow> shutdown ss ret True w = Inr (r, w') \<Longrightarrow> all_released w'"
  using shutdown_releases [of w ss ret] by (auto simp: all_released_def)

lemma shutdown_none: "w_heap w = [] \<Longrightarrow> w_admin w = [] \<Longrightarrow> \<exists>r w'. shutdown ss ret False w = Inr (r, w') \<and> all_released w'"
  by (auto simp: shutdown_def selector_destroy_def intro: empty_released)

text \<open>What the process does once the sockets are made.\<close>

lemma run_released:
  assumes ok: "world_ok w" and run: "bind_res (serve ts w) (\<lambda>(st, w).
      if st \<noteq> SELECTOR_SUCCESS then shutdown (status_code st) None True w else shutdown 0 (Some 0) True w) = Inr (r, w')"
  shows "all_released w'"
proof -
  from run obtain st v where v: "serve ts w = Inr (st, v)" by (cases "serve ts w") auto
  with run shutdown_all [OF serve_ok [OF ok v]] show ?thesis by (auto split: if_splits)
qed

lemma shutdown_returns: "world_ok w \<Longrightarrow> \<exists>r w'. shutdown ss ret True w = Inr (r, w')"
  using shutdown_releases [of w ss ret] by blast

lemma run_dies:
  assumes ok: "world_ok w" and run: "bind_res (serve ts w) (\<lambda>(st, w).
      if st \<noteq> SELECTOR_SUCCESS then shutdown (status_code st) None True w else shutdown 0 (Some 0) True w) = Inl e"
  shows "serve ts w = Inl e"
proof (cases "serve ts w")
  case (Inr x)
  obtain st v where x: "x = (st, v)" by (cases x)
  obtain r1 w1 r2 w2 where "shutdown (status_code st) None True v = Inr (r1, w1)" "shutdown 0 (Some 0) True v = Inr (r2, w2)"
    using shutdown_returns [OF serve_ok [OF ok Inr [unfolded x]]] by meson
  with run show ?thesis using Inr x by (auto split: if_splits)
qed (use run in simp)

lemma main_cases:
  assumes "fit env"
  shows "(\<exists>r w. server_main argv env = Inr (r, w) \<and> all_released w) \<or>
    (\<exists>w. world_ok w \<and> server_main argv env = bind_res (serve (se_turns env) w) (\<lambda>(st, w).
      if st \<noteq> SELECTOR_SUCCESS then shutdown (status_code st) None True w else shutdown 0 (Some 0) True w))"
    (is "?stops \<or> ?runs")
proof -
  have start: "all_released (start_world env l d)" for l d by (rule empty_released) (simp_all add: start_world_def)
  show ?thesis
  proof (cases "parse_args argv")
    case (Exit n)
    then show ?thesis using start by (simp add: server_main_def Let_def)
  next
    case (Run args)
    note 1 = Run
    show ?thesis
    proof (cases "init_logging (se_log_opened env) log_start (args_log_file args) (args_log_level args)")
      case None
      then show ?thesis using 1 start by (simp add: server_main_def Let_def)
    next
      case (Some l)
      note 2 = Some
      show ?thesis
      proof (cases "server_data_init (se_data env) (se_metrics env) (se_register env) (se_garbage env)")
        case None
        then show ?thesis using 1 2 start by (simp add: server_main_def Let_def)
      next
        case (Some d)
        note 3 = Some
        define w where "w = add_users (args_users args) (sys_close FD_STDIN (start_world env l d))"
        have empty: "w_heap w = []" "w_admin w = []"
          by (simp_all add: w_def add_users_sel) (simp_all add: start_world_def sys_close_def emit_def os_upd_def)
        note main = 1 2 3 server_main_def Let_def w_def [symmetric] selector_init_def
        obtain so :: "sel option" where so: "selector_new (se_selector env) (se_table env) INITIAL_QUANTITY_FDS = Inr so"
          using selector_new_returns unfolding INITIAL_QUANTITY_FDS_def by blast
        show ?thesis
        proof (cases "so = None \<or> selector_init (se_blocked env) (se_handled env) \<noteq> SELECTOR_SUCCESS")
          case True
          then have ?stops using shutdown_none [OF empty] so by (auto simp: main split: if_splits)
          then show ?thesis ..
        next
          case False
          then obtain s where s: "so = Some s" "selector_init (se_blocked env) (se_handled env) = SELECTOR_SUCCESS" by (cases so) auto
          have ok: "world_ok (w\<lparr>w_sel := s\<rparr>)"
            unfolding w_def using selector_new_made so s(1) unfolding INITIAL_QUANTITY_FDS_def
            by (intro start_ok [OF assms 3]) blast+
          obtain r1 ss1 m1 w1 where p1: "create_and_register_passive_socket (socks_addr args) (socks_port args) H_Passive 0 (w\<lparr>w_sel := s\<rparr>) = Inr (r1, ss1, m1, w1)" "world_ok w1"
            using listen_ok [OF ok, of H_Passive "socks_addr args" "socks_port args" 0] by auto
          obtain r2 ss2 m2 w2 where p2: "create_and_register_passive_socket (mng_addr args) (mng_port args) H_Admin_Passive ss1 w1 = Inr (r2, ss2, m2, w2)" "world_ok w2"
            using listen_ok [OF p1(2), of H_Admin_Passive "mng_addr args" "mng_port args" ss1] by auto
          have eq: "server_main argv env = (if r1 = -1 then shutdown ss1 None True w1 else if r2 = -1 then shutdown ss2 None True w2
              else bind_res (serve (se_turns env) w2) (\<lambda>(st, w).
                if st \<noteq> SELECTOR_SUCCESS then shutdown (status_code st) None True w else shutdown 0 (Some 0) True w))"
            using 1 2 3 so s p1(1) p2(1) by (simp add: server_main_def Let_def w_def [symmetric])
          have down: "?stops" if h: "world_ok v" "server_main argv env = shutdown ss None True v" for v ss
            using shutdown_returns [OF h(1), of ss None] shutdown_all [OF h(1), of ss None] h(2) by force
          show ?thesis
          proof (cases "r1 = -1")
            case True
            then show ?thesis using down [OF p1(2), of ss1] eq by simp
          next
            case r1: False
            show ?thesis
            proof (cases "r2 = -1")
              case True
              then show ?thesis using down [OF p2(2), of ss2] eq r1 by simp
            next
              case False
              then show ?thesis using r1 eq p2(2) by (intro disjI2 exI [of _ w2]) simp
            qed
          qed
        qed
      qed
    qed
  qed
qed

section \<open>The properties\<close>

text \<open>
  C3: the whole process.  Whatever the arguments, the kernel, the clients and the administrators do, when \<open>main\<close> returns
  every connection and every session that was ever accepted has been freed, each exactly once.  It can only fail to
  return by one of the faults of the event loop, and these arise in a world where every connection is well typed
  and registered for its own descriptor: starting and stopping never fault.
\<close>

theorem server_cleans_up:
  assumes "fit env"
  shows "case server_main argv env of
      Inr (ret, w) \<Rightarrow> all_released w
    | Inl e \<Rightarrow> (\<exists>w. world_ok w \<and> serve (se_turns env) w = Inl e)"
  using main_cases [OF assms, of argv] run_released run_dies by (fastforce split: sum.split)

theorem server_cleans_up_witness:
  "\<exists>env r w. fit env \<and> se_turns env = [] \<and> os_socket (se_os env) = [3, 4] \<and> server_main [] env = Inr (r, w) \<and> all_released w"
proof -
  let ?env = "sample_env [Some [Sock_In [0, 0, 0, 0] 0x3804], Some [Sock_In [127, 0, 0, 1] 0x901F]] [3, 4] []"
  have fit: "fit ?env" by (simp add: fit_def sample_env_def sample_world_def)
  from server_cleans_up [OF this, of "[]"] have "\<exists>r w. server_main [] ?env = Inr (r, w) \<and> all_released w"
    by (auto simp: sample_starts split: sum.splits)
  then obtain r w where "server_main [] ?env = Inr (r, w)" "all_released w" by blast
  with fit show ?thesis by - (rule exI [of _ ?env], rule exI [of _ r], rule exI [of _ w], simp add: sample_starts)
qed

end
