(* ===== verification/Session.thy ===== *)
theory Session
  imports Lifetime Connect Accepting Turns
begin

text \<open>
  A whole session through the main loop, turn by turn: the listening socket accepts a client, the client greets, logs
  in and asks for a connection, the origin answers, and the relay is set up.  The handlers were followed one by one in
  \<open>Accepting\<close>, \<open>Greeting\<close>, \<open>Login\<close> and \<open>Connect\<close>; here the selector calls them.
\<close>

section \<open>Turns of a connection\<close>

lemma table_of:
  "owner_of s fd = Some (h, p) \<Longrightarrow> interest_of s fd = Some i \<Longrightarrow>
     \<exists>e. sel_table s fd = Some e \<and> it_handler e = Some h \<and> it_data e = Some p \<and> it_interest e = i"
  by (auto simp: owner_of_def interest_of_def split: option.splits)

lemma all_valid_ok: "world_ok w \<Longrightarrow> all_valid (w_sel w)"
  by (simp add: world_ok_def all_valid_def)

lemma turn_ok: "world_ok w \<Longrightarrow> proxy_select ps w = Inr (st, w') \<Longrightarrow> world_ok w'"
  using server.k_select [of w ps] by (simp add: keeps_with_def)

lemma woken_stages [simp]:
  "sound (woken r s w) = sound w" "accepted key p c (woken r s w) = accepted key p c w"
  "awaiting n key p c (woken r s w) = awaiting n key p c w" "dialing p fc fo ais c (woken r s w) = dialing p fc fo ais c w"
  "registering (woken r s w) = registering w" "accepting fd (woken r s w) = accepting fd w"
  "resolved key p ais c (woken r s w) = resolved key p ais c w"
  by (simp_all add: sound_def accepted_def awaiting_def connected_def dialing_def registering_def accepting_def resolved_def)

lemma dialing_jobs:
  "dialing p fc fo ais c (w\<lparr>w_sel := (w_sel w)\<lparr>resolution_jobs := l\<rparr>\<rparr>) = dialing p fc fo ais c w"
  by (simp add: dialing_def sound_def)

definition client :: "int \<Rightarrow> nat \<Rightarrow> key" where
  "client fd p = \<lparr>k_fd = fd, k_data = Some p\<rparr>"

lemma client_sel [simp]: "k_fd (client fd p) = fd" "k_data (client fd p) = Some p"
  by (simp_all add: client_def)

text \<open>A client with a message for the server.\<close>

definition listened :: "int \<Rightarrow> world \<Rightarrow> bool" where
  "listened fd w \<longleftrightarrow> world_ok w \<and> interest_of (w_sel w) fd = Some OP_READ \<and> resolution_jobs (w_sel w) = []"

lemma client_reads:
  assumes l: "listened fd w" and own: "owner_of (w_sel w) fd = Some (H_Socks5, p)"
    and run: "socksv5_read (client fd p) (woken {nat fd} {} w) = Inr v"
    and v: "sel_inv (w_sel v)" "agenda (w_sel v) = ({nat fd}, {}, l)"
  shows "proxy_select (PS_Ready {nat fd} {}) w = finish_turn v"
proof -
  from l have w: "world_ok w" "interest_of (w_sel w) fd = Some OP_READ" by (simp_all add: listened_def)
  obtain e where e: "sel_table (w_sel w) fd = Some e" "it_handler e = Some H_Socks5" "it_data e = Some p" "it_interest e = OP_READ"
    using table_of [OF own w(2)] by blast
  show ?thesis
    by (rule turn_reads [OF world_okD(1) [OF w(1)] all_valid_ok [OF w(1)] e(1,2) _ _ _ v, where f = "as_callback socksv5_read"])
      (use e run in \<open>simp_all add: as_callback_def client_def\<close>)
qed

text \<open>What a turn of one client leaves to the others, and to what comes.\<close>

definition kept_for :: "int \<Rightarrow> world \<Rightarrow> os_event list \<Rightarrow> recv_result list \<Rightarrow> send_result list \<Rightarrow> world \<Rightarrow> bool" where
  "kept_for fd w t rs q v \<longleftrightarrow>
     w_os v = (w_os w)\<lparr>os_recv := rs, os_send := q, os_trace := os_trace (w_os w) @ t\<rparr> \<and>
     user_map (w_cfg v) = user_map (w_cfg w) \<and> access_reg (data (w_cfg v)) = access_reg (data (w_cfg w)) \<and>
     (\<forall>x. x \<noteq> fd \<longrightarrow> interest_of (w_sel v) x = interest_of (w_sel w) x)"

lemma replied_kept:
  assumes "sel_inv (w_sel w)" "\<not> invalid_fd fd" "os_recv (w_os w) = Recv bs # rs" "k \<ge> length r"
  shows "kept_for fd w [Ev_Recv fd bs, Ev_Send fd r] rs q (conn_put p c (replied fd k r False q (received fd (woken a b w))))"
    "agenda (w_sel (replied fd k r False q (received fd (woken a b w)))) = (a, b, resolution_jobs (w_sel w))"
  using assms
  by (simp_all add: kept_for_def replied_def Let_def sent_def received_def count_def metrics_add_bytes_def)

lemma greeting_turn:
  assumes acc: "accepted (client fd p) p c w" and l: "listened fd w"
    and ms: "set ms \<subseteq> {0, 1, 2}" "unat n = length ms" "n \<noteq> 255" "0 \<in> set ms \<or> 2 \<in> set ms"
    and fits: "length (5 # n # ms) \<le> buf_limit (c_in c)"
    and kernel: "os_recv (w_os w) = Recv (5 # n # ms) # rs" "os_send (w_os w) = Sent 2 # q"
  shows "\<exists>c' v. proxy_select (PS_Ready {nat fd} {}) w = Inr (SELECTOR_SUCCESS, v) \<and> listened fd v \<and>
    awaiting (next_state ms) (client fd p) p c' v \<and>
    kept_for fd w [Ev_Recv fd (5 # n # ms), Ev_Send fd [5, method_for ms]] rs q v \<and>
    c_src_address c' = c_src_address c \<and> c_src_port c' = c_src_port c \<and>
    buf_limit (c_in c') = buf_limit (c_in c) \<and> buf_limit (c_out c') = buf_limit (c_out c)"
proof -
  let ?w = "woken {nat fd} {} w"
  let ?v = "replied fd 2 [5, method_for ms] False q (received fd ?w)"
  note a = accepted_live [OF acc]
  obtain c' where c': "socksv5_read (client fd p) ?w = Inr (conn_put p c' ?v)"
    "awaiting (next_state ms) (client fd p) p c' (conn_put p c' ?v)" "interest_of (w_sel ?v) fd = Some OP_READ"
    "c_src_address c' = c_src_address c" "c_src_port c' = c_src_port c"
    "buf_limit (c_in c') = buf_limit (c_in c)" "buf_limit (c_out c') = buf_limit (c_out c)"
    using greeting_done [of "client fd p" p c ?w, OF _ ms fits] acc kernel by auto
  have inv: "sel_inv (w_sel w)" "\<not> invalid_fd fd" "owner_of (w_sel w) fd = Some (H_Socks5, p)"
    using a by (simp_all add: sound_def)
  note kept = replied_kept [OF inv(1,2) kernel(1), of "[5, method_for ms]" 2]
  have "sel_inv (w_sel ?v)" using awaiting_live(4) [OF c'(2)] by (simp add: sound_def)
  then have "proxy_select (PS_Ready {nat fd} {}) w = finish_turn (conn_put p c' ?v)"
    using client_reads [OF l inv(3), of "conn_put p c' ?v"] c'(1) kept(2) by simp
  moreover have jobs: "resolution_jobs (w_sel ?v) = []" using l kept(2) [of q "{nat fd}" "{}"] by (simp add: listened_def agenda_def)
  ultimately have turn: "proxy_select (PS_Ready {nat fd} {}) w = Inr (SELECTOR_SUCCESS, conn_put p c' ?v)"
    using finish_none [of "conn_put p c' ?v"] by simp
  moreover have "listened fd (conn_put p c' ?v)"
    using turn_ok [OF _ turn] l jobs c'(3) by (simp add: listened_def)
  ultimately show ?thesis using c' kept(1) by auto
qed

lemma login_turn:
  assumes aw: "awaiting 1 (client fd p) p c w" and l: "listened fd w"
    and fields: "auth_field_ok u" "auth_field_ok pw" "0 \<notin> set u" "0 \<notin> set pw"
    and table: "table_inv (user_map (w_cfg w))" "users (user_map (w_cfg w)) u = Some pw"
    and fits: "length (encode_auth u pw) \<le> buf_limit (c_in c)"
    and kernel: "os_recv (w_os w) = Recv (encode_auth u pw) # rs" "os_send (w_os w) = Sent 2 # q"
  shows "\<exists>c' v. proxy_select (PS_Ready {nat fd} {}) w = Inr (SELECTOR_SUCCESS, v) \<and> listened fd v \<and>
    awaiting 2 (client fd p) p c' v \<and> kept_for fd w [Ev_Recv fd (encode_auth u pw), Ev_Send fd [1, 0]] rs q v \<and>
    c_username c' = u \<and> c_src_address c' = c_src_address c \<and> c_src_port c' = c_src_port c \<and>
    buf_limit (c_in c') = buf_limit (c_in c) \<and> buf_limit (c_out c') = buf_limit (c_out c)"
proof -
  let ?w = "woken {nat fd} {} w"
  let ?v = "replied fd 2 [1, 0] False q (received fd ?w)"
  note a = awaiting_live [OF aw]
  obtain c' where c': "socksv5_read (client fd p) ?w = Inr (conn_put p c' ?v)"
    "awaiting 2 (client fd p) p c' (conn_put p c' ?v)" "c_username c' = u" "interest_of (w_sel ?v) fd = Some OP_READ"
    "c_src_address c' = c_src_address c" "c_src_port c' = c_src_port c"
    "buf_limit (c_in c') = buf_limit (c_in c)" "buf_limit (c_out c') = buf_limit (c_out c)"
    using login_done [of "client fd p" p c ?w u pw "[]" rs q] aw fields table fits kernel by auto
  have inv: "sel_inv (w_sel w)" "\<not> invalid_fd fd" "owner_of (w_sel w) fd = Some (H_Socks5, p)"
    using a by (simp_all add: sound_def)
  note kept = replied_kept [OF inv(1,2) kernel(1), of "[1, 0]" 2]
  have "sel_inv (w_sel ?v)" using awaiting_live(4) [OF c'(2)] by (simp add: sound_def)
  then have "proxy_select (PS_Ready {nat fd} {}) w = finish_turn (conn_put p c' ?v)"
    using client_reads [OF l inv(3), of "conn_put p c' ?v"] c'(1) kept(2) by simp
  moreover have jobs: "resolution_jobs (w_sel ?v) = []" using l kept(2) [of q "{nat fd}" "{}"] by (simp add: listened_def agenda_def)
  ultimately have turn: "proxy_select (PS_Ready {nat fd} {}) w = Inr (SELECTOR_SUCCESS, conn_put p c' ?v)"
    using finish_none [of "conn_put p c' ?v"] by simp
  moreover have "listened fd (conn_put p c' ?v)"
    using turn_ok [OF _ turn] l jobs c'(4) by (simp add: listened_def)
  ultimately show ?thesis using c' kept(1) by auto
qed

text \<open>The announcement of what was looked up, at the end of a turn, starts the connection.\<close>

lemma announcement:
  assumes r: "resolved (client fd p) p (ai # ais) c w" and jobs: "resolution_jobs (w_sel w) = [fd]"
    and kernel: "os_socket (w_os w) = fo # sq" "os_nonblock (w_os w) = []" "os_connect (w_os w) = EINPROGRESS # cq"
    and fo: "0 < fo" "\<not> invalid_fd fo" "interest_of (w_sel w) fo = None"
  shows "\<exists>v. finish_turn w = Inr (SELECTOR_SUCCESS, v) \<and> resolution_jobs (w_sel v) = [] \<and>
    dialing p fd fo ais (c\<lparr>c_addr_info := ais, c_origin_fd := fo\<rparr>) v \<and> w_cfg v = w_cfg w \<and> w_os v = w_os (dialed ai fo w)"
proof -
  note l = resolved_live [OF r]
  obtain e where e: "sel_table (w_sel w) fd = Some e" "it_handler e = Some H_Socks5" "it_data e = Some p"
    using table_of [of "w_sel w" fd H_Socks5 p OP_NOOP] l(9,10) by auto
  let ?c = "c\<lparr>c_addr_info := ais, c_origin_fd := fo\<rparr>"
  let ?u = "conn_put p ?c ((dialed ai fo w)\<lparr>w_sel := sel_reg fo H_Connecting OP_WRITE p (sel_set fd OP_NOOP (w_sel w))\<rparr>)"
  have u: "socksv5_block (client fd p) w = Inr ?u" "dialing p fd fo ais ?c ?u"
    using block_dials [OF r kernel fo] by auto
  let ?v = "?u\<lparr>w_sel := (w_sel ?u)\<lparr>resolution_jobs := []\<rparr>\<rparr>"
  have "finish_turn w = Inr (SELECTOR_SUCCESS, ?v)"
    by (rule finish_one [OF l(16) e(1,2), where f = "as_callback socksv5_block"])
      (use jobs e(3) u(1) in \<open>simp_all add: as_callback_def client_def\<close>)
  moreover have "dialing p fd fo ais ?c ?v" using u(2) by (simp only: dialing_jobs)
  ultimately show ?thesis by - (rule exI [of _ ?v], simp)
qed

text \<open>
  An address is looked up while the request is read, and the same turn announces it; a name is
  looked up by a thread of its own, which then interrupts the loop.
\<close>

definition lookup_turns :: "nat \<Rightarrow> socks_addr \<Rightarrow> turn list" where
  "lookup_turns p a = (if addr_type a = 3 then [Resolved p, Selected PS_Interrupted] else [])"

lemma interrupted_turn:
  "proxy_select PS_Interrupted w = finish_turn (woken (master_r (w_sel w)) (master_w (w_sel w)) w)"
  by (simp add: proxy_select_def selector_select_def woken_def Let_def)

lemma serve_after: "serve ts w = Inr (SELECTOR_SUCCESS, v) \<Longrightarrow> serve (ts @ us) w = serve us v"
  by (induction ts w rule: serve.induct) (auto simp: bind_res_eq_Inr split: if_splits)

lemma request_turns:
  assumes aw: "awaiting 2 (client fd p) p c w" and l: "listened fd w"
    and req: "addr_wf a" "hi \<noteq> 255" "lo \<noteq> 255"
    and fits: "length (encode_request 1 a hi lo) \<le> buf_limit (c_in c)"
    and kernel: "os_recv (w_os w) = Recv (encode_request 1 a hi lo) # rs" "os_thread (w_os w) = []"
      "os_resolve (w_os w) = Some (ai # ais) # rq" "os_socket (w_os w) = fo # sq" "os_nonblock (w_os w) = []"
      "os_connect (w_os w) = EINPROGRESS # cq"
    and fo: "0 < fo" "\<not> invalid_fd fo" "interest_of (w_sel w) fo = None"
  shows "\<exists>c' v. serve (Selected (PS_Ready {nat fd} {}) # lookup_turns p a) w = Inr (SELECTOR_SUCCESS, v) \<and> world_ok v \<and>
    resolution_jobs (w_sel v) = [] \<and> dialing p fd fo ais c' v \<and> w_cfg v = w_cfg w \<and>
    w_os v = (w_os w)\<lparr>os_recv := rs, os_trace := os_trace (w_os w) @ [Ev_Recv fd (encode_request 1 a hi lo),
        target_lookup (os_ntop6 (w_os w)) a (256 * unat hi + unat lo), Ev_Socket (ai_family ai), Ev_Connect fo ai],
      os_resolve := rq, os_socket := sq, os_connect := cq, os_errno := EINPROGRESS\<rparr> \<and>
    c_dst_address c' = address_text (os_ntop6 (w_os w)) a \<and> unat (c_dst_port c') = 256 * unat hi + unat lo \<and>
    c_username c' = c_username c \<and> c_src_address c' = c_src_address c \<and> c_src_port c' = c_src_port c \<and>
    buf_limit (c_out c') = buf_limit (c_out c)"
proof -
  let ?w = "woken {nat fd} {} w" and ?t = "target_lookup (os_ntop6 (w_os w)) a (256 * unat hi + unat lo)"
  note aw' = awaiting_live [OF aw]
  have inv: "sel_inv (w_sel w)" "\<not> invalid_fd fd" "owner_of (w_sel w) fd = Some (H_Socks5, p)"
    using aw' by (simp_all add: sound_def)
  have jobs: "resolution_jobs (w_sel w) = []" using l by (simp add: listened_def)
  obtain c1 w0 k where 1: "socksv5_read (client fd p) ?w = Inr w0"
    "(if addr_type a = 3 then resolver_done p w0 else Inr w0) = Inr (conn_put p c1 (announced ?t fd k ?w))"
    "resolved (client fd p) p (ai # ais) c1 (conn_put p c1 (announced ?t fd k ?w))"
    "c_out c1 = c_out c" "c_dst_address c1 = address_text (os_ntop6 (w_os w)) a" "unat (c_dst_port c1) = 256 * unat hi + unat lo"
    "c_username c1 = c_username c" "c_src_address c1 = c_src_address c" "c_src_port c1 = c_src_port c"
    "addr_type a = 3 \<Longrightarrow> sel_inv (w_sel w0) \<and> agenda (w_sel w0) = ({nat fd}, {}, []) \<and> p \<in> set (w_resolving w0)"
    using request_resolves [of "client fd p" p c ?w a hi lo "[]" rs "Some (ai # ais)" rq] aw req fits kernel jobs by auto
  let ?v1 = "conn_put p c1 (announced ?t fd k ?w)"
  note r = resolved_live [OF 1(3)]
  have ag: "agenda (w_sel ?v1) = ({nat fd}, {}, [fd])"
  proof -
    have "agenda (sel_set fd OP_NOOP (w_sel ?w)) = ({nat fd}, {}, [])" using jobs by simp
    then show ?thesis by (simp add: agenda_def)
  qed
  obtain i where i: "interest_of (w_sel w) fd = Some i" using owner_interest [OF inv(3)] by blast
  define v1 where "v1 = (if addr_type a = 3 then woken (master_r (w_sel ?v1)) (master_w (w_sel ?v1)) ?v1 else ?v1)"
  have v1: "resolved (client fd p) p (ai # ais) c1 v1" "resolution_jobs (w_sel v1) = [fd]" "w_os v1 = w_os ?v1" "w_cfg v1 = w_cfg w"
    "interest_of (w_sel v1) fo = None"
    using 1(3) ag fo(3) inv(1) i by (auto simp: v1_def agenda_def)
  have os1: "os_socket (w_os v1) = fo # sq" "os_nonblock (w_os v1) = []" "os_connect (w_os v1) = EINPROGRESS # cq"
    using kernel v1(3) by (simp_all add: received_def)
  let ?c = "c1\<lparr>c_addr_info := ais, c_origin_fd := fo\<rparr>"
  obtain v where v: "finish_turn v1 = Inr (SELECTOR_SUCCESS, v)" "resolution_jobs (w_sel v) = []" "dialing p fd fo ais ?c v"
    "w_cfg v = w_cfg w" "w_os v = w_os (dialed ai fo v1)"
    using announcement [OF v1(1,2) os1 fo(1,2) v1(5)] v1(4) by auto
  have turns: "serve (Selected (PS_Ready {nat fd} {}) # lookup_turns p a) w = Inr (SELECTOR_SUCCESS, v)"
  proof (cases "addr_type a = 3")
    case True
    with 1(10) have w0: "sel_inv (w_sel w0)" "agenda (w_sel w0) = ({nat fd}, {}, [])" "p \<in> set (w_resolving w0)" by auto
    then have "proxy_select (PS_Ready {nat fd} {}) w = Inr (SELECTOR_SUCCESS, w0)"
      using client_reads [OF l inv(3) 1(1) w0(1,2)] finish_none [of w0] by (simp add: agenda_def)
    moreover have "proxy_select PS_Interrupted ?v1 = Inr (SELECTOR_SUCCESS, v)"
      using v(1) unfolding interrupted_turn v1_def if_P [OF True] .
    ultimately show ?thesis using True w0(3) 1(2) by (simp add: lookup_turns_def)
  next
    case False
    with 1(2) have "w0 = ?v1" by simp
    then show ?thesis
      using client_reads [OF l inv(3), of ?v1] 1(1) r(16) ag v(1) False by (simp add: lookup_turns_def v1_def)
  qed
  have "w_os v = (w_os w)\<lparr>os_recv := rs, os_trace := os_trace (w_os w) @ [Ev_Recv fd (encode_request 1 a hi lo),
        target_lookup (os_ntop6 (w_os w)) a (256 * unat hi + unat lo), Ev_Socket (ai_family ai), Ev_Connect fo ai],
      os_resolve := rq, os_socket := sq, os_connect := cq, os_errno := EINPROGRESS\<rparr>"
    using kernel v(5) v1(3) by (simp add: dialed_def received_def)
  moreover have "world_ok v" using serve_ok [OF _ turns] l by (simp add: listened_def)
  ultimately show ?thesis
    using turns v 1(4-9) by - (rule exI [of _ ?c], rule exI [of _ v], simp del: serve.simps)
qed

text \<open>The socket of the origin is writable.\<close>

lemma connected_turn:
  assumes d: "dialing p fd fo ais c w" and w: "world_ok w" "resolution_jobs (w_sel w) = []"
    and kernel: "os_sockopt (w_os w) = (True, 0) # oq" "os_send (w_os w) = Sent 22 # q" "calm (w_os w)"
      "os_sockname (w_os w) fo \<noteq> Sock_Other"
    and room: "22 \<le> buf_limit (c_out c)" and reg: "registering w"
  shows "\<exists>c' v. proxy_select (PS_Ready {} {nat fo}) w = Inr (SELECTOR_SUCCESS, v) \<and> relay_ok p fd fo c' v \<and>
    os_trace (w_os v) = os_trace (w_os w) @ [Ev_Send fd (success_bytes (w_os w) fo)] \<and>
    last (accesses v) = entry_for c SOCKS5_REP_SUCCEEDED w \<and> pending (c_in c') = [] \<and> pending (c_out c') = [] \<and>
    listened fd v"
proof -
  let ?w = "woken {} {nat fo} w"
  note l = dialing_live [OF d]
  obtain e where e: "sel_table (w_sel w) fo = Some e" "it_handler e = Some H_Connecting" "it_data e = Some p" "it_interest e = OP_WRITE"
    using table_of [OF l(13,15)] by blast
  obtain c' v where v: "handle_write_connecting (client fo p) ?w = Inr v" "relay_ok p fd fo c' v"
    "os_trace (w_os v) = os_trace (w_os w) @ [Ev_Send fd (success_bytes (w_os w) fo)]"
    "last (accesses v) = entry_for c SOCKS5_REP_SUCCEEDED w" "pending (c_in c') = []" "pending (c_out c') = []"
    "interest_of (w_sel v) fd = Some OP_READ" "agenda (w_sel v) = agenda (w_sel ?w)"
    using connecting_succeeds [of p fd fo ais c ?w "client fo p" oq q] d kernel room reg by (auto simp: entry_for_def)
  have ag: "agenda (w_sel v) = ({}, {nat fo}, [])" using v(8) w(2) by simp
  have "proxy_select (PS_Ready {} {nat fo}) w = finish_turn v"
    by (rule turn_writes [OF l(21) all_valid_ok [OF w(1)] e(1,2) _ _ _ relay_facts(3) [OF v(2)] ag, where f = "as_callback handle_write_connecting"])
      (use e v(1) in \<open>simp_all add: as_callback_def client_def\<close>)
  moreover have jobs: "resolution_jobs (w_sel v) = []" using ag by (simp add: agenda_def)
  ultimately have turn: "proxy_select (PS_Ready {} {nat fo}) w = Inr (SELECTOR_SUCCESS, v)" by (simp add: finish_none)
  moreover have "listened fd v" using turn_ok [OF w(1) turn] v(7) jobs by (simp add: listened_def)
  ultimately show ?thesis using v by blast
qed

text \<open>A client of IPv4 knocks.\<close>

lemma accept_turn:
  assumes w: "world_ok w" "resolution_jobs (w_sel w) = []" and srv: "sel_table (w_sel w) srv = Some (reading srv H_Passive)"
    and acc: "accepting fd w" "0 < fd" and kernel: "os_accept (w_os w) = Accepted fd (Sock_In i pt) # aq"
    and below: "metrics (data (w_cfg w)) = Some m" "uint (current_connections m) < uint (max_conn (data (w_cfg w)))"
  shows "\<exists>c v. proxy_select (PS_Ready {nat srv} {}) w = Inr (SELECTOR_SUCCESS, v) \<and> listened fd v \<and>
    accepted (client fd (length (w_heap w))) (length (w_heap w)) c v \<and> w_os v = (w_os w)\<lparr>os_accept := aq, os_trace := os_trace (w_os w) @ [Ev_Accept srv]\<rparr> \<and>
    user_map (w_cfg v) = user_map (w_cfg w) \<and> access_reg (data (w_cfg v)) = access_reg (data (w_cfg w)) \<and>
    interest_of (w_sel v) = (interest_of (w_sel w))(fd \<mapsto> OP_READ) \<and> c_src_address c = dotted i \<and> c_src_port c = htons pt \<and>
    buf_limit (c_in c) = unat (buffer_size (data (w_cfg w))) \<and> buf_limit (c_out c) = unat (buffer_size (data (w_cfg w)))"
proof -
  let ?w = "woken {nat srv} {} w" and ?p = "length (w_heap w)" and ?sz = "unat (buffer_size (data (w_cfg w)))"
  let ?c = "(source_of (os_ntop6 (w_os w)) (Sock_In i pt) zero_conn)
    \<lparr>c_client_fd := fd, c_in := buffer_init ?sz (replicate ?sz 0), c_out := buffer_init ?sz (replicate ?sz 0),
     c_stm := socks5_stm_init True\<rparr>"
  let ?v = "conn_put ?p ?c (count metrics_inc_total_conn (count metrics_inc_curr_conn
    ((handed srv ?w)\<lparr>w_heap := w_heap w @ [Some zero_conn], w_sel := sel_reg fd H_Socks5 OP_READ ?p (w_sel ?w)\<rparr>)))"
  have run: "socksv5_passive_accept \<lparr>k_fd = srv, k_data = None\<rparr> ?w = Inr ?v"
    using accept_socks5 [of fd ?w "Sock_In i pt" aq m "\<lparr>k_fd = srv, k_data = None\<rparr>"] acc kernel below by simp
  have acc': "accepting fd ?w" using acc(1) by simp
  note inv = sel_reg_inv [OF acc', of H_Socks5 OP_READ ?p]
  have ag: "agenda (w_sel ?v) = ({nat srv}, {}, [])" using w(2) by simp
  have "proxy_select (PS_Ready {nat srv} {}) w = finish_turn ?v"
    by (rule turn_reads [OF world_okD(1) [OF w(1)] all_valid_ok [OF w(1)] srv, where f = "as_callback socksv5_passive_accept" and h = H_Passive])
      (use run inv ag in \<open>simp_all add: as_callback_def reading_def\<close>)
  moreover have jobs: "resolution_jobs (w_sel ?v) = []" using ag by (simp add: agenda_def)
  ultimately have turn: "proxy_select (PS_Ready {nat srv} {}) w = Inr (SELECTOR_SUCCESS, ?v)" by (simp add: finish_none)
  have i: "interest_of (w_sel ?v) = (interest_of (w_sel w))(fd \<mapsto> OP_READ)"
    using sel_reg_free [of "w_sel ?w" fd] acc' by (simp add: accepting_def)
  then have l: "listened fd ?v" using turn_ok [OF w(1) turn] jobs by (simp add: listened_def)
  have "256 \<le> uint (buffer_size (data (w_cfg w)))" using world_okD(3) [OF w(1)] unfolding config_inv_def settings_ok_def by blast
  then have sz: "256 \<le> ?sz" "2 \<le> ?sz" "256 \<le> length (os_junk (w_os w))" using world_okD(4) [OF w(1)] unfolding uint_nat by linarith+
  have b: "idle (buffer_init ?sz (replicate ?sz 0))" "buf_limit (buffer_init ?sz (replicate ?sz 0)) = ?sz"
    by (simp_all add: idle_def buffer_init_inv) (simp_all add: buffer_op_defs)
  have al: "os_alloc (w_os w) = []" "\<not> invalid_fd fd" using acc by (simp_all add: accepting_def)
  have "accepted (client fd ?p) ?p ?c ?v"
    using b sz al inv acc(2) below(1) owner_reg_self [OF acc', of H_Socks5 OP_READ ?p]
    by (simp add: accepted_def connected_def sound_def) (simp add: source_of_def zero_conn_def)
  moreover have "w_os ?v = (w_os w)\<lparr>os_accept := aq, os_trace := os_trace (w_os w) @ [Ev_Accept srv]\<rparr>" using kernel by (simp add: count_def handed_def)
  moreover have "user_map (w_cfg ?v) = user_map (w_cfg w)" "access_reg (data (w_cfg ?v)) = access_reg (data (w_cfg w))"
    by (simp_all add: count_def)
  ultimately show ?thesis
    using turn l i b(2) by - (rule exI [of _ ?c], rule exI [of _ ?v], simp add: source_of_def)
qed

section \<open>The session\<close>

lemma message_lengths:
  fixes n :: byte
  shows "unat n = length ms \<Longrightarrow> n \<noteq> 255 \<Longrightarrow> length (5 # n # ms) \<le> 513"
  "auth_field_ok u \<Longrightarrow> auth_field_ok pw \<Longrightarrow> length (encode_auth u pw) \<le> 513"
  "addr_wf a \<Longrightarrow> length (encode_request 1 a hi lo) \<le> 513"
proof -
  show "length (5 # n # ms) \<le> 513" if "unat n = length ms" using unsigned_less [of n, where ?'a = nat] that by simp
  show "length (encode_auth u pw) \<le> 513" if "auth_field_ok u" "auth_field_ok pw" using that by (simp add: encode_auth_def auth_field_ok_def)
  show "length (encode_request 1 a hi lo) \<le> 513" if "addr_wf a"
    using that by (cases a) (simp_all add: encode_request_def)
qed

text \<open>
  The kernel has, in this order, a client, its three messages, room for the three replies, the addresses of the target,
  \<open>ai\<close> the first of them, and an origin that answers there.  It reports no failure.
\<close>

definition kernel_plan :: "int \<Rightarrow> addrinfo \<Rightarrow> byte list list \<Rightarrow> addrinfo \<Rightarrow> int \<Rightarrow> os \<Rightarrow> bool" where
  "kernel_plan fd from_addr messages ai fo u \<longleftrightarrow>
     (\<exists>aq rs q rq sq cq oq ais. os_accept u = Accepted fd from_addr # aq \<and> os_recv u = map Recv messages @ rs \<and>
        os_send u = Sent 2 # Sent 2 # Sent 22 # q \<and> os_resolve u = Some (ai # ais) # rq \<and> os_socket u = fo # sq \<and>
        os_connect u = EINPROGRESS # cq \<and> os_sockopt u = (True, 0) # oq) \<and>
     os_thread u = [] \<and> os_nonblock u = [] \<and> os_alloc u = [] \<and> os_sockname u fo \<noteq> Sock_Other \<and> calm u"

lemma kernel_planD:
  assumes "kernel_plan fd src ms ai fo u"
  obtains aq rs q rq sq cq oq ais where "os_accept u = Accepted fd src # aq" "os_recv u = map Recv ms @ rs"
    "os_send u = Sent 2 # Sent 2 # Sent 22 # q" "os_resolve u = Some (ai # ais) # rq" "os_socket u = fo # sq"
    "os_connect u = EINPROGRESS # cq" "os_sockopt u = (True, 0) # oq" "os_thread u = []" "os_nonblock u = []" "os_alloc u = []"
    "os_sockname u fo \<noteq> Sock_Other" "calm u"
  using assms unfolding kernel_plan_def by blast

text \<open>From the arrival of a client to its login: three turns.\<close>

lemma negotiated:
  assumes w: "world_ok w" "resolution_jobs (w_sel w) = []"
    and srv: "sel_table (w_sel w) srv = Some (reading srv H_Passive)"
    and below: "metrics (data (w_cfg w)) = Some m" "uint (current_connections m) < uint (max_conn (data (w_cfg w)))"
    and size: "513 \<le> unat (buffer_size (data (w_cfg w)))"
    and acc: "accepting fd w" "0 < fd"
    and greeting: "set ms \<subseteq> {0, 1, 2}" "unat n = length ms" "n \<noteq> 255" "2 \<in> set ms"
    and login: "auth_field_ok u" "auth_field_ok pw" "0 \<notin> set u" "0 \<notin> set pw"
      "table_inv (user_map (w_cfg w))" "users (user_map (w_cfg w)) u = Some pw"
    and kernel: "os_accept (w_os w) = Accepted fd (Sock_In i pt) # aq"
      "os_recv (w_os w) = Recv (5 # n # ms) # Recv (encode_auth u pw) # rs" "os_send (w_os w) = Sent 2 # Sent 2 # q"
  shows "\<exists>c v. serve [Selected (PS_Ready {nat srv} {}), Selected (PS_Ready {nat fd} {}), Selected (PS_Ready {nat fd} {})] w =
      Inr (SELECTOR_SUCCESS, v) \<and> listened fd v \<and> awaiting 2 (client fd (length (w_heap w))) (length (w_heap w)) c v \<and>
    w_os v = (w_os w)\<lparr>os_accept := aq, os_recv := rs, os_send := q, os_trace := os_trace (w_os w) @
      [Ev_Accept srv, Ev_Recv fd (5 # n # ms), Ev_Send fd [5, 2], Ev_Recv fd (encode_auth u pw), Ev_Send fd [1, 0]]\<rparr> \<and>
    access_reg (data (w_cfg v)) = access_reg (data (w_cfg w)) \<and>
    (\<forall>x. x \<noteq> fd \<longrightarrow> interest_of (w_sel v) x = interest_of (w_sel w) x) \<and>
    c_username c = u \<and> c_src_address c = dotted i \<and> c_src_port c = htons pt \<and>
    buf_limit (c_in c) = unat (buffer_size (data (w_cfg w))) \<and> buf_limit (c_out c) = unat (buffer_size (data (w_cfg w)))"
proof -
  let ?p = "length (w_heap w)" and ?sz = "unat (buffer_size (data (w_cfg w)))"
  obtain c1 w1 where 1: "proxy_select (PS_Ready {nat srv} {}) w = Inr (SELECTOR_SUCCESS, w1)" "listened fd w1"
    "accepted (client fd ?p) ?p c1 w1" "w_os w1 = (w_os w)\<lparr>os_accept := aq, os_trace := os_trace (w_os w) @ [Ev_Accept srv]\<rparr>" "user_map (w_cfg w1) = user_map (w_cfg w)"
    "access_reg (data (w_cfg w1)) = access_reg (data (w_cfg w))" "interest_of (w_sel w1) = (interest_of (w_sel w))(fd \<mapsto> OP_READ)"
    "c_src_address c1 = dotted i" "c_src_port c1 = htons pt" "buf_limit (c_in c1) = ?sz" "buf_limit (c_out c1) = ?sz"
    using accept_turn [OF w srv acc kernel(1) below] by blast
  have fit1: "length (5 # n # ms) \<le> buf_limit (c_in c1)" using message_lengths(1) [OF greeting(2,3)] size 1(10) by simp
  have k1: "os_recv (w_os w1) = Recv (5 # n # ms) # Recv (encode_auth u pw) # rs" "os_send (w_os w1) = Sent 2 # Sent 2 # q"
    using kernel 1(4) by simp_all
  have m: "method_for ms = 2" "next_state ms = 1" using greeting(4) by (simp_all add: method_for_def next_state_def)
  obtain c2 w2 where 2: "proxy_select (PS_Ready {nat fd} {}) w1 = Inr (SELECTOR_SUCCESS, w2)" "listened fd w2"
    "awaiting 1 (client fd ?p) ?p c2 w2"
    "kept_for fd w1 [Ev_Recv fd (5 # n # ms), Ev_Send fd [5, 2]] (Recv (encode_auth u pw) # rs) (Sent 2 # q) w2"
    "c_src_address c2 = c_src_address c1" "c_src_port c2 = c_src_port c1"
    "buf_limit (c_in c2) = buf_limit (c_in c1)" "buf_limit (c_out c2) = buf_limit (c_out c1)"
    using greeting_turn [OF 1(3,2) greeting(1-3) _ fit1 k1] greeting(4) m by auto
  have fit2: "length (encode_auth u pw) \<le> buf_limit (c_in c2)" using message_lengths(2) [OF login(1,2)] size 1(10) 2(7) by simp
  have t2: "table_inv (user_map (w_cfg w2))" "users (user_map (w_cfg w2)) u = Some pw"
    using login(5,6) 2(4) 1(5) by (simp_all add: kept_for_def)
  have k2: "os_recv (w_os w2) = Recv (encode_auth u pw) # rs" "os_send (w_os w2) = Sent 2 # q" using 2(4) by (simp_all add: kept_for_def)
  obtain c3 w3 where 3: "proxy_select (PS_Ready {nat fd} {}) w2 = Inr (SELECTOR_SUCCESS, w3)" "listened fd w3"
    "awaiting 2 (client fd ?p) ?p c3 w3" "kept_for fd w2 [Ev_Recv fd (encode_auth u pw), Ev_Send fd [1, 0]] rs q w3"
    "c_username c3 = u" "c_src_address c3 = c_src_address c2" "c_src_port c3 = c_src_port c2"
    "buf_limit (c_in c3) = buf_limit (c_in c2)" "buf_limit (c_out c3) = buf_limit (c_out c2)"
    using login_turn [OF 2(3,2) login(1-4) t2 fit2 k2] by blast
  have "w_os w3 = (w_os w)\<lparr>os_accept := aq, os_recv := rs, os_send := q, os_trace := os_trace (w_os w) @
      [Ev_Accept srv, Ev_Recv fd (5 # n # ms), Ev_Send fd [5, 2], Ev_Recv fd (encode_auth u pw), Ev_Send fd [1, 0]]\<rparr>"
    "access_reg (data (w_cfg w3)) = access_reg (data (w_cfg w))"
    "\<forall>x. x \<noteq> fd \<longrightarrow> interest_of (w_sel w3) x = interest_of (w_sel w) x"
    using 3(4) 2(4) 1(4,6,7) by (simp_all add: kept_for_def)
  then show ?thesis
    using 1(1,8-11) 2(1,5-8) 3(1-3,5-9) by - (rule exI [of _ c3], rule exI [of _ w3], simp)
qed

text \<open>From the arrival of a client to its relay.\<close>

lemma session_turns:
  assumes w: "world_ok w" "resolution_jobs (w_sel w) = []" "registering w"
    and srv: "sel_table (w_sel w) srv = Some (reading srv H_Passive)"
    and below: "metrics (data (w_cfg w)) = Some m" "uint (current_connections m) < uint (max_conn (data (w_cfg w)))"
    and size: "513 \<le> unat (buffer_size (data (w_cfg w)))"
    and fds: "0 < fd" "\<not> invalid_fd fd" "interest_of (w_sel w) fd = None" "0 < fo" "\<not> invalid_fd fo"
      "interest_of (w_sel w) fo = None" "fd \<noteq> fo"
    and greeting: "set ms \<subseteq> {0, 1, 2}" "unat n = length ms" "n \<noteq> 255" "2 \<in> set ms"
    and login: "auth_field_ok u" "auth_field_ok pw" "0 \<notin> set u" "0 \<notin> set pw"
      "table_inv (user_map (w_cfg w))" "users (user_map (w_cfg w)) u = Some pw"
    and request: "addr_wf a" "hi \<noteq> 255" "lo \<noteq> 255"
    and kernel: "kernel_plan fd (Sock_In i pt) [5 # n # ms, encode_auth u pw, encode_request 1 a hi lo] ai fo (w_os w)"
  shows "\<exists>w' c. serve ([Selected (PS_Ready {nat srv} {}), Selected (PS_Ready {nat fd} {}), Selected (PS_Ready {nat fd} {}),
        Selected (PS_Ready {nat fd} {})] @ lookup_turns (length (w_heap w)) a @ [Selected (PS_Ready {} {nat fo})]) w =
      Inr (SELECTOR_SUCCESS, w') \<and> world_ok w' \<and> relay_ok (length (w_heap w)) fd fo c w' \<and>
    pending (c_in c) = [] \<and> pending (c_out c) = [] \<and> interest_of (w_sel w') fd = Some OP_READ \<and>
    os_trace (w_os w') = os_trace (w_os w) @
      [Ev_Accept srv, Ev_Recv fd (5 # n # ms), Ev_Send fd [5, 2], Ev_Recv fd (encode_auth u pw), Ev_Send fd [1, 0],
       Ev_Recv fd (encode_request 1 a hi lo), target_lookup (os_ntop6 (w_os w)) a (256 * unat hi + unat lo),
       Ev_Socket (ai_family ai), Ev_Connect fo ai, Ev_Send fd (success_bytes (w_os w) fo)] \<and>
    last (accesses w') = make_entry u (dotted i) (htons pt) (address_text (os_ntop6 (w_os w)) a)
      (word_of_nat (256 * unat hi + unat lo)) 0 (os_clock (w_os w))"
proof -
  let ?p = "length (w_heap w)"
  obtain aq rs q rq sq cq oq ais where k: "os_accept (w_os w) = Accepted fd (Sock_In i pt) # aq"
    "os_recv (w_os w) = Recv (5 # n # ms) # Recv (encode_auth u pw) # Recv (encode_request 1 a hi lo) # rs"
    "os_send (w_os w) = Sent 2 # Sent 2 # Sent 22 # q" "os_resolve (w_os w) = Some (ai # ais) # rq" "os_socket (w_os w) = fo # sq"
    "os_connect (w_os w) = EINPROGRESS # cq" "os_sockopt (w_os w) = (True, 0) # oq" "os_thread (w_os w) = []"
    "os_nonblock (w_os w) = []" "os_alloc (w_os w) = []" "os_sockname (w_os w) fo \<noteq> Sock_Other" "calm (w_os w)"
    using kernel by (rule kernel_planD) auto
  have acc: "accepting fd w" using world_okD(1) [OF w(1)] fds(2,3) k(9,10) by (simp add: accepting_def)
  obtain c3 w3 where 3: "serve [Selected (PS_Ready {nat srv} {}), Selected (PS_Ready {nat fd} {}), Selected (PS_Ready {nat fd} {})] w =
      Inr (SELECTOR_SUCCESS, w3)" "listened fd w3" "awaiting 2 (client fd ?p) ?p c3 w3"
    "w_os w3 = (w_os w)\<lparr>os_accept := aq, os_recv := Recv (encode_request 1 a hi lo) # rs, os_send := Sent 22 # q,
      os_trace := os_trace (w_os w) @
        [Ev_Accept srv, Ev_Recv fd (5 # n # ms), Ev_Send fd [5, 2], Ev_Recv fd (encode_auth u pw), Ev_Send fd [1, 0]]\<rparr>"
    "access_reg (data (w_cfg w3)) = access_reg (data (w_cfg w))" "\<forall>x. x \<noteq> fd \<longrightarrow> interest_of (w_sel w3) x = interest_of (w_sel w) x"
    "c_username c3 = u" "c_src_address c3 = dotted i" "c_src_port c3 = htons pt"
    "buf_limit (c_in c3) = unat (buffer_size (data (w_cfg w)))" "buf_limit (c_out c3) = unat (buffer_size (data (w_cfg w)))"
    using negotiated [OF w(1,2) srv below size acc fds(1) greeting login k(1-3)] by blast
  have fit: "length (encode_request 1 a hi lo) \<le> buf_limit (c_in c3)"
    using message_lengths(3) [OF request(1), of hi lo] size unfolding 3(10) by linarith
  have free: "interest_of (w_sel w3) fo = None" using 3(6) fds(6,7) by simp
  have k3: "os_recv (w_os w3) = Recv (encode_request 1 a hi lo) # rs" "os_thread (w_os w3) = []"
    "os_resolve (w_os w3) = Some (ai # ais) # rq" "os_socket (w_os w3) = fo # sq" "os_nonblock (w_os w3) = []"
    "os_connect (w_os w3) = EINPROGRESS # cq" "os_ntop6 (w_os w3) = os_ntop6 (w_os w)"
    using k 3(4) by simp_all
  obtain c4 w4 where 4: "serve (Selected (PS_Ready {nat fd} {}) # lookup_turns ?p a) w3 = Inr (SELECTOR_SUCCESS, w4)" "world_ok w4"
    "resolution_jobs (w_sel w4) = []" "dialing ?p fd fo ais c4 w4" "w_cfg w4 = w_cfg w3"
    "w_os w4 = (w_os w3)\<lparr>os_recv := rs, os_trace := os_trace (w_os w3) @ [Ev_Recv fd (encode_request 1 a hi lo),
        target_lookup (os_ntop6 (w_os w3)) a (256 * unat hi + unat lo), Ev_Socket (ai_family ai), Ev_Connect fo ai],
      os_resolve := rq, os_socket := sq, os_connect := cq, os_errno := EINPROGRESS\<rparr>"
    "c_dst_address c4 = address_text (os_ntop6 (w_os w3)) a" "unat (c_dst_port c4) = 256 * unat hi + unat lo"
    "c_username c4 = c_username c3" "c_src_address c4 = c_src_address c3" "c_src_port c4 = c_src_port c3"
    "buf_limit (c_out c4) = buf_limit (c_out c3)"
    using request_turns [OF 3(3,2) request fit k3(1-6) fds(4,5) free] by blast
  have k4: "os_sockopt (w_os w4) = (True, 0) # oq" "os_send (w_os w4) = Sent 22 # q" "calm (w_os w4)"
    "os_sockname (w_os w4) fo \<noteq> Sock_Other" "registering w4" "22 \<le> buf_limit (c_out c4)"
    "success_bytes (w_os w4) fo = success_bytes (w_os w) fo" "os_clock (w_os w4) = os_clock (w_os w)"
    using k 3(4,5,11) 4(5,6,12) w(3) size by (simp_all add: calm_def registering_def success_bytes_def)
  obtain c5 w5 where 5: "proxy_select (PS_Ready {} {nat fo}) w4 = Inr (SELECTOR_SUCCESS, w5)" "relay_ok ?p fd fo c5 w5"
    "os_trace (w_os w5) = os_trace (w_os w4) @ [Ev_Send fd (success_bytes (w_os w4) fo)]"
    "last (accesses w5) = entry_for c4 SOCKS5_REP_SUCCEEDED w4" "pending (c_in c5) = []" "pending (c_out c5) = []" "listened fd w5"
    using connected_turn [OF 4(4,2,3) k4(1-4,6,5)] by blast
  have "serve ([Selected (PS_Ready {nat srv} {}), Selected (PS_Ready {nat fd} {}), Selected (PS_Ready {nat fd} {}),
      Selected (PS_Ready {nat fd} {})] @ lookup_turns ?p a @ [Selected (PS_Ready {} {nat fo})]) w = Inr (SELECTOR_SUCCESS, w5)"
    using serve_after [OF 3(1), of "Selected (PS_Ready {nat fd} {}) # lookup_turns ?p a @ [Selected (PS_Ready {} {nat fo})]"]
      serve_after [OF 4(1), of "[Selected (PS_Ready {} {nat fo})]"] 5(1) by simp
  moreover have "c_dst_port c4 = word_of_nat (256 * unat hi + unat lo)" by (simp flip: 4(8))
  ultimately show ?thesis
    using 3(4,7-9) 4(6,7,9-11) 5(2-7) k3(7) k4(7,8)
    by - (rule exI [of _ w5], rule exI [of _ c5], simp add: entry_for_def listened_def del: serve.simps)
qed

text \<open>
  C1: a whole session.  From any world of the running server that has room for one more client, five turns of the
  main loop, and two more when the target is a name that a resolver has to look up, take a client that knows a password from
  its arrival to a relay with the origin it asked for, when the kernel reports no error and no end of a stream.  It is
  accepted on the listening socket, is asked for a password and gives the right one.  What is then looked up is the target
  of its request and nothing else, as a number of its family or by its name, with the port of the request; the origin of the
  relay is the one socket that is made, of the family of the first address of the answer, and it is connected to that address;
  and the client is told so.  The trace holds these calls and no others.  The access register ends with the entry of
  this connection under the client's name, its address and the target, and the invariant of the server still holds.
  No byte of the login, of the address and of the port is 255, on which the parsers read past their array; a name is looked up
  as the connection records it, up to a zero byte and to 253 bytes.
\<close>

theorem session_served:
  assumes w: "world_ok w" "resolution_jobs (w_sel w) = []" "registering w"
    and srv: "sel_table (w_sel w) srv = Some (reading srv H_Passive)"
    and below: "metrics (data (w_cfg w)) = Some m" "uint (current_connections m) < uint (max_conn (data (w_cfg w)))"
    and size: "513 \<le> unat (buffer_size (data (w_cfg w)))"
    and fds: "0 < fd" "\<not> invalid_fd fd" "interest_of (w_sel w) fd = None" "0 < fo" "\<not> invalid_fd fo"
      "interest_of (w_sel w) fo = None" "fd \<noteq> fo"
    and greeting: "set ms \<subseteq> {0, 1, 2}" "unat n = length ms" "n \<noteq> 255" "2 \<in> set ms"
    and login: "auth_field_ok u" "auth_field_ok pw" "0 \<notin> set u" "0 \<notin> set pw"
      "table_inv (user_map (w_cfg w))" "users (user_map (w_cfg w)) u = Some pw"
    and request: "addr_wf a" "hi \<noteq> 255" "lo \<noteq> 255"
    and kernel: "kernel_plan fd (Sock_In i pt) [5 # n # ms, encode_auth u pw, encode_request 1 a hi lo] ai fo (w_os w)"
  shows "\<exists>w' c. serve ([Selected (PS_Ready {nat srv} {}), Selected (PS_Ready {nat fd} {}), Selected (PS_Ready {nat fd} {}),
        Selected (PS_Ready {nat fd} {})] @ lookup_turns (length (w_heap w)) a @ [Selected (PS_Ready {} {nat fo})]) w =
      Inr (SELECTOR_SUCCESS, w') \<and> world_ok w' \<and> relay_ok (length (w_heap w)) fd fo c w' \<and>
    pending (c_in c) = [] \<and> pending (c_out c) = [] \<and> interest_of (w_sel w') fd = Some OP_READ \<and>
    os_trace (w_os w') = os_trace (w_os w) @
      [Ev_Accept srv, Ev_Recv fd (5 # n # ms), Ev_Send fd [5, 2], Ev_Recv fd (encode_auth u pw), Ev_Send fd [1, 0],
       Ev_Recv fd (encode_request 1 a hi lo), target_lookup (os_ntop6 (w_os w)) a (256 * unat hi + unat lo),
       Ev_Socket (ai_family ai), Ev_Connect fo ai, Ev_Send fd (success_bytes (w_os w) fo)] \<and>
    last (accesses w') = make_entry u (dotted i) (htons pt) (address_text (os_ntop6 (w_os w)) a)
      (word_of_nat (256 * unat hi + unat lo)) 0 (os_clock (w_os w))"
  by (rule session_turns [OF assms])

text \<open>
  C4: the type invariant of the running server.  Every turn of the selector, with whatever descriptors are ready,
  that returns, leaves a world in which each connection's buffers, parsers and machine are well formed, the
  table of the selector and the configuration are consistent, and the connections and
  sessions on the heap are exactly those registered, for their own descriptors.
\<close>

theorem turns_keep_types:
  assumes "world_ok w" "serve turns w = Inr (st, w')"
  shows "world_ok w' \<and> (\<forall>fd e p. sel_table (w_sel w') fd = Some e \<longrightarrow> it_handler e = Some H_Socks5 \<longrightarrow> it_data e = Some p \<longrightarrow>
    (\<exists>c. conn_get p w' = Inr c \<and> conn_typed c \<and> c_client_fd c = fd))"
proof -
  from serve_ok [OF assms] have ok: "world_ok w'" .
  have "\<exists>c. conn_get p w' = Inr c \<and> conn_typed c \<and> c_client_fd c = fd"
    if h: "sel_table (w_sel w') fd = Some e" "it_handler e = Some H_Socks5" "it_data e = Some p" for fd e p
  proof -
    have "held (w_sel w') fd H_Socks5 (Some p)" using h by (simp add: held_def)
    from world_okD(6) [OF ok this] obtain c where c: "conn_get p w' = Inr c" "c_client_fd c = fd" by blast
    with world_okD(5) [OF ok c(1)] show ?thesis by blast
  qed
  with ok show ?thesis by blast
qed

section \<open>At concrete inputs\<close>

text \<open>
  A server that listens on descriptor 3, knows one user, and has no client; the kernel has a client for it, whose
  messages are a greeting, a login and a request, and an origin.
\<close>

definition sample_messages :: "byte list list" where
  "sample_messages = [[5, 1, 2], encode_auth [98] [112], encode_request 1 (Addr_IPv4 [10, 0, 0, 2]) 0 80]"

definition sample_listening :: "sel \<Rightarrow> hashmap \<Rightarrow> world" where
  "sample_listening s u = (let w = sample_world s sample_conn u (map Recv sample_messages) [Sent 2, Sent 2, Sent 22]
     in w\<lparr>w_heap := [], w_os := (w_os w)\<lparr>os_accept := [Accepted 5 (Sock_In [127, 0, 0, 1] 0x901F)],
          os_resolve := [Some [Sock_In [10, 0, 0, 2] 0x5000]], os_socket := [6], os_connect := [EINPROGRESS],
          os_sockopt := [(True, 0)], os_sockname := (\<lambda>fd. Sock_In [10, 0, 0, 1] 0x5000)\<rparr>\<rparr>)"

lemma sample_listening_sel [simp]:
  "w_sel (sample_listening s u) = s" "w_heap (sample_listening s u) = []" "w_admin (sample_listening s u) = []"
  "w_cfg (sample_listening s u) = w_cfg (sample_world s sample_conn u [] [])" "user_map (w_cfg (sample_listening s u)) = u"
  "metrics (data (w_cfg (sample_listening s u))) = Some metrics_init"
  "buffer_size (data (w_cfg (sample_listening s u))) = 4096" "max_conn (data (w_cfg (sample_listening s u))) = 500"
  "length (os_junk (w_os (sample_listening s u))) = 256"
  by (simp_all add: sample_listening_def sample_world_def Let_def)

lemma sample_plan:
  "kernel_plan 5 (Sock_In [127, 0, 0, 1] 0x901F) sample_messages (Sock_In [10, 0, 0, 2] 0x5000) 6 (w_os (sample_listening s u))"
proof -
  have "Recv x \<in> set (map Recv sample_messages) \<Longrightarrow> x \<noteq> []" for x
    by (auto simp: sample_messages_def encode_auth_def encode_request_def)
  then have "calm (w_os (sample_listening s u))"
    by (auto simp: calm_def sample_listening_def sample_world_def Let_def)
  then show ?thesis by (simp add: kernel_plan_def sample_listening_def sample_world_def Let_def)
qed

lemma sample_server:
  assumes s: "sel_inv s" "sel_table s = [3 \<mapsto> reading 3 H_Passive]"
  shows "world_ok (sample_listening s u)"
proof (rule world_okI)
  show "config_inv (w_cfg (sample_listening s u))"
    using init_logged [of "replicate REGISTER_MAX_ENTRIES (make_entry [] [] 0 [] 0 0 0)"]
    by (simp add: sample_world_def config_inv_def fresh_parsed_def settings_ok_def)
  show "\<not> invalid_fd fd" if "sel_table (w_sel (sample_listening s u)) fd = Some e" for fd e
    using that s(2) by (simp add: invalid_fd_def ITEMS_MAX_SIZE_def split: if_splits)
qed (use s in \<open>simp_all add: conn_get_def admin_get_def held_def reading_def split: if_splits\<close>)

lemma sample_listener: "\<exists>s :: sel. sel_inv s \<and> sel_table s = [3 \<mapsto> reading 3 H_Passive] \<and> resolution_jobs s = []"
proof -
  obtain s0 :: sel where s0: "sel_inv s0" "sel_table s0 = Map.empty" using selector_new_ok by blast
  have "\<not> invalid_fd 3" by (simp add: invalid_fd_def ITEMS_MAX_SIZE_def)
  from register_free(2,3) [OF s0(1) this, where h = H_Passive and d = None and interest = OP_READ] s0(2)
  obtain s :: sel where s: "sel_inv s" "sel_table s = [3 \<mapsto> reading 3 H_Passive]" by (auto simp: reading_def)
  have "sel_table (s\<lparr>resolution_jobs := []\<rparr>) = sel_table s" by (simp add: sel_table_def used_at_def fun_eq_iff)
  with s show ?thesis by (intro exI [of _ "s\<lparr>resolution_jobs := []\<rparr>"]) simp
qed

theorem session_served_witness:
  "\<exists>w w' c. world_ok w \<and> w_heap w = [] \<and> os_recv (w_os w) = map Recv sample_messages \<and>
     serve [Selected (PS_Ready {3} {}), Selected (PS_Ready {5} {}), Selected (PS_Ready {5} {}), Selected (PS_Ready {5} {}), Selected (PS_Ready {} {6})] w = Inr (SELECTOR_SUCCESS, w') \<and>
     relay_ok 0 5 6 c w' \<and> Ev_Resolve (dotted [10, 0, 0, 2]) (decimal 80) AF_INET AI_NUMERICHOST \<in> set (os_trace (w_os w')) \<and>
     Ev_Connect 6 (Sock_In [10, 0, 0, 2] 0x5000) \<in> set (os_trace (w_os w'))"
proof -
  obtain s where s: "sel_inv s" "sel_table s = [3 \<mapsto> reading 3 H_Passive]" "resolution_jobs s = []" using sample_listener by blast
  obtain u where u: "table_inv u" "users u = [[98] \<mapsto> [112]]" using sample_users by blast
  let ?w = "sample_listening s u"
  have reg: "registering ?w"
    using init_logged [of "replicate REGISTER_MAX_ENTRIES (make_entry [] [] 0 [] 0 0 0)"] by (simp add: registering_def sample_world_def)
  have i: "interest_of (w_sel ?w) 5 = None" "interest_of (w_sel ?w) 6 = None" using s(2) by (simp_all add: interest_of_def)
  have "auth_field_ok [98]" "auth_field_ok [112]" by (simp_all add: auth_field_ok_def)
  moreover have "kernel_plan 5 (Sock_In [127, 0, 0, 1] 0x901F)
      [5 # 1 # [2], encode_auth [98] [112], encode_request 1 (Addr_IPv4 [10, 0, 0, 2]) 0 80] (Sock_In [10, 0, 0, 2] 0x5000) 6 (w_os ?w)"
    using sample_plan unfolding sample_messages_def .
  ultimately obtain w' c where "serve [Selected (PS_Ready {3} {}), Selected (PS_Ready {5} {}), Selected (PS_Ready {5} {}), Selected (PS_Ready {5} {}), Selected (PS_Ready {} {6})] ?w =
      Inr (SELECTOR_SUCCESS, w')" "relay_ok 0 5 6 c w'"
      "Ev_Resolve (dotted [10, 0, 0, 2]) (decimal 80) AF_INET AI_NUMERICHOST \<in> set (os_trace (w_os w'))"
      "Ev_Connect 6 (Sock_In [10, 0, 0, 2] 0x5000) \<in> set (os_trace (w_os w'))"
    using session_served [OF sample_server [OF s(1,2)] _ reg, of 3 metrics_init 5 6 "[2]" 1 "[98]" "[112]" "Addr_IPv4 [10, 0, 0, 2]" 0 80
        "[127, 0, 0, 1]" "0x901F" "Sock_In [10, 0, 0, 2] 0x5000"] s u i sample_valid
    by (auto simp: metrics_init_def lookup_turns_def simp del: serve.simps)
  moreover have "os_recv (w_os ?w) = map Recv sample_messages" by (simp add: sample_listening_def sample_world_def Let_def)
  ultimately show ?thesis
    using sample_server [OF s(1,2)] by - (rule exI [of _ ?w], rule exI [of _ w'], rule exI [of _ c], simp del: serve.simps)
qed

theorem turns_keep_types_witness:
  "\<exists>w w' e. world_ok w \<and> w_heap w = [] \<and> serve [Selected (PS_Ready {3} {})] w = Inr (SELECTOR_SUCCESS, w') \<and> world_ok w' \<and>
     sel_table (w_sel w') 5 = Some e \<and> it_handler e = Some H_Socks5 \<and> (\<exists>c. conn_get 0 w' = Inr c \<and> conn_typed c \<and> c_client_fd c = 5)"
proof -
  obtain s where s: "sel_inv s" "sel_table s = [3 \<mapsto> reading 3 H_Passive]" "resolution_jobs s = []" using sample_listener by blast
  let ?w = "sample_listening s auth_init"
  note ok = sample_server [OF s(1,2), of auth_init]
  have "accepting 5 ?w" using s(1,2) sample_valid sample_plan [of s auth_init]
    by (auto simp: accepting_def interest_of_def kernel_plan_def)
  moreover have "os_accept (w_os ?w) = Accepted 5 (Sock_In [127, 0, 0, 1] 0x901F) # []"
    by (simp add: sample_listening_def sample_world_def Let_def)
  ultimately obtain c v where v: "proxy_select (PS_Ready {3} {}) ?w = Inr (SELECTOR_SUCCESS, v)" "listened 5 v" "accepted (client 5 0) 0 c v"
    using accept_turn [OF ok, of 3 5 "[127, 0, 0, 1]" "0x901F" "[]" metrics_init] s by (auto simp: metrics_init_def)
  then have run: "serve [Selected (PS_Ready {3} {})] ?w = Inr (SELECTOR_SUCCESS, v)" by simp
  obtain e where e: "sel_table (w_sel v) 5 = Some e" "it_handler e = Some H_Socks5" "it_data e = Some 0"
    using table_of [of "w_sel v" 5 H_Socks5 0] accepted_live(12) [OF v(3)] v(2) by (auto simp: listened_def)
  from turns_keep_types [OF ok run] e have "world_ok v" "\<exists>c. conn_get 0 v = Inr c \<and> conn_typed c \<and> c_client_fd c = 5" by blast+
  with ok run e show ?thesis by - (rule exI [of _ ?w], rule exI [of _ v], rule exI [of _ e], simp del: serve.simps)
qed

end
