(* ===== verification/Counting.thy ===== *)
theory Counting
  imports Session
begin

text \<open>
  The counter of the metrics is the number of the connections that are allocated, and with it the limit the
  administrator sets holds: a second invariant of the server, over the first.
\<close>

section \<open>The invariant\<close>

definition live_conns :: "world \<Rightarrow> nat set" where
  "live_conns w = {p. \<exists>c. conn_get p w = Inr c}"

text \<open>As long as no allocation fails.\<close>

definition counted :: "world \<Rightarrow> bool" where
  "counted w \<longleftrightarrow> world_ok w \<and> os_alloc (w_os w) = [] \<and>
     (\<exists>m. metrics (data (w_cfg w)) = Some m \<and> uint (current_connections m) = int (card (live_conns w)))"

lemma finite_live [simp]: "finite (live_conns w)"
  by (rule finite_subset [of _ "{..<length (w_heap w)}"]) (auto simp: live_conns_def conn_get_Inr)

lemma live_heap: "w_heap w' = w_heap w \<Longrightarrow> live_conns w' = live_conns w"
  by (simp add: live_conns_def conn_get_def)

lemma live_put: "conn_get p w = Inr c \<Longrightarrow> w_heap w' = (w_heap w)[p := Some c'] \<Longrightarrow> live_conns w' = live_conns w"
  using conn_get_put_at [of p w c w' c'] by (auto simp: live_conns_def)

lemma live_freed: "conn_get p w = Inr c \<Longrightarrow> w_heap w' = (w_heap w)[p := None] \<Longrightarrow> live_conns w' = live_conns w - {p}"
  using conn_get_freed [of p w c w'] by (auto simp: live_conns_def)

lemma live_hole: "w_heap w' = w_heap w @ [None] \<Longrightarrow> live_conns w' = live_conns w"
  using conn_get_snoc [of w' w None] by (auto simp: live_conns_def conn_get_def split: if_splits)

lemma live_new: "w_heap w' = w_heap w @ [Some c] \<Longrightarrow> live_conns w' = insert (length (w_heap w)) (live_conns w)"
  using conn_get_snoc [of w' w "Some c"] by (auto simp: live_conns_def split: if_splits)

lemma next_not_live: "length (w_heap w) \<notin> live_conns w"
  by (simp add: live_conns_def conn_get_Inr)

lemma countedD:
  assumes "counted w"
  shows "world_ok w" "os_alloc (w_os w) = []"
    "\<exists>m. metrics (data (w_cfg w)) = Some m \<and> uint (current_connections m) = int (card (live_conns w))"
  using assms by (simp_all add: counted_def)

lemma counted_same:
  assumes "counted w" "world_ok w'" "os_alloc (w_os w') = []" "live_conns w' = live_conns w"
    "map_option current_connections (metrics (data (w_cfg w'))) = map_option current_connections (metrics (data (w_cfg w)))"
  shows "counted w'"
  using assms by (auto simp: counted_def)

section \<open>Closing and accepting\<close>

lemma dec_uint:
  assumes "0 < uint (current_connections m)"
  shows "uint (current_connections (metrics_dec_curr_conn m)) = uint (current_connections m) - 1"
proof -
  have "current_connections m > 0" using assms by (simp add: word_less_def)
  then have "current_connections (metrics_dec_curr_conn m) = current_connections m - 1" by (simp add: metrics_dec_curr_conn_def)
  moreover have "uint (current_connections m - 1) = uint (current_connections m) - 1"
    using assms uint_sub_if' [of "current_connections m" 1] by simp
  ultimately show ?thesis by simp
qed

lemma inc_uint:
  assumes "uint (current_connections m) < 2 ^ 31"
  shows "uint (current_connections (metrics_inc_total_conn (metrics_inc_curr_conn m))) = uint (current_connections m) + 1"
proof -
  have "uint (current_connections m + 1) = uint (current_connections m) + 1"
    using assms uint_plus_if' [of "current_connections m" 1] by simp
  then show ?thesis by (simp add: metrics_inc_total_conn_def metrics_inc_curr_conn_def)
qed

lemma counted_unregister:
  assumes w: "counted w" and un: "unregister_fd fd w = Inr w'"
  shows "counted w'"
proof -
  note ok = countedD(1) [OF w]
  note ok' = world_ok_unregister [OF ok un]
  from ok un show ?thesis
  proof (cases rule: unregister_world)
    case none
    with w show ?thesis by simp
  next
    case (plain s)
    then show ?thesis using countedD(2) [OF w] live_heap [of w' w] by (intro counted_same [OF w ok']) simp_all
  next
    case (conn p c m)
    from conn(1) have p: "p \<in> live_conns w" by (auto simp: live_conns_def)
    have n: "uint (current_connections m) = int (card (live_conns w))" using countedD(3) [OF w] conn(3) by auto
    moreover have "0 < card (live_conns w)" using p by (auto simp: card_gt_0_iff)
    ultimately have pos: "0 < uint (current_connections m)" by simp
    then have "uint (current_connections (metrics_dec_curr_conn m)) = uint (current_connections m) - 1" by (rule dec_uint)
    moreover have "card (live_conns w') = card (live_conns w) - 1"
      using live_freed [OF conn(1,4)] p by simp
    ultimately have "uint (current_connections (metrics_dec_curr_conn m)) = int (card (live_conns w'))" using n pos by simp
    then show ?thesis
      using ok' conn(6,7) countedD(2) [OF w] by (simp add: counted_def same_kernel_def)
  next
    case (admin p a)
    then show ?thesis using countedD(2) [OF w] live_heap [of w' w] by (intro counted_same [OF w ok']) (simp_all add: same_kernel_def)
  qed
qed

lemma equip_all:
  assumes "os_alloc (w_os v) = []" "conn_get p v = Inr c" "metrics (data (w_cfg v)) = Some m" "equip p fd v = Inr w'"
  shows "os_alloc (w_os w') = []" "live_conns w' = live_conns v"
    "metrics (data (w_cfg w')) = Some (metrics_inc_total_conn (metrics_inc_curr_conn m))"
proof -
  have p: "p < length (w_heap v)" "conn_put p c v = v" using assms(2) by (simp_all add: conn_get_Inr conn_put_self)
  have al: "sys_alloc (conn_put p d v) = (True, conn_put p d v)" for d using assms(1) sys_alloc_free [of "conn_put p d v"] by simp
  have alv: "sys_alloc v = (True, v)" using assms(1) by (rule sys_alloc_free)
  obtain d where "w' = count metrics_inc_total_conn (count metrics_inc_curr_conn (conn_put p d v))"
    using assms(2-4) p al alv
    by (auto simp: equip_def Let_def conn_get_upd metrics_upd_def count_def conn_put_def)
  then show "os_alloc (w_os w') = []" "live_conns w' = live_conns v"
    "metrics (data (w_cfg w')) = Some (metrics_inc_total_conn (metrics_inc_curr_conn m))"
    using assms(1,3) live_put [OF assms(2), of "conn_put p d v" d] live_heap [of w' "conn_put p d v"]
    by (simp_all add: count_def conn_put_def)
qed

lemma accept_counts:
  assumes w: "counted w" and run: "socksv5_passive_accept key w = Inr w'"
  shows "counted w'"
    and "card (live_conns w') = card (live_conns w) \<or>
      card (live_conns w') = Suc (card (live_conns w)) \<and> int (card (live_conns w)) < uint (max_conn (data (w_cfg w)))"
proof -
  note ok = countedD(1,2) [OF w]
  have ok': "world_ok w'" by (rule socks_accept_ok [OF ok(1) run])
  obtain m where m: "metrics (data (w_cfg w)) = Some m" "uint (current_connections m) = int (card (live_conns w))"
    using countedD(3) [OF w] by blast
  have al: "sys_alloc w = (True, w)" using ok(2) by (rule sys_alloc_free)
  have "counted w' \<and> (card (live_conns w') = card (live_conns w) \<or>
      card (live_conns w') = Suc (card (live_conns w)) \<and> int (card (live_conns w)) < uint (max_conn (data (w_cfg w))))"
  proof (cases "uint (current_connections m) \<ge> uint (max_conn (data (w_cfg w)))")
    case True
    obtain r v where v: "sys_accept (k_fd key) w = (r, v)" by (cases "sys_accept (k_fd key) w")
    have k: "only_kernel w v" using only_kernel_calls(2) [of w "k_fd key"] v by simp
    have "w' = (case r of Accept_Error \<Rightarrow> v | Accepted fd a \<Rightarrow> sys_close fd v)" using run m(1) True v by (simp add: accept_equip)
    then have "only_kernel w w'" using k only_kernel_trans [OF k only_kernel_calls(1)] by (cases r) simp_all
    from only_kernelD [OF this] ok(2) live_heap [of w' w] show ?thesis by (auto intro: counted_same [OF w ok'])
  next
    case False
    then have n: "int (card (live_conns w)) < uint (max_conn (data (w_cfg w)))" using m(2) by simp
    have "bind_res (passive_accept (store_source (length (w_heap w))) key (length (w_heap w)) H_Socks5
          (w\<lparr>w_heap := w_heap w @ [Some zero_conn]\<rparr>)) (\<lambda>(fd, w1).
          if fd = -1 then conn_free (length (w_heap w)) w1
          else bind_res (conn_upd (length (w_heap w)) (\<lambda>c. c\<lparr>c_client_fd := fd\<rparr>) w1) (equip (length (w_heap w)) fd)) = Inr w'"
      using run m(1) False al by (simp add: accept_equip)
    with ok(1) show ?thesis
    proof (cases rule: accept_made)
      case (failed u)
      with only_kernelD [OF failed(1)] ok(2) live_hole [of w' w] show ?thesis by (intro conjI disjI1 counted_same [OF w ok']) simp_all
    next
      case (made fd u s c)
      let ?v = "u\<lparr>w_sel := s, w_heap := w_heap w @ [Some c]\<rparr>" and ?p = "length (w_heap w)"
      note u = only_kernelD [OF made(1)]
      have v: "conn_get ?p ?v = Inr c" by (simp add: conn_get_def)
      have e: "os_alloc (w_os w') = []" "live_conns w' = live_conns ?v"
        "metrics (data (w_cfg w')) = Some (metrics_inc_total_conn (metrics_inc_curr_conn m))"
        using equip_all [OF _ v _ made(2), of m] u(4,7) ok(2) m(1) by simp_all
      have "live_conns ?v = insert ?p (live_conns w)" by (rule live_new) simp
      then have c: "card (live_conns w') = Suc (card (live_conns w))" using e(2) next_not_live by simp
      have "uint (max_conn (data (w_cfg w))) < 2 ^ 31" using world_okD(3) [OF ok(1)] by (simp add: config_inv_def settings_ok_def)
      then have "uint (current_connections m) < 2 ^ 31" using n m(2) by linarith
      from inc_uint [OF this] have "counted w'" using ok' e(1,3) c m(2) by (simp add: counted_def)
      with c n show ?thesis by blast
    qed
  qed
  then show "counted w'" "card (live_conns w') = card (live_conns w) \<or>
      card (live_conns w') = Suc (card (live_conns w)) \<and> int (card (live_conns w)) < uint (max_conn (data (w_cfg w)))" by blast+
qed

lemma admin_accept_frame:
  assumes w: "world_ok w" "os_alloc (w_os w) = []" and run: "s5admin_passive_accept key w = Inr w'"
  shows "w_heap w' = w_heap w \<and> w_cfg w' = w_cfg w \<and> os_alloc (w_os w') = []"
proof -
  have al: "sys_alloc w = (True, w)" using w(2) by (rule sys_alloc_free)
  let ?p = "length (w_admin w)" and ?w = "w\<lparr>w_admin := w_admin w @ [Some zero_admin]\<rparr>"
  obtain fd w1 where p: "passive_accept (admin_store_source ?p) key ?p H_Admin ?w = Inr (fd, w1)"
    using run al by (cases "passive_accept (admin_store_source ?p) key ?p H_Admin ?w") (auto simp: s5admin_passive_accept_def)
  have inv: "sel_inv (w_sel ?w)" using world_okD(1) [OF w(1)] by simp
  have w1: "w_heap w1 = w_heap w \<and> w_cfg w1 = w_cfg w \<and> os_alloc (w_os w1) = []"
    using inv p
  proof (cases rule: passive_accept_world)
    case failed
    with only_kernelD [OF failed(2)] w(2) show ?thesis by simp
  next
    case (made w2 s)
    from made(6) show ?thesis
    proof
      assume "w1 = w2\<lparr>w_sel := s\<rparr>"
      with only_kernelD [OF made(2)] w(2) show ?thesis by simp
    next
      assume "\<exists>a pt. admin_store_source ?p a pt (w2\<lparr>w_sel := s\<rparr>) = Inr w1"
      then obtain a pt where "admin_store_source ?p a pt (w2\<lparr>w_sel := s\<rparr>) = Inr w1" by blast
      then show ?thesis by (rule admin_source_world) (use only_kernelD [OF made(2)] w(2) in simp)
    qed
  qed
  show ?thesis
  proof (cases "fd < 0")
    case True
    with run al p have "admin_free ?p w1 = Inr w'" by (simp add: s5admin_passive_accept_def)
    with w1 show ?thesis by (auto simp: admin_free_def bind_res_eq_Inr)
  next
    case False
    with run al p have "\<exists>f. admin_upd ?p f w1 = Inr w'" by (auto simp: s5admin_passive_accept_def)
    with w1 show ?thesis by (auto simp: admin_upd_def bind_res_eq_Inr)
  qed
qed

section \<open>Every handler\<close>

interpretation counting: world_operations counted
proof unfold_locales
  fix w p c assume "counted w" "conn_get p w = Inr c"
  then show "conn_typed c" using countedD(1) world_okD(5) by blast
next
  fix w assume w: "counted w"
  note ok = countedD(1,2) [OF w]
  show "sel_inv (w_sel w)" "256 \<le> length (os_junk (w_os w))" by (rule world_okD [OF ok(1)])+
  show "counted (snd (sys_alloc w))" using w sys_alloc_free [OF ok(2)] by simp
  show "counted (w\<lparr>w_resolving := l\<rparr>)" for l
    using server.inv_resolving [OF ok(1), of l] ok(2) by (intro counted_same [OF w]) (simp_all add: live_conns_def conn_get_def)
  show "counted (w\<lparr>w_os := u\<rparr>)" if "os_alloc u = os_alloc (w_os w)" "os_junk u = os_junk (w_os w)" for u
    using server.inv_kernel [OF ok(1) that] ok(2) that by (intro counted_same [OF w]) (simp_all add: live_conns_def)
  show "counted (w\<lparr>w_cfg := g\<rparr>)" if "config_kept (w_cfg w) g" for g
    using server.inv_config [OF ok(1) that] ok(2) that by (intro counted_same [OF w]) (simp_all add: live_conns_def config_kept_def)
  show "counted w'" if "unregister_fd fd w = Inr w'" for fd w' by (rule counted_unregister [OF w that])
  show "counted (w\<lparr>w_sel := s\<rparr>)" if "sel_inv s" "same_owners (w_sel w) s" for s
    using server.inv_sel [OF ok(1) that] ok(2) by (intro counted_same [OF w]) (simp_all add: live_conns_def)
  show "counted (w\<lparr>w_heap := (w_heap w)[p := Some c']\<rparr>)"
    if h: "conn_get p w = Inr c" "conn_typed c'" "c_client_fd c' = c_client_fd c" for p c c'
    using server.inv_conn [OF ok(1) h] ok(2) live_put [OF h(1), of "w\<lparr>w_heap := (w_heap w)[p := Some c']\<rparr>" c']
    by (intro counted_same [OF w]) simp_all
  show "counted (w\<lparr>w_admin := (w_admin w)[p := Some a']\<rparr>)" if h: "admin_get p w = Inr a" "ac_fd a' = ac_fd a" for p a a'
    using server.inv_admin [OF ok(1) h] ok(2) by (intro counted_same [OF w]) (simp_all add: live_conns_def)
  show "\<exists>e. admin_get p w' = Inl e" if "admin_get p w = Inr a" "unregister_fd (ac_fd a) w = Inr w'" for p a w'
    by (rule server.released [OF ok(1) that])
qed

interpretation counting: world_invariant counted
proof unfold_locales
  fix w key w' assume w: "counted w"
  note ok = countedD(1,2) [OF w]
  show "counted w'" if "socksv5_passive_accept key w = Inr w'" by (rule accept_counts(1) [OF w that])
  show "counted w'" if run: "s5admin_passive_accept key w = Inr w'"
    using admin_accept_frame [OF ok run] live_heap [of w' w]
    by (intro counted_same [OF w admin_accept_ok [OF ok(1) run]]) simp_all
qed

section \<open>The limit\<close>

lemma serve_counted: "counted w \<Longrightarrow> serve ts w = Inr (st, w') \<Longrightarrow> counted w'"
  using counting.k_serve [of w ts] by (simp add: keeps_with_def)

text \<open>
  C5: the limit of connections holds.  While no allocation fails, and whatever clients, origins and administrators do, after
  any number of turns the counter of the metrics is the number of connections that are allocated; so the next client is
  accepted only below the limit that is then set, and takes the number of connections to that limit at most.
\<close>

theorem connections_limited:
  assumes "counted w" "serve turns w = Inr (st, w')"
  shows "(\<exists>m. metrics (data (w_cfg w')) = Some m \<and> uint (current_connections m) = int (card {p. \<exists>c. conn_get p w' = Inr c})) \<and>
    (\<forall>key v. socksv5_passive_accept key w' = Inr v \<longrightarrow>
      card {p. \<exists>c. conn_get p v = Inr c} = card {p. \<exists>c. conn_get p w' = Inr c} \<or>
      card {p. \<exists>c. conn_get p v = Inr c} = Suc (card {p. \<exists>c. conn_get p w' = Inr c}) \<and>
      int (card {p. \<exists>c. conn_get p v = Inr c}) \<le> uint (max_conn (data (w_cfg w'))))"
proof -
  note w' = serve_counted [OF assms]
  have "card (live_conns v) = card (live_conns w') \<or>
      card (live_conns v) = Suc (card (live_conns w')) \<and> int (card (live_conns v)) \<le> uint (max_conn (data (w_cfg w')))"
    if h: "socksv5_passive_accept key w' = Inr v" for key v
    using accept_counts(2) [OF w' h] by auto
  with countedD(3) [OF w'] show ?thesis unfolding live_conns_def by blast
qed

text \<open>The server starts with the counter right.\<close>

lemma start_counted:
  assumes "world_ok w" "w_heap w = []" "os_alloc (w_os w) = []" "metrics (data (w_cfg w)) = Some metrics_init"
  shows "counted w"
  using assms by (simp add: counted_def live_conns_def conn_get_def metrics_init_def)

theorem connections_limited_witness:
  "\<exists>w w' m. counted w \<and> w_heap w = [] \<and> serve [Selected (PS_Ready {3} {})] w = Inr (SELECTOR_SUCCESS, w') \<and> (\<exists>c. conn_get 0 w' = Inr c) \<and>
     metrics (data (w_cfg w')) = Some m \<and> uint (current_connections m) = int (card {p. \<exists>c. conn_get p w' = Inr c})"
proof -
  obtain s where s: "sel_inv s" "sel_table s = [3 \<mapsto> reading 3 H_Passive]" "resolution_jobs s = []" using sample_listener by blast
  let ?w = "sample_listening s auth_init"
  note ok = sample_server [OF s(1,2), of auth_init]
  have os: "os_alloc (w_os ?w) = []" "os_nonblock (w_os ?w) = []" "os_accept (w_os ?w) = Accepted 5 (Sock_In [127, 0, 0, 1] 0x901F) # []"
    by (simp_all add: sample_listening_def sample_world_def Let_def)
  have c: "counted ?w" by (rule start_counted [OF ok _ os(1)]) simp_all
  have "accepting 5 ?w" using s(1,2) os(1,2) sample_valid by (simp add: accepting_def interest_of_def)
  then obtain d v where v: "proxy_select (PS_Ready {3} {}) ?w = Inr (SELECTOR_SUCCESS, v)" "accepted (client 5 0) 0 d v"
    using accept_turn [OF ok, of 3 5 "[127, 0, 0, 1]" "0x901F" "[]" metrics_init] s os(3) by (auto simp: metrics_init_def)
  then have run: "serve [Selected (PS_Ready {3} {})] ?w = Inr (SELECTOR_SUCCESS, v)" by simp
  have "conn_get 0 v = Inr d" using v(2) by (simp add: accepted_def connected_def)
  moreover obtain m where "metrics (data (w_cfg v)) = Some m" "uint (current_connections m) = int (card {p. \<exists>c. conn_get p v = Inr c})"
    using connections_limited [OF c run] by blast
  ultimately show ?thesis
    using c run by - (rule exI [of _ ?w], rule exI [of _ v], rule exI [of _ m], simp del: serve.simps)
qed

end
