(* ===== verification/Relay_End.thy ===== *)
theory Relay_End
  imports Relay
begin

text \<open>
  How a relay ends, \<open>states_handlers/socks5_copy.c\<close> and \<open>socks5.c\<close>: the client leaves, the origin leaves, or the
  kernel reports an error while bytes are on their way.
\<close>

section \<open>Hanging up\<close>

text \<open>A connection with both its descriptors registered, whatever the kernel will answer.\<close>

definition paired :: "nat \<Rightarrow> socks5_conn \<Rightarrow> world \<Rightarrow> bool" where
  "paired p c w \<longleftrightarrow>
     p < length (w_heap w) \<and> 0 < c_client_fd c \<and> 0 < c_origin_fd c \<and> c_client_fd c \<noteq> c_origin_fd c \<and>
     \<not> invalid_fd (c_client_fd c) \<and> \<not> invalid_fd (c_origin_fd c) \<and> owner_of (w_sel w) (c_client_fd c) = Some (H_Socks5, p) \<and>
     owner_of (w_sel w) (c_origin_fd c) = Some (H_Copy, p) \<and> sel_inv (w_sel w) \<and> metrics (data (w_cfg w)) \<noteq> None"

lemma relay_paired: "relay_up p fc fo c w \<Longrightarrow> paired p c w"
  using relay_up_facts [of p fc fo c w] by (auto simp: paired_def)

lemma paired_same [simp]:
  "paired p c (os_upd f w) = paired p c w" "paired p (c\<lparr>c_in := b\<rparr>) w = paired p c w" "paired p c (emit e w) = paired p c w"
  "paired p c (set_errno n w) = paired p c w" "paired p c (count g w) = paired p c w"
  by (simp_all add: paired_def os_upd_def emit_def set_errno_def)

lemma paired_set [simp]: "paired p c w \<Longrightarrow> paired p c (w\<lparr>w_sel := sel_set (c_origin_fd c) i (w_sel w)\<rparr>)"
  by (simp add: paired_def)

text \<open>Both registrations are gone, both descriptors closed, the connection freed.\<close>

definition hung_up :: "nat \<Rightarrow> socks5_conn \<Rightarrow> world \<Rightarrow> world" where
  "hung_up p c w = closed p c (w\<lparr>w_sel := sel_drop (c_origin_fd c) (w_sel w)\<rparr>)"

lemma hang_up:
  assumes "paired p c w"
  shows "unregister_fd (c_origin_fd c) (conn_put p c w) = Inr (conn_put p c (w\<lparr>w_sel := sel_drop (c_origin_fd c) (w_sel w)\<rparr>))"
    and "unregister_fd (c_client_fd c) (conn_put p c (w\<lparr>w_sel := sel_drop (c_origin_fd c) (w_sel w)\<rparr>)) = Inr (hung_up p c w)"
    and "k_data key = Some p \<Longrightarrow> drop_both key (conn_put p c w) = Inr (hung_up p c w)"
proof -
  note a = assms [unfolded paired_def]
  have s: "sel_inv (w_sel w)" "\<not> invalid_fd (c_origin_fd c)" "owner_of (w_sel w) (c_origin_fd c) = Some (H_Copy, p)" using a by simp_all
  note d = sel_drop_tables [OF s]
  show o: "unregister_fd (c_origin_fd c) (conn_put p c w) = Inr (conn_put p c (w\<lparr>w_sel := sel_drop (c_origin_fd c) (w_sel w)\<rparr>))"
    using unregister_origin [of "conn_put p c w" "c_origin_fd c" H_Copy p] s by simp
  show cl: "unregister_fd (c_client_fd c) (conn_put p c (w\<lparr>w_sel := sel_drop (c_origin_fd c) (w_sel w)\<rparr>)) = Inr (hung_up p c w)"
    unfolding hung_up_def by (rule unregister_client) (use a d in simp_all)
  show "drop_both key (conn_put p c w) = Inr (hung_up p c w)" if "k_data key = Some p"
    using that a o cl by (simp add: drop_both_def live)
qed

lemma hung_up_facts:
  assumes "paired p c w"
  shows "conn_get p (hung_up p c w) = Inl Use_After_Free" "w_heap (hung_up p c w) = (w_heap w)[p := None]"
    "os_trace (w_os (hung_up p c w)) = os_trace (w_os w) @ [Ev_Close (c_client_fd c), Ev_Close (c_origin_fd c)]"
    "interest_of (w_sel (hung_up p c w)) = (interest_of (w_sel w))(c_origin_fd c := None, c_client_fd c := None)"
    "sel_inv (w_sel (hung_up p c w))" "agenda (w_sel (hung_up p c w)) = agenda (w_sel w)"
    "metrics (data (w_cfg (hung_up p c w))) = map_option metrics_dec_curr_conn (metrics (data (w_cfg w)))"
proof -
  note a = assms [unfolded paired_def]
  have s: "sel_inv (w_sel w)" "\<not> invalid_fd (c_origin_fd c)" "owner_of (w_sel w) (c_origin_fd c) = Some (H_Copy, p)" using a by simp_all
  note d = sel_drop_tables [OF s]
  have s': "sel_inv (sel_drop (c_origin_fd c) (w_sel w))" "\<not> invalid_fd (c_client_fd c)"
    "owner_of (sel_drop (c_origin_fd c) (w_sel w)) (c_client_fd c) = Some (H_Socks5, p)" using a d by simp_all
  note d' = sel_drop_tables [OF s']
  have sel: "w_sel (hung_up p c w) = sel_drop (c_client_fd c) (sel_drop (c_origin_fd c) (w_sel w))"
    by (simp add: hung_up_def closed_def Let_def sys_close_def emit_def)
  show "interest_of (w_sel (hung_up p c w)) = (interest_of (w_sel w))(c_origin_fd c := None, c_client_fd c := None)"
    "sel_inv (w_sel (hung_up p c w))" "agenda (w_sel (hung_up p c w)) = agenda (w_sel w)"
    using d(1) d' unfolding sel by simp_all
  show "conn_get p (hung_up p c w) = Inl Use_After_Free" using a unfolding hung_up_def by (intro conn_get_closed) simp
  show "w_heap (hung_up p c w) = (w_heap w)[p := None]"
    "os_trace (w_os (hung_up p c w)) = os_trace (w_os w) @ [Ev_Close (c_client_fd c), Ev_Close (c_origin_fd c)]"
    "metrics (data (w_cfg (hung_up p c w))) = map_option metrics_dec_curr_conn (metrics (data (w_cfg w)))"
    using a by (simp_all add: hung_up_def closed_def Let_def sys_close_def emit_def)
qed

section \<open>The client leaves\<close>

text \<open>The kernel has nothing more to deliver: what it answers next is the end of the stream.\<close>

lemma recv_end: "os_recv (w_os w) = Recv_Closed # rs \<Longrightarrow> sys_recv fd n w = (Recv_Closed, os_upd (\<lambda>s. s\<lparr>os_recv := rs\<rparr>) w)"
  by (simp add: sys_recv_def pop_def)

lemma client_end:
  assumes up: "relay_up p fc fo c w" and room: "0 < room (c_in c)" and k: "os_recv (w_os w) = Recv_Closed # rs"
    and key: "k_fd key = fc" "k_data key = Some p"
  shows "socksv5_read key w = Inr (hung_up p c (os_upd (\<lambda>s. s\<lparr>os_recv := rs\<rparr>) w))"
proof -
  note r = relay_up_facts [OF up]
  let ?v = "os_upd (\<lambda>s. s\<lparr>os_recv := rs\<rparr>) w"
  have inv: "buffer_inv (c_in c)" using r(7) by (simp add: tidy_def)
  have kc: "key_conn key w = Inr (p, c)" using key(2) r(5) by (simp add: key_conn_def)
  have v: "conn_put p c ?v = ?v" using r(5) by (intro conn_put_self) (simp add: conn_get_def os_upd_def split: if_splits)
  show ?thesis
    using hang_up(3) [OF paired_same(1) [THEN iffD2, OF relay_paired [OF up]] key(2), of "\<lambda>s. s\<lparr>os_recv := rs\<rparr>"] inv room
    by (simp add: socksv5_read_def kc can_write_room buffer_write_ptr_def buffer_inv_def recv_end [OF k] v)
qed

section \<open>The origin leaves\<close>

lemma origin_end:
  assumes up: "relay_up p fc fo c w" and room: "0 < room (c_out c)" and k: "os_recv (w_os w) = Recv_Closed # rs"
  shows "copy_read_handler \<lparr>k_fd = fo, k_data = Some p\<rparr> w =
    Inr ((os_upd (\<lambda>s. s\<lparr>os_recv := rs\<rparr>) w)\<lparr>w_sel := sel_drop fo (w_sel w)\<rparr>)"
proof -
  note r = relay_up_facts [OF up]
  let ?v = "os_upd (\<lambda>s. s\<lparr>os_recv := rs\<rparr>) w" and ?key = "\<lparr>k_fd = fo, k_data = Some p\<rparr> :: key"
  have inv: "buffer_inv (c_out c)" using r(8) by (simp add: tidy_def)
  have kc: "key_conn ?key w = Inr (p, c)" using r(5) by (simp add: key_conn_def)
  have "unregister_fd fo ?v = Inr (?v\<lparr>w_sel := sel_drop fo (w_sel w)\<rparr>)"
    using unregister_origin [of ?v fo H_Copy p] r(3,16,18) by simp
  then show ?thesis
    using inv room r(10)
    by (simp add: copy_read_handler_def kc can_write_room buffer_write_ptr_def buffer_inv_def recv_end [OF k])
qed

text \<open>
  The origin is no longer registered, but its descriptor is open and the connection still names it: what the client
  sends next is refused by the selector, which ends the connection.
\<close>

definition deaf :: "nat \<Rightarrow> socks5_conn \<Rightarrow> world \<Rightarrow> bool" where
  "deaf p c w \<longleftrightarrow>
     p < length (w_heap w) \<and> 0 < c_client_fd c \<and> 0 < c_origin_fd c \<and> c_client_fd c \<noteq> c_origin_fd c \<and>
     \<not> invalid_fd (c_client_fd c) \<and> owner_of (w_sel w) (c_client_fd c) = Some (H_Socks5, p) \<and>
     interest_of (w_sel w) (c_origin_fd c) = None \<and> sel_inv (w_sel w) \<and> metrics (data (w_cfg w)) \<noteq> None"

lemma deaf_closes:
  assumes "deaf p c w" "k_data key = Some p"
  shows "close_both key (conn_put p c w) = Inr (closed p c w)"
proof -
  note a = assms(1) [unfolded deaf_def]
  have "unregister_fd (c_origin_fd c) (conn_put p c w) = Inr (conn_put p c w)"
    using unregister_none [of "conn_put p c w" "c_origin_fd c"] a by simp
  moreover have "unregister_fd (c_client_fd c) (conn_put p c w) = Inr (closed p c w)"
    by (rule unregister_client) (use a in simp_all)
  ultimately show ?thesis using a assms(2) by (simp add: close_both_def live)
qed

lemma deaf_read:
  assumes d: "deaf p c w" and key: "k_data key = Some p" and st: "c_stm c = Some (machine 4)"
  shows "run_read key (conn_put p c w) = Inr (6, closed p (c\<lparr>c_stm := Some (machine 6)\<rparr>) w)"
proof -
  note a = d [unfolded deaf_def]
  let ?c = "c\<lparr>c_stm := Some (machine 6)\<rparr>"
  have same: "sel_set (c_origin_fd c) OP_WRITE (w_sel w) = w_sel w"
    using a set_interest_free [of "w_sel w" "c_origin_fd c" OP_WRITE] by (simp add: sel_set_def interest_of_def)
  have "copy_read key (conn_put p c w) = Inr (6, conn_put p c w)"
    using a key same by (simp add: copy_read_def live)
  moreover have "jump socks5_states (stm_get key) (stm_put key) 6 key (conn_put p c w) = Inr (closed p ?c w)"
  proof -
    have "unregister_fd (c_origin_fd c) (conn_put p c w) = Inr (conn_put p c w)"
      using unregister_none [of "conn_put p c w" "c_origin_fd c"] a by simp
    moreover have "deaf p ?c w" using d by (simp add: deaf_def)
    from deaf_closes [OF this key] have "close_both key (conn_put p ?c w) = Inr (closed p ?c w)" .
    ultimately show ?thesis
      using a key st by (simp add: engine_defs socks5_states_def live copy_on_departure_def handle_error_def)
  qed
  ultimately show ?thesis using run_read_state [OF key _ st, of w copy_read] a by (simp add: read_handlers)
qed

section \<open>An error on the way to the origin\<close>

lemma write_error:
  assumes pr: "paired p c w" and key: "k_data key = Some p" and bytes: "buffer_inv (c_in c)" "pending (c_in c) \<noteq> []"
    and k: "os_send (w_os w) = Send_Error e # q" "e \<noteq> EAGAIN"
  shows "copy_write_handler key (conn_put p c w) = Inr (hung_up p c (set_errno e (os_upd (\<lambda>s. s\<lparr>os_send := q\<rparr>) w)))"
proof -
  let ?v = "set_errno e (os_upd (\<lambda>s. s\<lparr>os_send := q\<rparr>) w)"
  have s: "sys_send fd bs w = (Send_Error e, ?v)" for fd bs using k by (simp add: sys_send_def pop_def)
  have v: "paired p c ?v" using pr by simp
  have h: "p < length (w_heap w)" using pr by (simp add: paired_def)
  show ?thesis
    using key h s k(2) bytes can_read_pending [OF bytes(1)] hang_up(1,2) [OF v] v [unfolded paired_def]
    by (simp add: copy_write_handler_def live buffer_read_ptr_def buffer_inv_def)
qed

lemma relay_read_error:
  assumes pr: "paired p c w" and key: "k_data key = Some p" and bytes: "buffer_inv (c_in c)" "pending (c_in c) \<noteq> []"
    and k: "os_send (w_os w) = Send_Error e # q" "e \<noteq> EAGAIN" and st: "c_stm c = Some (machine 4)"
  shows "run_read key (conn_put p c w) = Inl Use_After_Free"
proof -
  note a = pr [unfolded paired_def]
  let ?w = "w\<lparr>w_sel := sel_set (c_origin_fd c) OP_WRITE (w_sel w)\<rparr>"
  let ?v = "hung_up p c (set_errno e (os_upd (\<lambda>s. s\<lparr>os_send := q\<rparr>) ?w))"
  have pw: "paired p c ?w" using pr by simp
  have "copy_write_handler key (conn_put p c ?w) = Inr ?v"
    using write_error [OF pw key bytes _ k(2), of q] k(1) by simp
  moreover have "interest_of (w_sel w) (c_origin_fd c) \<noteq> None" using a owner_interest by fastforce
  ultimately have r: "copy_read key (conn_put p c w) = Inr (4, ?v)" using a key by (simp add: copy_read_def live)
  have "paired p c (set_errno e (os_upd (\<lambda>s. s\<lparr>os_send := q\<rparr>) ?w))" using pw by simp
  then have "conn_get p ?v = Inl Use_After_Free" by (rule hung_up_facts(1))
  then have "jump socks5_states (stm_get key) (stm_put key) 4 key ?v = Inl Use_After_Free"
    using key by (simp add: jump_def stm_get_def key_conn_def)
  with r show ?thesis using run_read_state [OF key _ st, of w copy_read] a by (simp add: read_handlers)
qed

end
