(* ===== verification/Relay_Turns.thy ===== *)
theory Relay_Turns
  imports Session Relay_End
begin

text \<open>
  The relay under the main loop: turns in which the two descriptors are ready are the steps of \<open>Relay\<close>, or
  nothing where nobody is interested; so what holds of the steps holds of the program, and the bytes that are held
  are delivered, while the kernel reports no error and no end of a stream.  A turn with the end of a stream, or with an error, ends the relay as \<open>Relay_End\<close> says.
\<close>

section \<open>Turns that are steps\<close>

fun relay_turn :: "int \<Rightarrow> int \<Rightarrow> relay_event \<Rightarrow> turn" where
  "relay_turn fc fo Client_Readable = Selected (PS_Ready {nat fc} {})"
| "relay_turn fc fo Client_Writable = Selected (PS_Ready {} {nat fc})"
| "relay_turn fc fo Origin_Readable = Selected (PS_Ready {nat fo} {})"
| "relay_turn fc fo Origin_Writable = Selected (PS_Ready {} {nat fo})"

fun relay_woken :: "int \<Rightarrow> int \<Rightarrow> relay_event \<Rightarrow> world \<Rightarrow> world" where
  "relay_woken fc fo Client_Readable w = woken {nat fc} {} w"
| "relay_woken fc fo Client_Writable w = woken {} {nat fc} w"
| "relay_woken fc fo Origin_Readable w = woken {nat fo} {} w"
| "relay_woken fc fo Origin_Writable w = woken {} {nat fo} w"

text \<open>What the main loop needs besides the relay itself.\<close>

definition quiet :: "world \<Rightarrow> bool" where
  "quiet w \<longleftrightarrow> world_ok w \<and> resolution_jobs (w_sel w) = []"

lemma woken_relay [simp]:
  "relay_up p fc fo c (woken a b w) = relay_up p fc fo c w" "relay_ok p fc fo c (woken a b w) = relay_ok p fc fo c w"
  by (simp_all add: relay_ok_def relay_up_def relaying_def wakeful_def)

lemma relay_woken_sel [simp]:
  "relay_up p fc fo c (relay_woken a b ev w) = relay_up p fc fo c w" "relay_ok p fc fo c (relay_woken a b ev w) = relay_ok p fc fo c w"
  "w_os (relay_woken a b ev w) = w_os w" "interest_of (w_sel (relay_woken a b ev w)) = interest_of (w_sel w)"
  "relay_enabled x y (w_sel (relay_woken a b ev w)) e = relay_enabled x y (w_sel w) e"
  by (cases ev; cases e; simp)+

lemma ready_masked:
  assumes inv: "sel_inv s" and not: "\<And>i. interest_of s fd = Some i \<Longrightarrow> \<not> wants i x" and fd: "0 \<le> fd"
  shows "x = OP_READ \<Longrightarrow> {nat fd} \<inter> master_r s = {}" "x = OP_WRITE \<Longrightarrow> {nat fd} \<inter> master_w s = {}"
proof -
  have "\<not> wants (it_interest (fds s ! nat fd)) x" if "used_at s (nat fd)"
  proof -
    from that fd have "interest_of s fd = Some (it_interest (fds s ! nat fd))" by (simp add: interest_of_def sel_table_def)
    with not show ?thesis by blast
  qed
  then show "x = OP_READ \<Longrightarrow> {nat fd} \<inter> master_r s = {}" "x = OP_WRITE \<Longrightarrow> {nat fd} \<inter> master_w s = {}"
    using inv by (auto simp: sel_inv_def)
qed

lemma relay_turn_idle:
  assumes up: "relay_up p fc fo c w" and q: "quiet w" and off: "\<not> relay_enabled fc fo (w_sel w) ev"
  shows "serve [relay_turn fc fo ev] w = Inr (SELECTOR_SUCCESS, woken {} {} w)"
proof -
  note r = relay_up_facts [OF up]
  have ok: "all_valid (w_sel w)" using q by (simp add: quiet_def all_valid_ok)
  have fin: "finish_turn (woken {} {} w) = Inr (SELECTOR_SUCCESS, woken {} {} w)" using q by (simp add: finish_none quiet_def)
  show ?thesis
    using off ready_masked [OF r(3)] r(11,12) fin
    by (cases ev) (auto simp: idle_turn [OF r(3) ok])
qed

lemma relay_turn_step:
  assumes up: "relay_up p fc fo c w" and q: "quiet w" and on: "relay_enabled fc fo (w_sel w) ev"
    and run: "relay_handler p fc fo ev (relay_woken fc fo ev w) = Inr v"
    and v: "sel_inv (w_sel v)" "agenda (w_sel v) = agenda (w_sel (relay_woken fc fo ev w))"
  shows "serve [relay_turn fc fo ev] w = Inr (SELECTOR_SUCCESS, v)"
proof -
  note r = relay_up_facts [OF up]
  have ok: "all_valid (w_sel w)" using q by (simp add: quiet_def all_valid_ok)
  have jobs: "resolution_jobs (w_sel w) = []" using q by (simp add: quiet_def)
  then have "resolution_jobs (w_sel v) = []" using v(2) by (cases ev) (simp_all add: agenda_def)
  then have fin: "finish_turn v = Inr (SELECTOR_SUCCESS, v)" by (rule finish_none)
  obtain ec where ec: "sel_table (w_sel w) fc = Some ec" "it_handler ec = Some H_Socks5" "it_data ec = Some p"
    "interest_of (w_sel w) fc = Some (it_interest ec)"
    using r(20) table_of [OF r(17)] by auto
  obtain eo where eo: "sel_table (w_sel w) fo = Some eo" "it_handler eo = Some H_Copy" "it_data eo = Some p"
    "interest_of (w_sel w) fo = Some (it_interest eo)"
    using r(21) table_of [OF r(18)] by auto
  have "\<exists>ps. relay_turn fc fo ev = Selected ps \<and> proxy_select ps w = finish_turn v"
  proof (cases ev)
    case Client_Readable
    have "proxy_select (PS_Ready {nat fc} {}) w = finish_turn v"
      by (rule turn_reads [OF r(3) ok ec(1,2), where f = "as_callback socksv5_read"])
        (use Client_Readable on run v ec jobs in \<open>simp_all add: as_callback_def\<close>)
    with Client_Readable show ?thesis by simp
  next
    case Client_Writable
    have "proxy_select (PS_Ready {} {nat fc}) w = finish_turn v"
      by (rule turn_writes [OF r(3) ok ec(1,2), where f = "as_callback socksv5_write"])
        (use Client_Writable on run v ec jobs in \<open>simp_all add: as_callback_def\<close>)
    with Client_Writable show ?thesis by simp
  next
    case Origin_Readable
    have "proxy_select (PS_Ready {nat fo} {}) w = finish_turn v"
      by (rule turn_reads [OF r(3) ok eo(1,2), where f = "as_callback copy_read_handler"])
        (use Origin_Readable on run v eo jobs in \<open>simp_all add: as_callback_def\<close>)
    with Origin_Readable show ?thesis by simp
  next
    case Origin_Writable
    have "proxy_select (PS_Ready {} {nat fo}) w = finish_turn v"
      by (rule turn_writes [OF r(3) ok eo(1,2), where f = "as_callback copy_write_handler"])
        (use Origin_Writable on run v eo jobs in \<open>simp_all add: as_callback_def\<close>)
    with Origin_Writable show ?thesis by simp
  qed
  then show ?thesis using fin by auto
qed

lemma quiet_turns: "quiet w \<Longrightarrow> serve ts w = Inr (st, v) \<Longrightarrow> resolution_jobs (w_sel v) = [] \<Longrightarrow> quiet v"
  using serve_ok [of w ts st v] by (simp add: quiet_def)

text \<open>Whichever descriptor is ready, for reading or for writing.\<close>

lemma relay_turn_ok:
  assumes ok: "relay_ok p fc fo c w" and q: "quiet w"
  shows "\<exists>c' v t. serve [relay_turn fc fo ev] w = Inr (SELECTOR_SUCCESS, v) \<and> relay_ok p fc fo c' v \<and> quiet v \<and>
    os_trace (w_os v) = os_trace (w_os w) @ t \<and> flow fc fo c c' t \<and>
    (ev \<in> {Client_Writable, Origin_Writable} \<longrightarrow> recvs fc t = [] \<and> recvs fo t = []) \<and>
    (if ev \<in> {Client_Writable, Origin_Writable} \<and> relay_enabled fc fo (w_sel w) ev then drains fc fo c c' t w v
     else ev \<in> {Client_Writable, Origin_Writable} \<longrightarrow> c' = c \<and> w_os v = w_os w \<and> interest_of (w_sel v) = interest_of (w_sel w))"
proof -
  have up: "relay_up p fc fo c w" using ok by (simp add: relay_ok_def)
  show ?thesis
  proof (cases "relay_enabled fc fo (w_sel w) ev")
    case False
    let ?v = "woken {} {} w"
    note run = relay_turn_idle [OF up q False]
    have "quiet ?v" using quiet_turns [OF q run] q by (simp add: quiet_def)
    then show ?thesis
      using ok False run by - (rule exI [of _ c], rule exI [of _ ?v], rule exI [of _ "[]"], simp add: flow_def del: serve.simps)
  next
    case True
    let ?w = "relay_woken fc fo ev w"
    obtain c' v t where v: "relay_handler p fc fo ev ?w = Inr v" "relay_ok p fc fo c' v" "os_trace (w_os v) = os_trace (w_os w) @ t"
      "flow fc fo c c' t" "agenda (w_sel v) = agenda (w_sel ?w)" "ev \<in> {Client_Writable, Origin_Writable} \<longrightarrow> drains fc fo c c' t ?w v"
      using relay_step_ok [of p fc fo c ?w ev] ok True by auto
    have run: "serve [relay_turn fc fo ev] w = Inr (SELECTOR_SUCCESS, v)"
      by (rule relay_turn_step [OF up q True v(1) _ v(5)]) (use relay_facts(3) [OF v(2)] in simp)
    have "resolution_jobs (w_sel v) = []" using v(5) q by (cases ev) (simp_all add: agenda_def quiet_def)
    from quiet_turns [OF q run this] show ?thesis
      using run v(2-4,6) True
      by - (rule exI [of _ c'], rule exI [of _ v], rule exI [of _ t], simp add: drains_def del: serve.simps)
  qed
qed

section \<open>Turns with any of the two descriptors ready\<close>

text \<open>The turns in which only the two descriptors of the relay are ready, each for reading, for writing, for both or for nothing, or
  in which the loop is interrupted.\<close>

fun own_turn :: "int \<Rightarrow> int \<Rightarrow> turn \<Rightarrow> bool" where
  "own_turn fc fo (Selected (PS_Ready r wr)) \<longleftrightarrow> r \<union> wr \<subseteq> {nat fc, nat fo}"
| "own_turn fc fo (Selected PS_Interrupted) \<longleftrightarrow> True"
| "own_turn fc fo _ \<longleftrightarrow> False"

text \<open>One relay after another with what was relayed in between, what the selector has still to look at staying as it is.\<close>

definition relayed :: "nat \<Rightarrow> int \<Rightarrow> int \<Rightarrow> socks5_conn \<Rightarrow> world \<Rightarrow> world \<Rightarrow> bool" where
  "relayed p fc fo c w v \<longleftrightarrow> (\<exists>c' t. relay_ok p fc fo c' v \<and> os_trace (w_os v) = os_trace (w_os w) @ t \<and> flow fc fo c c' t)"

lemma relayed_refl: "relay_ok p fc fo c w \<Longrightarrow> relayed p fc fo c w w"
  unfolding relayed_def by (intro exI [of _ c] exI [of _ "[]"]) (simp add: flow_def)

lemma relayed_trans:
  assumes "relay_ok p fc fo c1 v" "os_trace (w_os v) = os_trace (w_os w) @ t" "flow fc fo c c1 t" "relayed p fc fo c1 v u"
  shows "relayed p fc fo c w u"
proof -
  obtain c2 t' where "relay_ok p fc fo c2 u" "os_trace (w_os u) = os_trace (w_os v) @ t'" "flow fc fo c1 c2 t'"
    using assms(4) by (auto simp: relayed_def)
  with assms(2) flow_trans [OF assms(3)] show ?thesis
    unfolding relayed_def by - (rule exI [of _ c2], rule exI [of _ "t @ t'"], simp)
qed

text \<open>A handler is called if its descriptor is ready and its interest asks for it.\<close>

lemma relay_if_due:
  assumes ok: "relay_ok p fc fo c w"
  shows "\<exists>c' v t. (if b \<and> relay_enabled fc fo (w_sel w) ev then relay_handler p fc fo ev w else Inr w) = Inr v \<and>
    relay_ok p fc fo c' v \<and> os_trace (w_os v) = os_trace (w_os w) @ t \<and> flow fc fo c c' t \<and> agenda (w_sel v) = agenda (w_sel w)"
proof (cases "b \<and> relay_enabled fc fo (w_sel w) ev")
  case True
  with relay_step_ok [OF ok, of ev] show ?thesis by auto
next
  case False
  then have "(if b \<and> relay_enabled fc fo (w_sel w) ev then relay_handler p fc fo ev w else Inr w) = Inr w" by (rule if_not_P)
  with ok show ?thesis by - (rule exI [of _ c], rule exI [of _ w], rule exI [of _ "[]"], simp add: flow_def del: if_split)
qed

lemma relay_entry:
  assumes ok: "relay_ok p fc fo c w" and fd: "fd \<in> {fc, fo}"
  shows "\<exists>e. mem_get (fds (w_sel w)) (nat fd) = Inr e \<and> item_used e \<and> it_fd e = fd \<and> it_data e = Some p \<and>
    it_handler e = Some (if fd = fc then H_Socks5 else H_Copy) \<and> interest_of (w_sel w) fd = Some (it_interest e)"
proof -
  note r = relay_facts [OF ok]
  from fd r(13,17,18,20,21) obtain i where i: "owner_of (w_sel w) fd = Some (if fd = fc then H_Socks5 else H_Copy, p)"
    "interest_of (w_sel w) fd = Some i" by auto
  obtain e where e: "sel_table (w_sel w) fd = Some e" "it_handler e = Some (if fd = fc then H_Socks5 else H_Copy)" "it_data e = Some p"
    "it_interest e = i"
    using table_of [OF i] by blast
  with i(2) table_bounds [OF r(3) e(1)] show ?thesis by (simp add: mem_get_def)
qed

text \<open>The selector at one of the two descriptors: what is due for reading, then what is then due for writing.\<close>

lemma relay_item:
  assumes ok: "relay_ok p fc fo c w" and fd: "fd \<in> {fc, fo}"
  shows "\<exists>v. handle_item proxy_handlers w_sel (nat fd) w = Inr v \<and> relayed p fc fo c w v \<and> agenda (w_sel v) = agenda (w_sel w)"
proof -
  let ?r = "if fd = fc then Client_Readable else Origin_Readable" and ?w = "if fd = fc then Client_Writable else Origin_Writable"
  obtain e where e: "mem_get (fds (w_sel w)) (nat fd) = Inr e" "item_used e" "it_fd e = fd" "it_data e = Some p"
    "it_handler e = Some (if fd = fc then H_Socks5 else H_Copy)" "interest_of (w_sel w) fd = Some (it_interest e)"
    using relay_entry [OF ok fd] by blast
  obtain c1 v1 t where 1: "(if nat fd \<in> slave_r (w_sel w) \<and> relay_enabled fc fo (w_sel w) ?r then relay_handler p fc fo ?r w else Inr w) = Inr v1"
    "relay_ok p fc fo c1 v1" "os_trace (w_os v1) = os_trace (w_os w) @ t" "flow fc fo c c1 t" "agenda (w_sel v1) = agenda (w_sel w)"
    using relay_if_due [OF ok, of "nat fd \<in> slave_r (w_sel w)" ?r] by blast
  obtain e1 where e1: "mem_get (fds (w_sel v1)) (nat fd) = Inr e1"
    "it_handler e1 = Some (if fd = fc then H_Socks5 else H_Copy)" "interest_of (w_sel v1) fd = Some (it_interest e1)"
    using relay_entry [OF 1(2) fd] by blast
  obtain c2 v2 t' where 2: "(if nat fd \<in> slave_w (w_sel v1) \<and> relay_enabled fc fo (w_sel v1) ?w then relay_handler p fc fo ?w v1 else Inr v1) = Inr v2"
    "relay_ok p fc fo c2 v2" "os_trace (w_os v2) = os_trace (w_os v1) @ t'" "flow fc fo c1 c2 t'" "agenda (w_sel v2) = agenda (w_sel v1)"
    using relay_if_due [OF 1(2), of "nat fd \<in> slave_w (w_sel v1)" ?w] by blast
  have rd: "(if nat fd \<in> slave_r (w_sel w) \<and> wants (it_interest e) OP_READ
      then run_handler (handle_read proxy_handlers) (it_handler e) Assert_Failed fd (Some p) w else Inr w) = Inr v1"
    using 1(1) e(5,6) fd by (auto simp: run_handler_def proxy_handlers_def as_callback_def split: if_splits)
  have wr: "(if nat fd \<in> slave_w (w_sel v1) \<and> wants (it_interest e1) OP_WRITE
      then run_handler (handle_write proxy_handlers) (it_handler e1) Assert_Failed fd (Some p) v1 else Inr v1) = Inr v2"
    using 2(1) e1(2,3) fd by (auto simp: run_handler_def proxy_handlers_def as_callback_def split: if_splits)
  have "handle_item proxy_handlers w_sel (nat fd) w = Inr v2"
    using e(1-4) rd e1(1) wr by (simp add: handle_item_def Let_def)
  moreover have "relayed p fc fo c1 v1 v2" using 2(2-4) unfolding relayed_def by blast
  ultimately show ?thesis using relayed_trans [OF 1(2-4)] 1(5) 2(5) by simp
qed

lemma relay_items:
  assumes "relay_ok p fc fo c w" "slave_r (w_sel w) \<union> slave_w (w_sel w) \<subseteq> {nat fc, nat fo}" "\<forall>i \<in> set l. i < ITEMS_MAX_SIZE"
  shows "\<exists>v. iterate_items proxy_handlers w_sel l w = Inr v \<and> relayed p fc fo c w v \<and> agenda (w_sel v) = agenda (w_sel w)"
  using assms
proof (induction l arbitrary: c w)
  case Nil
  then show ?case by (simp add: relayed_refl)
next
  case (Cons i l)
  have "\<exists>v. handle_item proxy_handlers w_sel i w = Inr v \<and> relayed p fc fo c w v \<and> agenda (w_sel v) = agenda (w_sel w)"
  proof (cases "i \<in> {nat fc, nat fo}")
    case True
    with relay_item [OF Cons.prems(1)] show ?thesis by blast
  next
    case False
    note r = relay_facts [OF Cons.prems(1)]
    have "i < length (fds (w_sel w))" using Cons.prems(3) r(3) by (simp add: sel_inv_def)
    moreover have "i \<notin> slave_r (w_sel w)" "i \<notin> slave_w (w_sel w)" using False Cons.prems(2) by auto
    ultimately have "handle_item proxy_handlers w_sel i w = Inr w" by (rule item_idle [OF r(3)])
    then show ?thesis using relayed_refl [OF Cons.prems(1)] by simp
  qed
  then obtain v c1 t where 1: "handle_item proxy_handlers w_sel i w = Inr v" "relay_ok p fc fo c1 v"
    "os_trace (w_os v) = os_trace (w_os w) @ t" "flow fc fo c c1 t" "agenda (w_sel v) = agenda (w_sel w)"
    unfolding relayed_def by blast
  have "slave_r (w_sel v) \<union> slave_w (w_sel v) \<subseteq> {nat fc, nat fo}" using 1(5) Cons.prems(2) by (simp add: agenda_def)
  then obtain u where u: "iterate_items proxy_handlers w_sel l v = Inr u" "relayed p fc fo c1 v u" "agenda (w_sel u) = agenda (w_sel v)"
    using Cons.IH [OF 1(2)] Cons.prems(3) by auto
  with 1(1,5) relayed_trans [OF 1(2-4)] show ?case by simp
qed

lemma own_turn_ok:
  assumes ok: "relay_ok p fc fo c w" and q: "quiet w" and own: "own_turn fc fo tn"
  shows "\<exists>v. serve [tn] w = Inr (SELECTOR_SUCCESS, v) \<and> relayed p fc fo c w v \<and> quiet v"
proof -
  have jobs: "resolution_jobs (w_sel w) = []" using q by (simp add: quiet_def)
  from own consider (ready) r wr where "tn = Selected (PS_Ready r wr)" "r \<union> wr \<subseteq> {nat fc, nat fo}"
    | (interrupted) "tn = Selected PS_Interrupted"
  proof (cases tn)
    case (Selected ps)
    with own that show thesis by (cases ps) simp_all
  qed (use own in simp)
  then show ?thesis
  proof cases
    case ready
    let ?w = "woken (r \<inter> master_r (w_sel w)) (wr \<inter> master_w (w_sel w)) w"
    have ok': "relay_ok p fc fo c ?w" using ok by simp
    have le: "nat (max_fd (w_sel ?w) + 1) \<le> ITEMS_MAX_SIZE"
      using max_fd_valid [OF relay_facts(3) [OF ok] all_valid_ok] q by (simp add: quiet_def woken_def)
    obtain v where v: "handle_iteration proxy_handlers w_sel ?w = Inr v" "relayed p fc fo c ?w v" "agenda (w_sel v) = agenda (w_sel ?w)"
      using relay_items [OF ok', of "[0..<nat (max_fd (w_sel ?w) + 1)]"] ready(2) le
      unfolding handle_iteration_def by (auto simp: woken_def)
    have "resolution_jobs (w_sel v) = []" using v(3) jobs by (simp add: agenda_def)
    then have "serve [tn] w = Inr (SELECTOR_SUCCESS, v)" "resolution_jobs (w_sel v) = []"
      using v(1) ready(1) finish_none [of v] by (simp_all add: proxy_select_def selector_select_def woken_def Let_def)
    moreover have "relayed p fc fo c w v" using v(2) by (simp add: relayed_def)
    ultimately show ?thesis using quiet_turns [OF q] by blast
  next
    case interrupted
    let ?w = "woken (master_r (w_sel w)) (master_w (w_sel w)) w"
    have "serve [tn] w = Inr (SELECTOR_SUCCESS, ?w)" "resolution_jobs (w_sel ?w) = []"
      using interrupted jobs finish_none [of ?w] by (simp_all add: interrupted_turn)
    moreover have "relayed p fc fo c w ?w" using relayed_refl [of p fc fo c ?w] ok by (simp add: relayed_def)
    ultimately show ?thesis using quiet_turns [OF q] by blast
  qed
qed

lemma own_turns_ok:
  assumes "relay_ok p fc fo c w" "quiet w" "\<forall>tn \<in> set turns. own_turn fc fo tn"
  shows "\<exists>v. serve turns w = Inr (SELECTOR_SUCCESS, v) \<and> relayed p fc fo c w v \<and> quiet v"
  using assms
proof (induction turns arbitrary: c w)
  case Nil
  then show ?case by (simp add: relayed_refl)
next
  case (Cons tn turns)
  obtain v c1 t where 1: "serve [tn] w = Inr (SELECTOR_SUCCESS, v)" "quiet v" "relay_ok p fc fo c1 v"
    "os_trace (w_os v) = os_trace (w_os w) @ t" "flow fc fo c c1 t"
    using own_turn_ok [OF Cons.prems(1,2), of tn] Cons.prems(3) unfolding relayed_def by auto
  obtain u where u: "serve turns v = Inr (SELECTOR_SUCCESS, u)" "relayed p fc fo c1 v u" "quiet u"
    using Cons.IH [OF 1(3,2)] Cons.prems(3) by auto
  have "serve (tn # turns) w = Inr (SELECTOR_SUCCESS, u)" using serve_after [OF 1(1), of turns] u(1) by simp
  then show ?case using u(3) relayed_trans [OF 1(3-5) u(2)] by blast
qed

section \<open>Delivery\<close>

text \<open>One round: the origin can be written to, then the client.\<close>

abbreviation write_round :: "int \<Rightarrow> int \<Rightarrow> turn list" where
  "write_round fc fo \<equiv> [relay_turn fc fo Origin_Writable, relay_turn fc fo Client_Writable]"

lemma write_enabled:
  assumes "relay_ok p fc fo c w"
  shows "relay_enabled fc fo (w_sel w) Origin_Writable \<longleftrightarrow> pending (c_in c) \<noteq> []"
    and "relay_enabled fc fo (w_sel w) Client_Writable \<longleftrightarrow> pending (c_out c) \<noteq> []"
  using relay_interests(2,4) [OF assms] relay_facts(19) [OF assms] unfolding wakeful_def by blast+

lemma relay_write_ok:
  assumes ok: "relay_ok p fc fo c w" and q: "quiet w" and ev: "ev \<in> {Client_Writable, Origin_Writable}"
  shows "\<exists>c' v t. serve [relay_turn fc fo ev] w = Inr (SELECTOR_SUCCESS, v) \<and> relay_ok p fc fo c' v \<and> quiet v \<and>
    os_trace (w_os v) = os_trace (w_os w) @ t \<and> flow fc fo c c' t \<and> recvs fc t = [] \<and> recvs fo t = [] \<and>
    (if relay_enabled fc fo (w_sel w) ev then drains fc fo c c' t w v else c' = c \<and> os_send (w_os v) = os_send (w_os w))"
proof -
  obtain c' v t where a: "serve [relay_turn fc fo ev] w = Inr (SELECTOR_SUCCESS, v)" "relay_ok p fc fo c' v" "quiet v"
    "os_trace (w_os v) = os_trace (w_os w) @ t" "flow fc fo c c' t"
    "ev \<in> {Client_Writable, Origin_Writable} \<longrightarrow> recvs fc t = [] \<and> recvs fo t = []"
    "if ev \<in> {Client_Writable, Origin_Writable} \<and> relay_enabled fc fo (w_sel w) ev then drains fc fo c c' t w v
     else ev \<in> {Client_Writable, Origin_Writable} \<longrightarrow> c' = c \<and> w_os v = w_os w \<and> interest_of (w_sel v) = interest_of (w_sel w)"
    using relay_turn_ok [OF ok q, of ev] by blast
  from a(6,7) ev have "recvs fc t = []" "recvs fo t = []"
    "if relay_enabled fc fo (w_sel w) ev then drains fc fo c c' t w v else c' = c \<and> os_send (w_os v) = os_send (w_os w)"
    by (auto split: if_splits)
  with a(1-5) show ?thesis by blast
qed

lemma relay_round:
  assumes ok: "relay_ok p fc fo c w" and q: "quiet w" and k: "0 < held_bytes c \<Longrightarrow> \<exists>k. os_send (w_os w) = Sent k # rest"
  shows "\<exists>c' v t. serve (write_round fc fo) w = Inr (SELECTOR_SUCCESS, v) \<and> relay_ok p fc fo c' v \<and> quiet v \<and>
    os_trace (w_os v) = os_trace (w_os w) @ t \<and> flow fc fo c c' t \<and> recvs fc t = [] \<and> recvs fo t = [] \<and>
    (if held_bytes c = 0 then held_bytes c' = 0 else os_send (w_os v) = rest \<and> held_bytes c' < held_bytes c)"
proof -
  let ?on = "\<lambda>w ev. relay_enabled fc fo (w_sel w) ev"
  have one: "\<not> (pending (c_in c) \<noteq> [] \<and> pending (c_out c) \<noteq> [])" using relay_facts(19) [OF ok] by (auto simp: wakeful_def)
  obtain c1 w1 t where 1: "serve [relay_turn fc fo Origin_Writable] w = Inr (SELECTOR_SUCCESS, w1)" "relay_ok p fc fo c1 w1" "quiet w1"
    "os_trace (w_os w1) = os_trace (w_os w) @ t" "flow fc fo c c1 t" "recvs fc t = []" "recvs fo t = []"
    "if ?on w Origin_Writable then drains fc fo c c1 t w w1 else c1 = c \<and> os_send (w_os w1) = os_send (w_os w)"
    using relay_write_ok [OF ok q, of Origin_Writable] by blast
  obtain c2 w2 t' where 2: "serve [relay_turn fc fo Client_Writable] w1 = Inr (SELECTOR_SUCCESS, w2)" "relay_ok p fc fo c2 w2" "quiet w2"
    "os_trace (w_os w2) = os_trace (w_os w1) @ t'" "flow fc fo c1 c2 t'" "recvs fc t' = []" "recvs fo t' = []"
    "if ?on w1 Client_Writable then drains fc fo c1 c2 t' w1 w2 else c2 = c1 \<and> os_send (w_os w2) = os_send (w_os w1)"
    using relay_write_ok [OF 1(2,3), of Client_Writable] by blast
  have same: "pending (c_out c1) = []" if "pending (c_out c) = []" using 1(5,7) that by (simp add: flow_def)
  have "if held_bytes c = 0 then held_bytes c2 = 0 else os_send (w_os w2) = rest \<and> held_bytes c2 < held_bytes c"
  proof (cases "pending (c_in c) = []")
    case True
    then have "c1 = c" "os_send (w_os w1) = os_send (w_os w)" using 1(8) write_enabled(1) [OF ok] by simp_all
    with True 2(8) write_enabled(2) [OF 1(2)] k show ?thesis by (auto simp: drains_def held_bytes_def split: if_splits)
  next
    case False
    then have "pending (c_out c1) = []" using one same by blast
    then have "c2 = c1" "os_send (w_os w2) = os_send (w_os w1)" using 2(8) write_enabled(2) [OF 1(2)] by simp_all
    with False 1(8) write_enabled(1) [OF ok] k show ?thesis by (auto simp: drains_def held_bytes_def)
  qed
  moreover have "serve (write_round fc fo) w = Inr (SELECTOR_SUCCESS, w2)"
    using serve_after [OF 1(1), of "[relay_turn fc fo Client_Writable]"] 2(1) by simp
  moreover have "os_trace (w_os w2) = os_trace (w_os w) @ (t @ t')" using 1(4) 2(4) by simp
  moreover have "recvs fc (t @ t') = []" "recvs fo (t @ t') = []" using 1(6,7) 2(6,7) by simp_all
  ultimately show ?thesis using 2(2,3) flow_trans [OF 1(5) 2(5)] by blast
qed

lemma relay_rounds:
  assumes "relay_ok p fc fo c w" "quiet w" "0 < held_bytes c \<Longrightarrow> os_send (w_os w) = map Sent ks @ q" "held_bytes c \<le> length ks"
  shows "\<exists>c' v t. serve (concat (replicate (length ks) (write_round fc fo))) w = Inr (SELECTOR_SUCCESS, v) \<and>
    relay_ok p fc fo c' v \<and> quiet v \<and> held_bytes c' = 0 \<and>
    os_trace (w_os v) = os_trace (w_os w) @ t \<and> flow fc fo c c' t \<and> recvs fc t = [] \<and> recvs fo t = []"
  using assms
proof (induction ks arbitrary: c w)
  case Nil
  then show ?case by (intro exI [of _ c] exI [of _ w] exI [of _ "[]"]) (simp add: flow_def)
next
  case (Cons k ks)
  obtain c1 w1 t where 1: "serve (write_round fc fo) w = Inr (SELECTOR_SUCCESS, w1)" "relay_ok p fc fo c1 w1" "quiet w1"
    "os_trace (w_os w1) = os_trace (w_os w) @ t" "flow fc fo c c1 t" "recvs fc t = []" "recvs fo t = []"
    "if held_bytes c = 0 then held_bytes c1 = 0 else os_send (w_os w1) = map Sent ks @ q \<and> held_bytes c1 < held_bytes c"
    using relay_round [OF Cons.prems(1,2), of "map Sent ks @ q"] Cons.prems(3) by auto
  have more: "os_send (w_os w1) = map Sent ks @ q" if "0 < held_bytes c1" using 1(8) that by (auto split: if_splits)
  have len: "held_bytes c1 \<le> length ks" using 1(8) Cons.prems(4) by (auto split: if_splits)
  obtain c2 w2 t' where 2: "serve (concat (replicate (length ks) (write_round fc fo))) w1 = Inr (SELECTOR_SUCCESS, w2)"
    "relay_ok p fc fo c2 w2" "quiet w2" "held_bytes c2 = 0" "os_trace (w_os w2) = os_trace (w_os w1) @ t'" "flow fc fo c1 c2 t'"
    "recvs fc t' = []" "recvs fo t' = []"
    using Cons.IH [OF 1(2,3) more len] by blast
  have "serve (concat (replicate (length (k # ks)) (write_round fc fo))) w = Inr (SELECTOR_SUCCESS, w2)"
    using serve_after [OF 1(1), of "concat (replicate (length ks) (write_round fc fo))"] 2(1) by simp
  moreover have "os_trace (w_os w2) = os_trace (w_os w) @ (t @ t')" using 1(4) 2(5) by simp
  moreover have "recvs fc (t @ t') = []" "recvs fo (t @ t') = []" using 1(6,7) 2(7,8) by simp_all
  ultimately show ?case using 2(2-4) flow_trans [OF 1(5) 2(6)] by blast
qed

section \<open>The end\<close>

lemma client_receives:
  assumes key: "k_fd key = fc" "k_data key = Some p" "p < length (w_heap w)" "sel_inv (w_sel w)" and t: "tidy (c_in c)"
    and k: "os_recv (w_os w) = Recv bs # rs" "bs \<noteq> []" "length bs \<le> room (c_in c)"
  shows "\<exists>b. tidy b \<and> pending b = pending (c_in c) @ bs \<and> socksv5_read key (conn_put p c w) =
    bind_res (run_read key (conn_put p (c\<lparr>c_in := b\<rparr>) (received fc w))) count_error"
proof -
  obtain b where b: "buffer_recv (c_in c) bs = Inr b" "tidy b" "pending b = pending (c_in c) @ bs"
    using tidy_recv [OF t k(3,2)] by blast
  have "sys_recv fc (room (c_in c)) w = (Recv bs, received fc w)" using k by (simp add: sys_recv_bytes)
  moreover have "0 < room (c_in c)" "buffer_inv (c_in c)" using k(2,3) t by (cases bs; simp add: tidy_def)+
  ultimately have "socksv5_read key (conn_put p c w) = bind_res (run_read key (conn_put p (c\<lparr>c_in := b\<rparr>) (received fc w))) count_error"
    using client_read_live(2) [OF key(2-4)] key(1,3) b(1) by simp
  with b show ?thesis by blast
qed

lemma origin_left:
  assumes up: "relay_up p fc fo c w" and q: "quiet w" and on: "interest_of (w_sel w) fo = Some OP_READ"
    and room: "0 < room (c_out c)" and k: "os_recv (w_os w) = Recv_Closed # rs"
  shows "\<exists>v. serve [Selected (PS_Ready {nat fo} {})] w = Inr (SELECTOR_SUCCESS, v) \<and> quiet v \<and> deaf p c v \<and> conn_get p v = Inr c \<and>
    interest_of (w_sel v) = (interest_of (w_sel w))(fo := None) \<and> owner_of (w_sel v) fc = Some (H_Socks5, p) \<and>
    w_os v = (w_os w)\<lparr>os_recv := rs\<rparr>"
proof -
  note r = relay_up_facts [OF up]
  let ?w = "woken {nat fo} {} w"
  let ?v = "(os_upd (\<lambda>s. s\<lparr>os_recv := rs\<rparr>) ?w)\<lparr>w_sel := sel_drop fo (w_sel ?w)\<rparr>"
  have wk: "owner_of (w_sel ?w) fo = Some (H_Copy, p)" "sel_inv (w_sel ?w)" using r(3,18) by simp_all
  note d = sel_drop_tables [OF wk(2) r(16) wk(1)]
  have "copy_read_handler \<lparr>k_fd = fo, k_data = Some p\<rparr> ?w = Inr ?v"
    by (rule origin_end [where c = c]) (use up room k in simp_all)
  then have run: "serve [Selected (PS_Ready {nat fo} {})] w = Inr (SELECTOR_SUCCESS, ?v)"
    using relay_turn_step [OF up q, of Origin_Readable ?v] on d(3) by simp
  have "resolution_jobs (w_sel ?v) = []" using q agenda_sel_drop [of fo "w_sel ?w"] by (simp add: quiet_def agenda_def)
  from quiet_turns [OF q run this] have "quiet ?v" .
  moreover have "conn_get p ?v = Inr c" using r(5) by (simp add: conn_get_def split: if_splits)
  moreover have "deaf p c ?v" using r d by (simp add: deaf_def)
  ultimately show ?thesis using run d r by - (rule exI [of _ ?v], simp del: serve.simps)
qed

section \<open>Properties\<close>

text \<open>
  C9: A relay over any number of turns in which its two descriptors are ready, together or not, for reading, for writing, for
  both or not at all, or in which the loop is interrupted: while the kernel reports no error other than \<open>EAGAIN\<close> and no
  end of a stream, the main loop goes on and each direction is relayed in order and without loss, duplication or
  corruption: what was held and what a side sent is, byte for byte, what the other side was sent and what is held still.
  (\<open>client_leaves\<close>, \<open>origin_close_unnoticed\<close> and \<open>relay_send_error_use_after_free\<close> say what the end of a stream and an error do.)
\<close>

theorem relay_over_turns:
  assumes relay: "relay_up p fc fo c w" "quiet w" and kernel: "calm (w_os w)"
    and own: "\<forall>tn \<in> set turns. own_turn fc fo tn"
  shows "\<exists>w' c' t. serve turns w = Inr (SELECTOR_SUCCESS, w') \<and> relay_up p fc fo c' w' \<and> quiet w' \<and> calm (w_os w') \<and>
    os_trace (w_os w') = os_trace (w_os w) @ t \<and>
    pending (c_in c) @ recvs fc t = sends fo t @ pending (c_in c') \<and>
    pending (c_out c) @ recvs fo t = sends fc t @ pending (c_out c')"
proof -
  have "relay_ok p fc fo c w" using relay(1) kernel by (simp add: relay_ok_def)
  from own_turns_ok [OF this relay(2) own] show ?thesis unfolding relayed_def relay_ok_def flow_def by blast
qed

text \<open>
  C10: What a relay holds is delivered: if the kernel takes something of each send, then after as many rounds of write events as
  there are bytes held both buffers are empty, and each side was sent exactly what was held for it.
\<close>

theorem relay_delivers:
  assumes "relay_ok p fc fo c w" "quiet w" "os_send (w_os w) = map Sent ks @ q"
    and "length (pending (c_in c)) + length (pending (c_out c)) \<le> length ks"
  shows "\<exists>w' c' t. serve (concat (replicate (length ks)
        [Selected (PS_Ready {} {nat fo}), Selected (PS_Ready {} {nat fc})])) w = Inr (SELECTOR_SUCCESS, w') \<and>
    relay_ok p fc fo c' w' \<and> pending (c_in c') = [] \<and> pending (c_out c') = [] \<and>
    os_trace (w_os w') = os_trace (w_os w) @ t \<and> sends fo t = pending (c_in c) \<and> sends fc t = pending (c_out c)"
proof -
  obtain c' v t where v: "serve (concat (replicate (length ks) (write_round fc fo))) w = Inr (SELECTOR_SUCCESS, v)"
    "relay_ok p fc fo c' v" "held_bytes c' = 0" "os_trace (w_os v) = os_trace (w_os w) @ t" "flow fc fo c c' t"
    "recvs fc t = []" "recvs fo t = []"
    using relay_rounds [OF assms(1,2), of ks q] assms(3,4) by (auto simp: held_bytes_def)
  then show ?thesis
    by - (rule exI [of _ v], rule exI [of _ c'], rule exI [of _ t], auto simp: flow_def held_bytes_def)
qed

text \<open>
  C11: A client that has sent all it had ends the relay at once: both descriptors are unregistered, then closed, once each,
  the connection is freed and no longer counted; nothing is sent any more, neither what was held for the origin nor
  what the origin would still have answered.
\<close>

theorem client_leaves:
  assumes "relay_up p fc fo c w" "quiet w" "interest_of (w_sel w) fc = Some OP_READ" "0 < room (c_in c)"
    and "os_recv (w_os w) = Recv_Closed # rs"
  shows "\<exists>w'. serve [Selected (PS_Ready {nat fc} {})] w = Inr (SELECTOR_SUCCESS, w') \<and> quiet w' \<and>
    conn_get p w' = Inl Use_After_Free \<and> interest_of (w_sel w') = (interest_of (w_sel w))(fc := None, fo := None) \<and>
    os_trace (w_os w') = os_trace (w_os w) @ [Ev_Close fc, Ev_Close fo] \<and>
    metrics (data (w_cfg w')) = map_option metrics_dec_curr_conn (metrics (data (w_cfg w)))"
proof -
  note r = relay_up_facts [OF assms(1)]
  let ?w = "woken {nat fc} {} w" and ?key = "\<lparr>k_fd = fc, k_data = Some p\<rparr> :: key"
  let ?u = "os_upd (\<lambda>s. s\<lparr>os_recv := rs\<rparr>) ?w"
  have up: "relay_up p fc fo c ?w" using assms(1) by simp
  have pr: "paired p c ?u" using relay_paired [OF up] by simp
  note h = hung_up_facts [OF pr]
  have run: "socksv5_read ?key ?w = Inr (hung_up p c ?u)" by (rule client_end [OF up assms(4)]) (use assms(5) in simp_all)
  have turn: "serve [Selected (PS_Ready {nat fc} {})] w = Inr (SELECTOR_SUCCESS, hung_up p c ?u)"
    using relay_turn_step [OF assms(1,2), of Client_Readable "hung_up p c ?u"] run assms(3) h(5,6) by simp
  have "agenda (w_sel (hung_up p c ?u)) = ({nat fc}, {}, resolution_jobs (w_sel w))" using h(6) by simp
  then have "quiet (hung_up p c ?u)" using quiet_turns [OF assms(2) turn] assms(2) by (simp add: quiet_def agenda_def)
  then show ?thesis
    using turn h(1,3,4,7) r(9,10,13) by - (rule exI [of _ "hung_up p c ?u"], simp add: fun_upd_twist del: serve.simps)
qed

text \<open>
  C20: An origin that closes its connection is not noticed by its client: the origin is only unregistered, no descriptor is
  closed, and the client is listened to as before.  When it sends something, that is read, thrown away, and only then is
  it disconnected.
\<close>

theorem origin_close_unnoticed:
  assumes "relay_up p fc fo c w" "quiet w" "interest_of (w_sel w) fo = Some OP_READ" "interest_of (w_sel w) fc = Some OP_READ"
    and "0 < room (c_out c)" "os_recv (w_os w) = Recv_Closed # Recv bs # rs" "bs \<noteq> []" "length bs \<le> room (c_in c)"
  shows "\<exists>w1 w2. serve [Selected (PS_Ready {nat fo} {})] w = Inr (SELECTOR_SUCCESS, w1) \<and> conn_get p w1 = Inr c \<and>
    interest_of (w_sel w1) = (interest_of (w_sel w))(fo := None) \<and> os_trace (w_os w1) = os_trace (w_os w) \<and>
    serve [Selected (PS_Ready {nat fc} {})] w1 = Inr (SELECTOR_SUCCESS, w2) \<and> conn_get p w2 = Inl Use_After_Free \<and>
    os_trace (w_os w2) = os_trace (w_os w) @ [Ev_Recv fc bs, Ev_Close fc, Ev_Close fo]"
proof -
  note r = relay_up_facts [OF assms(1)]
  obtain w1 where w1: "serve [Selected (PS_Ready {nat fo} {})] w = Inr (SELECTOR_SUCCESS, w1)" "quiet w1" "deaf p c w1"
    "conn_get p w1 = Inr c" "interest_of (w_sel w1) = (interest_of (w_sel w))(fo := None)" "owner_of (w_sel w1) fc = Some (H_Socks5, p)"
    "w_os w1 = (w_os w)\<lparr>os_recv := Recv bs # rs\<rparr>"
    using origin_left [OF assms(1-3,5,6)] by blast
  let ?w = "woken {nat fc} {} w1"
  have w: "k_fd (client fc p) = fc" "k_data (client fc p) = Some p" "p < length (w_heap ?w)" "sel_inv (w_sel ?w)"
    "os_recv (w_os ?w) = Recv bs # rs" "conn_put p c ?w = ?w"
    using w1(3,4,7) by (simp_all add: deaf_def conn_put_self)
  obtain b where b: "tidy b" "socksv5_read (client fc p) ?w =
      bind_res (run_read (client fc p) (conn_put p (c\<lparr>c_in := b\<rparr>) (received fc ?w))) count_error"
    using client_receives [OF w(1-4) r(7) w(5) assms(7,8)] unfolding w(6) by blast
  let ?c = "c\<lparr>c_in := b\<rparr>" and ?v = "received fc ?w"
  let ?u = "closed p (?c\<lparr>c_stm := Some (machine 6)\<rparr>) ?v"
  have d: "deaf p ?c ?v" using w1(3) by (simp add: deaf_def)
  have "run_read (client fc p) (conn_put p ?c ?v) = Inr (6, ?u)" by (rule deaf_read [OF d w(2)]) (use r(6) in simp)
  moreover have m: "metrics (data (w_cfg ?u)) \<noteq> None" using d by (simp add: closed_def Let_def deaf_def sys_close_def emit_def)
  ultimately have run: "socksv5_read (client fc p) ?w = Inr (count metrics_inc_errors ?u)"
    using b(2) by (simp add: count_error_def metrics_upd_live)
  have sel: "w_sel ?u = sel_drop fc (w_sel ?w)" using r(9) by (simp add: closed_def Let_def sys_close_def emit_def)
  have "sel_inv (w_sel ?u)" using sel_drop_tables(3) [of "w_sel ?w" fc H_Socks5 p] w(4) r(15) w1(6) unfolding sel by simp
  moreover have ag: "agenda (w_sel ?u) = ({nat fc}, {}, [])" using w1(2) unfolding sel by (simp add: quiet_def)
  moreover have "listened fc w1" using w1(2,5) assms(4) r(13) by (simp add: listened_def quiet_def)
  ultimately have "proxy_select (PS_Ready {nat fc} {}) w1 = finish_turn (count metrics_inc_errors ?u)"
    using client_reads [OF _ w1(6) run] by simp
  then have turn: "serve [Selected (PS_Ready {nat fc} {})] w1 = Inr (SELECTOR_SUCCESS, count metrics_inc_errors ?u)"
    using ag finish_none [of "count metrics_inc_errors ?u"] by (simp add: agenda_def)
  have "conn_get p (count metrics_inc_errors ?u) = conn_get p ?u" by (simp add: conn_get_def)
  also have "\<dots> = Inl Use_After_Free" by (rule conn_get_closed) (use w(3) in simp)
  finally have "conn_get p (count metrics_inc_errors ?u) = Inl Use_After_Free" .
  moreover have "os_trace (w_os ?u) = os_trace (w_os w) @ [Ev_Recv fc bs, Ev_Close fc, Ev_Close fo]"
    using w1(7) r(9-12) by (simp add: closed_def Let_def sys_close_def emit_def)
  ultimately show ?thesis
    using w1(1,4,5,7) turn by - (rule exI [of _ w1], rule exI [of _ "count metrics_inc_errors ?u"], simp del: serve.simps)
qed

text \<open>
  C16: An error on the way to the origin is fatal.  When the client sends while the connection of the origin is broken, the
  bytes are passed on at once; the failing \<open>send\<close> frees the connection, and the state machine goes on in it.
\<close>

theorem relay_send_error_use_after_free:
  assumes "relay_up p fc fo c w" "quiet w" "interest_of (w_sel w) fc = Some OP_READ"
    and "os_recv (w_os w) = Recv bs # rs" "bs \<noteq> []" "length bs \<le> room (c_in c)"
    and "os_send (w_os w) = Send_Error e # q" "e \<noteq> EAGAIN"
  shows "serve (Selected (PS_Ready {nat fc} {}) # ts) w = Inl Use_After_Free"
proof -
  note r = relay_up_facts [OF assms(1)]
  let ?w = "woken {nat fc} {} w" and ?key = "\<lparr>k_fd = fc, k_data = Some p\<rparr> :: key"
  have up: "relay_up p fc fo c ?w" using assms(1) by simp
  note u = relay_up_facts [OF up]
  obtain b where b: "tidy b" "pending b = pending (c_in c) @ bs" "socksv5_read ?key ?w =
      bind_res (run_read ?key (conn_put p (c\<lparr>c_in := b\<rparr>) (received fc ?w))) count_error"
    using client_receives [of ?key fc p ?w c bs rs] u(1-3,7) assms(4-6) by auto
  let ?c = "c\<lparr>c_in := b\<rparr>" and ?v = "received fc ?w"
  have pr: "paired p ?c ?v" using relay_paired [OF up] by (simp add: paired_def)
  have "run_read ?key (conn_put p ?c ?v) = Inl Use_After_Free"
    by (rule relay_read_error [OF pr, where e = e and q = q]) (use b(1,2) assms(5,7,8) r(6) in \<open>simp_all add: tidy_def\<close>)
  with b(3) have run: "socksv5_read ?key ?w = Inl Use_After_Free" by simp
  obtain ec where ec: "sel_table (w_sel w) fc = Some ec" "it_handler ec = Some H_Socks5" "it_data ec = Some p" "it_interest ec = OP_READ"
    using table_of [OF r(17) assms(3)] by blast
  have ok: "all_valid (w_sel w)" using assms(2) by (simp add: quiet_def all_valid_ok)
  have "proxy_select (PS_Ready {nat fc} {}) w = Inl Use_After_Free"
    by (rule turn_dies [OF r(3) ok ec(1,2), where f = "as_callback socksv5_read"]) (use run ec in \<open>simp_all add: as_callback_def\<close>)
  then show ?thesis by simp
qed

section \<open>At concrete inputs\<close>

text \<open>A relay between the client \<open>5\<close> and the origin \<open>6\<close> that holds \<open>bs\<close> for the origin.\<close>

definition holding :: "byte list \<Rightarrow> buffer" where
  "holding bs = \<lparr>buf_data = bs @ replicate (64 - length bs) 0, buf_limit = 64, buf_read = 0, buf_write = length bs\<rparr>"

lemma holding_ok:
  assumes "length bs \<le> 64"
  shows "tidy (holding bs)" "pending (holding bs) = bs" "room (holding bs) = 64 - length bs"
  using assms by (simp_all add: holding_def tidy_def buffer_inv_def pending_def room_def)

definition sample_relayed :: "byte list \<Rightarrow> sel \<Rightarrow> recv_result list \<Rightarrow> send_result list \<Rightarrow> world" where
  "sample_relayed bs s rs ss = sample_world s (sample_copy\<lparr>c_in := holding bs\<rparr>) auth_init rs ss"

lemma sample_pair:
  "\<exists>s :: sel. sel_inv s \<and> resolution_jobs s = [] \<and>
     sel_table s = [5 \<mapsto> \<lparr>it_fd = 5, it_interest = OP_READ, it_handler = Some H_Socks5, it_data = Some 0\<rparr>,
       6 \<mapsto> \<lparr>it_fd = 6, it_interest = j, it_handler = Some H_Copy, it_data = Some 0\<rparr>]"
proof -
  have more: "\<exists>s'. sel_inv s' \<and> sel_table s' = (sel_table s)(fd \<mapsto> \<lparr>it_fd = fd, it_interest = i, it_handler = Some h, it_data = d\<rparr>)"
    if "sel_inv s" "\<not> invalid_fd fd" "sel_table s fd = None" for s :: sel and fd i h d
    using register_free(2,3) [OF that, where h = h and d = d and interest = i] by blast
  have ok: "\<not> invalid_fd 5" "\<not> invalid_fd 6" by (simp_all add: invalid_fd_def ITEMS_MAX_SIZE_def)
  obtain s0 :: sel where s0: "sel_inv s0" "sel_table s0 = Map.empty" using selector_new_ok by blast
  obtain s1 :: sel where s1: "sel_inv s1" "sel_table s1 = [5 \<mapsto> \<lparr>it_fd = 5, it_interest = OP_READ, it_handler = Some H_Socks5, it_data = Some 0\<rparr>]"
    using more [OF s0(1) ok(1), of OP_READ H_Socks5 "Some 0"] s0(2) by auto
  obtain s2 :: sel where s2: "sel_inv s2" "sel_table s2 = (sel_table s1)(6 \<mapsto> \<lparr>it_fd = 6, it_interest = j, it_handler = Some H_Copy, it_data = Some 0\<rparr>)"
    using more [OF s1(1) ok(2), of j H_Copy "Some 0"] s1(2) by auto
  have "sel_table (s2\<lparr>resolution_jobs := []\<rparr>) = sel_table s2" by (simp add: sel_table_def used_at_def fun_eq_iff)
  with s1 s2 show ?thesis by (intro exI [of _ "s2\<lparr>resolution_jobs := []\<rparr>"]) simp
qed

lemma sample_relay_up:
  assumes "length bs \<le> 64" "bs = [] \<and> j = OP_READ \<or> bs \<noteq> [] \<and> j = OP_WRITE"
  shows "\<exists>s. (\<forall>rs ss. relay_up 0 5 6 (sample_copy\<lparr>c_in := holding bs\<rparr>) (sample_relayed bs s rs ss) \<and> quiet (sample_relayed bs s rs ss)) \<and>
    interest_of s 5 = Some OP_READ \<and> interest_of s 6 = Some j"
proof -
  obtain s :: sel where s: "sel_inv s" "resolution_jobs s = []"
    "sel_table s = [5 \<mapsto> \<lparr>it_fd = 5, it_interest = OP_READ, it_handler = Some H_Socks5, it_data = Some 0\<rparr>,
       6 \<mapsto> \<lparr>it_fd = 6, it_interest = j, it_handler = Some H_Copy, it_data = Some 0\<rparr>]"
    using sample_pair by blast
  let ?c = "sample_copy\<lparr>c_in := holding bs\<rparr>"
  have i: "interest_of s 5 = Some OP_READ" "interest_of s 6 = Some j" "owner_of s 5 = Some (H_Socks5, 0)" "owner_of s 6 = Some (H_Copy, 0)"
    using s(3) by (simp_all add: interest_of_def owner_of_def)
  have b: "tidy (buffer_init 64 (replicate 64 0))" "pending (buffer_init 64 (replicate 64 0)) = []"
    using sample_idle by (auto simp: idle_def tidy_def)
  have c: "c_client_fd ?c = 5" "c_origin_fd ?c = 6" "c_stm ?c = Some (machine 4)" "c_out ?c = buffer_init 64 (replicate 64 0)"
    by (simp_all add: sample_copy_def sample_conn_def)
  have up: "relay_up 0 5 6 ?c (sample_relayed bs s rs ss)" for rs ss
    using s(1) i b c holding_ok [OF assms(1)] assms(2) sample_valid
    by (auto simp: relay_up_def relaying_def wakeful_def sample_relayed_def)
  have typed: "conn_typed ?c"
    using b(1) c holding_ok(1) [OF assms(1)]
    by (simp add: conn_typed_def tidy_def) (simp add: sample_copy_def sample_conn_def zero_conn_def machine_def stm_typed_def)
  have g: "conn_get p (sample_relayed bs s rs ss) = Inr d \<longleftrightarrow> p = 0 \<and> d = ?c" for p d rs ss
    by (auto simp: sample_relayed_def sample_world_def conn_get_def split: if_splits)
  have "world_ok (sample_relayed bs s rs ss)" for rs ss
  proof (rule world_okI)
    show "config_inv (w_cfg (sample_relayed bs s rs ss))"
      using init_logged [of "replicate REGISTER_MAX_ENTRIES (make_entry [] [] 0 [] 0 0 0)"]
      by (simp add: sample_relayed_def sample_world_def config_inv_def fresh_parsed_def settings_ok_def)
    show "\<not> invalid_fd fd" if "sel_table (w_sel (sample_relayed bs s rs ss)) fd = Some e" for fd e
      using that s(3) by (simp add: sample_relayed_def invalid_fd_def ITEMS_MAX_SIZE_def split: if_splits)
    show "256 \<le> length (os_junk (w_os (sample_relayed bs s rs ss)))" by (simp add: sample_relayed_def sample_world_def)
    show "\<exists>p a. d = Some p \<and> admin_get p (sample_relayed bs s rs ss) = Inr a \<and> ac_fd a = fd"
      if "held (w_sel (sample_relayed bs s rs ss)) fd H_Admin d" for fd d
      using that s(3) by (auto simp: sample_relayed_def held_def split: if_splits)
    show "held (w_sel (sample_relayed bs s rs ss)) (ac_fd a) H_Admin (Some p)" if "admin_get p (sample_relayed bs s rs ss) = Inr a" for p a
      using that by (simp add: sample_relayed_def sample_world_def admin_get_def)
  qed (use s g c(1) typed in \<open>auto simp: sample_relayed_def held_def split: if_splits\<close>)
  then have "quiet (sample_relayed bs s rs ss)" for rs ss using s(2) by (simp add: quiet_def sample_relayed_def)
  with up i(1,2) show ?thesis by blast
qed

lemma sample_relayed_os:
  "os_recv (w_os (sample_relayed bs s rs ss)) = rs" "os_send (w_os (sample_relayed bs s rs ss)) = ss"
  "w_sel (sample_relayed bs s rs ss) = s" "os_trace (w_os (sample_relayed bs s rs ss)) = []"
  by (simp_all add: sample_relayed_def sample_world_def)

lemma sample_copy_bufs:
  "pending (c_out sample_copy) = []" "room (c_out sample_copy) = 64"
  using sample_idle idle_room [of "buffer_init 64 (replicate 64 0)"] by (simp_all add: sample_copy_def sample_conn_def idle_def)

theorem relay_over_turns_witness:
  "\<exists>w w' t. relay_up 0 5 6 (sample_copy\<lparr>c_in := holding []\<rparr>) w \<and> os_recv (w_os w) = [Recv [71, 72], Recv [73]] \<and>
     serve [Selected (PS_Ready {5, 6} {5, 6}), Selected PS_Interrupted, Selected (PS_Ready {6} {5})] w = Inr (SELECTOR_SUCCESS, w') \<and>
     os_trace (w_os w') = os_trace (w_os w) @ t \<and> (\<exists>rest. recvs 5 t = sends 6 t @ rest)"
proof -
  obtain s where s: "\<And>rs ss. relay_up 0 5 6 (sample_copy\<lparr>c_in := holding []\<rparr>) (sample_relayed [] s rs ss)"
    "\<And>rs ss. quiet (sample_relayed [] s rs ss)"
    using sample_relay_up [of "[]" OP_READ] by fastforce
  let ?w = "sample_relayed [] s [Recv [71, 72], Recv [73]] [Sent 2, Sent 1]"
    and ?turns = "[Selected (PS_Ready {5, 6} {5, 6}), Selected PS_Interrupted, Selected (PS_Ready {6} {5})]"
  have "calm (w_os ?w)" "\<forall>tn \<in> set ?turns. own_turn 5 6 tn" by (simp_all add: sample_relayed_os calm_def)
  from relay_over_turns [OF s this] obtain w' t and c' :: socks5_conn where
    t: "serve ?turns ?w = Inr (SELECTOR_SUCCESS, w')" "os_trace (w_os w') = os_trace (w_os ?w) @ t"
      "pending (c_in (sample_copy\<lparr>c_in := holding []\<rparr>)) @ recvs 5 t = sends 6 t @ pending (c_in c')"
    by blast
  from t(3) have "recvs 5 t = sends 6 t @ pending (c_in c')" by (simp add: holding_ok)
  with s(1) t(1,2) show ?thesis
    by - (rule exI [of _ ?w], rule exI [of _ w'], rule exI [of _ t], auto simp: sample_relayed_os simp del: serve.simps)
qed

theorem relay_delivers_witness:
  "\<exists>w w' t. os_send (w_os w) = [Sent 1, Sent 1] \<and>
     serve [Selected (PS_Ready {} {6}), Selected (PS_Ready {} {5}), Selected (PS_Ready {} {6}), Selected (PS_Ready {} {5})] w =
       Inr (SELECTOR_SUCCESS, w') \<and> os_trace (w_os w') = os_trace (w_os w) @ t \<and> sends 6 t = [71, 72]"
proof -
  obtain s where s: "\<And>rs ss. relay_up 0 5 6 (sample_copy\<lparr>c_in := holding [71, 72]\<rparr>) (sample_relayed [71, 72] s rs ss)"
    "\<And>rs ss. quiet (sample_relayed [71, 72] s rs ss)"
    using sample_relay_up [of "[71, 72]" OP_WRITE] by fastforce
  let ?w = "sample_relayed [71, 72] s [] [Sent 1, Sent 1]"
  have "relay_ok 0 5 6 (sample_copy\<lparr>c_in := holding [71, 72]\<rparr>) ?w"
    using s(1) by (simp add: relay_ok_def sample_relayed_os calm_def)
  from relay_delivers [OF this s(2), of "[1, 1]" "[]"] obtain w' t where
    "serve [Selected (PS_Ready {} {6}), Selected (PS_Ready {} {5}), Selected (PS_Ready {} {6}), Selected (PS_Ready {} {5})] ?w =
       Inr (SELECTOR_SUCCESS, w')" "os_trace (w_os w') = os_trace (w_os ?w) @ t" "sends 6 t = [71, 72]"
    by (auto simp: holding_ok sample_relayed_os sample_copy_bufs simp del: serve.simps)
  then show ?thesis
    by - (rule exI [of _ ?w], rule exI [of _ w'], rule exI [of _ t], simp add: sample_relayed_os del: serve.simps)
qed

theorem client_leaves_witness:
  "\<exists>w w'. conn_get 0 w = Inr (sample_copy\<lparr>c_in := holding [71]\<rparr>) \<and>
     serve [Selected (PS_Ready {5} {})] w = Inr (SELECTOR_SUCCESS, w') \<and> conn_get 0 w' = Inl Use_After_Free \<and>
     os_trace (w_os w') = [Ev_Close 5, Ev_Close 6]"
proof -
  obtain s where s: "\<And>rs ss. relay_up 0 5 6 (sample_copy\<lparr>c_in := holding [71]\<rparr>) (sample_relayed [71] s rs ss)"
    "\<And>rs ss. quiet (sample_relayed [71] s rs ss)" "interest_of s 5 = Some OP_READ"
    using sample_relay_up [of "[71]" OP_WRITE] by fastforce
  let ?w = "sample_relayed [71] s [Recv_Closed] []"
  obtain w' where "serve [Selected (PS_Ready {5} {})] ?w = Inr (SELECTOR_SUCCESS, w')" "conn_get 0 w' = Inl Use_After_Free"
    "os_trace (w_os w') = [Ev_Close 5, Ev_Close 6]"
    using client_leaves [OF s(1,2), of "[Recv_Closed]" "[]" "[]"] s(3) by (auto simp: sample_relayed_os holding_ok simp del: serve.simps)
  moreover have "conn_get 0 ?w = Inr (sample_copy\<lparr>c_in := holding [71]\<rparr>)" using s(1) by (rule relay_up_facts(5))
  ultimately show ?thesis by - (rule exI [of _ ?w], rule exI [of _ w'], simp del: serve.simps)
qed

theorem origin_close_unnoticed_witness:
  "\<exists>w w1 w2. serve [Selected (PS_Ready {6} {})] w = Inr (SELECTOR_SUCCESS, w1) \<and> os_trace (w_os w1) = [] \<and>
     interest_of (w_sel w1) 5 = Some OP_READ \<and> serve [Selected (PS_Ready {5} {})] w1 = Inr (SELECTOR_SUCCESS, w2) \<and>
     os_trace (w_os w2) = [Ev_Recv 5 [71], Ev_Close 5, Ev_Close 6]"
proof -
  obtain s where s: "\<And>rs ss. relay_up 0 5 6 (sample_copy\<lparr>c_in := holding []\<rparr>) (sample_relayed [] s rs ss)"
    "\<And>rs ss. quiet (sample_relayed [] s rs ss)" "interest_of s 5 = Some OP_READ" "interest_of s 6 = Some OP_READ"
    using sample_relay_up [of "[]" OP_READ] by fastforce
  let ?w = "sample_relayed [] s [Recv_Closed, Recv [71]] []"
  obtain w1 w2 where "serve [Selected (PS_Ready {6} {})] ?w = Inr (SELECTOR_SUCCESS, w1)" "os_trace (w_os w1) = []"
    "interest_of (w_sel w1) = (interest_of s)(6 := None)" "serve [Selected (PS_Ready {5} {})] w1 = Inr (SELECTOR_SUCCESS, w2)"
    "os_trace (w_os w2) = [Ev_Recv 5 [71], Ev_Close 5, Ev_Close 6]"
    using origin_close_unnoticed [OF s(1,2), of "[Recv_Closed, Recv [71]]" "[]" "[71]" "[]"] s(3,4)
    by (auto simp: sample_relayed_os holding_ok sample_copy_bufs simp del: serve.simps)
  with s(3) show ?thesis by - (rule exI [of _ ?w], rule exI [of _ w1], rule exI [of _ w2], simp del: serve.simps)
qed

theorem relay_send_error_use_after_free_witness:
  "\<exists>w. os_recv (w_os w) = [Recv [71]] \<and> os_send (w_os w) = [Send_Error ECONNREFUSED] \<and>
     conn_get 0 w = Inr (sample_copy\<lparr>c_in := holding []\<rparr>) \<and> serve [Selected (PS_Ready {5} {})] w = Inl Use_After_Free"
proof -
  obtain s where s: "\<And>rs ss. relay_up 0 5 6 (sample_copy\<lparr>c_in := holding []\<rparr>) (sample_relayed [] s rs ss)"
    "\<And>rs ss. quiet (sample_relayed [] s rs ss)" "interest_of s 5 = Some OP_READ"
    using sample_relay_up [of "[]" OP_READ] by fastforce
  let ?w = "sample_relayed [] s [Recv [71]] [Send_Error ECONNREFUSED]"
  have "serve [Selected (PS_Ready {5} {})] ?w = Inl Use_After_Free"
    using relay_send_error_use_after_free [OF s(1,2), of "[Recv [71]]" "[Send_Error ECONNREFUSED]" "[71]" "[]" ECONNREFUSED "[]" "[]"] s(3)
    by (simp add: sample_relayed_os holding_ok ECONNREFUSED_def EAGAIN_def del: serve.simps)
  moreover have "conn_get 0 ?w = Inr (sample_copy\<lparr>c_in := holding []\<rparr>)" using s(1) by (rule relay_up_facts(5))
  ultimately show ?thesis by - (rule exI [of _ ?w], simp add: sample_relayed_os del: serve.simps)
qed

end
