(* ===== verification/Admin_Turns.thy ===== *)
theory Admin_Turns
  imports Session
begin

text \<open>
  The administration under the main loop: an administrator is accepted and adds users, line by line, and the users that
  are then in the table can use the proxy.  Two turns answer a command, one in which the line is read and one in which
  the answer is sent.
\<close>

section \<open>An administrator between two commands\<close>

definition admin_listened :: "int \<Rightarrow> nat \<Rightarrow> admin_conn \<Rightarrow> world \<Rightarrow> bool" where
  "admin_listened fd p a w \<longleftrightarrow> listened fd w \<and> admin_ready (client fd p) p a w"

text \<open>What the administration leaves to the connections: their memory, the sockets, the other descriptors and all but two
  parts of the configuration.\<close>

definition others_kept :: "int \<Rightarrow> world \<Rightarrow> world \<Rightarrow> bool" where
  "others_kept fd w v \<longleftrightarrow> w_heap v = w_heap w \<and> data (w_cfg v) = data (w_cfg w) \<and>
     (\<forall>x. x \<noteq> fd \<longrightarrow> sel_table (w_sel v) x = sel_table (w_sel w) x)"

lemma others_trans: "others_kept fd u v \<Longrightarrow> others_kept fd v w \<Longrightarrow> others_kept fd u w"
  by (simp add: others_kept_def)

lemma others_interest: "others_kept fd w v \<Longrightarrow> x \<noteq> fd \<Longrightarrow> interest_of (w_sel v) x = interest_of (w_sel w) x"
  by (simp add: others_kept_def interest_of_def)

lemma sel_set_others: "sel_inv s \<Longrightarrow> x \<noteq> fd \<Longrightarrow> sel_table (sel_set fd i s) x = sel_table s x"
  by (simp add: sel_set_cases split: option.split)

lemma sel_reg_others:
  assumes "sel_inv s" "\<not> invalid_fd fd" "interest_of s fd = None" "x \<noteq> fd"
  shows "sel_table (sel_reg fd h i p s) x = sel_table s x"
proof -
  from assms(3) have free: "sel_table s fd = None" by (simp add: interest_of_def)
  from register_free(1) [OF assms(1,2) free, where alloc = True and h = h and interest = i and d = "Some p"]
    register_free(3) [OF assms(1,2) free, where h = h and interest = i and d = "Some p"] assms(4) show ?thesis
    by (simp add: sel_reg_def)
qed

lemma woken_admin [simp]: "admin_get p (woken r s w) = admin_get p w" "admin_ready key p a (woken r s w) = admin_ready key p a w"
  "woken r s (admin_put p a w) = admin_put p a (woken r s w)" "w_admin (woken r s w) = w_admin w"
  by (simp_all add: admin_get_def admin_ready_def) (simp_all add: woken_def)

text \<open>An administrator knocks.\<close>

lemma admin_accept_turn:
  assumes w: "world_ok w" "resolution_jobs (w_sel w) = []" and srv: "sel_table (w_sel w) srv = Some (reading srv H_Admin_Passive)"
    and acc: "accepting fd w" "0 < fd" and kernel: "os_accept (w_os w) = Accepted fd (Sock_In i pt) # aq"
  shows "\<exists>a v. proxy_select (PS_Ready {nat srv} {}) w = Inr (SELECTOR_SUCCESS, v) \<and>
    admin_listened fd (length (w_admin w)) a v \<and> w_os v = (w_os w)\<lparr>os_accept := aq, os_trace := os_trace (w_os w) @ [Ev_Accept srv]\<rparr> \<and> w_cfg v = w_cfg w \<and> others_kept fd w v"
proof -
  let ?w = "woken {nat srv} {} w" and ?p = "length (w_admin w)" and ?k = "\<lparr>k_fd = srv, k_data = None\<rparr>"
  have acc': "accepting fd ?w" using acc(1) by simp
  have k: "os_accept (w_os ?w) = Accepted fd (Sock_In i pt) # aq" "config_inv (w_cfg ?w)" using kernel world_okD(3) [OF w(1)] by simp_all
  obtain a where a: "s5admin_passive_accept ?k ?w = Inr (admin_put ?p a
      ((handed srv ?w)\<lparr>w_admin := w_admin w @ [Some zero_admin], w_sel := sel_reg fd H_Admin OP_READ ?p (w_sel ?w)\<rparr>))"
    "admin_ready (client fd ?p) ?p a (admin_put ?p a
      ((handed srv ?w)\<lparr>w_admin := w_admin w @ [Some zero_admin], w_sel := sel_reg fd H_Admin OP_READ ?p (w_sel ?w)\<rparr>))"
    using admin_accepted_ready [OF acc' k(1) acc(2) k(2), of ?k] by (auto simp: client_def)
  define v where "v = admin_put ?p a
      ((handed srv ?w)\<lparr>w_admin := w_admin w @ [Some zero_admin], w_sel := sel_reg fd H_Admin OP_READ ?p (w_sel ?w)\<rparr>)"
  have free: "sel_inv (w_sel ?w)" "\<not> invalid_fd fd" "interest_of (w_sel ?w) fd = None" using acc' by (simp_all add: accepting_def)
  note reg = sel_reg_free [OF free, of True H_Admin OP_READ ?p]
  have ag: "agenda (w_sel v) = ({nat srv}, {}, [])" "sel_inv (w_sel v)" using w(2) reg by (simp_all add: v_def)
  have "proxy_select (PS_Ready {nat srv} {}) w = finish_turn v"
    by (rule turn_reads [OF world_okD(1) [OF w(1)] all_valid_ok [OF w(1)] srv, where f = "as_callback s5admin_passive_accept" and h = H_Admin_Passive])
      (use a(1) ag in \<open>simp_all add: as_callback_def reading_def v_def\<close>)
  moreover have jobs: "resolution_jobs (w_sel v) = []" using ag by (simp add: agenda_def)
  ultimately have turn: "proxy_select (PS_Ready {nat srv} {}) w = Inr (SELECTOR_SUCCESS, v)" by (simp add: finish_none)
  have "listened fd v" using turn_ok [OF w(1) turn] jobs reg by (simp add: listened_def v_def)
  then have "admin_listened fd ?p a v" using a(2) by (simp add: admin_listened_def v_def)
  moreover have "w_os v = (w_os w)\<lparr>os_accept := aq, os_trace := os_trace (w_os w) @ [Ev_Accept srv]\<rparr>" "w_cfg v = w_cfg w" using kernel by (simp_all add: v_def handed_def)
  moreover have "others_kept fd w v" using sel_reg_others [OF free] by (simp add: others_kept_def v_def)
  ultimately show ?thesis using turn by blast
qed

section \<open>A command in two turns\<close>

lemma admin_command_turns:
  assumes l: "admin_listened fd p a w"
    and kernel: "os_recv (w_os w) = Recv (bs @ [10]) # rs" "os_send (w_os w) = Sent m # q" "MAX_RESPONSE_LEN \<le> m"
    and bs: "10 \<notin> set bs" "0 \<notin> set bs" "length bs < MAX_CMD_LEN" "words bs \<noteq> []" "\<forall>v \<in> set (words bs). length v \<noteq> ARGS_LEN"
    and h: "config_handler True (w_cfg w) (bs @ 0 # drop (length bs + 1) (buf_data (ac_in a))) (buf_data (ac_out a)) =
        Inr (k, cfg, line, resp)" "c_str resp = Inr s" "s \<noteq> []" "data cfg = data (w_cfg w)"
  shows "\<exists>a' v. serve [Selected (PS_Ready {nat fd} {}), Selected (PS_Ready {} {nat fd})] w = Inr (SELECTOR_SUCCESS, v) \<and>
    admin_listened fd p a' v \<and> w_cfg v = cfg \<and> others_kept fd w v \<and>
    w_os v = (w_os w)\<lparr>os_recv := rs, os_send := q, os_trace := os_trace (w_os w) @ [Ev_Recv fd (bs @ [10]), Ev_Send fd s]\<rparr>"
proof -
  let ?k = "client fd p" and ?u = "woken {nat fd} {} w"
  have ok: "world_ok w" "interest_of (w_sel w) fd = Some OP_READ" "resolution_jobs (w_sel w) = []"
    and rdy: "admin_ready ?k p a ?u"
    using l by (simp_all add: admin_listened_def listened_def)
  note r = admin_ready_facts [OF rdy, simplified]
  note i = empty_facts [OF r(7) max_pos(1)] and o = empty_facts [OF r(8) max_pos(2)]
  have str: "c_str (bs @ 0 # drop (length bs + 1) (buf_data (ac_in a))) = Inr bs" using c_str_text bs(2) by (simp add: is_text_def)
  have hl: "config_inv cfg" "length resp = MAX_RESPONSE_LEN" "length line = MAX_CMD_LEN" "k < MAX_RESPONSE_LEN"
    using config_handler_total [OF r(11) str bs(4,5), where resp = "buf_data (ac_out a)" and alloc = True]
      o(4) r(9) i(4) bs(3) h(1) by auto
  have k: "k = length s" "take (length s) resp = s" "0 \<in> set resp"
    using config_handler_response [OF h(1)] h(2) c_str_take [OF h(2)] by auto
  have ne: "bs \<noteq> []" using bs(4) words_blank [of "[]"] by auto
  have hu: "config_handler True (w_cfg ?u) (bs @ 0 # drop (length bs + 1) (buf_data (ac_in a))) (buf_data (ac_out a)) =
      Inr (k, cfg, line, resp)" "os_recv (w_os ?u) = Recv (bs @ [10]) # rs" using h(1) kernel(1) by simp_all
  obtain a1 u1 where 1: "admin_read ?k ?u = Inr (admin_put p a1 u1)" "ac_fd a1 = ac_fd a" "empty_of MAX_CMD_LEN (ac_in a1)"
    "ac_out a1 = (ac_out a)\<lparr>buf_data := resp, buf_write := k\<rparr>"
    "u1 = (received fd ?u)\<lparr>w_cfg := cfg, w_sel := sel_set fd OP_WRITE (w_sel ?u)\<rparr>"
    using admin_line_read [OF rdy hu(2) bs(1,2) ne bs(3) hu(1) hl(2,4,3)] by auto
  define v1 where "v1 = admin_put p a1 u1"
  have s1: "sel_inv (w_sel v1)" "agenda (w_sel v1) = ({nat fd}, {}, [])" "resolution_jobs (w_sel v1) = []"
    "owner_of (w_sel v1) fd = Some (H_Admin, p)" "interest_of (w_sel v1) fd = Some OP_WRITE" "p < length (w_admin u1)"
    "w_cfg v1 = cfg" "w_os v1 = (w_os w)\<lparr>os_recv := rs, os_trace := os_trace (w_os w) @ [Ev_Recv fd (bs @ [10])]\<rparr>"
  proof -
    have "w_sel v1 = sel_set fd OP_WRITE (w_sel ?u)" using 1(5) by (simp add: v1_def)
    with r ok(2,3) show g: "sel_inv (w_sel v1)" "agenda (w_sel v1) = ({nat fd}, {}, [])"
      "owner_of (w_sel v1) fd = Some (H_Admin, p)" "interest_of (w_sel v1) fd = Some OP_WRITE" by simp_all
    from g(2) show "resolution_jobs (w_sel v1) = []" by (simp add: agenda_def)
    show "p < length (w_admin u1)" "w_cfg v1 = cfg"
      "w_os v1 = (w_os w)\<lparr>os_recv := rs, os_trace := os_trace (w_os w) @ [Ev_Recv fd (bs @ [10])]\<rparr>"
      using r(2) 1(5) kernel(1) by (simp_all add: v1_def received_def)
  qed
  obtain e where e: "sel_table (w_sel w) fd = Some e" "it_handler e = Some H_Admin" "it_data e = Some p" "it_interest e = OP_READ"
    using table_of [of "w_sel w" fd H_Admin p OP_READ] r(6) ok(2) by auto
  have "proxy_select (PS_Ready {nat fd} {}) w = finish_turn v1"
    by (rule turn_reads [OF world_okD(1) [OF ok(1)] all_valid_ok [OF ok(1)] e(1,2) _ _ _ s1(1,2), where f = "as_callback admin_read"])
      (use e 1(1) in \<open>simp_all add: as_callback_def client_def v1_def\<close>)
  then have t1: "proxy_select (PS_Ready {nat fd} {}) w = Inr (SELECTOR_SUCCESS, v1)" using s1(3) by (simp add: finish_none)
  have ok1: "world_ok v1" by (rule turn_ok [OF ok(1) t1])
  let ?u1 = "woken {} {nat fd} u1" and ?a = "a1\<lparr>ac_out := (ac_out a1)\<lparr>buf_read := 0, buf_write := 0\<rparr>\<rparr>"
  let ?w2 = "(sent fd s q ?u1)\<lparr>w_sel := sel_set fd OP_READ (w_sel ?u1)\<rparr>"
  have s: "0 < length s" "length s \<le> m" "length s \<le> length resp" using h(3) kernel(3) k(1) hl(2,4) by auto
  have u1: "p < length (w_admin ?u1)" "sel_inv (w_sel ?u1)" "os_send (w_os ?u1) = Sent m # q"
    using s1(1,6,8) kernel(2) by (simp_all add: v1_def woken_def)
  have 2: "admin_write ?k (admin_put p a1 ?u1) = Inr (admin_put p ?a ?w2)"
    using admin_write_all [of ?k p ?u1 a1 k m q] u1 1(4) k s o by simp
  have wp: "woken {} {nat fd} v1 = admin_put p a1 ?u1" by (simp add: v1_def)
  define v where "v = admin_put p ?a ?w2"
  have s2: "sel_inv (w_sel v)" "agenda (w_sel v) = ({}, {nat fd}, [])" "resolution_jobs (w_sel v) = []"
    "owner_of (w_sel v) fd = Some (H_Admin, p)" "interest_of (w_sel v) fd = Some OP_READ" "w_cfg v = cfg"
    "w_os v = (w_os w)\<lparr>os_recv := rs, os_send := q, os_trace := os_trace (w_os w) @ [Ev_Recv fd (bs @ [10]), Ev_Send fd s]\<rparr>"
  proof -
    have "w_sel v = sel_set fd OP_READ (w_sel (woken {} {nat fd} v1))" by (simp add: v_def v1_def)
    with s1(1,3-5) r(5) show g: "sel_inv (w_sel v)" "agenda (w_sel v) = ({}, {nat fd}, [])"
      "owner_of (w_sel v) fd = Some (H_Admin, p)" "interest_of (w_sel v) fd = Some OP_READ" by simp_all
    from g(2) show "resolution_jobs (w_sel v) = []" by (simp add: agenda_def)
    show "w_cfg v = cfg" "w_os v = (w_os w)\<lparr>os_recv := rs, os_send := q,
        os_trace := os_trace (w_os w) @ [Ev_Recv fd (bs @ [10]), Ev_Send fd s]\<rparr>"
      using s1(7,8) by (simp_all add: v_def v1_def sent_def)
  qed
  obtain e' where e': "sel_table (w_sel v1) fd = Some e'" "it_handler e' = Some H_Admin" "it_data e' = Some p" "it_interest e' = OP_WRITE"
    using table_of [OF s1(4,5)] by blast
  have "proxy_select (PS_Ready {} {nat fd}) v1 = finish_turn v"
    by (rule turn_writes [OF s1(1) all_valid_ok [OF ok1] e'(1,2) _ _ _ s2(1,2), where f = "as_callback admin_write"])
      (use e' 2 wp in \<open>simp_all add: as_callback_def client_def v_def\<close>)
  then have t2: "proxy_select (PS_Ready {} {nat fd}) v1 = Inr (SELECTOR_SUCCESS, v)" using s2(3) by (simp add: finish_none)
  have "admin_get p v = Inr ?a" using u1(1) by (simp add: v_def sent_def)
  then have "admin_listened fd p ?a v"
    using turn_ok [OF ok1 t2] s2 r 1(2,3,4) hl k o by (simp add: admin_listened_def listened_def admin_ready_def empty_of_def)
  moreover have "others_kept fd w v"
    using s1(7) h(4) r(10) by (simp add: others_kept_def v_def 1(5) sel_set_others)
  ultimately show ?thesis using t1 t2 s2(6,7) by auto
qed

section \<open>Adding users\<close>

text \<open>A name and a password that a line can carry.\<close>

definition word_ok :: "byte list \<Rightarrow> bool" where
  "word_ok u \<longleftrightarrow> u \<noteq> [] \<and> length u < 256 \<and> (\<forall>b \<in> set u. \<not> is_delim b \<and> b \<noteq> 0)"

type_synonym credentials = "byte list \<times> byte list"

fun add_line :: "credentials \<Rightarrow> byte list" where
  "add_line (u, p) = lit ''ADD_USER'' @ 32 # u @ 32 # p"

text \<open>What an administrator who adds users is promised: a name that is free gets the password, another one keeps its own.\<close>

fun user_added :: "(byte list \<rightharpoonup> byte list) \<Rightarrow> credentials \<Rightarrow> (byte list \<rightharpoonup> byte list)" where
  "user_added m (u, p) = (if m u = None then m(u \<mapsto> p) else m)"

fun add_answer :: "(byte list \<rightharpoonup> byte list) \<Rightarrow> credentials \<Rightarrow> byte list" where
  "add_answer m (u, p) = (if m u = None then lit ''OK\<newline>'' else lit ''ERROR: '' @ u @ lit '' already exists\<newline>'')"

fun add_events :: "int \<Rightarrow> (byte list \<rightharpoonup> byte list) \<Rightarrow> credentials list \<Rightarrow> os_event list" where
  "add_events fd m [] = []"
| "add_events fd m (x # xs) =
     [Ev_Recv fd (add_line x @ [10]), Ev_Send fd (add_answer m x)] @ add_events fd (user_added m x) xs"

definition command_turns :: "int \<Rightarrow> turn list" where
  "command_turns fd = [Selected (PS_Ready {nat fd} {}), Selected (PS_Ready {} {nat fd})]"

lemma words_add_line:
  assumes "word_ok u" "word_ok p"
  shows "words (add_line (u, p)) = [lit ''ADD_USER'', u, p]"
proof -
  have u: "u \<noteq> []" "\<forall>b \<in> set u. \<not> is_delim b" and p: "p \<noteq> []" "\<forall>b \<in> set p. \<not> is_delim b"
    using assms by (auto simp: word_ok_def)
  have skip: "words (32 # r) = words r" for r using words_skip [of "[32]" r] by (simp add: is_delim_def)
  have "words (u @ 32 # p) = [u, p]"
    using words_Cons [OF u(2,1), of "32 # p"] skip words_single [OF p(2,1)] by (simp add: is_delim_def)
  moreover have "words (lit ''ADD_USER'' @ 32 # r) = lit ''ADD_USER'' # words r" for r
    using words_Cons [of "lit ''ADD_USER''" "32 # r"] skip by (simp add: is_delim_def lit_def)
  ultimately show ?thesis using skip by simp
qed

lemma add_line_facts:
  assumes "word_ok u" "word_ok p"
  shows "10 \<notin> set (add_line (u, p))" "0 \<notin> set (add_line (u, p))" "length (add_line (u, p)) < MAX_CMD_LEN"
    "\<forall>v \<in> set (words (add_line (u, p))). length v \<noteq> ARGS_LEN"
proof -
  show "10 \<notin> set (add_line (u, p))" "0 \<notin> set (add_line (u, p))" using assms by (auto simp: word_ok_def is_delim_def lit_def)
  show "length (add_line (u, p)) < MAX_CMD_LEN" using assms by (simp add: word_ok_def lit_def MAX_CMD_LEN_def)
  show "\<forall>v \<in> set (words (add_line (u, p))). length v \<noteq> ARGS_LEN"
    unfolding words_add_line [OF assms] using assms by (simp add: word_ok_def ARGS_LEN_def lit_def)
qed

lemma add_answer_some: "add_answer m x \<noteq> []"
  by (cases x) (simp add: lit_def)

lemma add_user_turns:
  assumes l: "admin_listened fd p a w" and x: "word_ok (fst x)" "word_ok (snd x)" and inv: "table_inv (user_map (w_cfg w))"
    and kernel: "os_recv (w_os w) = Recv (add_line x @ [10]) # rs" "os_send (w_os w) = Sent m # q" "MAX_RESPONSE_LEN \<le> m"
  shows "\<exists>a' v. serve (command_turns fd) w = Inr (SELECTOR_SUCCESS, v) \<and> admin_listened fd p a' v \<and>
    table_inv (user_map (w_cfg v)) \<and> users (user_map (w_cfg v)) = user_added (users (user_map (w_cfg w))) x \<and> others_kept fd w v \<and>
    w_os v = (w_os w)\<lparr>os_recv := rs, os_send := q,
      os_trace := os_trace (w_os w) @ [Ev_Recv fd (add_line x @ [10]), Ev_Send fd (add_answer (users (user_map (w_cfg w))) x)]\<rparr>"
proof -
  obtain u pw where xe: "x = (u, pw)" by fastforce
  with x have uw: "word_ok u" "word_ok pw" by simp_all
  note f = add_line_facts [OF uw] and wd = words_add_line [OF uw]
  have ok: "world_ok w" and rdy: "admin_ready (client fd p) p a w" using l by (simp_all add: admin_listened_def listened_def)
  have cl: "length (arg1 (parsed_cmd (w_cfg w))) = ARGS_LEN" using world_okD(3) [OF ok] by (simp add: config_inv_def)
  let ?line = "add_line x @ 0 # drop (length (add_line x) + 1) (buf_data (ac_in a))"
  have str: "c_str ?line = Inr (add_line (u, pw))" using c_str_text [of "add_line (u, pw)"] f(2) by (simp add: is_text_def xe)
  have room: "300 \<le> length (buf_data (ac_out a))"
    using admin_ready_facts(8) [OF rdy] by (simp add: empty_of_def MAX_RESPONSE_LEN_def)
  have lu: "length u < 256" "length pw < 256" using uw by (simp_all add: word_ok_def)
  obtain n c t line resp where h:
    "config_handler True (w_cfg w) ?line (buf_data (ac_out a)) = Inr (n, (w_cfg w)\<lparr>parsed_cmd := c, user_map := t\<rparr>, line, resp)"
    "c_str resp = Inr (add_answer (users (user_map (w_cfg w))) x)" "table_inv t"
    "users t = user_added (users (user_map (w_cfg w))) x"
    using add_user_runs [OF cl inv str wd lu room] unfolding xe add_answer.simps user_added.simps by blast
  have d: "data ((w_cfg w)\<lparr>parsed_cmd := c, user_map := t\<rparr>) = data (w_cfg w)" by simp
  have "words (add_line x) \<noteq> []" using wd xe by simp
  from admin_command_turns [OF l kernel f(1,2) [folded xe] f(3) [folded xe] this f(4) [folded xe] h(1,2) add_answer_some d]
  obtain a' v where v: "serve (command_turns fd) w = Inr (SELECTOR_SUCCESS, v)" "admin_listened fd p a' v"
    "w_cfg v = (w_cfg w)\<lparr>parsed_cmd := c, user_map := t\<rparr>" "others_kept fd w v"
    "w_os v = (w_os w)\<lparr>os_recv := rs, os_send := q,
      os_trace := os_trace (w_os w) @ [Ev_Recv fd (add_line x @ [10]), Ev_Send fd (add_answer (users (user_map (w_cfg w))) x)]\<rparr>"
    unfolding command_turns_def by blast
  then show ?thesis using h(3,4) by - (rule exI [of _ a'], rule exI [of _ v], simp del: serve.simps)
qed

lemma users_added:
  assumes "admin_listened fd p a w" "\<forall>x \<in> set xs. word_ok (fst x) \<and> word_ok (snd x)" "table_inv (user_map (w_cfg w))"
    and "os_recv (w_os w) = map (\<lambda>x. Recv (add_line x @ [10])) xs @ rs" "os_send (w_os w) = map Sent ms @ q"
    and "length ms = length xs" "\<forall>m \<in> set ms. MAX_RESPONSE_LEN \<le> m"
  shows "\<exists>a' v. serve (concat (replicate (length xs) (command_turns fd))) w = Inr (SELECTOR_SUCCESS, v) \<and> admin_listened fd p a' v \<and>
    table_inv (user_map (w_cfg v)) \<and> users (user_map (w_cfg v)) = foldl user_added (users (user_map (w_cfg w))) xs \<and>
    others_kept fd w v \<and>
    w_os v = (w_os w)\<lparr>os_recv := rs, os_send := q, os_trace := os_trace (w_os w) @ add_events fd (users (user_map (w_cfg w))) xs\<rparr>"
  using assms
proof (induction xs arbitrary: a w ms)
  case Nil
  moreover from Nil have "w_os w = (w_os w)\<lparr>os_recv := rs, os_send := q, os_trace := os_trace (w_os w) @ []\<rparr>" by simp
  ultimately show ?case by (intro exI [of _ a] exI [of _ w]) (simp add: others_kept_def)
next
  case (Cons x xs)
  from Cons.prems(6) obtain m ms' where ms: "ms = m # ms'" "length ms' = length xs" by (cases ms) simp_all
  have x: "word_ok (fst x)" "word_ok (snd x)" "MAX_RESPONSE_LEN \<le> m" using Cons.prems(2,7) ms by simp_all
  have k: "os_recv (w_os w) = Recv (add_line x @ [10]) # (map (\<lambda>x. Recv (add_line x @ [10])) xs @ rs)"
    "os_send (w_os w) = Sent m # (map Sent ms' @ q)" using Cons.prems(4,5) ms by simp_all
  from add_user_turns [OF Cons.prems(1) x(1,2) Cons.prems(3) k x(3)]
  obtain a1 v1 where 1: "serve (command_turns fd) w = Inr (SELECTOR_SUCCESS, v1)" "admin_listened fd p a1 v1"
    "table_inv (user_map (w_cfg v1))" "users (user_map (w_cfg v1)) = user_added (users (user_map (w_cfg w))) x" "others_kept fd w v1"
    "w_os v1 = (w_os w)\<lparr>os_recv := map (\<lambda>x. Recv (add_line x @ [10])) xs @ rs, os_send := map Sent ms' @ q,
      os_trace := os_trace (w_os w) @ [Ev_Recv fd (add_line x @ [10]), Ev_Send fd (add_answer (users (user_map (w_cfg w))) x)]\<rparr>"
    by blast
  have k1: "\<forall>x \<in> set xs. word_ok (fst x) \<and> word_ok (snd x)" "\<forall>m \<in> set ms'. MAX_RESPONSE_LEN \<le> m"
    "os_recv (w_os v1) = map (\<lambda>x. Recv (add_line x @ [10])) xs @ rs" "os_send (w_os v1) = map Sent ms' @ q"
    using Cons.prems(2,7) ms(1) 1(6) by simp_all
  obtain a2 v2 where 2: "serve (concat (replicate (length xs) (command_turns fd))) v1 = Inr (SELECTOR_SUCCESS, v2)"
    "admin_listened fd p a2 v2" "table_inv (user_map (w_cfg v2))"
    "users (user_map (w_cfg v2)) = foldl user_added (users (user_map (w_cfg v1))) xs" "others_kept fd v1 v2"
    "w_os v2 = (w_os v1)\<lparr>os_recv := rs, os_send := q, os_trace := os_trace (w_os v1) @ add_events fd (users (user_map (w_cfg v1))) xs\<rparr>"
    using Cons.IH [OF 1(2) k1(1) 1(3) k1(3,4) ms(2) k1(2)] by blast
  have "serve (concat (replicate (length (x # xs)) (command_turns fd))) w = Inr (SELECTOR_SUCCESS, v2)"
    using serve_after [OF 1(1)] 2(1) by simp
  then show ?case using 1(4,6) 2 others_trans [OF 1(5) 2(5)]
    by - (rule exI [of _ a2], rule exI [of _ v2], simp del: serve.simps)
qed

section \<open>Properties\<close>

text \<open>
  C2: the administration and the proxy together.  An administrator who connects to the running server and adds users,
  one line each, gets the answer to each line that the table promises, two turns of the main loop per line; a client
  that then knows a password of the resulting table is taken from its arrival to its relay; and the administrator and
  the client get these bytes and no others.  The target of the client's request is looked up, and its relay is connected to
  the first address of the answer, as in a session without the administrator; the kernel reports no failure.
\<close>

theorem added_user_served:
  assumes w: "world_ok w" "resolution_jobs (w_sel w) = []" "registering w" "table_inv (user_map (w_cfg w))"
    and listeners: "sel_table (w_sel w) adm = Some (reading adm H_Admin_Passive)" "sel_table (w_sel w) srv = Some (reading srv H_Passive)"
    and below: "metrics (data (w_cfg w)) = Some m" "uint (current_connections m) < uint (max_conn (data (w_cfg w)))"
    and size: "513 \<le> unat (buffer_size (data (w_cfg w)))"
    and fds: "\<forall>x \<in> {fa, fd, fo}. 0 < x \<and> \<not> invalid_fd x \<and> interest_of (w_sel w) x = None" "distinct [fa, fd, fo]"
    and lines: "\<forall>x \<in> set xs. word_ok (fst x) \<and> word_ok (snd x)" "length ms = length xs" "\<forall>m \<in> set ms. MAX_RESPONSE_LEN \<le> m"
    and administrator: "os_accept (w_os w) = Accepted fa (Sock_In ia pa) # aq"
      "os_recv (w_os w) = map (\<lambda>x. Recv (add_line x @ [10])) xs @ rs" "os_send (w_os w) = map Sent ms @ q"
    and greeting: "set mt \<subseteq> {0, 1, 2}" "unat n = length mt" "n \<noteq> 255" "2 \<in> set mt"
    and login: "auth_field_ok u" "auth_field_ok pw" "0 \<notin> set u" "0 \<notin> set pw"
      "foldl user_added (users (user_map (w_cfg w))) xs u = Some pw"
    and request: "addr_wf a" "hi \<noteq> 255" "lo \<noteq> 255"
    and kernel: "kernel_plan fd (Sock_In i pt) [5 # n # mt, encode_auth u pw, encode_request 1 a hi lo] ai fo
      ((w_os w)\<lparr>os_accept := aq, os_recv := rs, os_send := q\<rparr>)"
  shows "\<exists>w' c. serve ([Selected (PS_Ready {nat adm} {})] @ concat (replicate (length xs) (command_turns fa)) @
        [Selected (PS_Ready {nat srv} {}), Selected (PS_Ready {nat fd} {}), Selected (PS_Ready {nat fd} {}),
         Selected (PS_Ready {nat fd} {})] @ lookup_turns (length (w_heap w)) a @ [Selected (PS_Ready {} {nat fo})]) w =
      Inr (SELECTOR_SUCCESS, w') \<and> world_ok w' \<and> relay_ok (length (w_heap w)) fd fo c w' \<and>
    os_trace (w_os w') = os_trace (w_os w) @ [Ev_Accept adm] @ add_events fa (users (user_map (w_cfg w))) xs @
      [Ev_Accept srv, Ev_Recv fd (5 # n # mt), Ev_Send fd [5, 2], Ev_Recv fd (encode_auth u pw), Ev_Send fd [1, 0],
       Ev_Recv fd (encode_request 1 a hi lo), target_lookup (os_ntop6 (w_os w)) a (256 * unat hi + unat lo),
       Ev_Socket (ai_family ai), Ev_Connect fo ai, Ev_Send fd (success_bytes (w_os w) fo)]"
proof -
  let ?t = "[Selected (PS_Ready {nat srv} {}), Selected (PS_Ready {nat fd} {}), Selected (PS_Ready {nat fd} {}),
     Selected (PS_Ready {nat fd} {})] @ lookup_turns (length (w_heap w)) a @ [Selected (PS_Ready {} {nat fo})]"
  let ?u0 = "users (user_map (w_cfg w))"
  have os: "os_alloc (w_os w) = []" "os_nonblock (w_os w) = []" using kernel by (simp_all add: kernel_plan_def)
  have acc: "accepting fa w" "0 < fa" using os fds(1) world_okD(1) [OF w(1)] by (simp_all add: accepting_def)
  obtain a1 w1 where 1: "proxy_select (PS_Ready {nat adm} {}) w = Inr (SELECTOR_SUCCESS, w1)" "admin_listened fa (length (w_admin w)) a1 w1"
    "w_os w1 = (w_os w)\<lparr>os_accept := aq, os_trace := os_trace (w_os w) @ [Ev_Accept adm]\<rparr>" "w_cfg w1 = w_cfg w" "others_kept fa w w1"
    using admin_accept_turn [OF w(1,2) listeners(1) acc administrator(1)] by blast
  have k1: "os_recv (w_os w1) = map (\<lambda>x. Recv (add_line x @ [10])) xs @ rs" "os_send (w_os w1) = map Sent ms @ q"
    "table_inv (user_map (w_cfg w1))" using administrator 1(3,4) w(4) by simp_all
  obtain a2 w2 where 2: "serve (concat (replicate (length xs) (command_turns fa))) w1 = Inr (SELECTOR_SUCCESS, w2)"
    "admin_listened fa (length (w_admin w)) a2 w2" "table_inv (user_map (w_cfg w2))"
    "users (user_map (w_cfg w2)) = foldl user_added ?u0 xs" "others_kept fa w1 w2"
    "w_os w2 = (w_os w1)\<lparr>os_recv := rs, os_send := q, os_trace := os_trace (w_os w1) @ add_events fa ?u0 xs\<rparr>"
    using users_added [OF 1(2) lines(1) k1(3,1,2) lines(2,3)] unfolding 1(4) by blast
  have o: "others_kept fa w w2" by (rule others_trans [OF 1(5) 2(5)])
  have ok2: "world_ok w2" "resolution_jobs (w_sel w2) = []" using 2(2) by (simp_all add: admin_listened_def listened_def)
  have "srv \<noteq> fa" using listeners(2) fds(1) by (auto simp: interest_of_def)
  then have s2: "registering w2" "sel_table (w_sel w2) srv = Some (reading srv H_Passive)" "metrics (data (w_cfg w2)) = Some m"
    "uint (current_connections m) < uint (max_conn (data (w_cfg w2)))" "513 \<le> unat (buffer_size (data (w_cfg w2)))"
    "w_heap w2 = w_heap w" "interest_of (w_sel w2) fd = None" "interest_of (w_sel w2) fo = None"
    using w(3) listeners(2) below size fds o others_interest [OF o, of fd] others_interest [OF o, of fo]
    by (simp_all add: registering_def others_kept_def)
  have u2: "users (user_map (w_cfg w2)) u = Some pw" using 2(4) login(5) by simp
  have kp: "kernel_plan fd (Sock_In i pt) [5 # n # mt, encode_auth u pw, encode_request 1 a hi lo] ai fo (w_os w2)"
    using kernel 1(3) 2(6) by (simp add: kernel_plan_def calm_def)
  have f: "0 < fd" "\<not> invalid_fd fd" "0 < fo" "\<not> invalid_fd fo" "fd \<noteq> fo" using fds by simp_all
  obtain w3 c where 3: "serve ?t w2 = Inr (SELECTOR_SUCCESS, w3)" "world_ok w3" "relay_ok (length (w_heap w)) fd fo c w3"
    "os_trace (w_os w3) = os_trace (w_os w2) @
      [Ev_Accept srv, Ev_Recv fd (5 # n # mt), Ev_Send fd [5, 2], Ev_Recv fd (encode_auth u pw), Ev_Send fd [1, 0],
       Ev_Recv fd (encode_request 1 a hi lo), target_lookup (os_ntop6 (w_os w2)) a (256 * unat hi + unat lo),
       Ev_Socket (ai_family ai), Ev_Connect fo ai, Ev_Send fd (success_bytes (w_os w2) fo)]"
    using session_turns [OF ok2 s2(1-5) f(1,2) s2(7) f(3,4) s2(8) f(5) greeting login(1-4) 2(3) u2 request kp] unfolding s2(6) by blast
  have "serve ([Selected (PS_Ready {nat adm} {})] @ concat (replicate (length xs) (command_turns fa)) @ ?t) w =
      Inr (SELECTOR_SUCCESS, w3)"
    using serve_after [of "[Selected (PS_Ready {nat adm} {})]" w w1] serve_after [OF 2(1)] 1(1) 3(1) by simp
  moreover have "success_bytes (w_os w2) fo = success_bytes (w_os w) fo" "os_ntop6 (w_os w2) = os_ntop6 (w_os w)"
    using 1(3) 2(6) by (simp_all add: success_bytes_def)
  ultimately show ?thesis
    using 3(2-4) 1(3) 2(6) by - (rule exI [of _ w3], rule exI [of _ c], simp del: serve.simps)
qed

section \<open>At a concrete input\<close>

text \<open>
  The server of \<open>sample_listening\<close> without a user, which listens for administrators on descriptor 7: one comes who adds a
  user, and then the same user with another password, before the client comes.
\<close>

definition sample_users_lines :: "credentials list" where
  "sample_users_lines = [([98], [112]), ([98], [113])]"

definition sample_managed :: "sel \<Rightarrow> world" where
  "sample_managed s = (let w = sample_listening s auth_init
     in w\<lparr>w_os := (w_os w)\<lparr>os_accept := Accepted 8 (Sock_In [127, 0, 0, 1] 0x9020) # os_accept (w_os w),
          os_recv := map (\<lambda>x. Recv (add_line x @ [10])) sample_users_lines @ os_recv (w_os w),
          os_send := map Sent [MAX_RESPONSE_LEN, MAX_RESPONSE_LEN] @ os_send (w_os w)\<rparr>\<rparr>)"

lemma sample_managed_sel [simp]:
  "w_sel (sample_managed s) = s" "w_heap (sample_managed s) = []" "w_admin (sample_managed s) = []"
  "w_cfg (sample_managed s) = w_cfg (sample_listening s auth_init)"
  "os_junk (w_os (sample_managed s)) = os_junk (w_os (sample_listening s auth_init))"
  by (simp_all add: sample_managed_def Let_def)

lemma sample_managers:
  "\<exists>s :: sel. sel_inv s \<and> sel_table s = [3 \<mapsto> reading 3 H_Passive, 7 \<mapsto> reading 7 H_Admin_Passive] \<and> resolution_jobs s = []"
proof -
  obtain s0 :: sel where s0: "sel_inv s0" "sel_table s0 = [3 \<mapsto> reading 3 H_Passive]" using sample_listener by blast
  have "\<not> invalid_fd 7" "sel_table s0 7 = None" using s0 by (simp_all add: invalid_fd_def ITEMS_MAX_SIZE_def)
  from register_free(2,3) [OF s0(1) this, where h = H_Admin_Passive and d = None and interest = OP_READ] s0(2)
  obtain s :: sel where s: "sel_inv s" "sel_table s = [3 \<mapsto> reading 3 H_Passive, 7 \<mapsto> reading 7 H_Admin_Passive]"
    by (auto simp: reading_def)
  have "sel_table (s\<lparr>resolution_jobs := []\<rparr>) = sel_table s" by (simp add: sel_table_def used_at_def fun_eq_iff)
  with s show ?thesis by (intro exI [of _ "s\<lparr>resolution_jobs := []\<rparr>"]) simp
qed

lemma sample_managed_ok:
  assumes s: "sel_inv s" "sel_table s = [3 \<mapsto> reading 3 H_Passive, 7 \<mapsto> reading 7 H_Admin_Passive]"
  shows "world_ok (sample_managed s)"
proof (rule world_okI)
  show "config_inv (w_cfg (sample_managed s))"
    using init_logged [of "replicate REGISTER_MAX_ENTRIES (make_entry [] [] 0 [] 0 0 0)"]
    by (simp add: sample_world_def config_inv_def fresh_parsed_def settings_ok_def)
  show "\<not> invalid_fd fd" if "sel_table (w_sel (sample_managed s)) fd = Some e" for fd e
    using that s(2) by (simp add: invalid_fd_def ITEMS_MAX_SIZE_def split: if_splits)
qed (use s in \<open>simp_all add: conn_get_def admin_get_def held_def reading_def split: if_splits\<close>)

theorem added_user_served_witness:
  "\<exists>w w' c. world_ok w \<and> users (user_map (w_cfg w)) = Map.empty \<and>
     serve ([Selected (PS_Ready {7} {})] @ concat (replicate 2 (command_turns 8)) @
       [Selected (PS_Ready {3} {}), Selected (PS_Ready {5} {}), Selected (PS_Ready {5} {}), Selected (PS_Ready {5} {}),
        Selected (PS_Ready {} {6})]) w = Inr (SELECTOR_SUCCESS, w') \<and> relay_ok 0 5 6 c w'"
proof -
  obtain s where s: "sel_inv s" "sel_table s = [3 \<mapsto> reading 3 H_Passive, 7 \<mapsto> reading 7 H_Admin_Passive]" "resolution_jobs s = []"
    using sample_managers by blast
  let ?w = "sample_managed s" and ?l = "w_os (sample_listening s auth_init)"
  have reg: "registering ?w"
    using init_logged [of "replicate REGISTER_MAX_ENTRIES (make_entry [] [] 0 [] 0 0 0)"] by (simp add: registering_def sample_world_def)
  have fds: "\<forall>x \<in> {8, 5, 6}. 0 < x \<and> \<not> invalid_fd x \<and> interest_of (w_sel ?w) x = None"
    using s(2) by (simp add: interest_of_def invalid_fd_def ITEMS_MAX_SIZE_def)
  have lines: "\<forall>x \<in> set sample_users_lines. word_ok (fst x) \<and> word_ok (snd x)"
    by (simp add: sample_users_lines_def word_ok_def is_delim_def)
  have table: "foldl user_added (users (user_map (w_cfg ?w))) sample_users_lines [98] = Some [112]"
    by (simp add: sample_users_lines_def auth_init_ok)
  have "(w_os ?w)\<lparr>os_accept := os_accept ?l, os_recv := os_recv ?l, os_send := os_send ?l\<rparr> = ?l"
    by (simp add: sample_managed_def Let_def)
  then have plan: "kernel_plan 5 (Sock_In [127, 0, 0, 1] 0x901F)
      [5 # 1 # [2], encode_auth [98] [112], encode_request 1 (Addr_IPv4 [10, 0, 0, 2]) 0 80] (Sock_In [10, 0, 0, 2] 0x5000) 6
      ((w_os ?w)\<lparr>os_accept := os_accept ?l, os_recv := os_recv ?l, os_send := os_send ?l\<rparr>)"
    using sample_plan [of s auth_init] unfolding sample_messages_def by simp
  have os: "os_accept (w_os ?w) = Accepted 8 (Sock_In [127, 0, 0, 1] 0x9020) # os_accept ?l"
    "os_recv (w_os ?w) = map (\<lambda>x. Recv (add_line x @ [10])) sample_users_lines @ os_recv ?l"
    "os_send (w_os ?w) = map Sent [MAX_RESPONSE_LEN, MAX_RESPONSE_LEN] @ os_send ?l"
    by (simp_all add: sample_managed_def Let_def)
  have len: "length sample_users_lines = 2" by (simp add: sample_users_lines_def)
  have st: "resolution_jobs (w_sel ?w) = []" "table_inv (user_map (w_cfg ?w))" "sel_table (w_sel ?w) 7 = Some (reading 7 H_Admin_Passive)"
    "sel_table (w_sel ?w) 3 = Some (reading 3 H_Passive)" "metrics (data (w_cfg ?w)) = Some metrics_init"
    "uint (current_connections metrics_init) < uint (max_conn (data (w_cfg ?w)))" "513 \<le> unat (buffer_size (data (w_cfg ?w)))"
    using s by (simp_all add: auth_init_ok metrics_init_def)
  have ms: "length [MAX_RESPONSE_LEN, MAX_RESPONSE_LEN] = length sample_users_lines" "\<forall>m \<in> set [MAX_RESPONSE_LEN, MAX_RESPONSE_LEN]. MAX_RESPONSE_LEN \<le> m"
    "distinct [8, 5, 6 :: int]" by (simp_all add: len)
  have gr: "set [2 :: byte] \<subseteq> {0, 1, 2}" "unat (1 :: byte) = length [2 :: byte]" "1 \<noteq> (255 :: byte)" "2 \<in> set [2 :: byte]" by simp_all
  have lg: "auth_field_ok [98]" "auth_field_ok [112]" "0 \<notin> set [98 :: byte]" "0 \<notin> set [112 :: byte]" by (simp_all add: auth_field_ok_def)
  have rq: "addr_wf (Addr_IPv4 [10, 0, 0, 2])" "0 \<noteq> (255 :: byte)" "80 \<noteq> (255 :: byte)" by simp_all
  note ok = sample_managed_ok [OF s(1,2)]
  obtain w' c where "serve ([Selected (PS_Ready {nat 7} {})] @ concat (replicate (length sample_users_lines) (command_turns 8)) @
        [Selected (PS_Ready {nat 3} {}), Selected (PS_Ready {nat 5} {}), Selected (PS_Ready {nat 5} {}),
         Selected (PS_Ready {nat 5} {})] @ lookup_turns (length (w_heap ?w)) (Addr_IPv4 [10, 0, 0, 2]) @
        [Selected (PS_Ready {} {nat 6})]) ?w = Inr (SELECTOR_SUCCESS, w')" "relay_ok (length (w_heap ?w)) 5 6 c w'"
    using added_user_served [OF ok st(1) reg st(2-7) fds ms(3) lines ms(1,2) os gr lg table rq plan] by blast
  then show ?thesis
    using ok by - (rule exI [of _ ?w], rule exI [of _ w'], rule exI [of _ c],
      simp add: lookup_turns_def auth_init_ok len del: serve.simps replicate.simps)
qed

end
