(* ===== verification/Spec2Isabelle.thy ===== *)
theory Spec2Isabelle
  imports Buffer Parser_Engine Handshake_Parser Auth_Parser Conn_Req_Parser Responses Selector
    Auth_Table Access_Register Server_Data Admin_Parser Config Stm World Socks5 Handler_Facts
    Negotiation Greeting Login Relay Net_Utils Admin_Conn Admin_Session Accepting Args Admin_Client Server
    Connect Loops Well_Typed World_Invariant Integrity Lifetime Turns Session Counting
    Relay_End Relay_Turns Admin_Turns
begin

text \<open>
  A verification development of the SOCKS5 proxy under \<open>src/src\<close>: a server that
  multiplexes its clients over one selector, authenticates them against a table of users, connects them
  to origins and relays bytes, with a second port for its administration.

  Vocabulary (\<open>Prelude\<close>).  Code that can die is a function into \<open>'a res\<close>: \<open>Inr\<close> is a normal
  return, \<open>Inl\<close> one of the faults (failed assertion, abort, access out of bounds, null dereference or
  call, use after free).  Memory blocks are lists, machine integers are words, strings are
  blocks read up to their zero byte (\<open>C_String\<close>).

  Parts, in the order the theories build on each other:

  \<^item> \<open>Buffer\<close>: \<open>shared/buffer.c\<close>, every function.  The locale \<open>byte_queue\<close> states what the
    handlers rely on; the buffer is a bounded first-in first-out queue.
  \<^item> \<open>Parser_Engine\<close>: \<open>server/utils/parser.c\<close>; the locale \<open>byte_parser\<close> is the contract of the three
    protocol parsers \<open>Handshake_Parser\<close>, \<open>Auth_Parser\<close>, \<open>Conn_Req_Parser\<close>
    (\<open>server/socks5/parsers\<close>), each with its table, its invariant and an abstract machine it simulates.
  \<^item> \<open>Responses\<close>: \<open>socks5_responses.c\<close>, \<open>get_sock_data\<close>, \<open>get_code\<close>: the replies as bytes in memory.
  \<^item> \<open>Selector\<close>: \<open>server/utils/selector.c\<close>; the locale \<open>fd_table\<close> says that its operations refine a
    partial map from descriptors to items.
  \<^item> \<open>Auth_Table\<close>, \<open>Access_Register\<close>, \<open>Server_Data\<close>: the tables behind the
    administration; the locale \<open>user_table\<close> is the contract of the table of users.
  \<^item> \<open>Admin_Parser\<close>, \<open>Config\<close>: \<open>shared/s5admin_parser.c\<close> and \<open>server/s5admin/config.c\<close>, the
    administration commands from the line to the response.
  \<^item> \<open>Stm\<close>: \<open>server/utils/stm.c\<close>, generic in the state the callbacks act on, since a callback may free
    the machine that runs it.
  \<^item> \<open>World\<close>: what the handlers share.  The kernel answers each kind of call from a queue of
    outcomes the environment chose, and the trace keeps the calls with their arguments: what was received from and sent to a
    descriptor, closed, accepted, looked up (name, port, family and flag), made as a socket, connected, bound and listened to.
    So a theorem about the trace says with whom the server talks.  A connection is an index into a heap, and freeing it
    leaves a hole.
  \<^item> \<open>Socks5\<close>: the handlers of \<open>server/socks5/socks5.c\<close>, \<open>socks5_stm.c\<close>, \<open>states_handlers\<close>, and the part
    of \<open>netutils.c\<close> and \<open>connection_helper.c\<close> they call, whole, each call that changes state included.
  \<^item> \<open>Handler_Facts\<close>: these handlers as equations on a world with a live connection.
  \<^item> \<open>Negotiation\<close>: the locale \<open>byte_reader\<close> for the three loops that feed the parsers, interpreted on
    each of them; \<open>Greeting\<close>, \<open>Login\<close> and \<open>Connect\<close> follow a connection from the bytes the kernel delivers to
    the reply it takes, \<open>Connect\<close> up to the relay that follows, and \<open>Loops\<close> shows that the loops end.
  \<^item> \<open>Relay\<close>: the copy state as steps the selector takes where the interest asks for them; along every run the
    bytes arrive in order and complete, and nobody waits for ever.  This is under \<open>calm\<close>: the kernel reports no error
    other than \<open>EAGAIN\<close> and no end of a stream; what these do is in \<open>Relay_End\<close>.
  \<^item> \<open>Net_Utils\<close>: the rest of \<open>netutils.c\<close> and \<open>connection_helper.c\<close>, the listening sockets; \<open>Accepting\<close>: what accepting
    a client leaves.
  \<^item> \<open>Admin_Conn\<close> and \<open>Admin_Session\<close>: \<open>server/s5admin/s5admin.c\<close>, the sessions of the administration.
  \<^item> \<open>Args\<close>: \<open>server/utils/args.c\<close> and \<open>admin_client/args_admin.c\<close> over \<open>getopt_long\<close> for short options;
    \<open>Admin_Client\<close>: \<open>admin_client/admin_client.c\<close>.
  \<^item> \<open>Server\<close>: \<open>main\<close> of \<open>server/server.c\<close>.  The loop runs over a list of turns the environment chose: a result of
    \<open>pselect\<close>, or a resolver that finishes between two turns; the end of the list is the signal.
  \<^item> \<open>Turns\<close>: one turn with one descriptor ready calls one handler; \<open>Session\<close> composes these into a whole session,
    from the arrival of a client to its relay.
  \<^item> \<open>Relay_End\<close>: how a relay ends (either side leaves, or the kernel reports an error); \<open>Relay_Turns\<close>: the relay
    under the main loop, where turns with the two descriptors ready in any way are runs of the steps of \<open>Relay\<close>, the bytes that
    are held are delivered, and the end of the client's stream releases the connection.
  \<^item> \<open>Admin_Turns\<close>: the administration under the main loop: the users an administrator adds can use the proxy.

  The invariant of the server, for every client, origin and administrator and every order of events:

  \<^item> \<open>Well_Typed\<close>: every buffer, parser, machine, table and setting stays within its type.
  \<^item> \<open>World_Invariant\<close>: the locale \<open>world_operations\<close> lists the few operations by which handlers change the world, as laws
    an invariant has to satisfy; every handler is gone through once inside it.  \<open>world_invariant\<close> adds the two that
    accept clients, and gives the turns and the loop.
  \<^item> \<open>Integrity\<close> interprets both on \<open>world_ok\<close>: values are well typed, and the connections and sessions on the heap are
    those that are registered.  \<open>Lifetime\<close> takes it from the start of \<open>main\<close> to its end, where everything has been
    released.  \<open>Counting\<close> interprets them again on \<open>counted\<close>, which adds that the counter of the metrics is the number
    of connections allocated: with it the limit of connections holds.

  These hold for the runs that return; the faults that the code can reach are properties too, each with the input that
  leads to it (use after free of refused logins and greetings and of connections that fail at once, null
  dereference behind a greeting, abort on a stale line).

  Bounds and fuel.  The read loops get as many iterations as the input buffer holds bytes, and one more to see that it is
  empty; every iteration takes a byte and none is put back (\<open>read_loops_end\<close>), so they compute what the loops without
  a bound compute.  The other loops are recursions on lists, on what is left of a block, or on the number of the
  descriptors, and need no fuel.  Descriptors are bounded by \<open>ITEMS_MAX_SIZE\<close>, as in the code.

  Not modelled: the log lines other than the logger itself, and the texts of the version and usage options; the
  mutex of the selector and the signals that wake it, so what a resolver does is atomic and falls between two turns; where a
  signal falls within a turn; and memory beyond the fields the code reads: \<open>parser_destroy\<close> and
  \<open>socks5_stm_free\<close> only free what the model drops with its owner.  \<open>stm_init\<close> is modelled although the program
  never calls it.

  Where the model stops short of the machine: \<open>send\<close> is called without \<open>MSG_NOSIGNAL\<close> and \<open>SIGPIPE\<close> is not ignored, so for
  \<open>EPIPE\<close> the process ends before the error path that the model takes for every error; a search of \<open>strchr\<close> that leaves
  its array is the fault \<open>Out_Of_Bounds\<close>, where the machine would go on into the next field; \<open>setsockopt\<close> and the
  lengths and protocols of addresses are left out of \<open>socket\<close>, \<open>bind\<close> and \<open>connect\<close>.
\<close>

end
